(* ===== verification/Prelude.thy ===== *)
theory Prelude
  imports Complex_Main "HOL-Library.Multiset" "HOL-Library.Sublist"
begin

text \<open>
  What the component theories share: the JavaScript values an \<open>unknown\<close> parameter can hold,
  the string and array operations the sources call, errors as values, the stable
  \<open>Array.prototype.sort\<close>, and two interfaces that several components implement
  (a comparator for sorting, a step function that keeps an invariant).

  Conventions. A JavaScript string is a \<^typ>\<open>string\<close>, one \<^typ>\<open>char\<close> per UTF-16 code unit
  below 256; the sources treat every larger code unit as an ordinary character. An integer that
  the code keeps inside the safe range (ids, counts, indexes, byte offsets) is an \<^typ>\<open>int\<close> or
  \<^typ>\<open>nat\<close>. A value whose type is not known is a \<open>js\<close>: a number there is a finite double
  (a rational) or one of the three special values.
\<close>

named_theorems outcome_simps "evaluation of guarded sequences of checks"

section \<open>Values of unknown type\<close>

datatype jnum = Fin rat | NaN | PosInf | NegInf

datatype js =
    Undef
  | Null
  | Bool bool
  | Num jnum
  | Str string
  | Arr "js list"
  | Obj "(string \<times> js) list"

text \<open>Reading a property of an object: an absent key reads as \<open>undefined\<close>.\<close>

fun get_prop :: "string \<Rightarrow> (string \<times> js) list \<Rightarrow> js" where
  "get_prop k [] = Undef"
| "get_prop k ((k', v) # r) = (if k = k' then v else get_prop k r)"

definition max_safe :: int where
  "max_safe = 9007199254740991"

text \<open>\<open>Number.isInteger\<close>, \<open>Number.isSafeInteger\<close> and \<open>Number.isFinite\<close> on a number.\<close>

definition rat_is_int :: "rat \<Rightarrow> bool" where
  "rat_is_int r = (snd (quotient_of r) = 1)"

fun num_is_integer :: "jnum \<Rightarrow> bool" where
  "num_is_integer (Fin r) = rat_is_int r"
| "num_is_integer _ = False"

fun num_is_safe :: "jnum \<Rightarrow> bool" where
  "num_is_safe (Fin r) = (rat_is_int r \<and> \<bar>r\<bar> \<le> of_int max_safe)"
| "num_is_safe _ = False"

lemma rat_is_int_of_int [simp]: "rat_is_int (of_int i)"
  by (simp add: rat_is_int_def)

lemma rat_is_int_numeral [simp]: "rat_is_int (numeral n)"
  by (metis of_int_numeral rat_is_int_of_int)

lemma rat_is_int_0 [simp]: "rat_is_int 0"
  by (metis of_int_0 rat_is_int_of_int)

lemma rat_is_int_1 [simp]: "rat_is_int 1"
  by (metis of_int_1 rat_is_int_of_int)

section \<open>Errors as values\<close>

text \<open>A function that may throw returns \<open>Inl\<close> the message, or \<open>Inr\<close> its result.\<close>

type_synonym 'a outcome = "string + 'a"

definition ok :: "unit outcome" where
  "ok = Inr ()"

definition require :: "bool \<Rightarrow> string \<Rightarrow> unit outcome" where
  "require b msg = (if b then ok else Inl msg)"

definition and_then :: "'a outcome \<Rightarrow> ('a \<Rightarrow> 'b outcome) \<Rightarrow> 'b outcome" where
  "and_then m f = (case m of Inl e \<Rightarrow> Inl e | Inr x \<Rightarrow> f x)"

definition also_check :: "unit outcome \<Rightarrow> unit outcome \<Rightarrow> unit outcome" where
  "also_check m n = and_then m (\<lambda>_. n)"

definition passes :: "unit outcome \<Rightarrow> bool" where
  "passes m = (case m of Inl _ \<Rightarrow> False | Inr _ \<Rightarrow> True)"

lemma passes_ok [simp]: "passes ok"
  by (simp add: passes_def ok_def)

lemma passes_Inl [simp]: "\<not> passes (Inl e)"
  by (simp add: passes_def)

lemma passes_Inr [simp]: "passes (Inr u)"
  by (simp add: passes_def)

lemma passes_iff_ok: "passes m \<longleftrightarrow> m = ok"
  by (cases m) (auto simp: passes_def ok_def)

lemma passes_require [simp]: "passes (require b msg) = b"
  by (simp add: require_def)

lemma passes_also_check [simp]: "passes (also_check m n) \<longleftrightarrow> passes m \<and> passes n"
  by (cases m) (simp_all add: passes_def also_check_def and_then_def)

lemma passes_if [simp]: "passes (if b then m else n) \<longleftrightarrow> (if b then passes m else passes n)"
  by simp

lemma also_check_Inl [outcome_simps]: "also_check (Inl e) n = Inl e"
  by (simp add: also_check_def and_then_def)

lemma also_check_ok [outcome_simps]: "also_check ok n = n"
  by (simp add: also_check_def and_then_def ok_def)

lemma and_then_Inl [outcome_simps]: "and_then (Inl e) f = Inl e"
  by (simp add: and_then_def)

lemma and_then_Inr [outcome_simps]: "and_then (Inr x) f = f x"
  by (simp add: and_then_def)

section \<open>Strings and arrays\<close>

definition code_of :: "char \<Rightarrow> nat" where
  "code_of c = of_char c"

definition is_digit :: "char \<Rightarrow> bool" where
  "is_digit c = (48 \<le> code_of c \<and> code_of c \<le> 57)"

definition is_alpha :: "char \<Rightarrow> bool" where
  "is_alpha c = ((65 \<le> code_of c \<and> code_of c \<le> 90) \<or> (97 \<le> code_of c \<and> code_of c \<le> 122))"

definition is_control :: "char \<Rightarrow> bool" where
  "is_control c = (code_of c < 32 \<or> code_of c = 127)"

text \<open>The white space that \<open>String.prototype.trim\<close> removes.\<close>

definition is_space :: "char \<Rightarrow> bool" where
  "is_space c = (code_of c \<in> {9, 10, 11, 12, 13, 32, 160})"

definition trim :: "string \<Rightarrow> string" where
  "trim s = rev (dropWhile is_space (rev (dropWhile is_space s)))"

text \<open>\<open>toLowerCase\<close> on the Latin-1 code units.\<close>

definition lower_char :: "char \<Rightarrow> char" where
  "lower_char c =
     (if (65 \<le> code_of c \<and> code_of c \<le> 90)
         \<or> (192 \<le> code_of c \<and> code_of c \<le> 222 \<and> code_of c \<noteq> 215)
      then char_of (code_of c + 32) else c)"

definition to_lower :: "string \<Rightarrow> string" where
  "to_lower s = map lower_char s"

definition starts_with :: "'a list \<Rightarrow> 'a list \<Rightarrow> bool" where
  "starts_with s p = (take (length p) s = p)"

definition ends_with :: "'a list \<Rightarrow> 'a list \<Rightarrow> bool" where
  "ends_with s p = (length p \<le> length s \<and> drop (length s - length p) s = p)"

text \<open>\<open>s.includes(needle)\<close> for strings.\<close>

fun contains :: "string \<Rightarrow> string \<Rightarrow> bool" where
  "contains [] n = (n = [])"
| "contains (c # s) n = (starts_with (c # s) n \<or> contains s n)"

text \<open>\<open>indexOf\<close> and \<open>lastIndexOf\<close> of one element, \<open>None\<close> for \<open>-1\<close>.\<close>

definition index_of :: "'a \<Rightarrow> 'a list \<Rightarrow> nat option" where
  "index_of x xs = (if x \<in> set xs then Some (length (takeWhile (\<lambda>y. y \<noteq> x) xs)) else None)"

definition after_last :: "'a \<Rightarrow> 'a list \<Rightarrow> 'a list" where
  "after_last x xs = rev (takeWhile (\<lambda>y. y \<noteq> x) (rev xs))"

text \<open>\<open>s.split(sep)\<close> for a one-character separator: never empty.\<close>

fun split_on :: "'a \<Rightarrow> 'a list \<Rightarrow> 'a list list" where
  "split_on c [] = [[]]"
| "split_on c (x # xs) =
     (if x = c then [] # split_on c xs
      else (case split_on c xs of [] \<Rightarrow> [[x]] | s # r \<Rightarrow> (x # s) # r))"

fun join_with :: "'a list \<Rightarrow> 'a list list \<Rightarrow> 'a list" where
  "join_with sep [] = []"
| "join_with sep [s] = s"
| "join_with sep (s # r) = s @ sep @ join_with sep r"

lemma starts_with_prefix: "starts_with s p \<longleftrightarrow> prefix p s"
  unfolding starts_with_def prefix_def by (metis append_eq_conv_conj append_take_drop_id)

lemma starts_with_append [simp]: "starts_with (p @ s) p"
  by (simp add: starts_with_def)

lemma starts_with_self [simp]: "starts_with p p"
  by (simp add: starts_with_def)

lemma ends_with_suffix: "ends_with s p \<longleftrightarrow> suffix p s"
  unfolding ends_with_def suffix_def
  by (metis append_take_drop_id diff_diff_cancel drop_append diff_self_eq_0 drop0
        length_append length_drop le_add2 add_diff_cancel_right' append_self_conv2 drop_all order_refl)

lemma split_on_nonempty [simp]: "split_on c xs \<noteq> []"
  by (induction xs) (auto split: list.splits)

lemma split_on_no_sep: "s \<in> set (split_on c xs) \<Longrightarrow> c \<notin> set s"
proof (induction xs arbitrary: s)
  case (Cons x xs)
  then show ?case by (cases "split_on c xs") (auto split: if_splits)
qed simp

lemma split_on_id: "c \<notin> set xs \<Longrightarrow> split_on c xs = [xs]"
  by (induction xs) auto

lemma split_on_Cons_sep: "split_on c (c # xs) = [] # split_on c xs"
  by simp

lemma split_on_append_sep: "c \<notin> set s \<Longrightarrow> split_on c (s @ c # r) = s # split_on c r"
  by (induction s) auto

lemma join_split_on: "join_with [c] (split_on c xs) = xs"
proof (induction xs)
  case (Cons x xs)
  obtain s r where e: "split_on c xs = s # r" by (cases "split_on c xs") auto
  show ?case using Cons e by (cases r) auto
qed simp

lemma join_with_Cons: "r \<noteq> [] \<Longrightarrow> join_with sep (s # r) = s @ sep @ join_with sep r"
  by (cases r) auto

lemma split_on_join:
  "\<forall>s\<in>set ss. c \<notin> set s \<Longrightarrow> ss \<noteq> [] \<Longrightarrow> split_on c (join_with [c] ss) = ss"
proof (induction ss)
  case (Cons s ss)
  then show ?case
    by (cases "ss = []") (auto simp: join_with_Cons split_on_append_sep split_on_id)
qed simp

lemma index_of_Some:
  "index_of x xs = Some i \<Longrightarrow> i < length xs \<and> xs ! i = x"
proof -
  assume a: "index_of x xs = Some i"
  then have m: "x \<in> set xs" and i: "i = length (takeWhile (\<lambda>y. y \<noteq> x) xs)"
    by (auto simp: index_of_def split: if_splits)
  from m have "dropWhile (\<lambda>y. y \<noteq> x) xs \<noteq> []" by (auto simp: dropWhile_eq_Nil_conv)
  then show ?thesis
    using i nth_length_takeWhile[of "\<lambda>y. y \<noteq> x" xs]
    by (metis append_Nil2 length_takeWhile_le nat_less_le takeWhile_dropWhile_id
          length_append less_add_same_cancel1 length_greater_0_conv)
qed

lemma index_of_absent [simp]: "x \<notin> set xs \<Longrightarrow> index_of x xs = None"
  by (simp add: index_of_def)

lemma index_of_None [simp]: "index_of x xs = None \<longleftrightarrow> x \<notin> set xs"
  by (simp add: index_of_def)

lemma dropWhile_shorter [termination_simp]: "length (dropWhile P s) < Suc (length s)"
  using length_dropWhile_le[of P s] by (simp add: less_Suc_eq_le)

section \<open>Decimal numbers\<close>

text \<open>\<open>String(n)\<close> for a natural number, and \<open>Number(s)\<close> for a run of decimal digits.\<close>

definition digit_char :: "nat \<Rightarrow> char" where
  "digit_char d = char_of (48 + d)"

fun show_nat :: "nat \<Rightarrow> string" where
  "show_nat n = (if n < 10 then [digit_char n] else show_nat (n div 10) @ [digit_char (n mod 10)])"

declare show_nat.simps [simp del]

definition show_int :: "int \<Rightarrow> string" where
  "show_int i = (if i < 0 then ''-'' @ show_nat (nat (- i)) else show_nat (nat i))"

definition digit_val :: "char \<Rightarrow> nat" where
  "digit_val c = code_of c - 48"

definition nat_of_digits :: "string \<Rightarrow> nat" where
  "nat_of_digits s = foldl (\<lambda>n c. 10 * n + digit_val c) 0 s"

definition all_digits :: "string \<Rightarrow> bool" where
  "all_digits s = list_all is_digit s"

lemma code_of_char_of [simp]: "n < 256 \<Longrightarrow> code_of (char_of n) = n"
  by (simp add: code_of_def)

lemma digit_char_props [simp]:
  assumes "d < 10"
  shows "is_digit (digit_char d)" "digit_val (digit_char d) = d"
  using assms by (simp_all add: is_digit_def digit_char_def digit_val_def)

lemma show_nat_digits [simp]: "all_digits (show_nat n)"
proof (induction n rule: show_nat.induct)
  case (1 n)
  then show ?case by (subst show_nat.simps) (simp add: all_digits_def)
qed

lemma show_nat_nonempty [simp]: "show_nat n \<noteq> []"
  by (subst show_nat.simps) simp

lemma nat_of_digits_show [simp]: "nat_of_digits (show_nat n) = n"
proof (induction n rule: show_nat.induct)
  case (1 n)
  then show ?case by (subst show_nat.simps) (simp add: nat_of_digits_def)
qed

lemma takeWhile_digits:
  "all_digits a \<Longrightarrow> \<not> is_digit c \<Longrightarrow> takeWhile is_digit (a @ c # r) = a"
  by (induction a) (auto simp: all_digits_def)

lemma is_digit_not_space: "is_digit c \<Longrightarrow> \<not> is_space c"
  by (auto simp: is_digit_def is_space_def)

text \<open>Trimming removes nothing from a string that begins and ends with other characters.\<close>

lemma trim_id: "s \<noteq> [] \<Longrightarrow> \<not> is_space (hd s) \<Longrightarrow> \<not> is_space (last s) \<Longrightarrow> trim s = s"
proof -
  assume a: "s \<noteq> []" "\<not> is_space (hd s)" "\<not> is_space (last s)"
  have 1: "dropWhile is_space s = s" using a by (cases s) auto
  have "hd (rev s) = last s" by (simp add: hd_rev)
  then have "dropWhile is_space (rev s) = rev s"
    using a by (metis dropWhile_eq_self_iff)
  then show ?thesis using 1 by (simp add: trim_def)
qed

section \<open>Stable sorting\<close>

text \<open>
  \<open>Array.prototype.sort\<close> is stable; \<open>le a b\<close> stands for a comparator that returns at most 0.
  The comparator interface says what the specification of \<open>sort\<close> asks of its argument.
\<close>

fun sort_insert :: "('a \<Rightarrow> 'a \<Rightarrow> bool) \<Rightarrow> 'a \<Rightarrow> 'a list \<Rightarrow> 'a list" where
  "sort_insert le x [] = [x]"
| "sort_insert le x (y # ys) = (if le x y then x # y # ys else y # sort_insert le x ys)"

fun js_sort :: "('a \<Rightarrow> 'a \<Rightarrow> bool) \<Rightarrow> 'a list \<Rightarrow> 'a list" where
  "js_sort le [] = []"
| "js_sort le (x # xs) = sort_insert le x (js_sort le xs)"

lemma mset_sort_insert [simp]: "mset (sort_insert le x xs) = add_mset x (mset xs)"
  by (induction xs) auto

lemma mset_js_sort [simp]: "mset (js_sort le xs) = mset xs"
  by (induction xs) auto

lemma set_js_sort [simp]: "set (js_sort le xs) = set xs"
  by (metis mset_js_sort set_mset_mset)

lemma length_js_sort [simp]: "length (js_sort le xs) = length xs"
  by (metis mset_js_sort size_mset)

lemma distinct_js_sort [simp]: "distinct (js_sort le xs) = distinct xs"
  by (metis mset_eq_imp_distinct_iff mset_js_sort)

lemma js_sort_Nil_iff [simp]: "js_sort le xs = [] \<longleftrightarrow> xs = []"
  by (metis length_0_conv length_js_sort)

lemma distinct_map_js_sort [simp]: "distinct (map f (js_sort le xs)) = distinct (map f xs)"
  by (metis mset_eq_imp_distinct_iff mset_js_sort mset_map)

locale comparator =
  fixes le :: "'a \<Rightarrow> 'a \<Rightarrow> bool"
  assumes le_total: "le x y \<or> le y x"
    and le_trans: "le x y \<Longrightarrow> le y z \<Longrightarrow> le x z"
begin

lemma le_refl: "le x x"
  using le_total by blast

lemma sorted_insert: "sorted_wrt le xs \<Longrightarrow> sorted_wrt le (sort_insert le x xs)"
proof (induction xs)
  case (Cons y ys)
  have s: "set (sort_insert le x ys) = insert x (set ys)"
    by (metis mset_sort_insert set_mset_add_mset_insert set_mset_mset)
  show ?case
    using Cons le_total le_trans s by (auto)
qed simp

lemma sorted_js_sort: "sorted_wrt le (js_sort le xs)"
  by (induction xs) (simp_all add: sorted_insert)

text \<open>An already sorted array is left as it is.\<close>

lemma js_sort_id: "sorted_wrt le xs \<Longrightarrow> js_sort le xs = xs"
proof (induction xs)
  case (Cons x xs)
  then show ?case by (cases xs) auto
qed simp

lemma js_sort_idem: "js_sort le (js_sort le xs) = js_sort le xs"
  by (rule js_sort_id) (rule sorted_js_sort)

text \<open>Stability: entries that compare equal keep their order.\<close>

lemma insert_filter_neq:
  "\<not> P x \<Longrightarrow> filter P (sort_insert le x xs) = filter P xs"
  by (induction xs) auto

lemma insert_filter_eq:
  assumes "\<And>y. P y \<Longrightarrow> le x y" and "P x"
  shows "filter P (sort_insert le x xs) = x # filter P xs"
proof (induction xs)
  case (Cons y ys)
  then show ?case using assms by (cases "le x y") auto
qed (simp add: assms)

lemma js_sort_stable: "filter (\<lambda>y. le z y \<and> le y z) (js_sort le xs) = filter (\<lambda>y. le z y \<and> le y z) xs"
proof (induction xs)
  case (Cons x xs)
  show ?case
  proof (cases "le z x \<and> le x z")
    case True
    then have "\<And>y. le z y \<and> le y z \<Longrightarrow> le x y" using le_trans by blast
    then show ?thesis using True Cons insert_filter_eq[of "\<lambda>y. le z y \<and> le y z" x] by simp
  next
    case False
    then show ?thesis using Cons by (simp add: insert_filter_neq)
  qed
qed simp

text \<open>Filtering commutes with sorting.\<close>

lemma filter_insert:
  "sorted_wrt le xs \<Longrightarrow>
     filter P (sort_insert le x xs) = (if P x then sort_insert le x (filter P xs) else filter P xs)"
proof (induction xs)
  case (Cons y ys)
  show ?case
  proof (cases "le x y")
    case True
    have "\<forall>z\<in>set (filter P (y # ys)). le x z" using True Cons.prems le_trans by auto
    then have "sort_insert le x (filter P (y # ys)) = x # filter P (y # ys)"
      by (cases "filter P (y # ys)") auto
    then show ?thesis using True by simp
  qed (use Cons in auto)
qed simp

lemma filter_js_sort: "filter P (js_sort le xs) = js_sort le (filter P xs)"
  by (induction xs) (simp_all add: filter_insert sorted_js_sort)

end

section \<open>State machines that keep an invariant\<close>

text \<open>
  A component with state is a total step function; the interface below is what its operations
  promise. Every run over a list of events then keeps the invariant.
\<close>

fun run :: "('s \<Rightarrow> 'e \<Rightarrow> 's) \<Rightarrow> 's \<Rightarrow> 'e list \<Rightarrow> 's" where
  "run step s [] = s"
| "run step s (e # es) = run step (step s e) es"

lemma run_append: "run step s (es @ fs) = run step (run step s es) fs"
  by (induction es arbitrary: s) auto

locale invariant_machine =
  fixes step :: "'s \<Rightarrow> 'e \<Rightarrow> 's" and enabled :: "'e \<Rightarrow> bool" and inv :: "'s \<Rightarrow> bool"
  assumes step_keeps: "inv s \<Longrightarrow> enabled e \<Longrightarrow> inv (step s e)"
begin

lemma run_keeps: "inv s \<Longrightarrow> list_all enabled es \<Longrightarrow> inv (run step s es)"
  by (induction es arbitrary: s) (auto intro: step_keeps)

lemma run_prefix_keeps:
  "inv s \<Longrightarrow> list_all enabled (es @ fs) \<Longrightarrow> inv (run step s es)"
  by (rule run_keeps) simp_all

end

section \<open>Lists\<close>

lemma map_of_const: "map_of (map (\<lambda>m. (m, c)) xs) k = (if k \<in> set xs then Some c else None)"
  by (induction xs) auto

lemma filter_neq_absent: "x \<notin> set xs \<Longrightarrow> filter (\<lambda>y. y \<noteq> x) xs = xs"
  by (induction xs) auto

lemma length_filter_eq_iff: "length (filter P xs) = length xs \<longleftrightarrow> (\<forall>x\<in>set xs. P x)"
  by (metis filter_True length_filter_less nat_less_le)

lemma set_take_drop_subset: "set (take n (drop m xs)) \<subseteq> set xs"
  by (meson order_trans set_drop_subset set_take_subset)

lemma distinct_take_drop [intro]: "distinct xs \<Longrightarrow> distinct (take n (drop m xs))"
  by simp

end
