(* ===== verification/Paths.thy ===== *)
theory Paths
  imports Prelude
begin

text \<open>
  The \<open>node:path\<close> functions of a POSIX platform that the main process calls
  (\<open>isAbsolute\<close>, \<open>normalize\<close>, \<open>resolve\<close>, \<open>join\<close>), and the containment rule of
  \<open>electron/main/pathContainment.ts\<close>. A path is a string; its segments are what \<open>split("/")\<close>
  gives. The working directory and the file system's \<open>realpath\<close> are parameters.
\<close>

section \<open>Normalising segments\<close>

abbreviation slash :: char where
  "slash \<equiv> CHR ''/''"

definition plain_seg :: "string \<Rightarrow> bool" where
  "plain_seg s = (s \<noteq> '''' \<and> s \<noteq> ''.'' \<and> s \<noteq> ''..'')"

text \<open>
  \<open>normalizeString\<close>: the accumulator holds the segments kept so far, last first; \<open>up\<close> is
  \<open>allowAboveRoot\<close>.
\<close>

fun norm_segs :: "bool \<Rightarrow> string list \<Rightarrow> string list \<Rightarrow> string list" where
  "norm_segs up acc [] = rev acc"
| "norm_segs up acc (s # ss) =
     (if s = '''' \<or> s = ''.'' then norm_segs up acc ss
      else if s = ''..'' then
        (case acc of
           [] \<Rightarrow> norm_segs up (if up then [s] else []) ss
         | a # as \<Rightarrow> norm_segs up (if a = ''..'' then s # acc else as) ss)
      else norm_segs up (s # acc) ss)"

definition segments :: "string \<Rightarrow> string list" where
  "segments p = split_on slash p"

definition is_absolute :: "string \<Rightarrow> bool" where
  "is_absolute p = starts_with p ''/''"

definition normalize :: "string \<Rightarrow> string" where
  "normalize p =
     (if p = '''' then ''.''
      else let absolute = is_absolute p;
               trailing = ends_with p ''/'';
               segs = norm_segs (\<not> absolute) [] (segments p);
               body = join_with ''/'' segs
           in if segs = [] then (if absolute then ''/'' else if trailing then ''./'' else ''.'')
              else (if absolute then ''/'' else '''') @ body @ (if trailing then ''/'' else ''''))"

text \<open>\<open>path.resolve\<close> for one or two arguments, relative to the working directory.\<close>

definition resolve_from :: "string \<Rightarrow> string \<Rightarrow> string" where
  "resolve_from base p =
     (let full = (if p = '''' then base else if is_absolute p then p else base @ ''/'' @ p)
      in ''/'' @ join_with ''/'' (norm_segs False [] (segments full)))"

definition resolve :: "string \<Rightarrow> string list \<Rightarrow> string" where
  "resolve cwd ps = foldl resolve_from cwd ps"

definition path_join :: "string \<Rightarrow> string \<Rightarrow> string" where
  "path_join a b =
     (let parts = filter (\<lambda>s. s \<noteq> '''') [a, b] in
      if parts = [] then ''.'' else normalize (join_with ''/'' parts))"

lemma segments_no_slash: "s \<in> set (segments p) \<Longrightarrow> slash \<notin> set s"
  unfolding segments_def by (rule split_on_no_sep)

lemma norm_segs_subset: "set (norm_segs up acc ss) \<subseteq> set acc \<union> set ss"
proof (induction ss arbitrary: acc)
  case (Cons s ss)
  show ?case
  proof (cases acc)
    case Nil
    then show ?thesis using Cons.IH[of "[]"] Cons.IH[of "[s]"] by auto
  next
    case (Cons a as)
    then show ?thesis
      using Cons.IH[of as] Cons.IH[of "s # acc"] Cons.IH[of acc] by auto
  qed
qed simp

text \<open>Below a root, only plain segments remain.\<close>

lemma norm_segs_plain:
  "list_all plain_seg acc \<Longrightarrow> list_all plain_seg (norm_segs False acc ss)"
proof (induction ss arbitrary: acc)
  case (Cons s ss)
  show ?case
  proof (cases acc)
    case Nil
    then show ?thesis using Cons.IH[of "[]"] Cons.IH[of "[s]"] by (auto simp: plain_seg_def)
  next
    case (Cons a as)
    then have "a \<noteq> ''..''" "list_all plain_seg as"
      using Cons.prems by (auto simp: plain_seg_def[of a])
    then show ?thesis
      using Cons.IH[of as] Cons.IH[of "s # acc"] Cons.IH[of acc] Cons.prems Cons
      by (auto simp: plain_seg_def[of s])
  qed
qed simp

lemma norm_segs_only_plain:
  "''..'' \<notin> set ss \<Longrightarrow> norm_segs up acc ss = rev acc @ filter plain_seg ss"
  by (induction ss arbitrary: acc) (auto simp: plain_seg_def)

lemma norm_segs_append:
  "''..'' \<notin> set ys \<Longrightarrow>
   norm_segs up acc (xs @ ys) = norm_segs up acc xs @ filter plain_seg ys"
  by (induction xs arbitrary: acc) (auto simp: norm_segs_only_plain split: list.splits)

lemma norm_segs_plain_id: "list_all plain_seg ss \<Longrightarrow> norm_segs up acc ss = rev acc @ ss"
  by (induction ss arbitrary: acc) (auto simp: plain_seg_def)

lemma plain_seg_trivial [simp]: "\<not> plain_seg ''''" "\<not> plain_seg ''.''" "\<not> plain_seg ''..''"
  by (simp_all add: plain_seg_def)

lemma segments_append_slash: "segments (a @ ''/'' @ b) = segments a @ segments b"
proof (induction a)
  case Nil
  then show ?case by (simp add: segments_def)
next
  case (Cons x a)
  obtain s r where e: "segments a = s # r"
    unfolding segments_def by (cases "split_on slash a") auto
  show ?case using Cons e by (auto simp: segments_def)
qed

lemma join_plain_ne_nil: "list_all plain_seg ss \<Longrightarrow> join_with ''/'' ss = '''' \<longleftrightarrow> ss = []"
proof (cases ss)
  case (Cons s r)
  assume "list_all plain_seg ss"
  with Cons have "s \<noteq> ''''" by (auto simp: plain_seg_def)
  with Cons show ?thesis by (cases r) auto
qed simp

lemma segments_join:
  assumes "\<forall>s\<in>set ss. slash \<notin> set s" and "ss \<noteq> []"
  shows "segments (join_with ''/'' ss) = ss"
  using assms by (simp add: segments_def split_on_join)

section \<open>Paths below a root\<close>

text \<open>
  \<open>below top_dir p\<close>: lexically \<open>p\<close> is \<open>top_dir\<close> or continues it after a separator. A relative path
  without a \<open>..\<close> segment resolves to such a path, whatever else it holds.
\<close>

definition below :: "string \<Rightarrow> string \<Rightarrow> bool" where
  "below top_dir p = (p = top_dir \<or> starts_with p (if top_dir = ''/'' then top_dir else top_dir @ ''/''))"

lemma join_with_append:
  "xs \<noteq> [] \<Longrightarrow> ys \<noteq> [] \<Longrightarrow> join_with sep (xs @ ys) = join_with sep xs @ sep @ join_with sep ys"
proof (induction xs)
  case (Cons x xs)
  then show ?case by (cases "xs = []") (auto simp: join_with_Cons)
qed simp

lemma resolve_segments:
  assumes "is_absolute base"
  shows "\<exists>ss. resolve_from base p = ''/'' @ join_with ''/'' ss \<and> list_all plain_seg ss
           \<and> (\<forall>s\<in>set ss. slash \<notin> set s)"
proof -
  define full where "full = (if p = '''' then base else if is_absolute p then p else base @ ''/'' @ p)"
  have "list_all plain_seg (norm_segs False [] (segments full))"
    by (rule norm_segs_plain) simp
  moreover have "\<forall>s\<in>set (norm_segs False [] (segments full)). slash \<notin> set s"
    using norm_segs_subset[of False "[]" "segments full"] segments_no_slash by auto
  moreover have "resolve_from base p = ''/'' @ join_with ''/'' (norm_segs False [] (segments full))"
    by (simp add: resolve_from_def full_def)
  ultimately show ?thesis by blast
qed

lemma segments_absolute:
  "\<forall>s\<in>set ss. slash \<notin> set s \<Longrightarrow> segments (''/'' @ join_with ''/'' ss) = '''' # (if ss = [] then [''''] else ss)"
  using segments_append_slash[of "''''" "join_with ''/'' ss"] segments_join[of ss]
  by (auto simp: segments_def)

lemma norm_segs_resolved:
  assumes "p = ''/'' @ join_with ''/'' rs" "list_all plain_seg rs" "\<forall>s\<in>set rs. slash \<notin> set s"
  shows "norm_segs False [] (segments p) = rs"
  unfolding assms(1) segments_absolute[OF assms(3)]
  using assms(2) by (simp add: norm_segs_plain_id)

text \<open>Resolving a relative path against an already resolved root appends its plain segments.\<close>

lemma resolve_relative:
  assumes top_dir: "top_dir = ''/'' @ join_with ''/'' rs" "list_all plain_seg rs"
      "\<forall>s\<in>set rs. slash \<notin> set s"
    and rel: "\<not> is_absolute p" "''..'' \<notin> set (segments p)"
  shows "resolve_from top_dir p = ''/'' @ join_with ''/'' (rs @ filter plain_seg (segments p))"
proof (cases "p = ''''")
  case True
  then have "filter plain_seg (segments p) = []" by (simp add: segments_def)
  moreover have "norm_segs False [] (segments top_dir) = rs"
    using top_dir by (rule norm_segs_resolved)
  ultimately show ?thesis using True by (simp add: resolve_from_def)
next
  case False
  have "segments (top_dir @ ''/'' @ p) = segments top_dir @ segments p"
    by (rule segments_append_slash)
  moreover have "norm_segs False [] (segments top_dir) = rs"
    using top_dir by (rule norm_segs_resolved)
  ultimately have "norm_segs False [] (segments (top_dir @ ''/'' @ p)) = rs @ filter plain_seg (segments p)"
    using norm_segs_append[OF rel(2), of False "[]" "segments top_dir"] by simp
  then show ?thesis using False rel(1) by (simp add: resolve_from_def)
qed

lemma resolve_relative_below:
  assumes "is_absolute cwd" and "\<not> is_absolute p" and "''..'' \<notin> set (segments p)"
  shows "below (resolve cwd [top_dir]) (resolve cwd [top_dir, p])"
proof -
  obtain rs where r: "resolve_from cwd top_dir = ''/'' @ join_with ''/'' rs"
    and rp: "list_all plain_seg rs" and rn: "\<forall>s\<in>set rs. slash \<notin> set s"
    using resolve_segments[OF assms(1), of top_dir] by blast
  have e: "resolve cwd [top_dir, p] = ''/'' @ join_with ''/'' (rs @ filter plain_seg (segments p))"
    using resolve_relative[OF r rp rn assms(2,3)] by (simp add: resolve_def)
  show ?thesis
  proof (cases "filter plain_seg (segments p) = [] \<or> rs = []")
    case True
    then show ?thesis using e r by (auto simp: below_def resolve_def starts_with_def)
  next
    case False
    then have "resolve cwd [top_dir, p] = resolve cwd [top_dir] @ ''/'' @ join_with ''/'' (filter plain_seg (segments p))"
      using e r by (simp add: resolve_def join_with_append)
    moreover have "resolve cwd [top_dir] \<noteq> ''/''"
      using False r join_plain_ne_nil[OF rp] by (simp add: resolve_def)
    ultimately show ?thesis
      by (simp add: below_def starts_with_def del: append_Cons)
  qed
qed

section \<open>The containment rule\<close>

text \<open>
  \<open>isContained(fs, top_dir, target)\<close>. \<open>realpath\<close> is the injected \<open>realpathSync\<close>: \<open>None\<close> is a throw
  (a missing target, an unreadable directory).
\<close>

definition is_contained :: "string \<Rightarrow> (string \<Rightarrow> string option) \<Rightarrow> string \<Rightarrow> string \<Rightarrow> bool" where
  "is_contained cwd realpath top_dir target =
     (let resolved_root = resolve cwd [top_dir]; resolved_target = resolve cwd [target] in
      if \<not> starts_with resolved_target (resolved_root @ ''/'') then False
      else (case realpath resolved_root of
              None \<Rightarrow> False
            | Some real_root \<Rightarrow>
                (case realpath resolved_target of
                   None \<Rightarrow> False
                 | Some real_target \<Rightarrow> starts_with real_target (real_root @ ''/''))))"

text \<open>The contract a deletion relies on: what passes lies strictly inside its real root.\<close>

definition really_inside :: "(string \<Rightarrow> string option) \<Rightarrow> string \<Rightarrow> string \<Rightarrow> bool" where
  "really_inside realpath top_dir target =
     (case realpath top_dir of None \<Rightarrow> False
      | Some rr \<Rightarrow> (case realpath target of None \<Rightarrow> False
                    | Some rt \<Rightarrow> starts_with rt (rr @ ''/'') \<and> rt \<noteq> rr))"

lemma is_contained_lexical:
  "is_contained cwd realpath top_dir target \<Longrightarrow>
     starts_with (resolve cwd [target]) (resolve cwd [top_dir] @ ''/'')"
  by (auto simp: is_contained_def Let_def split: if_splits)

lemma is_contained_real:
  "is_contained cwd realpath top_dir target \<Longrightarrow>
     really_inside realpath (resolve cwd [top_dir]) (resolve cwd [target])"
  by (auto simp: is_contained_def really_inside_def Let_def starts_with_prefix
      split: if_splits option.splits)

lemma is_contained_not_root: "\<not> is_contained cwd realpath top_dir top_dir"
  by (auto simp: is_contained_def Let_def starts_with_prefix)

end
