(* ===== verification/PathSchema.thy ===== *)
theory PathSchema
  imports Paths
begin

text \<open>
  \<open>electron/shared/pathSchema.ts\<close>: the validated schema of the renderer-facing boundary. Book ids,
  EPUB member paths, cover names, absolute library paths, range headers, the fixed MIME tables, the
  sidecar method allowlist and the sender policy. Every parser returns \<open>None\<close> (or a typed marker)
  where the code returns \<open>null\<close>. \<open>new URL\<close> is a parameter that yields a parsed record.
\<close>

section \<open>Limits\<close>

definition MAX_MEMBER_PATH_LENGTH :: nat where "MAX_MEMBER_PATH_LENGTH = 1024"
definition MAX_LIBRARY_PATH_LENGTH :: nat where "MAX_LIBRARY_PATH_LENGTH = 4096"
definition MAX_IMPORT_PATHS :: nat where "MAX_IMPORT_PATHS = 1000"
definition MAX_BULK_BOOK_IDS :: nat where "MAX_BULK_BOOK_IDS = 1000"
definition MAX_IPC_PARAM_BYTES :: nat where "MAX_IPC_PARAM_BYTES = 8 * 2 ^ 20"
definition MAX_CLIPBOARD_TEXT_BYTES :: nat where "MAX_CLIPBOARD_TEXT_BYTES = 2 ^ 20"
definition MAX_SIDECAR_REQUEST_BYTES :: nat where "MAX_SIDECAR_REQUEST_BYTES = 8 * 2 ^ 20"
definition MAX_RESPONSE_LINE_BYTES :: nat where "MAX_RESPONSE_LINE_BYTES = 2 * 1024 * 1024 * 1024"

section \<open>Book ids\<close>

definition parse_book_id :: "string \<Rightarrow> int option" where
  "parse_book_id raw =
     (if raw = '''' \<or> \<not> all_digits raw then None
      else let i = int (nat_of_digits raw) in
        if i > max_safe \<or> i \<le> 0 then None else Some i)"

fun is_valid_book_id :: "js \<Rightarrow> bool" where
  "is_valid_book_id (Num (Fin r)) = (num_is_safe (Fin r) \<and> 0 < r)"
| "is_valid_book_id _ = False"

section \<open>EPUB member paths and cover names\<close>

definition drive_segment :: "string \<Rightarrow> bool" where
  "drive_segment s = (case s of [c, d] \<Rightarrow> is_alpha c \<and> d = CHR '':'' | _ \<Rightarrow> False)"

definition parse_member_path :: "string \<Rightarrow> string option" where
  "parse_member_path decoded =
     (if decoded = '''' \<or> MAX_MEMBER_PATH_LENGTH < length decoded then None
      else if starts_with decoded ''/'' \<or> CHR 0x5C \<in> set decoded then None
      else if CHR 0x00 \<in> set decoded then None
      else if list_ex is_control decoded then None
      else if list_ex (\<lambda>s. s = ''..'') (split_on slash decoded) then None
      else if list_ex drive_segment (split_on slash decoded) then None
      else Some decoded)"

definition cover_exts :: "string list" where
  "cover_exts = [''png'', ''jpg'', ''jpeg'', ''gif'', ''webp'']"

definition cover_first :: "char \<Rightarrow> bool" where
  "cover_first c = (is_alpha c \<or> is_digit c)"

definition cover_rest :: "char \<Rightarrow> bool" where
  "cover_rest c = (is_alpha c \<or> is_digit c \<or> c = CHR ''.'' \<or> c = CHR ''_'' \<or> c = CHR ''-'')"

text \<open>
  The pattern of \<open>COVER_NAME_PATTERN\<close>: a first letter or digit, any run of name characters, a dot and one
  of the five extensions in any letter case.
\<close>

definition cover_matches :: "string \<Rightarrow> string \<Rightarrow> bool" where
  "cover_matches s ext =
     (let stem = take (length s - Suc (length ext)) s in
      ends_with (to_lower s) (''.'' @ ext) \<and> stem \<noteq> [] \<and> cover_first (hd stem)
        \<and> list_all cover_rest (tl stem))"

definition parse_cover_name :: "string \<Rightarrow> string option" where
  "parse_cover_name decoded = (if list_ex (cover_matches decoded) cover_exts then Some decoded else None)"

section \<open>Absolute library paths\<close>

definition is_valid_library_path :: "string \<Rightarrow> bool" where
  "is_valid_library_path candidate =
     (if candidate = '''' \<or> MAX_LIBRARY_PATH_LENGTH < length candidate then False
      else if \<not> is_absolute candidate then False
      else if CHR 0x00 \<in> set candidate then False
      else if list_ex is_control candidate then False
      else normalize candidate = candidate)"

section \<open>Range headers\<close>

datatype range_parse = RangeNone | RangeInvalid | RangeOk (range_start: "int option") (range_end: "int option")

text \<open>\<open>RANGE_PATTERN.exec\<close>: the two digit runs of \<open>bytes=a-b\<close>.\<close>

definition match_range :: "string \<Rightarrow> (string \<times> string) option" where
  "match_range t =
     (if \<not> starts_with t ''bytes='' then None
      else let r = drop 6 t; a = takeWhile is_digit r in
        (case drop (length a) r of
           c # b \<Rightarrow> if c = CHR ''-'' \<and> all_digits b then Some (a, b) else None
         | [] \<Rightarrow> None))"

definition range_number :: "string \<Rightarrow> int option" where
  "range_number s = (if s = '''' then None else Some (int (nat_of_digits s)))"

definition parse_range_header :: "string option \<Rightarrow> range_parse" where
  "parse_range_header header =
     (case header of
        None \<Rightarrow> RangeNone
      | Some h \<Rightarrow>
          if h = '''' then RangeNone
          else (case match_range (trim h) of
                  None \<Rightarrow> RangeInvalid
                | Some (raw_start, raw_end) \<Rightarrow>
                    if raw_start = '''' \<and> raw_end = '''' then RangeInvalid
                    else let s = range_number raw_start; e = range_number raw_end in
                      if (\<exists>v \<in> set_option s \<union> set_option e. v > max_safe) then RangeInvalid
                      else (case (s, e) of
                              (Some a, Some b) \<Rightarrow> if b < a then RangeInvalid else RangeOk s e
                            | _ \<Rightarrow> RangeOk s e)))"

section \<open>MIME tables\<close>

text \<open>
  The tables are object literals, so a lookup also sees what every object inherits. Of the keys an
  already lower-cased extension can be, \<open>constructor\<close> and \<open>__proto__\<close> are inherited, with values
  that are not strings: \<open>Inherited\<close>.
\<close>

datatype mime = Mime string | Inherited string

definition inherited_keys :: "string list" where
  "inherited_keys = [''constructor'', ''__proto__'']"

definition octet_stream :: string where
  "octet_stream = ''application/octet-stream''"

definition extension_of :: "string \<Rightarrow> string" where
  "extension_of name = to_lower (after_last CHR ''.'' name)"

definition mime_type_for_extension :: "string \<Rightarrow> (string \<times> string) list \<Rightarrow> string \<Rightarrow> mime" where
  "mime_type_for_extension name table fallback =
     (case map_of table (extension_of name) of
        Some t \<Rightarrow> Mime t
      | None \<Rightarrow> if extension_of name \<in> set inherited_keys then Inherited (extension_of name)
                else Mime fallback)"

fun is_valid_book_format :: "js \<Rightarrow> bool" where
  "is_valid_book_format (Str s) = (s = ''epub'' \<or> s = ''pdf'')"
| "is_valid_book_format _ = False"

definition book_source_mime :: "string option \<Rightarrow> string" where
  "book_source_mime format =
     (if format = Some ''epub'' then ''application/epub+zip''
      else if format = Some ''pdf'' then ''application/pdf''
      else octet_stream)"

definition member_mime_table :: "(string \<times> string) list" where
  "member_mime_table =
     [(''xhtml'', ''application/xhtml+xml''), (''html'', ''text/html''), (''htm'', ''text/html''),
      (''css'', ''text/css''), (''js'', ''text/javascript''), (''png'', ''image/png''),
      (''jpg'', ''image/jpeg''), (''jpeg'', ''image/jpeg''), (''gif'', ''image/gif''),
      (''svg'', ''image/svg+xml''), (''webp'', ''image/webp''),
      (''ncx'', ''application/x-dtbncx+xml''), (''opf'', ''application/oebps-package+xml''),
      (''mp3'', ''audio/mpeg''), (''mp4'', ''video/mp4''), (''m4v'', ''video/mp4''),
      (''ogg'', ''audio/ogg''), (''oga'', ''audio/ogg''), (''ogv'', ''video/ogg''),
      (''webm'', ''video/webm''), (''woff'', ''font/woff''), (''woff2'', ''font/woff2''),
      (''ttf'', ''font/ttf''), (''otf'', ''font/otf''), (''xml'', ''application/xml''),
      (''txt'', ''text/plain'')]"

definition member_mime :: "string \<Rightarrow> mime" where
  "member_mime member = mime_type_for_extension member member_mime_table octet_stream"

definition cover_mime_table :: "(string \<times> string) list" where
  "cover_mime_table =
     [(''png'', ''image/png''), (''jpg'', ''image/jpeg''), (''jpeg'', ''image/jpeg''),
      (''gif'', ''image/gif''), (''webp'', ''image/webp'')]"

definition cover_mime :: "string \<Rightarrow> mime" where
  "cover_mime name = mime_type_for_extension name cover_mime_table octet_stream"

text \<open>The text a header gets when its value is converted to a string.\<close>

fun header_text :: "mime \<Rightarrow> string" where
  "header_text (Mime t) = t"
| "header_text (Inherited k) =
     (if k = ''constructor'' then ''function Object() { [native code] }'' else ''[object Object]'')"

section \<open>The sidecar method allowlist\<close>

definition SIDECAR_METHODS :: "string list" where
  "SIDECAR_METHODS =
     [''ping'', ''get_library_stats'', ''get_storage_stats'', ''get_startup_recovery'', ''list_books'',
      ''list_book_files'', ''list_book_editions'', ''link_book_edition'', ''list_reading_history'',
      ''list_provider_links'', ''link_provider_book'', ''unlink_provider_book'',
      ''apply_provider_reading_update'', ''search_books'', ''remove_book'', ''remove_book_file'',
      ''reset_book_reading_data'', ''retry_indexing'', ''forget_book'', ''forget_books'',
      ''list_book_trash'', ''restore_book'', ''scan_library'', ''import_paths'', ''unwatch_locations'',
      ''reconnect_book'', ''relink_book'', ''get_book_metadata'', ''reset_book_metadata'',
      ''set_book_cover'', ''clear_book_cover_override'', ''embed_book_metadata'',
      ''get_reading_progress'', ''save_reading_progress'', ''mark_book_finished'', ''mark_book_opened'',
      ''get_book_bytes'', ''get_epub_session'', ''get_book_resource'', ''list_collections'',
      ''create_collection'', ''rename_collection'', ''delete_collection'', ''add_book_to_collection'',
      ''remove_book_from_collection'', ''list_annotations'', ''create_annotation'',
      ''update_annotation'', ''delete_annotation'', ''sync_status'', ''sync_connect'',
      ''sync_disconnect'', ''sync_now'', ''list_waiting_books'', ''forget_waiting_book'',
      ''forget_all_waiting_books'', ''attach_waiting_book'', ''dismiss_all_sync_issues'',
      ''sync_issues'', ''sync_dismiss_issue'', ''sync_retry_issue'', ''sync_trash'', ''sync_restore'',
      ''sync_conflicts'', ''sync_resolve_conflict'', ''sync_set_device_name'', ''sync_diagnostics'']"

fun is_storage_root_id :: "js \<Rightarrow> bool" where
  "is_storage_root_id (Str s) = (s = ''app-data'' \<or> s = ''app-config'')"
| "is_storage_root_id _ = False"

fun is_valid_library_location_id :: "js \<Rightarrow> bool" where
  "is_valid_library_location_id (Num (Fin r)) = (num_is_safe (Fin r) \<and> 0 < r)"
| "is_valid_library_location_id _ = False"

section \<open>Senders\<close>

record url =
  url_protocol :: string
  url_host :: string
  url_hostname :: string
  url_pathname :: string
  url_origin :: string
  url_href :: string
  url_username :: string
  url_password :: string
  url_format :: "string option"

definition APP_ORIGIN :: string where
  "APP_ORIGIN = ''app://bundle''"

definition is_allowed_sender_url ::
    "(string \<Rightarrow> url option) \<Rightarrow> string \<Rightarrow> string option \<Rightarrow> bool" where
  "is_allowed_sender_url new_url raw dev_server_url =
     (case new_url raw of
        None \<Rightarrow> False
      | Some u \<Rightarrow>
          if url_protocol u = ''app:'' then url_host u = ''bundle''
          else (case dev_server_url of
                  None \<Rightarrow> False
                | Some d \<Rightarrow> (case new_url d of None \<Rightarrow> False | Some v \<Rightarrow> url_origin u = url_origin v)))"

section \<open>Member paths stay inside the publication\<close>

lemma parse_member_path_Some:
  "parse_member_path d = Some m \<longleftrightarrow>
     m = d \<and> d \<noteq> '''' \<and> length d \<le> MAX_MEMBER_PATH_LENGTH \<and> \<not> is_absolute d
       \<and> CHR 0x5C \<notin> set d \<and> CHR 0x00 \<notin> set d \<and> list_all (\<lambda>c. \<not> is_control c) d
       \<and> ''..'' \<notin> set (segments d) \<and> list_all (\<lambda>s. \<not> drive_segment s) (segments d)"
  by (auto simp: parse_member_path_def is_absolute_def segments_def list_ex_iff list_all_iff)

text \<open>C6. A member path that the schema accepts is the decoded path itself, is bounded, holds no control
  character and no backslash, and, resolved by the POSIX rules against any publication root from any
  absolute working directory, stays at or below that root.\<close>

theorem member_confined:
  assumes "parse_member_path d = Some m" and "is_absolute cwd"
  shows "m = d \<and> 0 < length m \<and> length m \<le> 1024
    \<and> (\<forall>c\<in>set m. \<not> is_control c \<and> c \<noteq> CHR 0x5C)
    \<and> below (resolve cwd [top_dir]) (resolve cwd [top_dir, m])"
  using assms resolve_relative_below[OF assms(2), of m top_dir]
  by (auto simp: parse_member_path_Some MAX_MEMBER_PATH_LENGTH_def list_all_iff)

theorem member_confined_witness:
  "parse_member_path ''OEBPS/ch1.xhtml'' = Some ''OEBPS/ch1.xhtml''
   \<and> below (resolve ''/'' [''/books/7'']) (resolve ''/'' [''/books/7'', ''OEBPS/ch1.xhtml''])"
proof -
  have p: "parse_member_path ''OEBPS/ch1.xhtml'' = Some ''OEBPS/ch1.xhtml''" by code_simp
  have a: "is_absolute ''/''" by code_simp
  show ?thesis using member_confined[OF p a] p by blast
qed

section \<open>Library paths are normal\<close>

lemma ends_with_last: "ends_with s [c] \<longleftrightarrow> s \<noteq> [] \<and> last s = c"
  unfolding ends_with_suffix suffix_def by (metis append_butlast_last_id last_snoc snoc_eq_iff_butlast)

lemma last_join_plain:
  assumes "ss \<noteq> []" and "\<forall>s\<in>set ss. s \<noteq> []"
  shows "join_with sep ss \<noteq> [] \<and> last (join_with sep ss) = last (last ss)"
  using assms
proof (induction ss)
  case (Cons s ss)
  show ?case
  proof (cases "ss = []")
    case True
    then show ?thesis using Cons.prems by simp
  next
    case False
    then show ?thesis using Cons by (auto simp: join_with_Cons)
  qed
qed simp

lemma join_with_snoc_nil: "ss \<noteq> [] \<Longrightarrow> join_with sep (ss @ ['''']) = join_with sep ss @ sep"
  by (simp add: join_with_append)

lemma normalize_plain:
  assumes pl: "list_all plain_seg ss" and ns: "\<forall>s\<in>set ss. slash \<notin> set s"
  shows "normalize (''/'' @ join_with ''/'' ss) = ''/'' @ join_with ''/'' ss"
proof (cases "ss = []")
  case True
  show ?thesis unfolding True by code_simp
next
  case False
  have ne: "\<forall>s\<in>set ss. s \<noteq> []" using pl by (auto simp: list_all_iff plain_seg_def)
  have "last (join_with ''/'' ss) = last (last ss)" "join_with ''/'' ss \<noteq> []"
    using last_join_plain[OF False ne] by auto
  moreover have "last (last ss) \<noteq> slash" using ns ne False by (metis last_in_set)
  ultimately have tr: "\<not> ends_with (''/'' @ join_with ''/'' ss) ''/''"
    by (simp add: ends_with_last)
  have sg: "norm_segs False [] (segments (''/'' @ join_with ''/'' ss)) = ss"
    using norm_segs_resolved[OF refl pl ns] .
  have ab: "is_absolute (''/'' @ join_with ''/'' ss)" by (simp add: is_absolute_def starts_with_def)
  show ?thesis using tr sg ab False by (simp add: normalize_def Let_def)
qed

lemma normalize_plain_trailing:
  assumes pl: "list_all plain_seg ss" and ns: "\<forall>s\<in>set ss. slash \<notin> set s"
  shows "normalize (''/'' @ join_with ''/'' (ss @ [''''])) = ''/'' @ join_with ''/'' (ss @ [''''])"
proof (cases "ss = []")
  case True
  show ?thesis unfolding True by code_simp
next
  case False
  have e: "''/'' @ join_with ''/'' (ss @ ['''']) = (''/'' @ join_with ''/'' ss) @ ''/'' @ ''''"
    using False by (simp add: join_with_snoc_nil)
  have "segments (''/'' @ join_with ''/'' (ss @ [''''])) = '''' # ss @ ['''']"
    using ns False segments_absolute[of "ss @ ['''']"] by simp
  then have sg: "norm_segs False [] (segments (''/'' @ join_with ''/'' (ss @ ['''']))) = ss"
    using norm_segs_append[of "['''']" False "[]" ss] norm_segs_plain_id[OF pl, of False "[]"] by simp
  have tr: "ends_with (''/'' @ join_with ''/'' (ss @ [''''])) ''/''"
    unfolding e by (simp add: ends_with_last)
  have ab: "is_absolute (''/'' @ join_with ''/'' (ss @ ['''']))"
    by (simp add: is_absolute_def starts_with_def)
  show ?thesis
    using tr sg ab False by (simp add: normalize_def Let_def join_with_snoc_nil)
qed

lemma normalize_absolute_shape:
  assumes "is_absolute p"
  shows "\<exists>ss. (normalize p = ''/'' @ join_with ''/'' ss \<or> normalize p = ''/'' @ join_with ''/'' (ss @ ['''']))
           \<and> list_all plain_seg ss \<and> (\<forall>s\<in>set ss. slash \<notin> set s)"
proof -
  let ?ss = "norm_segs False [] (segments p)"
  have pl: "list_all plain_seg ?ss" by (rule norm_segs_plain) simp
  have ns: "\<forall>s\<in>set ?ss. slash \<notin> set s"
    using norm_segs_subset[of False "[]" "segments p"] segments_no_slash by auto
  have "p \<noteq> ''''" using assms by (auto simp: is_absolute_def starts_with_def)
  then have "normalize p = ''/'' @ join_with ''/'' ?ss \<or> normalize p = ''/'' @ join_with ''/'' (?ss @ [''''])"
    using assms by (auto simp: normalize_def Let_def join_with_snoc_nil)
  then show ?thesis using pl ns by blast
qed

text \<open>A library path is accepted exactly when it is non-empty, bounded, free of control characters
  and already normal: a leading slash, then plain segments (no empty one, no \<open>.\<close>, no \<open>..\<close>) joined
  by single slashes, with at most one slash at the end.\<close>

theorem library_path_iff:
  "is_valid_library_path p \<longleftrightarrow>
     p \<noteq> '''' \<and> length p \<le> 4096 \<and> (\<forall>c\<in>set p. \<not> is_control c)
     \<and> (\<exists>ss. (p = ''/'' @ join_with ''/'' ss \<or> p = ''/'' @ join_with ''/'' (ss @ ['''']))
            \<and> list_all plain_seg ss \<and> (\<forall>s\<in>set ss. slash \<notin> set s))" (is "_ \<longleftrightarrow> _ \<and> _ \<and> _ \<and> ?shape")
proof -
  have nul: "is_control CHR 0x00" by code_simp
  have "normalize p = p \<and> is_absolute p \<longleftrightarrow> ?shape"
  proof
    assume "normalize p = p \<and> is_absolute p"
    then show ?shape using normalize_absolute_shape[of p] by metis
  next
    assume ?shape
    then show "normalize p = p \<and> is_absolute p"
      using normalize_plain normalize_plain_trailing
      by (auto simp: is_absolute_def starts_with_def)
  qed
  then show ?thesis
    using nul by (auto simp: is_valid_library_path_def MAX_LIBRARY_PATH_LENGTH_def list_ex_iff)
qed

theorem library_path_iff_witness:
  "is_valid_library_path ''/home/u/Books'' \<and> \<not> is_control CHR ''B''"
proof -
  have v: "is_valid_library_path ''/home/u/Books''" by code_simp
  have "\<forall>c\<in>set ''/home/u/Books''. \<not> is_control c"
    using v library_path_iff[of "''/home/u/Books''"] by blast
  then show ?thesis using v by simp
qed

section \<open>Cover names\<close>

lemma code_of_eq_iff: "code_of c = code_of d \<longleftrightarrow> c = d"
  by (simp add: code_of_def)

lemma lower_char_cases: "lower_char c = c \<or> (97 \<le> code_of (lower_char c))"
proof (cases "lower_char c = c")
  case False
  then show ?thesis by (auto simp: lower_char_def split: if_splits)
qed simp

lemma lower_char_dot [simp]: "lower_char c = CHR ''.'' \<longleftrightarrow> c = CHR ''.''"
proof -
  have "lower_char CHR ''.'' = CHR ''.''" "code_of CHR ''.'' = 46" by code_simp+
  then show ?thesis using lower_char_cases[of c] by auto
qed

lemma lower_char_slash: "lower_char c = slash \<longleftrightarrow> c = slash"
proof -
  have "lower_char slash = slash" "code_of slash = 47" by code_simp+
  then show ?thesis using lower_char_cases[of c] by auto
qed

lemma to_lower_takeWhile_dot:
  "takeWhile (\<lambda>y. y \<noteq> CHR ''.'') (to_lower s) = to_lower (takeWhile (\<lambda>y. y \<noteq> CHR ''.'') s)"
  by (induction s) (auto simp: to_lower_def)

lemma extension_after_last: "extension_of s = after_last CHR ''.'' (to_lower s)"
  using to_lower_takeWhile_dot[of "rev s"]
  by (simp add: extension_of_def after_last_def to_lower_def rev_map)

lemma after_last_append: "x \<notin> set e \<Longrightarrow> after_last x (a @ x # e) = e"
proof -
  assume "x \<notin> set e"
  then have "takeWhile (\<lambda>y. y \<noteq> x) (rev e @ x # rev a) = rev e"
    by (simp add: takeWhile_append takeWhile_eq_all_conv)
  then show ?thesis by (simp add: after_last_def)
qed

lemma cover_ext_shape: "ext \<in> set cover_exts \<Longrightarrow> CHR ''.'' \<notin> set ext \<and> slash \<notin> set ext"
  by (auto simp: cover_exts_def)

lemma not_in_hd_tl:
  "xs \<noteq> [] \<Longrightarrow> P (hd xs) \<Longrightarrow> list_all Q (tl xs) \<Longrightarrow> \<not> P c \<Longrightarrow> \<not> Q c \<Longrightarrow> c \<notin> set xs"
  by (cases xs) (auto simp: list_all_iff)

lemma cover_matches_shape:
  assumes "cover_matches s ext" and "ext \<in> set cover_exts"
  shows "extension_of s = ext" and "slash \<notin> set s" and "Suc (length ext) < length s"
proof -
  let ?stem = "take (length s - Suc (length ext)) s"
  have ew: "ends_with (to_lower s) (''.'' @ ext)" and ne: "?stem \<noteq> []"
    and cf: "cover_first (hd ?stem)" and cr: "list_all cover_rest (tl ?stem)"
    using assms(1) unfolding cover_matches_def Let_def by blast+
  obtain a where a: "to_lower s = a @ CHR ''.'' # ext"
    using ew by (auto simp: ends_with_suffix suffix_def)
  show "extension_of s = ext"
    using a cover_ext_shape[OF assms(2)] by (simp add: extension_after_last after_last_append)
  show l: "Suc (length ext) < length s"
    using ne by (cases "Suc (length ext) < length s") auto
  have rest: "drop (length s - Suc (length ext)) (to_lower s) = CHR ''.'' # ext"
    using ew by (simp add: ends_with_def to_lower_def)
  have "slash \<notin> set (drop (length s - Suc (length ext)) s)"
  proof
    assume "slash \<in> set (drop (length s - Suc (length ext)) s)"
    then have "lower_char slash \<in> set (map lower_char (drop (length s - Suc (length ext)) s))" by auto
    moreover have "map lower_char (drop (length s - Suc (length ext)) s) = CHR ''.'' # ext"
      using rest by (simp add: to_lower_def drop_map)
    ultimately have "slash \<in> set (CHR ''.'' # ext)" using lower_char_slash[of slash] by simp
    then show False using cover_ext_shape[OF assms(2)] by simp
  qed
  moreover have "slash \<notin> set ?stem"
  proof -
    have "\<not> cover_first slash" "\<not> cover_rest slash" by code_simp+
    then show ?thesis using not_in_hd_tl[of ?stem cover_first cover_rest slash, OF ne cf cr] by blast
  qed
  ultimately show "slash \<notin> set s" by (metis Un_iff append_take_drop_id set_append)
qed

lemma parse_cover_name_Some:
  assumes "parse_cover_name n = Some m"
  shows "m = n" and "extension_of n \<in> set cover_exts" and "segments n = [n]" and "plain_seg n"
proof -
  obtain ext where e: "ext \<in> set cover_exts" "cover_matches n ext" and m: "m = n"
    using assms unfolding parse_cover_name_def list_ex_iff
    by (metis option.distinct(1) option.inject)
  note sh = cover_matches_shape[OF e(2,1)]
  show "m = n" by (rule m)
  show "extension_of n \<in> set cover_exts" using sh(1) e(1) by simp
  show "segments n = [n]" using sh(2) by (simp add: segments_def split_on_id)
  have "3 \<le> length ext" using e(1) by (auto simp: cover_exts_def)
  then show "plain_seg n" using sh(3) by (auto simp: plain_seg_def)
qed

lemma cover_name_facts:
  assumes "parse_cover_name n = Some m" and "is_absolute cwd"
  shows "m = n \<and> resolve cwd [top_dir, n] =
           (if resolve cwd [top_dir] = ''/'' then ''/'' @ n else resolve cwd [top_dir] @ ''/'' @ n)
         \<and> (\<exists>t. cover_mime n = Mime t \<and> (extension_of n, t) \<in> set cover_mime_table)"
proof -
  note c = parse_cover_name_Some[OF assms(1)]
  obtain rs where r: "resolve_from cwd top_dir = ''/'' @ join_with ''/'' rs"
    and rp: "list_all plain_seg rs" and rn: "\<forall>s\<in>set rs. slash \<notin> set s"
    using resolve_segments[OF assms(2), of top_dir] by blast
  have "slash \<notin> set n" using segments_no_slash[of n n] c(3) by simp
  then have na: "\<not> is_absolute n" using c(4)
    by (cases n) (auto simp: is_absolute_def starts_with_def plain_seg_def)
  have dd: "''..'' \<notin> set (segments n)" using c(3,4) by (auto simp: plain_seg_def)
  have "resolve cwd [top_dir, n] = ''/'' @ join_with ''/'' (rs @ [n])"
    using resolve_relative[OF r rp rn na dd] c(3,4) by (simp add: resolve_def)
  moreover have "rs = [] \<longleftrightarrow> resolve cwd [top_dir] = ''/''"
    using r join_plain_ne_nil[OF rp] by (simp add: resolve_def)
  ultimately have "resolve cwd [top_dir, n] =
      (if resolve cwd [top_dir] = ''/'' then ''/'' @ n else resolve cwd [top_dir] @ ''/'' @ n)"
    using r by (cases "rs = []") (auto simp: resolve_def join_with_append)
  moreover have "\<exists>t. cover_mime n = Mime t \<and> (extension_of n, t) \<in> set cover_mime_table"
    using c(2) by (auto simp: cover_mime_def mime_type_for_extension_def cover_exts_def cover_mime_table_def)
  ultimately show ?thesis using c(1) by blast
qed

lemma resolve_cover:
  "parse_cover_name n = Some m \<Longrightarrow> is_absolute cwd \<Longrightarrow> resolve cwd [top_dir, n] =
     (if resolve cwd [top_dir] = ''/'' then ''/'' @ n else resolve cwd [top_dir] @ ''/'' @ n)"
  using cover_name_facts by blast

text \<open>A cover name that the schema accepts names exactly one file directly inside the artwork cache:
  resolved against any cache root it is that root, one separator and the name. Its content type is one of
  the image types of the table, never the fallback and never an inherited value.\<close>

theorem cover_name_flat:
  assumes "parse_cover_name n = Some m" and "is_absolute cwd"
  shows "m = n \<and> resolve cwd [top_dir, n] =
           (if resolve cwd [top_dir] = ''/'' then ''/'' @ n else resolve cwd [top_dir] @ ''/'' @ n)
         \<and> (\<exists>t. cover_mime n = Mime t \<and> (extension_of n, t) \<in> set cover_mime_table)"
  using cover_name_facts[OF assms] .

theorem cover_name_flat_witness:
  "parse_cover_name ''a1b2.JPG'' = Some ''a1b2.JPG''
   \<and> resolve ''/'' [''/home/u/covers'', ''a1b2.JPG''] = ''/home/u/covers/a1b2.JPG''"
proof -
  have p: "parse_cover_name ''a1b2.JPG'' = Some ''a1b2.JPG''" by code_simp
  have a: "is_absolute ''/''" by code_simp
  have r: "resolve ''/'' [''/home/u/covers''] = ''/home/u/covers''" by code_simp
  show ?thesis using cover_name_flat[OF p a, of "''/home/u/covers''"] p unfolding r by simp
qed

section \<open>The MIME table and what objects inherit\<close>

text \<open>The content type of a member comes from the fixed table or is the octet-stream fallback
  exactly when the extension is not \<open>constructor\<close> or \<open>__proto__\<close>; for these two the lookup
  returns a value inherited from \<open>Object.prototype\<close>, which reaches the header as text.\<close>

theorem member_mime_fixed_iff:
  "(\<exists>t. member_mime m = Mime t \<and> (t = octet_stream \<or> t \<in> snd ` set member_mime_table))
     \<longleftrightarrow> extension_of m \<notin> {''constructor'', ''__proto__''}"
proof (cases "map_of member_mime_table (extension_of m)")
  case None
  then show ?thesis by (auto simp: member_mime_def mime_type_for_extension_def inherited_keys_def)
next
  case (Some t)
  then have "(extension_of m, t) \<in> set member_mime_table" by (rule map_of_SomeD)
  moreover from this have "extension_of m \<notin> {''constructor'', ''__proto__''}"
    by (auto simp: member_mime_table_def)
  ultimately show ?thesis
    using Some by (force simp: member_mime_def mime_type_for_extension_def)
qed

section \<open>Book ids and range headers\<close>

text \<open>Printing a positive safe integer and parsing it as a book id gives it back, and whatever the
  parser accepts is such an integer.\<close>

theorem book_id_roundtrip:
  "(0 < i \<and> i \<le> max_safe \<longrightarrow> parse_book_id (show_int i) = Some i)
   \<and> (\<forall>raw. parse_book_id raw = Some i \<longrightarrow> 0 < i \<and> i \<le> 9007199254740991
        \<and> raw \<noteq> '''' \<and> all_digits raw \<and> int (nat_of_digits raw) = i)"
  by (auto simp: parse_book_id_def show_int_def max_safe_def Let_def split: if_splits)

theorem book_id_roundtrip_witness: "parse_book_id (show_int 42) = Some 42"
proof -
  have "(0::int) < 42 \<and> (42::int) \<le> max_safe" by (simp add: max_safe_def)
  then show ?thesis using book_id_roundtrip[of 42] by blast
qed

lemma match_range_show:
  assumes "all_digits a" and "all_digits b"
  shows "match_range (''bytes='' @ a @ ''-'' @ b) = Some (a, b)"
proof -
  have nd: "\<not> is_digit CHR ''-''" by code_simp
  have "takeWhile is_digit (a @ CHR ''-'' # b) = a" using takeWhile_digits[OF assms(1) nd] .
  then show ?thesis using assms by (simp add: match_range_def starts_with_def)
qed

lemma trim_range:
  assumes "all_digits a" and "all_digits b"
  shows "trim (''bytes='' @ a @ ''-'' @ b) = ''bytes='' @ a @ ''-'' @ b"
proof (rule trim_id)
  have h: "\<not> is_space CHR ''b''" "\<not> is_space CHR ''-''" by code_simp+
  show "\<not> is_space (hd (''bytes='' @ a @ ''-'' @ b))" using h(1) by simp
  show "\<not> is_space (last (''bytes='' @ a @ ''-'' @ b))"
  proof (cases "b = []")
    case False
    then have "is_digit (last b)" using assms(2) by (simp add: all_digits_def list_all_iff)
    then show ?thesis using False is_digit_not_space by simp
  qed (use h(2) in simp)
qed simp

lemma show_int_nonneg:
  "0 \<le> i \<Longrightarrow> all_digits (show_int i) \<and> show_int i \<noteq> [] \<and> int (nat_of_digits (show_int i)) = i"
  by (simp add: show_int_def)

lemma parse_range_digits:
  assumes "all_digits a" and "all_digits b" and "a \<noteq> [] \<or> b \<noteq> []"
  shows "parse_range_header (Some (''bytes='' @ a @ ''-'' @ b)) =
    (if (\<exists>v \<in> set_option (range_number a) \<union> set_option (range_number b). v > max_safe) then RangeInvalid
     else (case (range_number a, range_number b) of
             (Some x, Some y) \<Rightarrow> if y < x then RangeInvalid else RangeOk (Some x) (Some y)
           | (s, e) \<Rightarrow> RangeOk s e))"
proof -
  have "match_range (trim (''bytes='' @ a @ ''-'' @ b)) = Some (a, b)"
    using trim_range[OF assms(1,2)] match_range_show[OF assms(1,2)] by metis
  then show ?thesis
    using assms(3) unfolding parse_range_header_def by (auto simp: Let_def split: option.splits)
qed

text \<open>A \<open>bytes=a-b\<close> header over safe integers with \<open>a\<close> at most \<open>b\<close> parses to
  exactly that window, an open end and a suffix form parse to their one bound, and reversed bounds are
  invalid.\<close>

theorem range_header_roundtrip:
  assumes "0 \<le> a" and "0 \<le> b" and "a \<le> max_safe" and "b \<le> max_safe"
  shows "parse_range_header (Some (''bytes='' @ show_int a @ ''-'' @ show_int b)) =
           (if a \<le> b then RangeOk (Some a) (Some b) else RangeInvalid)
       \<and> parse_range_header (Some (''bytes='' @ show_int a @ ''-'')) = RangeOk (Some a) None
       \<and> parse_range_header (Some (''bytes='' @ ''-'' @ show_int b)) = RangeOk None (Some b)"
proof -
  note da = show_int_nonneg[OF assms(1)] and db = show_int_nonneg[OF assms(2)]
  have na: "range_number (show_int a) = Some a" and nb: "range_number (show_int b) = Some b"
    using da db by (simp_all add: range_number_def)
  have e: "all_digits ''''" "range_number '''' = None" by (simp_all add: all_digits_def range_number_def)
  show ?thesis
    using parse_range_digits[of "show_int a" "show_int b"] parse_range_digits[of "show_int a" "''''"]
      parse_range_digits[of "''''" "show_int b"] da db na nb e assms by auto
qed

theorem range_header_roundtrip_witness:
  "parse_range_header (Some (''bytes='' @ show_int 10 @ ''-'' @ show_int 99)) = RangeOk (Some 10) (Some 99)"
  using range_header_roundtrip[of 10 99] by (simp add: max_safe_def)

lemma range_ok_bounds:
  assumes "parse_range_header h = RangeOk s e"
  shows "(s \<noteq> None \<or> e \<noteq> None)
    \<and> (\<forall>v \<in> set_option s \<union> set_option e. 0 \<le> v \<and> v \<le> max_safe)
    \<and> (\<forall>a b. s = Some a \<longrightarrow> e = Some b \<longrightarrow> a \<le> b)"
proof -
  obtain t where h: "h = Some t" "t \<noteq> ''''"
    using assms by (auto simp: parse_range_header_def split: option.splits if_splits)
  obtain a b where m: "match_range (trim t) = Some (a, b)"
    using assms h by (auto simp: parse_range_header_def split: option.splits)
  have "s = range_number a \<and> e = range_number b \<and> (a \<noteq> [] \<or> b \<noteq> [])
      \<and> (\<forall>v \<in> set_option (range_number a) \<union> set_option (range_number b). v \<le> max_safe)
      \<and> (\<forall>x y. range_number a = Some x \<longrightarrow> range_number b = Some y \<longrightarrow> x \<le> y)"
    using assms h m by (auto simp: parse_range_header_def Let_def split: if_splits option.splits)
  then show ?thesis by (auto simp: range_number_def split: if_splits)
qed

text \<open>Every window the range parser accepts has at least one bound, its bounds are safe
  non-negative integers, and a two-sided window is not reversed.\<close>

theorem range_header_bounds:
  assumes "parse_range_header h = RangeOk s e"
  shows "(s \<noteq> None \<or> e \<noteq> None)
    \<and> (\<forall>v \<in> set_option s \<union> set_option e. 0 \<le> v \<and> v \<le> max_safe)
    \<and> (\<forall>a b. s = Some a \<longrightarrow> e = Some b \<longrightarrow> a \<le> b)"
  using range_ok_bounds[OF assms] .

theorem range_header_bounds_witness:
  "parse_range_header (Some ''bytes=5-9'') = RangeOk (Some 5) (Some 9) \<and> (5::int) \<le> 9"
proof -
  have p: "parse_range_header (Some ''bytes=5-9'') = RangeOk (Some 5) (Some 9)" by code_simp
  show ?thesis using range_header_bounds[OF p] p by simp
qed

end
