(* ===== verification/IpcPolicy.thy ===== *)
theory IpcPolicy
  imports PathSchema
begin

text \<open>
  \<open>electron/main/ipcPolicy.ts\<close>: what main checks before a renderer invoke reaches the sidecar. The
  registry of dialog-issued paths is a map from the dialog kind to the set of paths; a check that
  throws is \<open>Inl\<close> its message. \<open>JSON.stringify\<close> is a parameter that gives the length of the text,
  or \<open>None\<close> when it throws.
\<close>

section \<open>Issued paths\<close>

datatype issued_kind = KDirectory | KBookFile | KBookFiles | KCoverImage | KSyncFolder

type_synonym issued_paths = "issued_kind \<rightharpoonup> string set"

definition no_issued :: issued_paths where
  "no_issued = Map.empty"

definition issue :: "issued_paths \<Rightarrow> issued_kind \<times> string \<Rightarrow> issued_paths" where
  "issue m kp =
     (case kp of (k, p) \<Rightarrow>
        (let old = (case m k of None \<Rightarrow> {} | Some st \<Rightarrow> st) in m(k \<mapsto> insert p old)))"

definition has_issued :: "issued_paths \<Rightarrow> issued_kind \<Rightarrow> string \<Rightarrow> bool" where
  "has_issued m k p = (case m k of None \<Rightarrow> False | Some st \<Rightarrow> p \<in> st)"

text \<open>
  The contract between the dialogs, which issue, and the policy, which asks: a registry answers yes for
  exactly what was issued, under the kind it was issued for.
\<close>

locale issued_registry =
  fixes start :: 'r and put :: "'r \<Rightarrow> 'k \<times> 'p \<Rightarrow> 'r" and ask :: "'r \<Rightarrow> 'k \<Rightarrow> 'p \<Rightarrow> bool"
  assumes ask_start: "\<not> ask start k p"
    and ask_put: "ask (put r (k', p')) k p \<longleftrightarrow> (k, p) = (k', p') \<or> ask r k p"
begin

lemma ask_run: "ask (run put r hist) k p \<longleftrightarrow> (k, p) \<in> set hist \<or> ask r k p"
proof (induction hist arbitrary: r)
  case (Cons e hist)
  then show ?case by (cases e) (auto simp: ask_put)
qed simp

lemma ask_history: "ask (run put start hist) k p \<longleftrightarrow> (k, p) \<in> set hist"
  by (simp add: ask_run ask_start)

end

interpretation dialogs: issued_registry no_issued issue has_issued
  by unfold_locales (auto simp: no_issued_def issue_def has_issued_def Let_def split: option.splits)

section \<open>Checks on one value\<close>

definition require_issued :: "issued_paths \<Rightarrow> issued_kind \<Rightarrow> js \<Rightarrow> string \<Rightarrow> unit outcome" where
  "require_issued issued kind value label =
     require (case value of Str s \<Rightarrow> has_issued issued kind s | _ \<Rightarrow> False)
       (label @ '' was not issued by this app'')"

definition require_library_path :: "js \<Rightarrow> string \<Rightarrow> unit outcome" where
  "require_library_path value label =
     require (case value of Str s \<Rightarrow> is_valid_library_path s | _ \<Rightarrow> False) (''invalid '' @ label)"

type_synonym params = "(string \<times> js) list"

definition require_book_id :: "params \<Rightarrow> unit outcome" where
  "require_book_id r = require (is_valid_book_id (get_prop ''bookId'' r)) ''invalid bookId''"

fun is_byte_count :: "js \<Rightarrow> bool" where
  "is_byte_count (Num (Fin x)) = (num_is_safe (Fin x) \<and> 0 \<le> x)"
| "is_byte_count _ = False"

definition require_range_key :: "params \<Rightarrow> string \<Rightarrow> unit outcome" where
  "require_range_key r key =
     require (get_prop key r = Undef \<or> is_byte_count (get_prop key r)) (''invalid byte range: '' @ key)"

definition require_byte_range :: "params \<Rightarrow> unit outcome" where
  "require_byte_range r = also_check (require_range_key r ''offset'') (require_range_key r ''length'')"

definition require_resource_path :: "params \<Rightarrow> unit outcome" where
  "require_resource_path r =
     require (case get_prop ''path'' r of Str s \<Rightarrow> parse_member_path s \<noteq> None | _ \<Rightarrow> False)
       ''invalid resource path''"

fun is_positive_id :: "js \<Rightarrow> bool" where
  "is_positive_id (Num (Fin x)) = (num_is_safe (Fin x) \<and> 1 \<le> x)"
| "is_positive_id _ = False"

definition require_positive_id :: "js \<Rightarrow> string \<Rightarrow> unit outcome" where
  "require_positive_id value label = require (is_positive_id value) (''invalid '' @ label)"

fun is_string :: "js \<Rightarrow> bool" where
  "is_string (Str s) = True"
| "is_string _ = False"

definition hex_char :: "char \<Rightarrow> bool" where
  "hex_char c = (is_digit c \<or> (97 \<le> code_of c \<and> code_of c \<le> 102))"

definition is_hex32 :: "string \<Rightarrow> bool" where
  "is_hex32 s = (length s = 32 \<and> list_all hex_char s)"

definition require_book_uid :: "js \<Rightarrow> unit outcome" where
  "require_book_uid value =
     require (case value of Str s \<Rightarrow> is_hex32 s | _ \<Rightarrow> False) ''invalid bookUid''"

definition nonempty_text :: "js \<Rightarrow> nat \<Rightarrow> bool" where
  "nonempty_text value max_length =
     (case value of Str s \<Rightarrow> trim s \<noteq> '''' \<and> length s \<le> max_length | _ \<Rightarrow> False)"

definition require_nonempty_string :: "js \<Rightarrow> string \<Rightarrow> nat \<Rightarrow> unit outcome" where
  "require_nonempty_string value label max_length =
     require (nonempty_text value max_length) (''invalid '' @ label)"

section \<open>Method tables\<close>

definition ISSUED_PATH_METHODS :: "string list" where
  "ISSUED_PATH_METHODS =
     [''scan_library'', ''reconnect_book'', ''relink_book'', ''attach_waiting_book'',
      ''set_book_cover'', ''sync_connect'']"

definition BOOK_ID_METHODS :: "string list" where
  "BOOK_ID_METHODS =
     [''remove_book'', ''remove_book_file'', ''list_book_files'', ''list_book_editions'',
      ''reset_book_reading_data'', ''retry_indexing'', ''forget_book'', ''get_book_metadata'',
      ''reset_book_metadata'', ''clear_book_cover_override'', ''get_reading_progress'',
      ''save_reading_progress'', ''mark_book_finished'', ''mark_book_opened'', ''get_book_bytes'',
      ''get_epub_session'', ''get_book_resource'', ''list_annotations'', ''create_annotation'']"

section \<open>Issued-path methods\<close>

definition validate_sync_connect :: "params \<Rightarrow> issued_paths \<Rightarrow> unit outcome" where
  "validate_sync_connect r issued =
     also_check (require_library_path (get_prop ''path'' r) ''path'')
    (also_check (require_issued issued KSyncFolder (get_prop ''path'' r) ''path'')
    (also_check (require (get_prop ''deviceName'' r = Undef \<or> nonempty_text (get_prop ''deviceName'' r) 80)
        ''invalid deviceName'')
    (also_check (require (get_prop ''confirmLibraryId'' r = Undef
          \<or> (case get_prop ''confirmLibraryId'' r of Str s \<Rightarrow> is_hex32 s | _ \<Rightarrow> False))
        ''invalid confirmLibraryId'')
    (also_check (require (case get_prop ''startNew'' r of Undef \<Rightarrow> True | Bool b \<Rightarrow> True | _ \<Rightarrow> False)
        ''invalid startNew'')
      (require (\<not> (get_prop ''startNew'' r = Bool True \<and> get_prop ''confirmLibraryId'' r \<noteq> Undef))
        ''choose either join or start new'')))))"

definition validate_issued_paths :: "string \<Rightarrow> params \<Rightarrow> issued_paths \<Rightarrow> unit outcome" where
  "validate_issued_paths method r issued =
     (if method = ''scan_library'' then
        also_check (require_library_path (get_prop ''path'' r) ''path'')
          (require_issued issued KDirectory (get_prop ''path'' r) ''path'')
      else if method = ''reconnect_book'' \<or> method = ''relink_book'' then
        also_check (require_book_id r)
       (also_check (require_library_path (get_prop ''path'' r) ''path'')
          (require_issued issued KBookFile (get_prop ''path'' r) ''path''))
      else if method = ''attach_waiting_book'' then
        also_check (require_book_uid (get_prop ''bookUid'' r))
       (also_check (require_library_path (get_prop ''path'' r) ''path'')
          (require_issued issued KBookFile (get_prop ''path'' r) ''path''))
      else if method = ''sync_connect'' then validate_sync_connect r issued
      else also_check (if method = ''set_book_cover'' then require_book_id r else ok)
             (require_issued issued KCoverImage (get_prop ''imagePath'' r) ''imagePath''))"

section \<open>Per-method shapes\<close>

definition valid_path_value :: "js \<Rightarrow> bool" where
  "valid_path_value v = (case v of Str s \<Rightarrow> is_valid_library_path s | _ \<Rightarrow> False)"

definition validate_path_list :: "params \<Rightarrow> unit outcome" where
  "validate_path_list r =
     require (case get_prop ''paths'' r of
                Arr vs \<Rightarrow> length vs \<le> MAX_IMPORT_PATHS \<and> list_all valid_path_value vs
              | _ \<Rightarrow> False) ''invalid paths''"

definition validate_search_query :: "params \<Rightarrow> unit outcome" where
  "validate_search_query r = require (is_string (get_prop ''query'' r)) ''invalid query''"

definition validate_optional_search_query :: "params \<Rightarrow> unit outcome" where
  "validate_optional_search_query r =
     require (get_prop ''query'' r = Undef \<or> is_string (get_prop ''query'' r)) ''invalid query''"

definition validate_collection_name :: "params \<Rightarrow> unit outcome" where
  "validate_collection_name r = require (is_string (get_prop ''name'' r)) ''invalid name''"

definition validate_collection_rename :: "params \<Rightarrow> unit outcome" where
  "validate_collection_rename r =
     also_check (require_positive_id (get_prop ''collectionId'' r) ''collectionId'')
       (require (is_string (get_prop ''name'' r)) ''invalid name'')"

definition validate_forget_books :: "params \<Rightarrow> unit outcome" where
  "validate_forget_books r =
     require (case get_prop ''bookIds'' r of
                Arr vs \<Rightarrow> length vs \<le> MAX_BULK_BOOK_IDS \<and> list_all is_valid_book_id vs
              | _ \<Rightarrow> False) ''invalid bookIds''"

definition validate_restore_book :: "params \<Rightarrow> unit outcome" where
  "validate_restore_book r =
     also_check (require_positive_id (get_prop ''trashId'' r) ''trashId'')
       (require (get_prop ''mode'' r = Undef \<or> get_prop ''mode'' r = Str ''replace''
           \<or> get_prop ''mode'' r = Str ''keep'' \<or> get_prop ''mode'' r = Str ''merge'')
         ''invalid restore mode'')"

definition validate_sync_id :: "params \<Rightarrow> unit outcome" where
  "validate_sync_id r = require_positive_id (get_prop ''id'' r) ''sync id''"

definition CONFLICT_RESOLUTIONS :: "string list" where
  "CONFLICT_RESOLUTIONS = [''keep_winner'', ''apply_loser'']"

definition validate_sync_conflict_resolution :: "params \<Rightarrow> unit outcome" where
  "validate_sync_conflict_resolution r =
     also_check (require_positive_id (get_prop ''id'' r) ''sync conflict id'')
       (require (case get_prop ''resolution'' r of Str s \<Rightarrow> s \<in> set CONFLICT_RESOLUTIONS | _ \<Rightarrow> False)
         ''invalid conflict resolution'')"

definition validate_sync_device_name :: "params \<Rightarrow> unit outcome" where
  "validate_sync_device_name r =
     require (nonempty_text (get_prop ''name'' r) 80) ''invalid device name''"

definition validate_book_file :: "params \<Rightarrow> unit outcome" where
  "validate_book_file r =
     also_check (require_book_id r) (require_positive_id (get_prop ''fileId'' r) ''fileId'')"

definition validate_edition_link :: "params \<Rightarrow> unit outcome" where
  "validate_edition_link r =
     also_check (require_positive_id (get_prop ''sourceBookId'' r) ''sourceBookId'')
    (also_check (require_positive_id (get_prop ''targetBookId'' r) ''targetBookId'')
       (require (get_prop ''sourceBookId'' r \<noteq> get_prop ''targetBookId'' r)
         ''an edition link needs two different books''))"

definition PROVIDER_STATUSES :: "string list" where
  "PROVIDER_STATUSES = [''want_to_read'', ''reading'', ''paused'', ''finished'', ''dropped'']"

definition validate_book_uid_record :: "params \<Rightarrow> unit outcome" where
  "validate_book_uid_record r = require_book_uid (get_prop ''bookUid'' r)"

definition validate_provider_link :: "params \<Rightarrow> unit outcome" where
  "validate_provider_link r =
     also_check (require_book_uid (get_prop ''bookUid'' r))
    (also_check (require_nonempty_string (get_prop ''provider'' r) ''provider'' 64)
       (require_nonempty_string (get_prop ''remoteId'' r) ''remoteId'' 512))"

definition validate_provider_unlink :: "params \<Rightarrow> unit outcome" where
  "validate_provider_unlink r =
     also_check (require_book_uid (get_prop ''bookUid'' r))
       (require_nonempty_string (get_prop ''provider'' r) ''provider'' 64)"

fun is_percent :: "js \<Rightarrow> bool" where
  "is_percent (Num (Fin x)) = (0 \<le> x \<and> x \<le> 100)"
| "is_percent _ = False"

definition validate_provider_update :: "params \<Rightarrow> unit outcome" where
  "validate_provider_update r =
     also_check (require_book_uid (get_prop ''bookUid'' r))
    (also_check (require_nonempty_string (get_prop ''provider'' r) ''provider'' 64)
    (also_check (require (get_prop ''status'' r = Undef \<or> get_prop ''status'' r = Null
          \<or> (case get_prop ''status'' r of Str s \<Rightarrow> s \<in> set PROVIDER_STATUSES | _ \<Rightarrow> False))
        ''invalid provider status'')
       (require (get_prop ''progressPercent'' r = Undef \<or> get_prop ''progressPercent'' r = Null
          \<or> is_percent (get_prop ''progressPercent'' r))
        ''invalid progressPercent'')))"

definition validate_book_resource :: "params \<Rightarrow> unit outcome" where
  "validate_book_resource r = also_check (require_book_id r) (require_resource_path r)"

definition validate_book_bytes :: "params \<Rightarrow> unit outcome" where
  "validate_book_bytes r = also_check (require_book_id r) (require_byte_range r)"

definition explicit_shapes :: "(string \<times> (params \<Rightarrow> unit outcome)) list" where
  "explicit_shapes =
     [(''import_paths'', validate_path_list), (''unwatch_locations'', validate_path_list),
      (''search_books'', validate_search_query),
      (''list_reading_history'', validate_optional_search_query),
      (''create_collection'', validate_collection_name),
      (''rename_collection'', validate_collection_rename),
      (''forget_books'', validate_forget_books), (''restore_book'', validate_restore_book),
      (''sync_dismiss_issue'', validate_sync_id), (''sync_retry_issue'', validate_sync_id),
      (''sync_restore'', validate_sync_id),
      (''sync_resolve_conflict'', validate_sync_conflict_resolution),
      (''sync_set_device_name'', validate_sync_device_name),
      (''remove_book_file'', validate_book_file), (''link_book_edition'', validate_edition_link),
      (''forget_waiting_book'', validate_book_uid_record),
      (''list_provider_links'', validate_book_uid_record),
      (''link_provider_book'', validate_provider_link),
      (''unlink_provider_book'', validate_provider_unlink),
      (''apply_provider_reading_update'', validate_provider_update),
      (''get_book_resource'', validate_book_resource), (''get_book_bytes'', validate_book_bytes)]"

text \<open>The loop over \<open>BOOK_ID_METHODS\<close> adds the plain book-id check where no explicit shape exists.\<close>

definition METHOD_SHAPES :: "(string \<times> (params \<Rightarrow> unit outcome)) list" where
  "METHOD_SHAPES =
     explicit_shapes
     @ map (\<lambda>m. (m, require_book_id)) (filter (\<lambda>m. m \<notin> fst ` set explicit_shapes) BOOK_ID_METHODS)"

definition validate_method_shape :: "string \<Rightarrow> params \<Rightarrow> unit outcome" where
  "validate_method_shape method r =
     (case map_of METHOD_SHAPES method of None \<Rightarrow> ok | Some check \<Rightarrow> check r)"

section \<open>The whole policy\<close>

definition require_object_params :: "(js \<Rightarrow> nat option) \<Rightarrow> js \<Rightarrow> params outcome" where
  "require_object_params json_length p =
     (case p of
        Obj fs \<Rightarrow>
          (case json_length p of
             None \<Rightarrow> Inl ''not serializable''
           | Some n \<Rightarrow> if MAX_IPC_PARAM_BYTES < n then Inl ''params too large'' else Inr fs)
      | _ \<Rightarrow> Inl ''params must be an object'')"

definition validate_invoke_params ::
    "(js \<Rightarrow> nat option) \<Rightarrow> string \<Rightarrow> js \<Rightarrow> issued_paths \<Rightarrow> unit outcome" where
  "validate_invoke_params json_length method p issued =
     (if method \<notin> set SIDECAR_METHODS then Inl (''method not allowed: '' @ method)
      else and_then (require_object_params json_length p) (\<lambda>r.
        also_check (if method \<in> set ISSUED_PATH_METHODS then validate_issued_paths method r issued else ok)
          (validate_method_shape method r)))"

section \<open>What an accepted call satisfies\<close>

lemma passes_validate:
  "passes (validate_invoke_params json_length method p issued) \<longleftrightarrow> method \<in> set SIDECAR_METHODS
     \<and> (\<exists>r n. p = Obj r \<and> json_length p = Some n \<and> n \<le> MAX_IPC_PARAM_BYTES
          \<and> (method \<in> set ISSUED_PATH_METHODS \<longrightarrow> passes (validate_issued_paths method r issued))
          \<and> passes (validate_method_shape method r))"
  by (cases p) (auto simp: validate_invoke_params_def require_object_params_def and_then_def
      split: option.splits)

lemma passes_require_issued:
  "passes (require_issued issued k v l) \<longleftrightarrow> (\<exists>s. v = Str s \<and> has_issued issued k s)"
  by (cases v) (auto simp: require_issued_def)

lemma passes_require_library_path:
  "passes (require_library_path v l) \<longleftrightarrow> (\<exists>s. v = Str s \<and> is_valid_library_path s)"
  by (cases v) (auto simp: require_library_path_def)

lemma passes_require_book_id: "passes (require_book_id r) \<longleftrightarrow> is_valid_book_id (get_prop ''bookId'' r)"
  by (simp add: require_book_id_def)

lemma explicit_book_id_methods:
  "filter (\<lambda>m. m \<in> set BOOK_ID_METHODS) (map fst explicit_shapes)
     = [''remove_book_file'', ''get_book_resource'', ''get_book_bytes'']"
  by code_simp

lemma explicit_shape_lookups:
  "map_of METHOD_SHAPES ''remove_book_file'' = Some validate_book_file"
  "map_of METHOD_SHAPES ''get_book_resource'' = Some validate_book_resource"
  "map_of METHOD_SHAPES ''get_book_bytes'' = Some validate_book_bytes"
  "map_of METHOD_SHAPES ''import_paths'' = Some validate_path_list"
  "map_of METHOD_SHAPES ''unwatch_locations'' = Some validate_path_list"
  "map_of METHOD_SHAPES ''forget_books'' = Some validate_forget_books"
  by (simp_all add: METHOD_SHAPES_def explicit_shapes_def)

lemma valid_path_value_iff: "valid_path_value v \<longleftrightarrow> (\<exists>s. v = Str s \<and> is_valid_library_path s)"
  by (cases v) (auto simp: valid_path_value_def)

lemma shape_of_book_id_method:
  assumes "method \<in> set BOOK_ID_METHODS"
  shows "map_of METHOD_SHAPES method \<in>
    Some ` {require_book_id, validate_book_file, validate_book_resource, validate_book_bytes}"
proof (cases "method \<in> fst ` set explicit_shapes")
  case True
  then have "method \<in> set (filter (\<lambda>m. m \<in> set BOOK_ID_METHODS) (map fst explicit_shapes))"
    using assms by auto
  then have "method \<in> {''remove_book_file'', ''get_book_resource'', ''get_book_bytes''}"
    unfolding explicit_book_id_methods by simp
  then show ?thesis using explicit_shape_lookups by auto
next
  case False
  then have "map_of explicit_shapes method = None" by (simp add: map_of_eq_None_iff)
  then show ?thesis using False assms
    by (simp add: METHOD_SHAPES_def map_add_def map_of_const)
qed

lemma book_id_shape_passes:
  assumes "method \<in> set BOOK_ID_METHODS" and "passes (validate_method_shape method r)"
  shows "is_valid_book_id (get_prop ''bookId'' r)"
  using assms shape_of_book_id_method[OF assms(1)]
  by (auto simp: validate_method_shape_def passes_require_book_id validate_book_file_def
      validate_book_resource_def validate_book_bytes_def)

text \<open>The dialog that must have issued the path of each issued-path method, and the field it is in.\<close>

definition issued_claim :: "string \<Rightarrow> (issued_kind \<times> string) option" where
  "issued_claim method =
     map_of [(''scan_library'', (KDirectory, ''path'')), (''reconnect_book'', (KBookFile, ''path'')),
             (''relink_book'', (KBookFile, ''path'')), (''attach_waiting_book'', (KBookFile, ''path'')),
             (''set_book_cover'', (KCoverImage, ''imagePath'')), (''sync_connect'', (KSyncFolder, ''path''))]
       method"

lemma issued_passes:
  assumes "issued_claim method = Some (k, field)" and "passes (validate_issued_paths method r issued)"
  shows "\<exists>s. get_prop field r = Str s \<and> has_issued issued k s"
  using assms
  by (auto simp: issued_claim_def validate_issued_paths_def validate_sync_connect_def
      passes_require_issued split: if_splits)

text \<open>C1. A call to one of the six path-bearing methods is accepted only if the path it carries was
  handed out earlier by a native dialog of the kind that method needs; no history of other dialogs, and
  no shape of the parameters, makes it pass.\<close>

theorem issued_paths_only:
  assumes "issued_claim method = Some (k, field)"
    and "validate_invoke_params json_length method (Obj r) (run issue no_issued hist) = ok"
  shows "\<exists>s. get_prop field r = Str s \<and> (k, s) \<in> set hist"
proof -
  have "passes (validate_invoke_params json_length method (Obj r) (run issue no_issued hist))"
    using assms(2) by simp
  moreover have "method \<in> set ISSUED_PATH_METHODS"
    using assms(1) by (auto simp: issued_claim_def ISSUED_PATH_METHODS_def split: if_splits)
  ultimately have "passes (validate_issued_paths method r (run issue no_issued hist))"
    by (auto simp: passes_validate)
  from issued_passes[OF assms(1) this] show ?thesis
    by (simp add: dialogs.ask_history)
qed

lemma allowlisted:
  "''scan_library'' \<in> set SIDECAR_METHODS" "''get_book_bytes'' \<in> set SIDECAR_METHODS"
  "''forget_books'' \<in> set SIDECAR_METHODS"
  by code_simp+

lemma scan_has_no_shape: "map_of METHOD_SHAPES ''scan_library'' = None"
  by (simp add: METHOD_SHAPES_def explicit_shapes_def BOOK_ID_METHODS_def)

theorem issued_paths_only_witness:
  "(KDirectory, ''/books'') \<in> set [(KCoverImage, ''/x.png''), (KDirectory, ''/books'')]
   \<and> validate_invoke_params (\<lambda>_. Some 20) ''scan_library'' (Obj [(''path'', Str ''/books'')])
       (run issue no_issued [(KCoverImage, ''/x.png''), (KDirectory, ''/books'')]) = ok"
proof -
  have c: "issued_claim ''scan_library'' = Some (KDirectory, ''path'')" by (simp add: issued_claim_def)
  have p: "is_valid_library_path ''/books''" by code_simp
  have v: "validate_invoke_params (\<lambda>_. Some 20) ''scan_library'' (Obj [(''path'', Str ''/books'')])
       (run issue no_issued [(KCoverImage, ''/x.png''), (KDirectory, ''/books'')]) = ok"
    unfolding passes_iff_ok[symmetric] passes_validate
    using allowlisted(1) scan_has_no_shape
    by (simp add: validate_issued_paths_def passes_require_library_path p
        passes_require_issued has_issued_def issue_def no_issued_def validate_method_shape_def
        MAX_IPC_PARAM_BYTES_def)
  show ?thesis using issued_paths_only[OF c v] v by auto
qed

text \<open>Whatever the policy accepts is an allowlisted method with an object of bounded size; a method
  that acts on one book carries a positive safe integer as its book id, and a resource read names a member
  path that the schema accepts.\<close>

theorem accepted_call_shape:
  assumes "validate_invoke_params json_length method p issued = ok"
  shows "method \<in> set SIDECAR_METHODS
    \<and> (\<exists>r n. p = Obj r \<and> json_length p = Some n \<and> n \<le> 8388608
         \<and> (method \<in> set BOOK_ID_METHODS \<union> {''reconnect_book'', ''relink_book'', ''set_book_cover''}
              \<longrightarrow> is_valid_book_id (get_prop ''bookId'' r))
         \<and> (method = ''get_book_resource'' \<longrightarrow>
              (\<exists>s. get_prop ''path'' r = Str s \<and> parse_member_path s = Some s)))"
proof -
  have "passes (validate_invoke_params json_length method p issued)" using assms by simp
  then obtain r n where m: "method \<in> set SIDECAR_METHODS" and p: "p = Obj r" "json_length p = Some n"
    "n \<le> MAX_IPC_PARAM_BYTES"
    and i: "method \<in> set ISSUED_PATH_METHODS \<longrightarrow> passes (validate_issued_paths method r issued)"
    and s: "passes (validate_method_shape method r)"
    by (auto simp: passes_validate)
  have book: "is_valid_book_id (get_prop ''bookId'' r)"
    if b: "method \<in> set BOOK_ID_METHODS \<union> {''reconnect_book'', ''relink_book'', ''set_book_cover''}"
  proof (cases "method \<in> set BOOK_ID_METHODS")
    case True
    then show ?thesis using book_id_shape_passes s by blast
  next
    case False
    then have "method \<in> {''reconnect_book'', ''relink_book'', ''set_book_cover''}" using b by blast
    then show ?thesis using i
      by (auto simp: ISSUED_PATH_METHODS_def validate_issued_paths_def passes_require_book_id)
  qed
  have res: "\<exists>t. get_prop ''path'' r = Str t \<and> parse_member_path t = Some t"
    if "method = ''get_book_resource''"
  proof -
    have "passes (require_resource_path r)"
      using s that by (simp add: validate_method_shape_def validate_book_resource_def explicit_shape_lookups)
    then obtain t u where "get_prop ''path'' r = Str t" "parse_member_path t = Some u"
      by (auto simp: require_resource_path_def split: js.splits)
    moreover from this have "u = t" using parse_member_path_Some[of t u] by blast
    ultimately show ?thesis by blast
  qed
  have "n \<le> 8388608" using p(3) by (simp add: MAX_IPC_PARAM_BYTES_def)
  then show ?thesis
    by (intro conjI exI[of _ r] exI[of _ n] impI m p(1,2) book res) assumption+
qed

theorem accepted_call_shape_witness:
  "validate_invoke_params (\<lambda>_. Some 12) ''get_book_bytes'' (Obj [(''bookId'', Num (Fin 7))]) no_issued = ok
   \<and> is_valid_book_id (Num (Fin 7))"
proof -
  have v: "validate_invoke_params (\<lambda>_. Some 12) ''get_book_bytes'' (Obj [(''bookId'', Num (Fin 7))]) no_issued = ok"
    unfolding passes_iff_ok[symmetric] passes_validate
    using allowlisted(2)
    by (simp add: validate_method_shape_def explicit_shape_lookups
        ISSUED_PATH_METHODS_def validate_book_bytes_def passes_require_book_id require_byte_range_def
        require_range_key_def max_safe_def MAX_IPC_PARAM_BYTES_def)
  show ?thesis using accepted_call_shape[OF v] v by (simp add: BOOK_ID_METHODS_def)
qed

text \<open>The bulk methods are bounded: an accepted import or unwatch carries at most 1000 paths, each
  of them a normal absolute path, and an accepted bulk forget at most 1000 book ids, each valid.\<close>

theorem bulk_calls_bounded:
  assumes "validate_invoke_params json_length method (Obj r) issued = ok"
  shows "(method \<in> {''import_paths'', ''unwatch_locations''} \<longrightarrow>
            (\<exists>vs. get_prop ''paths'' r = Arr vs \<and> length vs \<le> 1000
               \<and> (\<forall>v\<in>set vs. \<exists>s. v = Str s \<and> is_valid_library_path s)))
       \<and> (method = ''forget_books'' \<longrightarrow>
            (\<exists>vs. get_prop ''bookIds'' r = Arr vs \<and> length vs \<le> 1000 \<and> (\<forall>v\<in>set vs. is_valid_book_id v)))"
proof -
  have s: "passes (validate_method_shape method r)"
    using assms passes_validate[of json_length "method" "Obj r" issued] by (auto simp: passes_iff_ok)
  have pl: "\<exists>vs. get_prop ''paths'' r = Arr vs \<and> length vs \<le> 1000
               \<and> (\<forall>v\<in>set vs. \<exists>s. v = Str s \<and> is_valid_library_path s)"
    if "passes (validate_path_list r)"
    using that by (auto simp: validate_path_list_def valid_path_value_iff list_all_iff
        MAX_IMPORT_PATHS_def split: js.splits)
  have fb: "\<exists>vs. get_prop ''bookIds'' r = Arr vs \<and> length vs \<le> 1000 \<and> (\<forall>v\<in>set vs. is_valid_book_id v)"
    if "passes (validate_forget_books r)"
    using that by (auto simp: validate_forget_books_def list_all_iff MAX_BULK_BOOK_IDS_def split: js.splits)
  show ?thesis using s pl fb by (auto simp: validate_method_shape_def explicit_shape_lookups)
qed

theorem bulk_calls_bounded_witness:
  "validate_invoke_params (\<lambda>_. Some 12) ''forget_books''
     (Obj [(''bookIds'', Arr [Num (Fin 1), Num (Fin 2)])]) no_issued = ok
   \<and> is_valid_book_id (Num (Fin 1)) \<and> is_valid_book_id (Num (Fin 2))"
proof -
  have v: "validate_invoke_params (\<lambda>_. Some 12) ''forget_books''
     (Obj [(''bookIds'', Arr [Num (Fin 1), Num (Fin 2)])]) no_issued = ok"
    unfolding passes_iff_ok[symmetric] passes_validate
    using allowlisted(3)
    by (simp add: validate_method_shape_def explicit_shape_lookups
        ISSUED_PATH_METHODS_def validate_forget_books_def MAX_BULK_BOOK_IDS_def
        max_safe_def MAX_IPC_PARAM_BYTES_def)
  show ?thesis using bulk_calls_bounded[OF v] v by auto
qed

end
