(* ===== verification/SidecarTransport.thy ===== *)
theory SidecarTransport
  imports PathSchema
begin

text \<open>
  \<open>electron/main/sidecarTransport.ts\<close>: the bounded request serialiser and \<open>LineBuffer\<close>, the newline
  framing of the sidecar's output with a cap per line. The reference behaviour is \<open>framed_lines\<close>: cut
  the whole stream at newlines, drop the unfinished tail, drop the lines over the cap. A framer is
  any buffer whose pushes give those lines whatever the chunking; the class is shown to be one.
\<close>

section \<open>Requests\<close>

text \<open>\<open>stringify\<close> stands for \<open>JSON.stringify\<close> of the envelope.\<close>

definition serialize_request ::
    "(int \<Rightarrow> string \<Rightarrow> js \<Rightarrow> string) \<Rightarrow> int \<Rightarrow> string \<Rightarrow> js \<Rightarrow> string outcome" where
  "serialize_request stringify i method p =
     (let request = stringify i method p in
      if MAX_SIDECAR_REQUEST_BYTES < length request then Inl (''request too large: '' @ method)
      else Inr request)"

section \<open>The line buffer\<close>

abbreviation newline :: char where
  "newline \<equiv> CHR 0x0A"

record line_buffer =
  lb_text :: string
  lb_overflowing :: bool

definition empty_buffer :: line_buffer where
  "empty_buffer = \<lparr>lb_text = '''', lb_overflowing = False\<rparr>"

text \<open>The body of the \<open>for (;;)\<close> loop of \<open>push\<close>; every pass but the last removes a newline.\<close>

function push_loop :: "nat \<Rightarrow> line_buffer \<Rightarrow> string list \<Rightarrow> line_buffer \<times> string list" where
  "push_loop max_len b out =
     (if lb_overflowing b then
        (case index_of newline (lb_text b) of
           None \<Rightarrow> (if max_len < length (lb_text b) then b\<lparr>lb_text := ''''\<rparr> else b, out)
         | Some i \<Rightarrow> push_loop max_len \<lparr>lb_text = drop (Suc i) (lb_text b), lb_overflowing = False\<rparr> out)
      else
        (case index_of newline (lb_text b) of
           None \<Rightarrow> (if max_len < length (lb_text b) then \<lparr>lb_text = '''', lb_overflowing = True\<rparr> else b, out)
         | Some i \<Rightarrow>
             let line = take i (lb_text b); b' = b\<lparr>lb_text := drop (Suc i) (lb_text b)\<rparr> in
             if max_len < length line then push_loop max_len b' out
             else push_loop max_len b' (out @ [line])))"
  by pat_completeness auto
termination
  by (relation "measure (\<lambda>(m, b, out). length (lb_text b))") (auto dest!: index_of_Some)

declare push_loop.simps [simp del]

definition push :: "nat \<Rightarrow> line_buffer \<Rightarrow> string \<Rightarrow> line_buffer \<times> string list" where
  "push max_len b chunk = push_loop max_len (b\<lparr>lb_text := lb_text b @ chunk\<rparr>) []"

section \<open>The reference framing\<close>

definition framed_lines :: "nat \<Rightarrow> string \<Rightarrow> string list" where
  "framed_lines max_len stream = filter (\<lambda>l. length l \<le> max_len) (butlast (split_on newline stream))"

text \<open>All the lines that a sequence of chunks produces.\<close>

fun push_all :: "('b \<Rightarrow> string \<Rightarrow> 'b \<times> string list) \<Rightarrow> 'b \<Rightarrow> string list \<Rightarrow> 'b \<times> string list" where
  "push_all f b [] = (b, [])"
| "push_all f b (c # cs) =
     (case f b c of (b', out) \<Rightarrow> case push_all f b' cs of (b'', out') \<Rightarrow> (b'', out @ out'))"

text \<open>
  The contract of a framer: a relation between its state and the unfinished line of the stream so far,
  kept by every push, with a bound on what the state holds.
\<close>

locale framer =
  fixes feed :: "'b \<Rightarrow> string \<Rightarrow> 'b \<times> string list" and start :: 'b
    and tail_of :: "'b \<Rightarrow> string \<Rightarrow> bool" and held :: "'b \<Rightarrow> nat" and cap :: nat
  assumes start_tail: "tail_of start ''''"
    and feed_lines: "tail_of b t \<Longrightarrow> snd (feed b c) = framed_lines cap (t @ c)"
    and feed_tail: "tail_of b t \<Longrightarrow> tail_of (fst (feed b c)) (last (split_on newline (t @ c)))"
    and held_bound: "tail_of b t \<Longrightarrow> held b \<le> cap"
begin

lemma split_on_append:
  "split_on newline (s @ c) = butlast (split_on newline s) @ split_on newline (last (split_on newline s) @ c)"
proof (induction s)
  case (Cons x s)
  obtain h r where e: "split_on newline s = h # r" by (cases "split_on newline s") auto
  show ?case using Cons e by (auto split: list.splits)
qed simp

lemma framed_append:
  "framed_lines cap (s @ c) = framed_lines cap s @ framed_lines cap (last (split_on newline s) @ c)"
  unfolding framed_lines_def split_on_append[of s c] by (simp add: butlast_append)

lemma last_append: "last (split_on newline (s @ c)) = last (split_on newline (last (split_on newline s) @ c))"
  unfolding split_on_append[of s c] by simp

lemma push_all_from:
  "tail_of b (last (split_on newline s)) \<Longrightarrow>
     framed_lines cap s @ snd (push_all feed b cs) = framed_lines cap (s @ concat cs)
     \<and> tail_of (fst (push_all feed b cs)) (last (split_on newline (s @ concat cs)))"
proof (induction cs arbitrary: b s)
  case (Cons c cs)
  obtain b' out where f: "feed b c = (b', out)" by (cases "feed b c") auto
  have out: "framed_lines cap s @ out = framed_lines cap (s @ c)"
    using feed_lines[OF Cons.prems, of c] f framed_append[of s c] by simp
  have t: "tail_of b' (last (split_on newline (s @ c)))"
    using feed_tail[OF Cons.prems, of c] f last_append[of s c] by simp
  obtain b'' out' where g: "push_all feed b' cs = (b'', out')" by (cases "push_all feed b' cs") auto
  show ?case using Cons.IH[OF t] f g out[symmetric] by simp
qed simp

theorem framing: "snd (push_all feed start cs) = framed_lines cap (concat cs)"
  using push_all_from[of start "''''" cs] start_tail by (simp add: framed_lines_def)

lemma chunking_irrelevant:
  "concat cs = concat ds \<Longrightarrow> snd (push_all feed start cs) = snd (push_all feed start ds)"
  by (simp add: framing)

lemma memory_bound: "held (fst (push_all feed start cs)) \<le> cap"
  using push_all_from[of start "''''" cs] start_tail held_bound by auto

end

section \<open>The class is a framer\<close>

definition buffer_tail :: "nat \<Rightarrow> line_buffer \<Rightarrow> string \<Rightarrow> bool" where
  "buffer_tail max_len b t =
     (newline \<notin> set t \<and> newline \<notin> set (lb_text b) \<and> length (lb_text b) \<le> max_len
      \<and> (if lb_overflowing b then max_len < length t else lb_text b = t))"

lemma index_of_split: "index_of x xs = Some i \<Longrightarrow> xs = take i xs @ x # drop (Suc i) xs \<and> x \<notin> set (take i xs)"
proof -
  assume a: "index_of x xs = Some i"
  then have i: "i = length (takeWhile (\<lambda>y. y \<noteq> x) xs)" by (auto simp: index_of_def split: if_splits)
  then have "take i xs = takeWhile (\<lambda>y. y \<noteq> x) xs" by (metis takeWhile_eq_take)
  moreover have "x \<notin> set (takeWhile (\<lambda>y. y \<noteq> x) xs)" by (auto dest: set_takeWhileD)
  ultimately show ?thesis using index_of_Some[OF a] by (metis id_take_nth_drop)
qed

lemma framed_Cons_line:
  "newline \<notin> set l \<Longrightarrow>
   framed_lines m (l @ newline # r) = (if length l \<le> m then [l] else []) @ framed_lines m r"
  by (simp add: framed_lines_def split_on_append_sep)

lemma framed_no_newline: "newline \<notin> set s \<Longrightarrow> framed_lines m s = []"
  by (simp add: framed_lines_def split_on_id)

lemma push_loop_filling:
  "\<not> lb_overflowing b \<Longrightarrow>
     snd (push_loop m b out) = out @ framed_lines m (lb_text b)
     \<and> buffer_tail m (fst (push_loop m b out)) (last (split_on newline (lb_text b)))"
proof (induction "length (lb_text b)" arbitrary: b out rule: less_induct)
  case less
  show ?case
  proof (cases "index_of newline (lb_text b)")
    case None
    then have n: "newline \<notin> set (lb_text b)" by simp
    have "push_loop m b out =
        (if m < length (lb_text b) then \<lparr>lb_text = '''', lb_overflowing = True\<rparr> else b, out)"
      using less.prems None by (subst push_loop.simps) simp
    then show ?thesis
      using n less.prems by (auto simp: framed_no_newline split_on_id buffer_tail_def)
  next
    case (Some i)
    let ?l = "take i (lb_text b)" and ?r = "drop (Suc i) (lb_text b)"
    have e: "lb_text b = ?l @ newline # ?r" "newline \<notin> set ?l" using index_of_split[OF Some] by auto
    have sp: "split_on newline (lb_text b) = ?l # split_on newline ?r"
      by (subst e(1)) (rule split_on_append_sep[OF e(2)])
    have fr: "framed_lines m (lb_text b) = (if length ?l \<le> m then [?l] else []) @ framed_lines m ?r"
      by (subst e(1)) (rule framed_Cons_line[OF e(2)])
    have sh: "length (lb_text (b\<lparr>lb_text := ?r\<rparr>)) < length (lb_text b)" using index_of_Some[OF Some]
      by (simp, linarith)
    have no: "\<not> lb_overflowing (b\<lparr>lb_text := ?r\<rparr>)" using less.prems by simp
    have st: "push_loop m b out = push_loop m (b\<lparr>lb_text := ?r\<rparr>) (if m < length ?l then out else out @ [?l])"
      using less.prems Some by (subst push_loop.simps) (simp add: Let_def)
    show ?thesis
      using less.hyps[OF sh no, of "if m < length ?l then out else out @ [?l]"]
      unfolding st sp fr by (cases "m < length ?l") auto
  qed
qed

lemma push_refines:
  assumes "buffer_tail m b t"
  shows "snd (push m b c) = framed_lines m (t @ c)
    \<and> buffer_tail m (fst (push m b c)) (last (split_on newline (t @ c)))"
proof (cases "lb_overflowing b")
  case False
  then have "lb_text b = t" using assms by (simp add: buffer_tail_def)
  then show ?thesis
    using push_loop_filling[of "b\<lparr>lb_text := lb_text b @ c\<rparr>" m "[]"] False by (simp add: push_def)
next
  case True
  let ?b = "b\<lparr>lb_text := lb_text b @ c\<rparr>"
  have nb: "newline \<notin> set (lb_text b)" and nt: "newline \<notin> set t" and big: "m < length t"
    using assms True by (auto simp: buffer_tail_def)
  show ?thesis
  proof (cases "index_of newline c")
    case None
    then have nc: "newline \<notin> set c" by simp
    then have "index_of newline (lb_text ?b) = None" using nb by simp
    then have "push m b c = (if m < length (lb_text ?b) then ?b\<lparr>lb_text := ''''\<rparr> else ?b, [])"
      unfolding push_def using True by (subst push_loop.simps) simp
    then show ?thesis
      using nb nt nc big True by (auto simp: framed_no_newline split_on_id buffer_tail_def)
  next
    case (Some i)
    let ?l = "take i c" and ?r = "drop (Suc i) c"
    have e: "c = ?l @ newline # ?r" "newline \<notin> set ?l" using index_of_split[OF Some] by auto
    have "takeWhile (\<lambda>y. y \<noteq> newline) (lb_text b @ c) = lb_text b @ takeWhile (\<lambda>y. y \<noteq> newline) c"
      using nb by (intro takeWhile_append2) auto
    then have ic: "index_of newline (lb_text b @ c) = Some (length (lb_text b) + i)"
      using Some by (auto simp: index_of_def split: if_splits)
    have st: "push m b c = push_loop m \<lparr>lb_text = ?r, lb_overflowing = False\<rparr> []"
      unfolding push_def using True ic by (subst push_loop.simps) simp
    have tc: "t @ c = (t @ ?l) @ newline # ?r" using e(1) by simp
    have nl: "newline \<notin> set (t @ ?l)" using nt e(2) by simp
    have "framed_lines m (t @ c) = framed_lines m ?r"
      unfolding tc framed_Cons_line[OF nl] using big by simp
    moreover have "last (split_on newline (t @ c)) = last (split_on newline ?r)"
      unfolding tc split_on_append_sep[OF nl] by simp
    ultimately show ?thesis
      using push_loop_filling[of "\<lparr>lb_text = ?r, lb_overflowing = False\<rparr>" m "[]"] st by simp
  qed
qed

interpretation lines: framer "push m" empty_buffer "buffer_tail m" "\<lambda>b. length (lb_text b)" m for m
proof
  show "buffer_tail m empty_buffer ''''" by (simp add: buffer_tail_def empty_buffer_def)
qed (simp_all add: push_refines, simp add: buffer_tail_def)

text \<open>C5. Whatever way the stream is cut into chunks, the lines that \<open>LineBuffer\<close> returns over all
  its pushes are the complete lines of the whole stream that fit the cap, in order: over-cap lines are
  dropped whole and nothing else is lost, merged or split.\<close>

theorem line_buffer_framing:
  "snd (push_all (push m) empty_buffer chunks) = framed_lines m (concat chunks)"
  by (rule lines.framing)

text \<open>After any sequence of pushes the text that \<open>LineBuffer\<close> holds on to is at most the cap, so a
  peer that never sends a newline cannot grow the main process without bound.\<close>

theorem line_buffer_bounded:
  "length (lb_text (fst (push_all (push m) empty_buffer chunks))) \<le> m"
  by (rule lines.memory_bound)

end
