(* ===== verification/Sidecar.thy ===== *)
theory Sidecar
  imports SidecarTransport
begin

text \<open>
  \<open>electron/main/sidecar.ts\<close>: the client of the Rust service. The class's fields are a record, each
  callback (a chunk of output, an exit, a timer, a write error) is a step. A promise's settlement is
  an entry of \<open>settled\<close>; the continuation of \<open>await this.call("ping")\<close> in \<open>startOnce\<close> runs when the
  ping settles, so the pings of starts in flight are kept in \<open>boots\<close> with whether \<open>start()\<close>
  (rather than the restart timer) is waiting for them. Spawned processes are numbered. Time is in
  milliseconds. \<open>JSON.parse\<close>, \<open>JSON.stringify\<close> and the presence of the binary are parameters.
\<close>

section \<open>State\<close>

datatype settlement =
    Resolved js
  | RpcFailure js js      \<comment> \<open>message, code\<close>
  | SidecarError string
  | TimedOut string       \<comment> \<open>the method\<close>

record sidecar_env =
  env_parse :: "string \<Rightarrow> js option"
  env_stringify :: "int \<Rightarrow> string \<Rightarrow> js \<Rightarrow> string"
  env_idle :: int
  env_max_line :: nat

record sidecar =
  sc_child :: "nat option"
  sc_pending :: "(int \<times> string \<times> int) list"  \<comment> \<open>id, method, when its timer fires\<close>
  sc_next_id :: int
  sc_lines :: line_buffer
  sc_stopped :: bool
  sc_restart_delay :: int
  sc_starting :: bool                           \<comment> \<open>\<open>startPromise\<close> is set\<close>
  sc_last_activity :: int
  sc_boots :: "(int \<times> bool) list"
  sc_restarts :: "int list"                     \<comment> \<open>delays of the armed restart timers\<close>
  sc_spawned :: nat
  sc_settled :: "(int \<times> settlement) list"
  sc_events :: "(string \<times> js) list"
  sc_killed :: "nat list"
  sc_uncaught :: nat                            \<comment> \<open>exceptions thrown out of the data callback\<close>

definition RESTART_BASE_MS :: int where "RESTART_BASE_MS = 500"
definition RESTART_MAX_MS :: int where "RESTART_MAX_MS = 8000"
definition REQUEST_IDLE_TIMEOUT_MS :: int where "REQUEST_IDLE_TIMEOUT_MS = 60000"

definition new_sidecar :: "int \<Rightarrow> sidecar" where
  "new_sidecar now =
     \<lparr>sc_child = None, sc_pending = [], sc_next_id = 1, sc_lines = empty_buffer, sc_stopped = False,
      sc_restart_delay = RESTART_BASE_MS, sc_starting = False, sc_last_activity = now, sc_boots = [],
      sc_restarts = [], sc_spawned = 0, sc_settled = [], sc_events = [], sc_killed = [], sc_uncaught = 0\<rparr>"

section \<open>Settling\<close>

text \<open>
  Settling the promise of one request, and what the code awaiting a boot ping does next: a resolved
  ping resets the restart ladder, a rejected one lets \<open>start()\<close> be tried again.
\<close>

definition is_resolved :: "settlement \<Rightarrow> bool" where
  "is_resolved out = (case out of Resolved _ \<Rightarrow> True | _ \<Rightarrow> False)"

definition settle :: "int \<Rightarrow> settlement \<Rightarrow> sidecar \<Rightarrow> sidecar" where
  "settle i out s =
     (let s1 = s\<lparr>sc_settled := sc_settled s @ [(i, out)]\<rparr> in
      case map_of (sc_boots s) i of
        None \<Rightarrow> s1
      | Some from_start \<Rightarrow>
          if is_resolved out then s1\<lparr>sc_restart_delay := RESTART_BASE_MS\<rparr>
          else if from_start then s1\<lparr>sc_starting := False\<rparr> else s1)"

definition drop_pending :: "int \<Rightarrow> sidecar \<Rightarrow> sidecar" where
  "drop_pending i s = s\<lparr>sc_pending := filter (\<lambda>p. fst p \<noteq> i) (sc_pending s)\<rparr>"

text \<open>The loop over \<open>pending.values()\<close> followed by \<open>pending.clear()\<close>.\<close>

definition reject_all :: "settlement \<Rightarrow> sidecar \<Rightarrow> sidecar" where
  "reject_all out s =
     (foldl (\<lambda>s' p. settle (fst p) out s') s (sc_pending s))\<lparr>sc_pending := []\<rparr>"

section \<open>Calls\<close>

definition call :: "sidecar_env \<Rightarrow> int \<Rightarrow> string \<Rightarrow> js \<Rightarrow> sidecar \<Rightarrow> sidecar \<times> int option" where
  "call env now method p s =
     (case sc_child s of
        None \<Rightarrow> (s, None)
      | Some _ \<Rightarrow>
          let i = sc_next_id s; s1 = s\<lparr>sc_next_id := i + 1\<rparr> in
          (case serialize_request (env_stringify env) i method p of
             Inl msg \<Rightarrow> (settle i (SidecarError msg) s1, Some i)
           | Inr _ \<Rightarrow> (s1\<lparr>sc_pending := sc_pending s1 @ [(i, method, now + env_idle env)]\<rparr>, Some i)))"

text \<open>\<open>startOnce\<close>: \<open>None\<close> when the binary is missing, which rejects at once.\<close>

definition start_once :: "sidecar_env \<Rightarrow> int \<Rightarrow> bool \<Rightarrow> bool \<Rightarrow> sidecar \<Rightarrow> sidecar" where
  "start_once env now exists from_start s =
     (if \<not> exists then (if from_start then s\<lparr>sc_starting := False\<rparr> else s)
      else
        let s1 = s\<lparr>sc_stopped := False, sc_child := Some (sc_spawned s), sc_spawned := Suc (sc_spawned s),
                   sc_boots := (sc_next_id s, from_start) # sc_boots s\<rparr>
        in fst (call env now ''ping'' (Obj []) s1))"

definition start :: "sidecar_env \<Rightarrow> int \<Rightarrow> bool \<Rightarrow> sidecar \<Rightarrow> sidecar" where
  "start env now exists s =
     (if sc_starting s then s else start_once env now exists True (s\<lparr>sc_starting := True\<rparr>))"

section \<open>Output of the service\<close>

fun truthy :: "js \<Rightarrow> bool" where
  "truthy Undef = False"
| "truthy Null = False"
| "truthy (Bool b) = b"
| "truthy (Num n) = (n \<noteq> NaN \<and> n \<noteq> Fin 0)"
| "truthy (Str s) = (s \<noteq> '''')"
| "truthy _ = True"

fun field :: "string \<Rightarrow> js \<Rightarrow> js" where
  "field k (Obj fs) = get_prop k fs"
| "field k _ = Undef"

text \<open>The id of a response, when it is one of the integers that ids are drawn from.\<close>

definition response_id :: "jnum \<Rightarrow> int option" where
  "response_id n = (case n of Fin r \<Rightarrow> if rat_is_int r then Some \<lfloor>r\<rfloor> else None | _ \<Rightarrow> None)"

definition on_message :: "js \<Rightarrow> sidecar \<Rightarrow> sidecar" where
  "on_message m s =
     (case field ''id'' m of
        Num n \<Rightarrow>
          (case response_id n of
             None \<Rightarrow> s
           | Some i \<Rightarrow>
               if i \<notin> fst ` set (sc_pending s) then s
               else settle i
                 (if truthy (field ''error'' m)
                  then RpcFailure (field ''message'' (field ''error'' m)) (field ''code'' (field ''error'' m))
                  else Resolved (field ''result'' m))
                 (drop_pending i s))
      | _ \<Rightarrow>
          (case (field ''method'' m, field ''name'' (field ''params'' m)) of
             (Str method, Str name) \<Rightarrow>
               if method = ''event'' then
                 s\<lparr>sc_events := sc_events s @ [(name,
                      let payload = field ''payload'' (field ''params'' m)
                      in if payload = Undef then Null else payload)]\<rparr>
               else s
           | _ \<Rightarrow> s))"

text \<open>
  A line that parses to \<open>null\<close> makes \<open>message.id\<close> throw a \<open>TypeError\<close> out of the callback:
  \<open>False\<close>, and the lines after it in the chunk are not looked at.
\<close>

definition on_line :: "sidecar_env \<Rightarrow> string \<Rightarrow> sidecar \<Rightarrow> sidecar \<times> bool" where
  "on_line env line s =
     (case env_parse env line of
        None \<Rightarrow> (s, True)
      | Some m \<Rightarrow> if m = Null then (s\<lparr>sc_uncaught := Suc (sc_uncaught s)\<rparr>, False) else (on_message m s, True))"

fun on_lines :: "sidecar_env \<Rightarrow> string list \<Rightarrow> sidecar \<Rightarrow> sidecar" where
  "on_lines env [] s = s"
| "on_lines env (l # ls) s =
     (if trim l = '''' then on_lines env ls s
      else (case on_line env (trim l) s of (s', go_on) \<Rightarrow> if go_on then on_lines env ls s' else s'))"

definition on_data :: "sidecar_env \<Rightarrow> int \<Rightarrow> string \<Rightarrow> sidecar \<Rightarrow> sidecar" where
  "on_data env now chunk s =
     (case push (env_max_line env) (sc_lines s) chunk of
        (b, ls) \<Rightarrow> on_lines env ls (s\<lparr>sc_last_activity := now, sc_lines := b\<rparr>))"

section \<open>Exit, restart, timers, stop\<close>

definition on_exit :: "string \<Rightarrow> sidecar \<Rightarrow> sidecar" where
  "on_exit detail s =
     (let s1 = reject_all (SidecarError (''sidecar exited unexpectedly '' @ detail)) (s\<lparr>sc_child := None\<rparr>) in
      if sc_stopped s1 then s1
      else s1\<lparr>sc_restart_delay := min (sc_restart_delay s1 * 2) RESTART_MAX_MS,
               sc_restarts := sc_restarts s1 @ [sc_restart_delay s1]\<rparr>)"

definition restart_fires :: "sidecar_env \<Rightarrow> int \<Rightarrow> bool \<Rightarrow> sidecar \<Rightarrow> sidecar" where
  "restart_fires env now exists s =
     (case sc_restarts s of
        [] \<Rightarrow> s
      | _ # ts \<Rightarrow> start_once env now exists False (s\<lparr>sc_restarts := ts\<rparr>))"

text \<open>\<open>check\<close>: the idle timer of one request; re-armed while the service has been heard recently.\<close>

definition timer_fires :: "sidecar_env \<Rightarrow> int \<Rightarrow> int \<Rightarrow> sidecar \<Rightarrow> sidecar" where
  "timer_fires env now i s =
     (case map_of (sc_pending s) i of
        None \<Rightarrow> s
      | Some (method, _) \<Rightarrow>
          let remaining = env_idle env - (now - sc_last_activity s) in
          if 0 < remaining
          then s\<lparr>sc_pending := map (\<lambda>p. if fst p = i then (i, method, now + remaining) else p) (sc_pending s)\<rparr>
          else settle i (TimedOut method) (drop_pending i s))"

text \<open>The write callback's error branch; rejecting a settled promise has no effect.\<close>

definition write_failed :: "string \<Rightarrow> int \<Rightarrow> sidecar \<Rightarrow> sidecar" where
  "write_failed msg i s =
     (if i \<in> fst ` set (sc_pending s)
      then settle i (SidecarError (''failed to write request: '' @ msg)) (drop_pending i s) else s)"

definition stop :: "sidecar \<Rightarrow> sidecar" where
  "stop s =
     (let s1 = s\<lparr>sc_stopped := True, sc_child := None\<rparr> in
      case sc_child s of
        None \<Rightarrow> s1
      | Some c \<Rightarrow> (reject_all (SidecarError ''sidecar stopped'') s1)\<lparr>sc_killed := sc_killed s @ [c]\<rparr>)"

datatype sidecar_event =
    Start int bool
  | Call int string js
  | Data int string
  | Exit string
  | RestartFires int bool
  | TimerFires int int
  | WriteFailed string int
  | Stop

fun sidecar_step :: "sidecar_env \<Rightarrow> sidecar \<Rightarrow> sidecar_event \<Rightarrow> sidecar" where
  "sidecar_step env s (Start now exists) = start env now exists s"
| "sidecar_step env s (Call now method p) = fst (call env now method p s)"
| "sidecar_step env s (Data now chunk) = on_data env now chunk s"
| "sidecar_step env s (Exit detail) = on_exit detail s"
| "sidecar_step env s (RestartFires now exists) = restart_fires env now exists s"
| "sidecar_step env s (TimerFires now i) = timer_fires env now i s"
| "sidecar_step env s (WriteFailed msg i) = write_failed msg i s"
| "sidecar_step env s Stop = stop s"

section \<open>Every request is accounted for\<close>

text \<open>
  An id that was given out is either pending or settled, never both and never twice; without a process
  nothing is pending; the restart delays stay on the ladder; killed and live processes were spawned.
\<close>

definition accounted :: "sidecar \<Rightarrow> bool" where
  "accounted s \<longleftrightarrow> 1 \<le> sc_next_id s
     \<and> distinct (map fst (sc_pending s) @ map fst (sc_settled s))
     \<and> fst ` set (sc_pending s) \<union> fst ` set (sc_settled s) = {1..<sc_next_id s}"

definition sane :: "sidecar \<Rightarrow> bool" where
  "sane s \<longleftrightarrow> (sc_child s = None \<longrightarrow> sc_pending s = [])
     \<and> 500 \<le> sc_restart_delay s \<and> sc_restart_delay s \<le> 8000
     \<and> (\<forall>d\<in>set (sc_restarts s). 500 \<le> d \<and> d \<le> 8000)
     \<and> (\<forall>c\<in>set_option (sc_child s) \<union> set (sc_killed s). c < sc_spawned s)"

definition sidecar_inv :: "sidecar \<Rightarrow> bool" where
  "sidecar_inv s \<longleftrightarrow> accounted s \<and> sane s"

named_theorems settle_simps "fields after a settlement"

lemma settle_fields [settle_simps]:
  "sc_child (settle i out s) = sc_child s" "sc_pending (settle i out s) = sc_pending s"
  "sc_next_id (settle i out s) = sc_next_id s" "sc_lines (settle i out s) = sc_lines s"
  "sc_stopped (settle i out s) = sc_stopped s" "sc_restarts (settle i out s) = sc_restarts s"
  "sc_spawned (settle i out s) = sc_spawned s" "sc_killed (settle i out s) = sc_killed s"
  "sc_settled (settle i out s) = sc_settled s @ [(i, out)]"
  "sc_boots (settle i out s) = sc_boots s" "sc_last_activity (settle i out s) = sc_last_activity s"
  by (simp_all add: settle_def Let_def split: option.splits)

lemma settle_delay: "sc_restart_delay (settle i out s) \<in> {sc_restart_delay s, 500}"
  by (simp add: settle_def Let_def RESTART_BASE_MS_def split: option.splits)

lemma settle_delay_rejected [settle_simps]:
  "\<not> is_resolved out \<Longrightarrow> sc_restart_delay (settle i out s) = sc_restart_delay s"
  by (simp add: settle_def Let_def split: option.splits)

lemma settle_all_fields [settle_simps]:
  "sc_child (foldl (\<lambda>s' p. settle (fst p) out s') s ps) = sc_child s"
  "sc_next_id (foldl (\<lambda>s' p. settle (fst p) out s') s ps) = sc_next_id s"
  "sc_lines (foldl (\<lambda>s' p. settle (fst p) out s') s ps) = sc_lines s"
  "sc_stopped (foldl (\<lambda>s' p. settle (fst p) out s') s ps) = sc_stopped s"
  "sc_restarts (foldl (\<lambda>s' p. settle (fst p) out s') s ps) = sc_restarts s"
  "sc_spawned (foldl (\<lambda>s' p. settle (fst p) out s') s ps) = sc_spawned s"
  "sc_killed (foldl (\<lambda>s' p. settle (fst p) out s') s ps) = sc_killed s"
  "sc_settled (foldl (\<lambda>s' p. settle (fst p) out s') s ps) = sc_settled s @ map (\<lambda>p. (fst p, out)) ps"
  by (induction ps arbitrary: s) (simp_all add: settle_simps)

lemma settle_all_delay [settle_simps]:
  "\<not> is_resolved out \<Longrightarrow>
   sc_restart_delay (foldl (\<lambda>s' p. settle (fst p) out s') s ps) = sc_restart_delay s"
  by (induction ps arbitrary: s) (simp_all add: settle_simps)

lemma reject_all_fields [settle_simps]:
  "sc_child (reject_all out s) = sc_child s" "sc_next_id (reject_all out s) = sc_next_id s"
  "sc_pending (reject_all out s) = []" "sc_lines (reject_all out s) = sc_lines s"
  "sc_stopped (reject_all out s) = sc_stopped s" "sc_restarts (reject_all out s) = sc_restarts s"
  "sc_spawned (reject_all out s) = sc_spawned s" "sc_killed (reject_all out s) = sc_killed s"
  "sc_settled (reject_all out s) = sc_settled s @ map (\<lambda>p. (fst p, out)) (sc_pending s)"
  by (simp_all add: reject_all_def settle_simps)

lemma reject_all_delay [settle_simps]:
  "\<not> is_resolved out \<Longrightarrow> sc_restart_delay (reject_all out s) = sc_restart_delay s"
  by (simp add: reject_all_def settle_simps)

lemma not_resolved [simp]:
  "\<not> is_resolved (SidecarError e)" "\<not> is_resolved (TimedOut m)" "\<not> is_resolved (RpcFailure a b)"
  "is_resolved (Resolved r)"
  by (simp_all add: is_resolved_def)

lemma accounted_settle_pending:
  assumes "accounted s" and "i \<in> fst ` set (sc_pending s)"
  shows "accounted (settle i out (drop_pending i s))"
proof -
  have e: "fst ` set (filter (\<lambda>p. fst p \<noteq> i) (sc_pending s)) = fst ` set (sc_pending s) - {i}" by auto
  have d: "distinct (map fst (filter (\<lambda>p. fst p \<noteq> i) (sc_pending s)))"
    using assms(1) by (simp add: accounted_def distinct_map_filter)
  show ?thesis
    using assms d e by (auto simp: accounted_def drop_pending_def settle_simps)
qed

lemma accounted_perm:
  assumes "accounted s" and "sc_next_id s' = sc_next_id s"
    and "mset (map fst (sc_pending s') @ map fst (sc_settled s'))
       = mset (map fst (sc_pending s) @ map fst (sc_settled s))"
  shows "accounted s'"
proof -
  have "distinct (map fst (sc_pending s') @ map fst (sc_settled s'))"
    using assms(1,3) mset_eq_imp_distinct_iff unfolding accounted_def by blast
  moreover have "set (map fst (sc_pending s') @ map fst (sc_settled s'))
      = set (map fst (sc_pending s) @ map fst (sc_settled s))"
    using assms(3) by (rule mset_eq_setD)
  ultimately show ?thesis using assms(1,2) by (simp add: accounted_def)
qed

lemma accounted_reject_all: "accounted s \<Longrightarrow> accounted (reject_all out s)"
proof -
  assume a: "accounted s"
  have "map fst (sc_settled (reject_all out s)) = map fst (sc_settled s) @ map fst (sc_pending s)"
    by (simp add: settle_simps o_def)
  moreover have "fst \<circ> (\<lambda>p. (fst p, out)) = (fst :: int \<times> string \<times> int \<Rightarrow> int)" by auto
  ultimately show ?thesis
    by (intro accounted_perm[OF a]) (simp_all add: settle_simps)
qed

lemma accounted_call:
  assumes "accounted s"
  shows "accounted (fst (call env now method p s))"
proof -
  have "sc_next_id s \<notin> fst ` set (sc_pending s) \<union> fst ` set (sc_settled s)"
    using assms by (simp add: accounted_def)
  moreover have "insert (sc_next_id s) {1..<sc_next_id s} = {1..<sc_next_id s + 1}"
    using assms by (auto simp: accounted_def)
  ultimately show ?thesis
    using assms
    by (auto simp: call_def accounted_def settle_simps Let_def split: option.splits sum.splits)
qed

lemma sane_settle: "sane s \<Longrightarrow> sane (settle i out s)"
  using settle_delay[of i out s] by (auto simp: sane_def settle_simps)

lemma sane_drop: "sane s \<Longrightarrow> sane (drop_pending i s)"
  by (auto simp: sane_def drop_pending_def)

lemma inv_settle_pending:
  "sidecar_inv s \<Longrightarrow> i \<in> fst ` set (sc_pending s) \<Longrightarrow> sidecar_inv (settle i out (drop_pending i s))"
  by (simp add: sidecar_inv_def accounted_settle_pending sane_settle sane_drop)

lemma inv_call: "sidecar_inv s \<Longrightarrow> sidecar_inv (fst (call env now method p s))"
proof -
  assume a: "sidecar_inv s"
  then have "sane (fst (call env now method p s))"
    using settle_delay[of "sc_next_id s"]
    by (auto simp: call_def sidecar_inv_def sane_def settle_simps Let_def split: option.splits sum.splits)
  then show ?thesis using a accounted_call by (simp add: sidecar_inv_def)
qed

lemma accounted_cong:
  "sc_pending s' = sc_pending s \<Longrightarrow> sc_settled s' = sc_settled s \<Longrightarrow> sc_next_id s' = sc_next_id s
     \<Longrightarrow> accounted s \<Longrightarrow> accounted s'"
  by (simp add: accounted_def)

lemma inv_start_once: "sidecar_inv s \<Longrightarrow> sidecar_inv (start_once env now exists fs s)"
proof -
  assume a: "sidecar_inv s"
  let ?s = "s\<lparr>sc_stopped := False, sc_child := Some (sc_spawned s), sc_spawned := Suc (sc_spawned s),
                   sc_boots := (sc_next_id s, fs) # sc_boots s\<rparr>"
  have "\<forall>c\<in>set (sc_killed s). c < Suc (sc_spawned s)"
    using a by (auto simp: sidecar_inv_def sane_def intro: less_SucI)
  then have "sidecar_inv ?s" using a by (simp add: sidecar_inv_def sane_def accounted_def)
  moreover have "sidecar_inv (s\<lparr>sc_starting := False\<rparr>)"
    using a by (auto simp: sidecar_inv_def sane_def accounted_def)
  ultimately show ?thesis using a inv_call by (simp add: start_once_def Let_def)
qed

lemma inv_on_message: "sidecar_inv s \<Longrightarrow> sidecar_inv (on_message m s)"
proof -
  assume a: "sidecar_inv s"
  have e: "sidecar_inv (s\<lparr>sc_events := ev\<rparr>)" for ev
    using a by (simp add: sidecar_inv_def sane_def accounted_def)
  show ?thesis
    using a e inv_settle_pending[OF a]
    by (auto simp: on_message_def Let_def split: js.splits option.splits)
qed

lemma inv_on_lines: "sidecar_inv s \<Longrightarrow> sidecar_inv (on_lines env ls s)"
proof (induction ls arbitrary: s)
  case (Cons l ls)
  have "sidecar_inv (s\<lparr>sc_uncaught := Suc (sc_uncaught s)\<rparr>)"
    using Cons.prems by (simp add: sidecar_inv_def sane_def accounted_def)
  then show ?case
    using Cons inv_on_message by (auto simp: on_line_def split: option.splits prod.splits if_splits)
qed simp

lemma inv_on_data: "sidecar_inv s \<Longrightarrow> sidecar_inv (on_data env now chunk s)"
proof -
  assume a: "sidecar_inv s"
  have "sidecar_inv (s\<lparr>sc_last_activity := now, sc_lines := b\<rparr>)" for b
    using a by (simp add: sidecar_inv_def sane_def accounted_def)
  then show ?thesis using inv_on_lines by (simp add: on_data_def split: prod.splits)
qed

lemma inv_on_exit: "sidecar_inv s \<Longrightarrow> sidecar_inv (on_exit d s)"
proof -
  assume a: "sidecar_inv s"
  let ?r = "reject_all (SidecarError (''sidecar exited unexpectedly '' @ d)) (s\<lparr>sc_child := None\<rparr>)"
  have acc: "accounted ?r"
    using a accounted_reject_all by (simp add: sidecar_inv_def accounted_def)
  have "sane (on_exit d s)"
    using a by (auto simp: sidecar_inv_def sane_def on_exit_def Let_def settle_simps RESTART_MAX_MS_def)
  moreover have "accounted (on_exit d s)"
    using acc by (simp add: on_exit_def Let_def accounted_def)
  ultimately show ?thesis by (simp add: sidecar_inv_def)
qed

lemma inv_stop: "sidecar_inv s \<Longrightarrow> sidecar_inv (stop s)"
proof -
  assume a: "sidecar_inv s"
  have "accounted (reject_all (SidecarError ''sidecar stopped'') (s\<lparr>sc_stopped := True, sc_child := None\<rparr>))"
    using a accounted_reject_all by (simp add: sidecar_inv_def accounted_def)
  then have "accounted (stop s)"
    using a by (simp add: stop_def Let_def accounted_def sidecar_inv_def split: option.splits)
  moreover have "sane (stop s)"
    using a by (auto simp: stop_def Let_def sane_def sidecar_inv_def settle_simps split: option.splits)
  ultimately show ?thesis by (simp add: sidecar_inv_def)
qed

lemma inv_timer: "sidecar_inv s \<Longrightarrow> sidecar_inv (timer_fires env now i s)"
proof (cases "map_of (sc_pending s) i")
  case (Some mt)
  assume a: "sidecar_inv s"
  obtain m t where mt: "mt = (m, t)" by (cases mt)
  have i: "i \<in> fst ` set (sc_pending s)" using Some by (metis domI dom_map_of_conv_image_fst)
  let ?ps = "map (\<lambda>p. if fst p = i then (i, m, now + (env_idle env - (now - sc_last_activity s))) else p) (sc_pending s)"
  have e: "map fst ?ps = map fst (sc_pending s)" by auto
  have "accounted (s\<lparr>sc_pending := ?ps\<rparr>)"
  proof (rule accounted_perm)
    show "accounted s" using a by (simp add: sidecar_inv_def)
    show "mset (map fst (sc_pending (s\<lparr>sc_pending := ?ps\<rparr>)) @ map fst (sc_settled (s\<lparr>sc_pending := ?ps\<rparr>)))
        = mset (map fst (sc_pending s) @ map fst (sc_settled s))"
      using e by (simp del: map_map list.map_comp)
  qed simp
  then have "sidecar_inv (s\<lparr>sc_pending := ?ps\<rparr>)"
    using a by (simp add: sidecar_inv_def sane_def)
  then show ?thesis
    using Some mt inv_settle_pending[OF a i] by (simp add: timer_fires_def Let_def)
qed (simp add: timer_fires_def)

lemma inv_restart: "sidecar_inv s \<Longrightarrow> sidecar_inv (restart_fires env now exists s)"
proof (cases "sc_restarts s")
  case (Cons d ds)
  assume "sidecar_inv s"
  then have "sidecar_inv (s\<lparr>sc_restarts := ds\<rparr>)"
    using Cons by (simp add: sidecar_inv_def accounted_def sane_def)
  then show ?thesis using Cons inv_start_once by (simp add: restart_fires_def)
qed (simp add: restart_fires_def)

lemma inv_start: "sidecar_inv s \<Longrightarrow> sidecar_inv (start env now exists s)"
proof -
  assume "sidecar_inv s"
  then have "sidecar_inv (s\<lparr>sc_starting := True\<rparr>)"
    by (simp add: sidecar_inv_def accounted_def sane_def)
  then show ?thesis using \<open>sidecar_inv s\<close> inv_start_once by (simp add: start_def)
qed

lemma inv_write_failed: "sidecar_inv s \<Longrightarrow> sidecar_inv (write_failed msg i s)"
  using inv_settle_pending by (simp add: write_failed_def)

interpretation sidecar: invariant_machine "sidecar_step env" "\<lambda>_. True" sidecar_inv for env
proof
  fix s e
  assume "sidecar_inv s"
  then show "sidecar_inv (sidecar_step env s e)"
    by (cases e) (simp_all add: inv_start inv_call inv_on_data inv_on_exit inv_restart inv_timer
        inv_write_failed inv_stop)
qed

lemma inv_new: "sidecar_inv (new_sidecar now)"
  by (simp add: sidecar_inv_def accounted_def sane_def new_sidecar_def RESTART_BASE_MS_def)

lemma inv_reachable: "sidecar_inv (run (sidecar_step env) (new_sidecar now) es)"
  by (rule sidecar.run_keeps) (simp_all add: inv_new list_all_iff)

text \<open>C2. In every run of the client, each request id ever given out is exactly once either pending or
  settled, so no promise is lost and none is settled twice, and while no process is attached nothing is
  pending.\<close>

theorem requests_accounted:
  "fst ` set (sc_pending (run (sidecar_step env) (new_sidecar now) es))
       \<union> fst ` set (sc_settled (run (sidecar_step env) (new_sidecar now) es))
     = {1..<sc_next_id (run (sidecar_step env) (new_sidecar now) es)}
   \<and> fst ` set (sc_pending (run (sidecar_step env) (new_sidecar now) es))
       \<inter> fst ` set (sc_settled (run (sidecar_step env) (new_sidecar now) es)) = {}
   \<and> distinct (map fst (sc_settled (run (sidecar_step env) (new_sidecar now) es)))
   \<and> (sc_child (run (sidecar_step env) (new_sidecar now) es) = None \<longrightarrow>
        sc_pending (run (sidecar_step env) (new_sidecar now) es) = [])"
  using inv_reachable[of env now es] by (auto simp: sidecar_inv_def accounted_def sane_def)

definition demo_env :: sidecar_env where
  "demo_env = \<lparr>env_parse = (\<lambda>_. None), env_stringify = (\<lambda>_ _ _. ''{}''), env_idle = 60000, env_max_line = 100\<rparr>"

theorem requests_accounted_witness:
  "sc_next_id (run (sidecar_step demo_env) (new_sidecar 0) [Start 0 True, Stop]) = 2
   \<and> 1 \<in> fst ` set (sc_settled (run (sidecar_step demo_env) (new_sidecar 0) [Start 0 True, Stop]))"
proof -
  let ?s = "run (sidecar_step demo_env) (new_sidecar 0) [Start 0 True, Stop]"
  have n: "sc_next_id ?s = 2"
    by (simp add: demo_env_def new_sidecar_def start_def start_once_def call_def serialize_request_def
        MAX_SIDECAR_REQUEST_BYTES_def stop_def reject_all_def settle_def Let_def)
  have c: "sc_child ?s = None" by (simp add: stop_def Let_def settle_simps split: option.split)
  have "sc_pending ?s = [] \<and> fst ` set (sc_pending ?s) \<union> fst ` set (sc_settled ?s) = {1..<sc_next_id ?s}"
    using requests_accounted[of demo_env 0 "[Start 0 True, Stop]"] c by blast
  then have "fst ` set (sc_settled ?s) = {1..<2}" using n by (metis Un_empty_left image_empty list.set(1))
  then show ?thesis using n by simp
qed

section \<open>The restart ladder\<close>

definition crash_cycle :: "int \<Rightarrow> string \<Rightarrow> sidecar_event list" where
  "crash_cycle now d = [RestartFires now True, Exit d]"

lemma on_exit_running:
  "\<not> sc_stopped s \<Longrightarrow> sc_restart_delay (on_exit d s) = min (2 * sc_restart_delay s) 8000
     \<and> sc_restarts (on_exit d s) = sc_restarts s @ [sc_restart_delay s] \<and> \<not> sc_stopped (on_exit d s)"
  by (simp add: on_exit_def Let_def settle_simps RESTART_MAX_MS_def)

lemma start_once_rejectable:
  assumes "accounted s"
  shows "sc_restart_delay (start_once env now True fs s) = sc_restart_delay s
    \<and> sc_restarts (start_once env now True fs s) = sc_restarts s
    \<and> \<not> sc_stopped (start_once env now True fs s)
    \<and> sc_child (start_once env now True fs s) = Some (sc_spawned s)
    \<and> sc_spawned (start_once env now True fs s) = Suc (sc_spawned s)
    \<and> sc_killed (start_once env now True fs s) = sc_killed s
    \<and> sc_lines (start_once env now True fs s) = sc_lines s"
  by (simp add: start_once_def call_def Let_def settle_simps split: sum.splits)

lemma cycle_step:
  assumes "sidecar_inv s" and "\<not> sc_stopped s" and "sc_restarts s = [d0]"
  shows "sc_restart_delay (run (sidecar_step env) s (crash_cycle now d)) = min (2 * sc_restart_delay s) 8000
    \<and> sc_restarts (run (sidecar_step env) s (crash_cycle now d)) = [sc_restart_delay s]
    \<and> \<not> sc_stopped (run (sidecar_step env) s (crash_cycle now d))
    \<and> sidecar_inv (run (sidecar_step env) s (crash_cycle now d))"
proof -
  have a: "accounted (s\<lparr>sc_restarts := []\<rparr>)" using assms(1) by (simp add: sidecar_inv_def accounted_def)
  let ?t = "restart_fires env now True s"
  have t: "sc_restart_delay ?t = sc_restart_delay s" "sc_restarts ?t = []" "\<not> sc_stopped ?t"
    using assms(3) start_once_rejectable[OF a] by (simp_all add: restart_fires_def)
  show ?thesis
    using t on_exit_running[OF t(3)] inv_on_exit[OF inv_restart[OF assms(1)]]
    by (simp add: crash_cycle_def)
qed



section \<open>Stopping\<close>

definition no_start :: "sidecar_event \<Rightarrow> bool" where
  "no_start e = (case e of Start _ _ \<Rightarrow> False | _ \<Rightarrow> True)"

definition down :: "nat \<Rightarrow> sidecar \<Rightarrow> bool" where
  "down n s \<longleftrightarrow> sc_stopped s \<and> sc_child s = None \<and> sc_restarts s = [] \<and> sc_spawned s = n"

lemma down_on_message: "down n s \<Longrightarrow> down n (on_message m s)"
  by (simp add: down_def on_message_def settle_simps drop_pending_def Let_def split: js.splits option.splits)

lemma down_on_lines: "down n s \<Longrightarrow> down n (on_lines env ls s)"
proof (induction ls arbitrary: s)
  case (Cons l ls)
  have "down n (s\<lparr>sc_uncaught := Suc (sc_uncaught s)\<rparr>)" using Cons.prems by (simp add: down_def)
  then show ?case
    using Cons down_on_message by (auto simp: on_line_def split: option.splits prod.splits if_splits)
qed simp

interpretation stopped_sidecar: invariant_machine "sidecar_step env" no_start "down n" for env n
proof
  fix s e
  assume d: "down n s" and e: "no_start e"
  show "down n (sidecar_step env s e)"
  proof (cases e)
    case (Data now chunk)
    have "down n (s\<lparr>sc_last_activity := now, sc_lines := b\<rparr>)" for b using d by (simp add: down_def)
    then show ?thesis using Data down_on_lines by (simp add: on_data_def split: prod.splits)
  qed (use d e in \<open>auto simp: down_def no_start_def call_def on_exit_def restart_fires_def timer_fires_def
        write_failed_def stop_def drop_pending_def Let_def settle_simps split: option.splits\<close>)
qed



text \<open>A restart armed before \<open>stop()\<close> is not cancelled by it: when its timer fires the service is
  spawned again, counts as not stopped, and no kill was ever sent to that process.\<close>

theorem stop_leaves_restart_armed:
  fixes env now es t
  defines "s \<equiv> run (sidecar_step env) (new_sidecar now) es"
  assumes "sc_restarts s \<noteq> []"
  shows "let s' = run (sidecar_step env) s [Stop, RestartFires t True] in
      sc_child s' = Some (sc_spawned s) \<and> \<not> sc_stopped s' \<and> sc_spawned s \<notin> set (sc_killed s')"
proof -
  have i: "sidecar_inv s" unfolding s_def by (rule inv_reachable)
  have "sc_restarts (stop s) = sc_restarts s"
    by (simp add: stop_def Let_def settle_simps split: option.splits)
  then obtain d ds where r: "sc_restarts (stop s) = d # ds"
    using assms(2) by (cases "sc_restarts s") simp_all
  have a: "accounted (stop s\<lparr>sc_restarts := ds\<rparr>)"
    using inv_stop[OF i] by (simp add: sidecar_inv_def accounted_def)
  have sp: "sc_spawned (stop s) = sc_spawned s"
    by (simp add: stop_def Let_def settle_simps split: option.splits)
  have k: "\<forall>c\<in>set (sc_killed (stop s)). c < sc_spawned s"
    using inv_stop[OF i] sp by (auto simp: sidecar_inv_def sane_def)
  show ?thesis
    using start_once_rejectable[OF a, of env t False] r sp k
    by (auto simp: Let_def restart_fires_def)
qed

theorem stop_leaves_restart_armed_witness:
  "sc_child (run (sidecar_step demo_env)
     (run (sidecar_step demo_env) (new_sidecar 0) [Exit ''(code=1)'']) [Stop, RestartFires 600 True]) = Some 0"
proof -
  have "sc_restarts (run (sidecar_step demo_env) (new_sidecar 0) [Exit ''(code=1)'']) \<noteq> []"
    using on_exit_running[of "new_sidecar 0" "''(code=1)''"] by (simp add: new_sidecar_def)
  moreover have "sc_spawned (run (sidecar_step demo_env) (new_sidecar 0) [Exit ''(code=1)'']) = 0"
    by (simp add: on_exit_def Let_def settle_simps new_sidecar_def)
  ultimately show ?thesis
    using stop_leaves_restart_armed[where env=demo_env and now=0 and es="[Exit ''(code=1)'']" and t=600]
    by (simp add: Let_def)
qed

text \<open>The unfinished line of a dead process is kept across the restart: the first line that the new
  process writes is parsed with that text in front of it, so the answer to the boot ping is not seen as
  written.\<close>

theorem restart_keeps_partial_line:
  assumes "sidecar_inv s" and "\<not> sc_stopped s" and "sc_restarts s = []"
    and "lb_text (sc_lines s) = t" and "\<not> lb_overflowing (sc_lines s)"
    and "newline \<notin> set t" and "newline \<notin> set l" and "length (t @ l) \<le> env_max_line env"
  shows "let s' = run (sidecar_step env) s [Exit d, RestartFires now True] in
      sidecar_step env s' (Data now (l @ [newline])) =
        on_lines env [t @ l] (s'\<lparr>sc_last_activity := now, sc_lines := empty_buffer\<rparr>)"
proof -
  let ?e = "on_exit d s" and ?s = "run (sidecar_step env) s [Exit d, RestartFires now True]"
  obtain x xs where r: "sc_restarts ?e = x # xs" using on_exit_running[OF assms(2), of d] assms(3) by simp
  have a: "accounted (?e\<lparr>sc_restarts := xs\<rparr>)"
    using inv_on_exit[OF assms(1)] by (simp add: sidecar_inv_def accounted_def)
  have "sc_lines ?s = sc_lines ?e"
    using start_once_rejectable[OF a, of env now False] r by (simp add: restart_fires_def)
  then have b: "sc_lines ?s = sc_lines s" by (simp add: on_exit_def Let_def settle_simps)
  have ln: "sc_lines s = \<lparr>lb_text = t, lb_overflowing = False\<rparr>"
    using assms(4,5) by (cases "sc_lines s") auto
  have nt: "newline \<notin> set (t @ l)" using assms(6,7) by simp
  have ix: "index_of newline (t @ l @ [newline]) = Some (length (t @ l))"
  proof -
    have "takeWhile (\<lambda>y. y \<noteq> newline) ((t @ l) @ [newline]) = t @ l"
      using nt by (subst takeWhile_append2) auto
    then show ?thesis by (simp add: index_of_def)
  qed
  have "push (env_max_line env) (sc_lines s) (l @ [newline]) = (empty_buffer, [t @ l])"
    unfolding push_def ln using ix assms(8)
    by (simp add: push_loop.simps Let_def empty_buffer_def)
  then show ?thesis using b by (simp add: Let_def on_data_def)
qed

theorem restart_keeps_partial_line_witness:
  "let env = \<lparr>env_parse = (\<lambda>_. None), env_stringify = (\<lambda>_ _ _. ''{}''), env_idle = 60000, env_max_line = 100\<rparr>;
       s = (new_sidecar 0)\<lparr>sc_lines := \<lparr>lb_text = ''{\"id\":1,'', lb_overflowing = False\<rparr>\<rparr>;
       s' = run (sidecar_step env) s [Exit ''(code=1)'', RestartFires 600 True] in
   sidecar_step env s' (Data 600 (''{}'' @ [newline])) =
     on_lines env [''{\"id\":1,{}''] (s'\<lparr>sc_last_activity := 600, sc_lines := empty_buffer\<rparr>)"
proof -
  let ?env = "\<lparr>env_parse = (\<lambda>_. None), env_stringify = (\<lambda>_ _ _. ''{}''), env_idle = 60000, env_max_line = 100\<rparr>"
  let ?s = "(new_sidecar 0)\<lparr>sc_lines := \<lparr>lb_text = ''{\"id\":1,'', lb_overflowing = False\<rparr>\<rparr>"
  have "sidecar_inv ?s" using inv_new[of 0] by (simp add: sidecar_inv_def accounted_def sane_def)
  then show ?thesis
    using restart_keeps_partial_line[of ?s "''{\"id\":1,''" "''{}''" ?env "''(code=1)''" 600]
    by (simp add: new_sidecar_def Let_def)
qed

end
