(* ===== verification/Protocol.thy ===== *)
theory Protocol
  imports PathSchema
begin

text \<open>
  \<open>electron/main/protocolHandler.ts\<close> and \<open>electron/main/protocolSources.ts\<close>: the \<open>tuxbooks://\<close>
  handler and the byte sources it serves from. Sources are functions that return a thrown error or a
  payload; \<open>new URL\<close>, \<open>decodeURIComponent\<close>, the base64 decoder, the sidecar's answers and the file
  system are parameters. Bytes are natural numbers.
\<close>

section \<open>Errors and payloads\<close>

datatype thrown =
    NotFoundError string
  | SourceStatusError int string
  | RpcFailed string "int option"
  | NodeError string string        \<comment> \<open>code, message\<close>
  | PlainError string
  | Thrown string                  \<comment> \<open>a thrown value that is not an \<open>Error\<close>\<close>

record payload =
  pl_data :: string
  pl_offset :: int
  pl_total :: int

record book_sources =
  get_book_bytes :: "int \<Rightarrow> int option \<Rightarrow> int option \<Rightarrow> thrown + payload"
  get_book_resource :: "int \<Rightarrow> string \<Rightarrow> int option \<Rightarrow> int option \<Rightarrow> thrown + payload"
  read_cover :: "string \<Rightarrow> thrown + nat list"

section \<open>The sources\<close>

definition RPC_APP_ERROR :: int where "RPC_APP_ERROR = - 32000"
definition RPC_DEADLINE :: int where "RPC_DEADLINE = - 32001"
definition RPC_LIMIT :: int where "RPC_LIMIT = - 32002"
definition RPC_SANDBOX :: int where "RPC_SANDBOX = - 32003"

definition is_missing_entry :: "thrown \<Rightarrow> bool" where
  "is_missing_entry e = (case e of NodeError code _ \<Rightarrow> code = ''ENOENT'' \<or> code = ''EISDIR'' | _ \<Rightarrow> False)"

definition translate_source_error :: "thrown \<Rightarrow> thrown" where
  "translate_source_error e =
     (case e of
        NotFoundError _ \<Rightarrow> e
      | _ \<Rightarrow>
        if is_missing_entry e then NotFoundError ''not found''
        else (case e of
                RpcFailed _ code \<Rightarrow>
                  if code = Some RPC_APP_ERROR then NotFoundError ''not found''
                  else if code = Some RPC_DEADLINE then SourceStatusError 504 ''sidecar deadline exceeded''
                  else if code = Some RPC_LIMIT then SourceStatusError 413 ''sidecar resource limit exceeded''
                  else if code = Some RPC_SANDBOX then SourceStatusError 503 ''sidecar sandbox refused the request''
                  else e
              | Thrown t \<Rightarrow> PlainError t
              | _ \<Rightarrow> e))"

definition translated :: "thrown + 'a \<Rightarrow> thrown + 'a" where
  "translated r = (case r of Inl e \<Rightarrow> Inl (translate_source_error e) | Inr x \<Rightarrow> Inr x)"

text \<open>\<open>readCoverFile\<close>; the file-system calls return a thrown error or their result.\<close>

record cover_fs =
  fs_realpath :: "string \<Rightarrow> thrown + string"
  fs_read :: "string \<Rightarrow> thrown + nat list"

definition read_cover_file :: "cover_fs \<Rightarrow> string \<Rightarrow> string \<Rightarrow> string \<Rightarrow> thrown + nat list" where
  "read_cover_file fs cwd top_dir name =
     (let resolved = resolve cwd [top_dir, name] in
      if \<not> starts_with resolved (top_dir @ ''/'') then Inl (PlainError ''outside covers root'')
      else (case fs_realpath fs top_dir of
              Inl e \<Rightarrow> Inl e
            | Inr real_root \<Rightarrow>
                (case fs_realpath fs resolved of
                   Inl e \<Rightarrow> Inl e
                 | Inr real_file \<Rightarrow>
                     if real_file \<noteq> real_root \<and> \<not> starts_with real_file (real_root @ ''/'')
                     then Inl (PlainError ''outside covers root'')
                     else fs_read fs real_file)))"

definition opt_num :: "string \<Rightarrow> int option \<Rightarrow> (string \<times> js) list" where
  "opt_num k v = [(k, case v of None \<Rightarrow> Undef | Some i \<Rightarrow> Num (Fin (of_int i)))]"

definition make_protocol_sources ::
    "(string \<Rightarrow> js \<Rightarrow> thrown + payload) \<Rightarrow> (string \<Rightarrow> thrown + nat list) \<Rightarrow> book_sources" where
  "make_protocol_sources sidecar_call cover =
     \<lparr>get_book_bytes = (\<lambda>i off len. translated (sidecar_call ''get_book_bytes''
          (Obj ([(''bookId'', Num (Fin (of_int i)))] @ opt_num ''offset'' off @ opt_num ''length'' len)))),
      get_book_resource = (\<lambda>i m off len. translated (sidecar_call ''get_book_resource''
          (Obj ([(''bookId'', Num (Fin (of_int i))), (''path'', Str m)]
                @ opt_num ''offset'' off @ opt_num ''length'' len)))),
      read_cover = (\<lambda>n. translated (cover n))\<rparr>"

section \<open>Responses\<close>

datatype body = Text string | Bytes "nat list"

record response =
  r_status :: int
  r_headers :: "(string \<times> string) list"
  r_body :: body

definition CORS :: "(string \<times> string) list" where
  "CORS = [(''access-control-allow-origin'', ''*'')]"

definition text_response :: "int \<Rightarrow> string \<Rightarrow> response" where
  "text_response status t =
     \<lparr>r_status = status, r_headers = (''content-type'', ''text/plain'') # CORS, r_body = Text t\<rparr>"

definition bytes_response :: "nat list \<Rightarrow> string \<Rightarrow> int \<Rightarrow> (string \<times> string) list \<Rightarrow> response" where
  "bytes_response bytes content_type status extra =
     \<lparr>r_status = status,
      r_headers = [(''content-type'', content_type), (''content-length'', show_int (int (length bytes))),
                   (''accept-ranges'', ''bytes'')] @ extra @ CORS,
      r_body = Bytes bytes\<rparr>"

definition not_satisfiable :: "int \<Rightarrow> response" where
  "not_satisfiable tot =
     \<lparr>r_status = 416, r_headers = (''content-range'', ''bytes */'' @ show_int tot) # CORS,
      r_body = Text ''range not satisfiable''\<rparr>"

definition content_range :: "payload \<Rightarrow> nat list \<Rightarrow> (string \<times> string) list" where
  "content_range p bytes =
     [(''content-range'', ''bytes '' @ show_int (pl_offset p) @ ''-''
         @ show_int (pl_offset p + int (length bytes) - 1) @ ''/'' @ show_int (pl_total p))]"

definition source_status_body :: "int \<Rightarrow> string" where
  "source_status_body status =
     (if status = 413 then ''resource limit exceeded''
      else if status = 503 then ''service unavailable''
      else if status = 504 then ''gateway timeout''
      else ''internal error'')"

definition source_error :: "thrown \<Rightarrow> response" where
  "source_error e =
     (case e of
        NotFoundError _ \<Rightarrow> text_response 404 ''not found''
      | SourceStatusError status _ \<Rightarrow> text_response status (source_status_body status)
      | _ \<Rightarrow> text_response 500 ''internal error'')"

section \<open>The handler\<close>

record request =
  rq_url :: string
  rq_method :: string
  rq_range :: "string option"

record platform =
  new_url :: "string \<Rightarrow> url option"
  decode_uri :: "string \<Rightarrow> string option"
  from_base64 :: "string \<Rightarrow> nat list"

definition window_length :: "int \<Rightarrow> int option \<Rightarrow> int" where
  "window_length s e = (case e of None \<Rightarrow> max_safe | Some b \<Rightarrow> b) - s + 1"

definition serve_book_bytes ::
    "platform \<Rightarrow> url \<Rightarrow> request \<Rightarrow> book_sources \<Rightarrow> int \<Rightarrow> response" where
  "serve_book_bytes pf u rq src i =
     (case parse_range_header (rq_range rq) of
        RangeInvalid \<Rightarrow> text_response 416 ''invalid range''
      | RangeOk (Some s) e \<Rightarrow>
          (case get_book_bytes src i (Some s) (Some (window_length s e)) of
             Inl err \<Rightarrow> source_error err
           | Inr p \<Rightarrow>
               if pl_total p \<le> s then not_satisfiable (pl_total p)
               else let bytes = from_base64 pf (pl_data p) in
                 bytes_response bytes (book_source_mime (url_format u)) 206 (content_range p bytes))
      | _ \<Rightarrow>
          (case get_book_bytes src i None None of
             Inl err \<Rightarrow> source_error err
           | Inr p \<Rightarrow> bytes_response (from_base64 pf (pl_data p)) (book_source_mime (url_format u)) 200 []))"

definition serve_book_resource ::
    "platform \<Rightarrow> request \<Rightarrow> book_sources \<Rightarrow> int \<Rightarrow> string \<Rightarrow> response" where
  "serve_book_resource pf rq src i member =
     (case parse_range_header (rq_range rq) of
        RangeInvalid \<Rightarrow> text_response 416 ''invalid range''
      | RangeOk (Some s) e \<Rightarrow>
          (case get_book_resource src i member (Some s) (Some (window_length s e)) of
             Inl err \<Rightarrow> source_error err
           | Inr p \<Rightarrow>
               if pl_total p \<le> s then not_satisfiable (pl_total p)
               else let bytes = from_base64 pf (pl_data p) in
                 bytes_response bytes (header_text (member_mime member)) 206 (content_range p bytes))
      | _ \<Rightarrow>
          (case get_book_resource src i member None None of
             Inl err \<Rightarrow> source_error err
           | Inr p \<Rightarrow> bytes_response (from_base64 pf (pl_data p)) (header_text (member_mime member)) 200 []))"

definition serve_book :: "platform \<Rightarrow> url \<Rightarrow> request \<Rightarrow> book_sources \<Rightarrow> response" where
  "serve_book pf u rq src =
     (let rest = drop 1 (url_pathname u); slash_at = index_of slash rest in
      case parse_book_id (case slash_at of None \<Rightarrow> rest | Some k \<Rightarrow> take k rest) of
        None \<Rightarrow> text_response 400 ''invalid book id''
      | Some i \<Rightarrow>
          (case slash_at of
             None \<Rightarrow> serve_book_bytes pf u rq src i
           | Some k \<Rightarrow>
               (case Option.bind (decode_uri pf (drop (Suc k) rest)) parse_member_path of
                  None \<Rightarrow> text_response 400 ''invalid member path''
                | Some member \<Rightarrow> serve_book_resource pf rq src i member)))"

definition serve_cover :: "platform \<Rightarrow> url \<Rightarrow> book_sources \<Rightarrow> response" where
  "serve_cover pf u src =
     (case Option.bind (decode_uri pf (drop 1 (url_pathname u))) parse_cover_name of
        None \<Rightarrow> text_response 400 ''invalid cover name''
      | Some name \<Rightarrow>
          (case read_cover src name of
             Inl err \<Rightarrow> source_error err
           | Inr bytes \<Rightarrow> bytes_response bytes (header_text (cover_mime name)) 200 []))"

definition handle_protocol_request :: "platform \<Rightarrow> request \<Rightarrow> book_sources \<Rightarrow> response" where
  "handle_protocol_request pf rq src =
     (if rq_method rq \<noteq> ''GET'' then text_response 405 ''method not allowed''
      else (case new_url pf (rq_url rq) of
              None \<Rightarrow> text_response 400 ''malformed url''
            | Some u \<Rightarrow>
                if url_protocol u \<noteq> ''tuxbooks:'' then text_response 404 ''not found''
                else if url_host u = ''book'' then serve_book pf u rq src
                else if url_host u = ''cover'' then serve_cover pf u src
                else text_response 404 ''not found''))"

section \<open>Only validated arguments reach the sources\<close>

text \<open>Two sources that agree on every argument the schema can produce.\<close>

definition sources_agree :: "book_sources \<Rightarrow> book_sources \<Rightarrow> bool" where
  "sources_agree a b =
     ((\<forall>i. 0 < i \<and> i \<le> max_safe \<longrightarrow> get_book_bytes a i = get_book_bytes b i)
      \<and> (\<forall>i m. 0 < i \<and> i \<le> max_safe \<and> parse_member_path m = Some m \<longrightarrow>
               get_book_resource a i m = get_book_resource b i m)
      \<and> (\<forall>n. parse_cover_name n = Some n \<longrightarrow> read_cover a n = read_cover b n))"

lemma parse_book_id_bounds: "parse_book_id raw = Some i \<Longrightarrow> 0 < i \<and> i \<le> max_safe"
  by (auto simp: parse_book_id_def Let_def split: if_splits)

lemma bind_SomeD: "Option.bind x f = Some y \<Longrightarrow> \<exists>z. x = Some z \<and> f z = Some y"
  by (cases x) auto

lemma bind_member: "Option.bind x parse_member_path = Some m \<Longrightarrow> parse_member_path m = Some m"
  by (auto dest!: bind_SomeD simp: parse_member_path_Some)

lemma bind_cover: "Option.bind x parse_cover_name = Some n \<Longrightarrow> parse_cover_name n = Some n"
  by (auto dest!: bind_SomeD simp: parse_cover_name_def split: if_splits)

lemma serve_bytes_cong:
  "get_book_bytes a i = get_book_bytes b i \<Longrightarrow> serve_book_bytes pf u rq a i = serve_book_bytes pf u rq b i"
  by (simp add: serve_book_bytes_def split: range_parse.split option.split)

lemma serve_resource_cong:
  "get_book_resource a i m = get_book_resource b i m \<Longrightarrow>
     serve_book_resource pf rq a i m = serve_book_resource pf rq b i m"
  by (simp add: serve_book_resource_def split: range_parse.split option.split)

lemma serve_book_agree: "sources_agree a b \<Longrightarrow> serve_book pf u rq a = serve_book pf u rq b"
  unfolding sources_agree_def serve_book_def Let_def
  by (auto split: option.split dest!: parse_book_id_bounds bind_member intro!: serve_bytes_cong serve_resource_cong)

lemma serve_cover_agree: "sources_agree a b \<Longrightarrow> serve_cover pf u a = serve_cover pf u b"
  unfolding sources_agree_def serve_cover_def by (auto split: option.split dest!: bind_cover)

text \<open>The response of the protocol handler depends on its byte sources only through arguments the schema
  accepts: two sources that answer alike for positive safe book ids, accepted member paths and accepted
  cover names give the same response to every request, whatever its method, URL and range.\<close>

theorem protocol_validated_only:
  assumes "sources_agree a b"
  shows "handle_protocol_request pf rq a = handle_protocol_request pf rq b"
  unfolding handle_protocol_request_def
  by (simp add: serve_book_agree[OF assms] serve_cover_agree[OF assms] split: option.split)

definition no_sources :: book_sources where
  "no_sources = \<lparr>get_book_bytes = \<lambda>_ _ _. Inl (NotFoundError []), get_book_resource = \<lambda>_ _ _ _. Inl (NotFoundError []),
     read_cover = \<lambda>_. Inl (NotFoundError [])\<rparr>"

definition leaky_sources :: book_sources where
  "leaky_sources = no_sources\<lparr>read_cover := (\<lambda>n. if n = ''../secret'' then Inr [1] else Inl (NotFoundError []))\<rparr>"

definition demo_platform :: platform where
  "demo_platform = \<lparr>new_url = (\<lambda>_. Some \<lparr>url_protocol = ''tuxbooks:'', url_host = ''cover'', url_hostname = ''cover'',
      url_pathname = ''/../secret'', url_origin = ''null'', url_href = ''tuxbooks://cover/../secret'',
      url_username = '''', url_password = '''', url_format = None\<rparr>), decode_uri = Some, from_base64 = map code_of\<rparr>"

theorem protocol_validated_only_witness:
  "sources_agree leaky_sources no_sources
   \<and> handle_protocol_request demo_platform \<lparr>rq_url = ''x'', rq_method = ''GET'', rq_range = None\<rparr> leaky_sources
     = handle_protocol_request demo_platform \<lparr>rq_url = ''x'', rq_method = ''GET'', rq_range = None\<rparr> no_sources"
proof -
  have n: "parse_cover_name ''../secret'' = None" by code_simp
  have "sources_agree leaky_sources no_sources"
    using n by (auto simp: sources_agree_def leaky_sources_def no_sources_def)
  then show ?thesis using protocol_validated_only by blast
qed

section \<open>Status codes and bodies\<close>

definition allowed_reply :: "response \<Rightarrow> bool" where
  "allowed_reply r =
     (case r_body r of
        Bytes _ \<Rightarrow> r_status r \<in> {200, 206}
      | Text t \<Rightarrow> (r_status r, t) \<in> set
          [(400, ''invalid book id''), (400, ''invalid member path''), (400, ''invalid cover name''),
           (400, ''malformed url''), (404, ''not found''), (405, ''method not allowed''),
           (413, ''resource limit exceeded''), (416, ''invalid range''), (416, ''range not satisfiable''),
           (500, ''internal error''), (503, ''service unavailable''), (504, ''gateway timeout'')])"

definition closed_failure :: "thrown \<Rightarrow> bool" where
  "closed_failure e = (case e of SourceStatusError s _ \<Rightarrow> s \<in> {413, 503, 504} | _ \<Rightarrow> True)"

definition own_status_error :: "thrown \<Rightarrow> bool" where
  "own_status_error e = (case e of SourceStatusError _ _ \<Rightarrow> True | _ \<Rightarrow> False)"

lemma translate_closed: "\<not> own_status_error e \<Longrightarrow> closed_failure (translate_source_error e)"
  by (cases e) (auto simp: translate_source_error_def closed_failure_def own_status_error_def is_missing_entry_def)

lemma source_error_allowed: "closed_failure e \<Longrightarrow> allowed_reply (source_error e)"
  by (cases e) (auto simp: source_error_def closed_failure_def allowed_reply_def text_response_def
      source_status_body_def)

lemma bytes_allowed: "s \<in> {200, 206} \<Longrightarrow> allowed_reply (bytes_response b t s x)"
  by (simp add: allowed_reply_def bytes_response_def)

lemma not_satisfiable_allowed: "allowed_reply (not_satisfiable n)"
  by (simp add: allowed_reply_def not_satisfiable_def)

lemma text_allowed:
  "allowed_reply (text_response 400 ''invalid book id'')" "allowed_reply (text_response 400 ''invalid member path'')"
  "allowed_reply (text_response 400 ''invalid cover name'')" "allowed_reply (text_response 400 ''malformed url'')"
  "allowed_reply (text_response 404 ''not found'')" "allowed_reply (text_response 405 ''method not allowed'')"
  "allowed_reply (text_response 416 ''invalid range'')"
  by (simp_all add: allowed_reply_def text_response_def)

lemmas reply_allowed = source_error_allowed bytes_allowed not_satisfiable_allowed text_allowed

text \<open>Sources whose every failure is closed.\<close>

definition closed_sources :: "book_sources \<Rightarrow> bool" where
  "closed_sources src =
     ((\<forall>i f l e. get_book_bytes src i f l = Inl e \<longrightarrow> closed_failure e)
      \<and> (\<forall>i m f l e. get_book_resource src i m f l = Inl e \<longrightarrow> closed_failure e)
      \<and> (\<forall>n e. read_cover src n = Inl e \<longrightarrow> closed_failure e))"

lemma translated_Inl: "translated r = Inl e \<longleftrightarrow> (\<exists>e'. r = Inl e' \<and> e = translate_source_error e')"
  by (cases r) (auto simp: translated_def)

lemma make_sources_closed:
  assumes "\<And>m q e. sc m q = Inl e \<Longrightarrow> \<not> own_status_error e"
    and "\<And>n e. cov n = Inl e \<Longrightarrow> \<not> own_status_error e"
  shows "closed_sources (make_protocol_sources sc cov)"
  unfolding closed_sources_def make_protocol_sources_def
  by (auto simp: translated_Inl dest!: assms intro: translate_closed)

lemma serve_book_allowed: "closed_sources src \<Longrightarrow> allowed_reply (serve_book pf u rq src)"
  unfolding serve_book_def serve_book_bytes_def serve_book_resource_def Let_def closed_sources_def
  by (auto split: option.split range_parse.split sum.split intro!: reply_allowed)

lemma serve_cover_allowed: "closed_sources src \<Longrightarrow> allowed_reply (serve_cover pf u src)"
  unfolding serve_cover_def closed_sources_def
  by (auto split: option.split sum.split intro!: reply_allowed)

text \<open>C3. Over the sidecar-backed sources every response is either bytes with status 200 or 206 or one of
  twelve fixed texts under its fixed status: no upstream message, path or status outside the table
  reaches the renderer. The four typed sidecar codes give 404, 504, 413 and 503 on a whole-book read.\<close>

theorem protocol_fixed_replies:
  assumes "\<forall>m q e. sc m q = Inl e \<longrightarrow> \<not> own_status_error e"
    and "\<forall>n e. cov n = Inl e \<longrightarrow> \<not> own_status_error e"
  shows "allowed_reply (handle_protocol_request pf rq (make_protocol_sources sc cov))
    \<and> (\<forall>u i c. parse_range_header (rq_range rq) = RangeNone \<longrightarrow> (\<forall>q. sc ''get_book_bytes'' q = Inl (RpcFailed msg (Some c))) \<longrightarrow>
         r_status (serve_book_bytes pf u rq (make_protocol_sources sc cov) i) =
           (if c = - 32000 then 404 else if c = - 32001 then 504 else if c = - 32002 then 413
            else if c = - 32003 then 503 else 500))"
proof -
  have cl: "closed_sources (make_protocol_sources sc cov)"
    using make_sources_closed[of sc cov] assms by blast
  then have "allowed_reply (handle_protocol_request pf rq (make_protocol_sources sc cov))"
    unfolding handle_protocol_request_def
    by (auto split: option.split intro: serve_book_allowed serve_cover_allowed reply_allowed)
  then show ?thesis
    by (auto simp: serve_book_bytes_def make_protocol_sources_def translated_def translate_source_error_def
        is_missing_entry_def source_error_def text_response_def RPC_APP_ERROR_def RPC_DEADLINE_def
        RPC_LIMIT_def RPC_SANDBOX_def)
qed

theorem protocol_fixed_replies_witness:
  "r_status (serve_book_bytes demo_platform (the (new_url demo_platform ''x''))
      \<lparr>rq_url = ''x'', rq_method = ''GET'', rq_range = None\<rparr>
      (make_protocol_sources (\<lambda>_ _. Inl (RpcFailed ''/home/u/book.epub'' (Some (- 32001)))) (\<lambda>_. Inl (PlainError [])))
      7) = 504"
proof -
  have o: "\<not> own_status_error (RpcFailed ''/home/u/book.epub'' (Some (- 32001)))" "\<not> own_status_error (PlainError [])"
    by (simp_all add: own_status_error_def)
  have r: "parse_range_header (rq_range \<lparr>rq_url = ''x'', rq_method = ''GET'', rq_range = None\<rparr>) = RangeNone"
    by (simp add: parse_range_header_def)
  show ?thesis
    using protocol_fixed_replies[of "\<lambda>_ _. Inl (RpcFailed ''/home/u/book.epub'' (Some (- 32001)))"
        "\<lambda>_. Inl (PlainError [])" demo_platform "\<lparr>rq_url = ''x'', rq_method = ''GET'', rq_range = None\<rparr>"
        "''/home/u/book.epub''"] o r by (auto simp del: r)
qed

section \<open>Ranged reads\<close>

text \<open>A book whose bytes are \<open>file\<close>, read through a source that slices it and encodes the slice.\<close>

definition slices_of :: "nat list \<Rightarrow> (nat list \<Rightarrow> string) \<Rightarrow> book_sources \<Rightarrow> int \<Rightarrow> bool" where
  "slices_of file enc src i =
     ((\<forall>s l. 0 \<le> s \<longrightarrow> 0 \<le> l \<longrightarrow> get_book_bytes src i (Some s) (Some l) =
         Inr \<lparr>pl_data = enc (take (nat l) (drop (nat s) file)), pl_offset = s, pl_total = int (length file)\<rparr>)
      \<and> get_book_bytes src i None None =
         Inr \<lparr>pl_data = enc file, pl_offset = 0, pl_total = int (length file)\<rparr>)"

text \<open>The window of a range request, cut at the end of the file.\<close>

lemma ranged_read:
  assumes src: "slices_of file enc src i" and dec: "\<forall>n m. from_base64 pf (enc (take n (drop m file))) = take n (drop m file)"
    and sz: "int (length file) \<le> max_safe" and ok: "parse_range_header (rq_range rq) = RangeOk s e"
  shows "serve_book_bytes pf u rq src i =
    (case s of
       None \<Rightarrow> bytes_response file (book_source_mime (url_format u)) 200 []
     | Some a \<Rightarrow>
         if int (length file) \<le> a then not_satisfiable (int (length file))
         else let stop_at = (case e of None \<Rightarrow> length file | Some b \<Rightarrow> min (nat b + 1) (length file));
                  bytes = take (stop_at - nat a) (drop (nat a) file) in
           bytes_response bytes (book_source_mime (url_format u)) 206
             [(''content-range'', ''bytes '' @ show_int a @ ''-'' @ show_int (int stop_at - 1) @ ''/''
                 @ show_int (int (length file)))])"
proof (cases s)
  case None
  have "from_base64 pf (enc file) = file" using dec[rule_format, of "length file" 0] by simp
  then show ?thesis using None ok src by (simp add: serve_book_bytes_def slices_of_def)
next
  case (Some a)
  have b: "0 \<le> a \<and> a \<le> max_safe \<and> (\<forall>b. e = Some b \<longrightarrow> a \<le> b)"
    using range_ok_bounds[OF ok] Some by auto
  then have w: "0 \<le> window_length a e" by (cases e) (auto simp: window_length_def)
  have g: "get_book_bytes src i (Some a) (Some (window_length a e)) =
      Inr \<lparr>pl_data = enc (take (nat (window_length a e)) (drop (nat a) file)), pl_offset = a,
           pl_total = int (length file)\<rparr>"
    using src b w by (simp add: slices_of_def)
  show ?thesis
  proof (cases "int (length file) \<le> a")
    case True
    then show ?thesis using ok Some g by (simp add: serve_book_bytes_def)
  next
    case False
    let ?stop = "case e of None \<Rightarrow> length file | Some b \<Rightarrow> min (nat b + 1) (length file)"
    have t: "take (nat (window_length a e)) (drop (nat a) file) = take (?stop - nat a) (drop (nat a) file)"
    proof (cases e)
      case (Some c)
      then have "nat (c - a + 1) = Suc (nat c) - nat a" using b by (auto simp: nat_eq_iff)
      moreover have "\<not> Suc (nat c) \<le> length file \<Longrightarrow> length file - nat a \<le> Suc (nat c) - nat a" by simp
      ultimately show ?thesis using Some b by (auto simp: window_length_def min_def)
    qed (use b sz False in \<open>auto simp: window_length_def\<close>)
    have "a + int (length (take (?stop - nat a) (drop (nat a) file))) - 1 = int ?stop - 1"
      using b False by (cases e) (auto simp: min_def)
    then show ?thesis using ok Some g dec False t
      by (simp add: serve_book_bytes_def content_range_def Let_def)
  qed
qed

text \<open>C4. For a source that serves slices of a file shorter than 2^53 bytes, a range with a start inside the file
  is answered 206 with exactly the requested bytes (cut at the end of the file) and a
  \<open>content-range\<close> naming their first and last position and the file's length; a start at or past the end is
  answered 416 with the length, and a request without a start gets the whole file.\<close>

theorem ranged_read_exact:
  assumes src: "slices_of file enc src i" and dec: "\<forall>n m. from_base64 pf (enc (take n (drop m file))) = take n (drop m file)"
    and sz: "int (length file) \<le> max_safe" and ok: "parse_range_header (rq_range rq) = RangeOk s e"
  shows "serve_book_bytes pf u rq src i =
    (case s of
       None \<Rightarrow> bytes_response file (book_source_mime (url_format u)) 200 []
     | Some a \<Rightarrow>
         if int (length file) \<le> a then not_satisfiable (int (length file))
         else let stop_at = (case e of None \<Rightarrow> length file | Some b \<Rightarrow> min (nat b + 1) (length file));
                  bytes = take (stop_at - nat a) (drop (nat a) file) in
           bytes_response bytes (book_source_mime (url_format u)) 206
             [(''content-range'', ''bytes '' @ show_int a @ ''-'' @ show_int (int stop_at - 1) @ ''/''
                 @ show_int (int (length file)))])"
  using ranged_read[OF assms] .

definition demo_book :: book_sources where
  "demo_book = no_sources\<lparr>get_book_bytes := (\<lambda>_ s l.
     case s of Some a \<Rightarrow> Inr \<lparr>pl_data = map char_of (take (nat (the l)) (drop (nat a) [7, 8, 9 :: nat])), pl_offset = a, pl_total = 3\<rparr>
     | None \<Rightarrow> Inr \<lparr>pl_data = map char_of [7, 8, 9 :: nat], pl_offset = 0, pl_total = 3\<rparr>)\<rparr>"

theorem ranged_read_exact_witness:
  "serve_book_bytes demo_platform (the (new_url demo_platform ''x''))
      \<lparr>rq_url = ''x'', rq_method = ''GET'', rq_range = Some ''bytes=1-2''\<rparr> demo_book 1
   = bytes_response [8, 9] octet_stream 206 [(''content-range'', ''bytes 1-2/3'')]"
  (is "serve_book_bytes _ ?u ?rq _ _ = _")
proof -
  have p: "parse_range_header (rq_range ?rq) = RangeOk (Some 1) (Some 2)" by code_simp
  have s: "slices_of [7, 8, 9] (map char_of) demo_book 1"
    by (simp add: slices_of_def demo_book_def no_sources_def)
  have d: "\<forall>n m. from_base64 demo_platform (map char_of (take n (drop m [7, 8, 9 :: nat]))) = take n (drop m [7, 8, 9])"
    by (auto simp: demo_platform_def o_def dest!: in_set_takeD in_set_dropD intro!: map_idI)
  have n: "show_int 1 = ''1''" "show_int 2 = ''2''" "show_int 3 = ''3''" by code_simp+
  have f: "book_source_mime (url_format ?u) = octet_stream" by (simp add: demo_platform_def book_source_mime_def)
  show ?thesis
    using ranged_read_exact[OF s d _ p, of ?u] n f by (simp add: max_safe_def Let_def numeral_2_eq_2)
qed

section \<open>Cover reads\<close>

text \<open>C8. With a normal absolute cache root that is not the file-system root, an accepted cover name passes the lexical check and
  reads exactly the real path of that file when it lies in the real root, and fails otherwise; whatever
  the name, no file outside the real root is read: two file systems that differ only there give the
  same result.\<close>

theorem cover_read_contained:
  assumes "parse_cover_name n = Some m" and "is_absolute cwd"
    and "resolve cwd [top_dir] = top_dir" and "top_dir \<noteq> ''/''"
  shows "read_cover_file fs cwd top_dir n =
      (case fs_realpath fs top_dir of
         Inl e \<Rightarrow> Inl e
       | Inr real_root \<Rightarrow>
           (case fs_realpath fs (top_dir @ ''/'' @ n) of
              Inl e \<Rightarrow> Inl e
            | Inr real_file \<Rightarrow>
                if real_file = real_root \<or> prefix (real_root @ ''/'') real_file then fs_read fs real_file
                else Inl (PlainError ''outside covers root'')))
    \<and> (\<forall>name reads. (\<forall>real_root f. fs_realpath fs top_dir = Inr real_root \<longrightarrow>
            (f = real_root \<or> prefix (real_root @ ''/'') f) \<longrightarrow> reads f = fs_read fs f) \<longrightarrow>
          read_cover_file (fs\<lparr>fs_read := reads\<rparr>) cwd top_dir name = read_cover_file fs cwd top_dir name)"
proof -
  have r: "resolve cwd [top_dir, n] = top_dir @ ''/'' @ n"
    using resolve_cover[OF assms(1,2), of top_dir] assms(3,4) by simp
  then have "starts_with (resolve cwd [top_dir, n]) (top_dir @ ''/'')" by (simp add: starts_with_prefix)
  then show ?thesis
    by (auto simp: read_cover_file_def Let_def r starts_with_prefix split: sum.split)
qed

definition demo_fs :: cover_fs where
  "demo_fs = \<lparr>fs_realpath = (\<lambda>p. if p = ''/c/a.png'' then Inr ''/etc/passwd'' else Inr p), fs_read = (\<lambda>_. Inr [1])\<rparr>"

theorem cover_read_contained_witness:
  "read_cover_file demo_fs ''/'' ''/c'' ''a.png'' = Inl (PlainError ''outside covers root'')"
proof -
  have h: "parse_cover_name ''a.png'' = Some ''a.png''" "is_absolute ''/''" "resolve ''/'' [''/c''] = ''/c''"
    by code_simp+
  show ?thesis using cover_read_contained[OF h, of demo_fs] by (simp add: demo_fs_def)
qed

end
