(* ===== verification/AppState.thy ===== *)
theory AppState
  imports Prelude
begin

text \<open>
  \<open>frontend/src/state/appState.ts\<close>: the application state and its reducer. Returning the same object
  to skip a render is not visible here; an absent optional field and \<open>null\<close> are both \<open>None\<close>.
\<close>

section \<open>State and actions\<close>

datatype app_view = VLibrary | VDetail | VReader

datatype detail_tab = TOverview | TMetadata | THighlights | TBookmarks

datatype smart_section = AllBooks | RecentlyAdded | RecentlyRead | InProgress | Finished

datatype book_sort = SectionOrder | DateAdded | LastRead | ByTitle | ByAuthor

datatype book_format = EPUB | PDF

datatype library_section = Smart smart_section | Collection "int list" | ReadingHistory

datatype select_mode = Replace | Toggle | Range

record app_state =
  app_view :: app_view
  app_section :: library_section
  selected_book :: "int option"
  selected_books :: "int list"
  selection_anchor :: "int option"
  collection_anchor :: "int option"
  app_tab :: "detail_tab option"
  reader_target :: "int option"
  library_query :: string
  format_filter :: "book_format list"
  library_sort :: book_sort
  settings_open :: bool

datatype app_action =
    SelectSection library_section
  | SelectCollection int select_mode "int list"
  | LibrarySelect int
  | LibraryContextSelect int
  | LibraryToggleSelect int
  | LibraryRangeSelect int "int list"
  | ClearLibrarySelection
  | CollectionDeleted int
  | OpenBookDetail int "detail_tab option"
  | OpenReader int "int option"
  | ReaderTargetConsumed
  | ReturnToLibrary
  | SelectDetailTab detail_tab
  | SetLibraryQuery string
  | SetFormatFilter "book_format list"
  | SetLibrarySort book_sort
  | OpenSettings
  | CloseSettings

definition initial_app_state :: app_state where
  "initial_app_state =
     \<lparr>app_view = VLibrary, app_section = Smart AllBooks, selected_book = None, selected_books = [],
      selection_anchor = None, collection_anchor = None, app_tab = Some TOverview,
      reader_target = None, library_query = '''', format_filter = [], library_sort = SectionOrder,
      settings_open = False\<rparr>"

section \<open>The reducer\<close>

definition reduce_settings :: "app_state \<Rightarrow> bool \<Rightarrow> app_state" where
  "reduce_settings s opening = (if settings_open s = opening then s else s\<lparr>settings_open := opening\<rparr>)"

text \<open>The ids on screen between two positions, both included.\<close>

definition slice_between :: "'a list \<Rightarrow> nat \<Rightarrow> nat \<Rightarrow> 'a list" where
  "slice_between xs i j = take (Suc (max i j) - min i j) (drop (min i j) xs)"

definition anchored_range :: "int option \<Rightarrow> int \<Rightarrow> int list \<Rightarrow> int list" where
  "anchored_range anchor target visible =
     (case (Option.bind anchor (\<lambda>a. index_of a visible), index_of target visible) of
        (Some i, Some j) \<Rightarrow> slice_between visible i j
      | _ \<Rightarrow> [target])"

fun reduce_library_selection :: "app_state \<Rightarrow> app_action \<Rightarrow> app_state" where
  "reduce_library_selection s (LibrarySelect b) = s\<lparr>selected_books := [b], selection_anchor := Some b\<rparr>"
| "reduce_library_selection s (LibraryContextSelect b) = s\<lparr>selected_books := [b]\<rparr>"
| "reduce_library_selection s (LibraryToggleSelect b) =
     s\<lparr>selected_books := (if b \<in> set (selected_books s) then filter (\<lambda>i. i \<noteq> b) (selected_books s)
                         else selected_books s @ [b]),
       selection_anchor := Some b\<rparr>"
| "reduce_library_selection s (LibraryRangeSelect b visible) =
     s\<lparr>selected_books := anchored_range (selection_anchor s) b visible\<rparr>"
| "reduce_library_selection s ClearLibrarySelection =
     (if selected_books s = [] \<and> selection_anchor s = None then s
      else s\<lparr>selected_books := [], selection_anchor := None\<rparr>)"
| "reduce_library_selection s _ = s"

definition collection_place :: "int list \<Rightarrow> library_section" where
  "collection_place ids = (if ids = [] then Smart AllBooks else Collection ids)"

definition enter_place :: "app_state \<Rightarrow> library_section \<Rightarrow> int option \<Rightarrow> app_state" where
  "enter_place s sec anchor =
     s\<lparr>app_view := VLibrary, app_section := sec, collection_anchor := anchor, library_query := '''',
       selected_books := [], selection_anchor := None\<rparr>"

definition in_sidebar_order :: "int list \<Rightarrow> int list \<Rightarrow> int list" where
  "in_sidebar_order ids visible =
     foldl (\<lambda>ordered i. if i \<in> set ordered then ordered else ordered @ [i])
       (filter (\<lambda>i. i \<in> set ids) visible) ids"

definition section_ids :: "library_section \<Rightarrow> int list" where
  "section_ids sec = (case sec of Collection ids \<Rightarrow> ids | _ \<Rightarrow> [])"

definition reduce_collection_selection :: "app_state \<Rightarrow> int \<Rightarrow> select_mode \<Rightarrow> int list \<Rightarrow> app_state" where
  "reduce_collection_selection s c mode visible =
     (let current = section_ids (app_section s);
          (ids, anchor) =
            (case mode of
               Replace \<Rightarrow> ([c], Some c)
             | Toggle \<Rightarrow> (if c \<in> set current then filter (\<lambda>i. i \<noteq> c) current else current @ [c], Some c)
             | Range \<Rightarrow> (anchored_range (collection_anchor s) c visible, collection_anchor s));
          ordered = in_sidebar_order ids visible in
      enter_place s (collection_place ordered) (if ordered = [] then None else anchor))"

definition last_option :: "'a list \<Rightarrow> 'a option" where
  "last_option xs = (if xs = [] then None else Some (last xs))"

definition reduce_collection_deleted :: "app_state \<Rightarrow> int \<Rightarrow> app_state" where
  "reduce_collection_deleted s c =
     (case app_section s of
        Collection old \<Rightarrow>
          (let ids = filter (\<lambda>i. i \<noteq> c) old in
           if length ids = length old then s
           else enter_place s (collection_place ids)
                  (if collection_anchor s = Some c then last_option ids else collection_anchor s))
      | _ \<Rightarrow> s)"

fun app_state_reducer :: "app_state \<Rightarrow> app_action \<Rightarrow> app_state" where
  "app_state_reducer s OpenSettings = reduce_settings s True"
| "app_state_reducer s CloseSettings = reduce_settings s False"
| "app_state_reducer s (SelectCollection c mode visible) = reduce_collection_selection s c mode visible"
| "app_state_reducer s (CollectionDeleted c) = reduce_collection_deleted s c"
| "app_state_reducer s (SelectSection sec) =
     enter_place s sec (case sec of Collection ids \<Rightarrow> last_option ids | _ \<Rightarrow> None)"
| "app_state_reducer s (OpenBookDetail b tab) =
     s\<lparr>app_view := VDetail, selected_book := Some b,
       app_tab := Some (case tab of None \<Rightarrow> TOverview | Some t \<Rightarrow> t)\<rparr>"
| "app_state_reducer s (OpenReader b annotation) =
     s\<lparr>app_view := VReader, selected_book := Some b, reader_target := annotation\<rparr>"
| "app_state_reducer s ReaderTargetConsumed =
     (if reader_target s = None then s else s\<lparr>reader_target := None\<rparr>)"
| "app_state_reducer s ReturnToLibrary = s\<lparr>app_view := VLibrary\<rparr>"
| "app_state_reducer s (SelectDetailTab t) = (if app_tab s = Some t then s else s\<lparr>app_tab := Some t\<rparr>)"
| "app_state_reducer s (SetLibraryQuery q) = (if library_query s = q then s else s\<lparr>library_query := q\<rparr>)"
| "app_state_reducer s (SetFormatFilter fs) =
     (let unchanged = (length (format_filter s) = length fs
            \<and> (\<forall>(a, b) \<in> set (zip (format_filter s) fs). a = b)) in
      if unchanged then s else s\<lparr>format_filter := fs\<rparr>)"
| "app_state_reducer s (SetLibrarySort srt) =
     (if library_sort s = srt then s else s\<lparr>library_sort := srt\<rparr>)"
| "app_state_reducer s a = reduce_library_selection s a"

definition same_section :: "library_section \<Rightarrow> library_section \<Rightarrow> bool" where
  "same_section a b =
     (case (a, b) of
        (Smart x, Smart y) \<Rightarrow> x = y
      | (Collection xs, Collection ys) \<Rightarrow>
          length xs = length ys \<and> (\<forall>(x, y) \<in> set (zip xs ys). x = y)
      | (ReadingHistory, ReadingHistory) \<Rightarrow> True
      | _ \<Rightarrow> False)"

section \<open>Ranges\<close>

lemma slice_between_commute: "slice_between xs i j = slice_between xs j i"
  by (simp add: slice_between_def max.commute min.commute)

lemma set_take_nth: "n \<le> length ys \<Longrightarrow> set (take n ys) = {ys ! k | k. k < n}"
  by (auto simp: set_conv_nth) (metis nth_take)

lemma set_slice_between:
  assumes "i < length xs" and "j < length xs"
  shows "set (slice_between xs i j) = {xs ! k | k. min i j \<le> k \<and> k \<le> max i j}"
proof -
  let ?a = "min i j" and ?b = "max i j"
  have b: "?a \<le> ?b" "?b < length xs" using assms by auto
  have "set (slice_between xs i j) = {drop ?a xs ! k | k. k < Suc ?b - ?a}"
    using set_take_nth[of "Suc ?b - ?a" "drop ?a xs"] diff_le_mono[OF Suc_leI[OF b(2)], of ?a]
    by (simp add: slice_between_def del: nth_drop)
  also have "\<dots> = {xs ! k | k. ?a \<le> k \<and> k \<le> ?b}"
  proof (intro set_eqI iffI)
    fix x assume "x \<in> {drop ?a xs ! k | k. k < Suc ?b - ?a}"
    then obtain k where "k < Suc ?b - ?a" "x = xs ! (?a + k)" using b by auto
    then show "x \<in> {xs ! k | k. ?a \<le> k \<and> k \<le> ?b}" using b by (auto intro!: exI[of _ "?a + k"])
  next
    fix x assume "x \<in> {xs ! k | k. ?a \<le> k \<and> k \<le> ?b}"
    then obtain k where k: "?a \<le> k" "k \<le> ?b" "x = xs ! k" by auto
    moreover from k b have "?a \<le> length xs" "?a + (k - ?a) = k" by auto
    ultimately have "drop ?a xs ! (k - ?a) = x" by (metis nth_drop)
    then show "x \<in> {drop ?a xs ! k | k. k < Suc ?b - ?a}" using k by (auto intro!: exI[of _ "k - ?a"])
  qed
  finally show ?thesis .
qed

lemma anchored_range_both:
  assumes "index_of a visible = Some i" and "index_of b visible = Some j"
  shows "set (anchored_range (Some a) b visible) = {visible ! k | k. min i j \<le> k \<and> k \<le> max i j}"
  using assms set_slice_between[of i visible j] index_of_Some[of a visible i] index_of_Some[of b visible j]
  by (simp add: anchored_range_def)

lemma distinct_anchored_range: "distinct visible \<Longrightarrow> distinct (anchored_range anchor b visible)"
  by (auto simp: anchored_range_def slice_between_def split: option.split)

lemma anchored_range_nonempty: "anchored_range anchor b visible \<noteq> []"
proof (cases "anchored_range anchor b visible = [b]")
  case False
  then obtain a i j where s: "anchor = Some a" "index_of a visible = Some i" "index_of b visible = Some j"
    by (cases anchor) (auto simp: anchored_range_def split: option.splits)
  have "b \<in> set (anchored_range anchor b visible)"
    using anchored_range_both[OF s(2,3)] index_of_Some[OF s(3)] s(1)
    by (auto intro!: exI[of _ j])
  then show ?thesis by auto
qed simp
lemma range_keeps_anchor:
  assumes "list_all (\<lambda>e. \<exists>b v. e = LibraryRangeSelect b v \<or> e = LibraryContextSelect b) es"
  shows "selection_anchor (run app_state_reducer s es) = selection_anchor s"
  using assms by (induction es arbitrary: s) auto

text \<open>A Shift-click selects exactly the visible books from the anchor to the clicked one, both
  included, in the order on screen, and alone the clicked one when the anchor or it is not visible. Any
  Shift-clicks and right clicks made in between do not change what it selects.\<close>

theorem range_select_exact:
  assumes "list_all (\<lambda>e. \<exists>b v. e = LibraryRangeSelect b v \<or> e = LibraryContextSelect b) es"
  shows "selected_books (run app_state_reducer s (LibraryToggleSelect a # es @ [LibraryRangeSelect b visible])) =
      (case (index_of a visible, index_of b visible) of
         (Some i, Some j) \<Rightarrow> take (Suc (max i j) - min i j) (drop (min i j) visible)
       | _ \<Rightarrow> [b])
    \<and> (\<forall>i j. index_of a visible = Some i \<longrightarrow> index_of b visible = Some j \<longrightarrow>
        set (selected_books (run app_state_reducer s (LibraryToggleSelect a # es @ [LibraryRangeSelect b visible])))
        = {visible ! k | k. min i j \<le> k \<and> k \<le> max i j})"
proof -
  let ?t = "app_state_reducer s (LibraryToggleSelect a)"
  have "selection_anchor (run app_state_reducer ?t es) = Some a"
    using range_keeps_anchor[OF assms, of ?t] by simp
  then have "selected_books (run app_state_reducer s (LibraryToggleSelect a # es @ [LibraryRangeSelect b visible]))
      = anchored_range (Some a) b visible"
    by (simp add: run_append)
  then show ?thesis
    using anchored_range_both[of a visible _ b]
    by (auto simp: anchored_range_def slice_between_def split: option.split)
qed

theorem range_select_exact_witness:
  "selected_books (run app_state_reducer initial_app_state
      [LibraryToggleSelect 4, LibraryContextSelect 9, LibraryRangeSelect 2 [1, 2, 3, 4, 9]]) = [2, 3, 4]"
proof -
  have "list_all (\<lambda>e. \<exists>b v. e = LibraryRangeSelect b v \<or> e = LibraryContextSelect b) [LibraryContextSelect 9]"
    by simp
  from range_select_exact[OF this, of initial_app_state 4 2 "[1, 2, 3, 4, 9]"]
  show ?thesis by (simp add: index_of_def)
qed

section \<open>The sidebar order\<close>

lemma dedup_foldl:
  "set (foldl (\<lambda>ordered i. if i \<in> set ordered then ordered else ordered @ [i]) acc ids) = set acc \<union> set ids"
  "distinct acc \<Longrightarrow> distinct (foldl (\<lambda>ordered i. if i \<in> set ordered then ordered else ordered @ [i]) acc ids)"
  by (induction ids arbitrary: acc) auto

lemma dedup_foldl_distinct:
  "distinct ids \<Longrightarrow> foldl (\<lambda>ordered i. if i \<in> set ordered then ordered else ordered @ [i]) acc ids
     = acc @ filter (\<lambda>i. i \<notin> set acc) ids"
proof (induction ids arbitrary: acc)
  case (Cons x xs)
  then show ?case by (auto intro!: filter_cong)
qed simp

lemma set_in_sidebar_order [simp]: "set (in_sidebar_order ids visible) = set ids"
  by (auto simp: in_sidebar_order_def dedup_foldl(1))

lemma distinct_in_sidebar_order: "distinct visible \<Longrightarrow> distinct (in_sidebar_order ids visible)"
  by (simp add: in_sidebar_order_def dedup_foldl(2))

lemma in_sidebar_order_Nil [simp]: "in_sidebar_order ids visible = [] \<longleftrightarrow> ids = []"
  by (metis set_empty2 set_in_sidebar_order set_empty)

lemma in_sidebar_order_split:
  assumes "distinct ids"
  shows "in_sidebar_order ids visible =
     filter (\<lambda>i. i \<in> set ids) visible @ filter (\<lambda>i. i \<notin> set visible) ids"
proof -
  have "filter (\<lambda>i. i \<notin> set (filter (\<lambda>i. i \<in> set ids) visible)) ids = filter (\<lambda>i. i \<notin> set visible) ids"
    by (rule filter_cong) auto
  then show ?thesis using assms by (simp add: in_sidebar_order_def dedup_foldl_distinct)
qed

section \<open>The invariant\<close>

definition app_inv :: "app_state \<Rightarrow> bool" where
  "app_inv s \<longleftrightarrow>
     (case app_section s of Collection ids \<Rightarrow> ids \<noteq> [] \<and> distinct ids | _ \<Rightarrow> True)
     \<and> distinct (selected_books s)
     \<and> (app_view s \<noteq> VLibrary \<longrightarrow> selected_book s \<noteq> None)"

text \<open>The lists an action carries have no duplicates, and a collection place names a collection.\<close>

fun well_formed_action :: "app_action \<Rightarrow> bool" where
  "well_formed_action (SelectSection (Collection ids)) = (ids \<noteq> [] \<and> distinct ids)"
| "well_formed_action (SelectCollection c mode visible) = distinct visible"
| "well_formed_action (LibraryRangeSelect b visible) = distinct visible"
| "well_formed_action _ = True"

lemma enter_place_inv:
  "(case sec of Collection ids \<Rightarrow> ids \<noteq> [] \<and> distinct ids | _ \<Rightarrow> True) \<Longrightarrow> app_inv (enter_place s sec a)"
  by (simp add: app_inv_def enter_place_def)

lemma collection_place_inv: "distinct ids \<Longrightarrow> app_inv (enter_place s (collection_place ids) a)"
  by (rule enter_place_inv) (simp add: collection_place_def)

lemma collection_selection_inv:
  "distinct visible \<Longrightarrow> app_inv (reduce_collection_selection s c mode visible)"
  unfolding reduce_collection_selection_def Let_def
  by (auto split: prod.split intro!: collection_place_inv distinct_in_sidebar_order)

lemma collection_deleted_inv:
  assumes "app_inv s"
  shows "app_inv (reduce_collection_deleted s c)"
proof (cases "app_section s")
  case (Collection old)
  then have "distinct (filter (\<lambda>i. i \<noteq> c) old)" using assms by (simp add: app_inv_def)
  then show ?thesis
    using Collection assms collection_place_inv by (simp add: reduce_collection_deleted_def Let_def)
qed (use assms in \<open>simp_all add: reduce_collection_deleted_def\<close>)

lemma library_selection_inv: "app_inv s \<Longrightarrow> well_formed_action a \<Longrightarrow> app_inv (reduce_library_selection s a)"
  by (cases a) (auto simp: app_inv_def intro: distinct_anchored_range)

lemma reducer_inv:
  assumes "app_inv s" and "well_formed_action a"
  shows "app_inv (app_state_reducer s a)"
proof (cases a)
  case (SelectSection sec)
  then show ?thesis using assms by (cases sec) (auto intro: enter_place_inv)
next
  case (SelectCollection c mode visible)
  then show ?thesis using assms collection_selection_inv by simp
next
  case (CollectionDeleted c)
  then show ?thesis using assms collection_deleted_inv by simp
qed (use assms library_selection_inv[OF assms] in
      \<open>auto simp: app_inv_def reduce_settings_def Let_def distinct_anchored_range\<close>)

interpretation app: invariant_machine app_state_reducer well_formed_action app_inv
  by unfold_locales (rule reducer_inv)

text \<open>C11. In every run of the reducer from the initial state, a collection place holds at least one
  collection and no duplicate, the highlighted books have no duplicate, and the detail and reader views
  always have a book to show.\<close>

theorem app_state_invariant:
  assumes "list_all well_formed_action es"
  shows "(\<forall>ids. app_section (run app_state_reducer initial_app_state es) = Collection ids \<longrightarrow>
            ids \<noteq> [] \<and> distinct ids)
    \<and> distinct (selected_books (run app_state_reducer initial_app_state es))
    \<and> (app_view (run app_state_reducer initial_app_state es) \<noteq> VLibrary \<longrightarrow>
         selected_book (run app_state_reducer initial_app_state es) \<noteq> None)"
proof -
  have "app_inv initial_app_state" by (simp add: app_inv_def initial_app_state_def)
  then have "app_inv (run app_state_reducer initial_app_state es)" using assms by (rule app.run_keeps)
  then show ?thesis by (auto simp: app_inv_def)
qed

theorem app_state_invariant_witness:
  "app_section (run app_state_reducer initial_app_state
      [SelectCollection 3 Replace [5, 3, 8], SelectCollection 5 Toggle [5, 3, 8]]) = Collection [5, 3]
   \<and> distinct (selected_books (run app_state_reducer initial_app_state
      [SelectCollection 3 Replace [5, 3, 8], SelectCollection 5 Toggle [5, 3, 8]]))"
proof -
  have w: "list_all well_formed_action [SelectCollection 3 Replace [5, 3, 8], SelectCollection 5 Toggle [5, 3, 8]]"
    by simp
  have "app_section (run app_state_reducer initial_app_state
      [SelectCollection 3 Replace [5, 3, 8], SelectCollection 5 Toggle [5, 3, 8]]) = Collection [5, 3]"
    by (simp add: initial_app_state_def reduce_collection_selection_def in_sidebar_order_def
        collection_place_def enter_place_def section_ids_def)
  then show ?thesis using app_state_invariant[OF w] by blast
qed

text \<open>Clicking a collection enters the library place of the selected collections in sidebar order: the
  visible ones as the sidebar lists them, then the others in click order, or All Books when none is
  left. The section's search and book selection are cleared; the format filter, sort, settings window and
  shown book are untouched.\<close>

theorem collection_click_place:
  assumes "app_inv s" and "distinct visible" and "mode \<noteq> Range"
  shows "app_section (app_state_reducer s (SelectCollection c mode visible)) =
      (let old = section_ids (app_section s);
           sel = (if mode = Replace then {c} else if c \<in> set old then set old - {c} else insert c (set old)) in
       if sel = {} then Smart AllBooks
       else Collection (filter (\<lambda>i. i \<in> sel) visible
              @ filter (\<lambda>i. i \<in> sel \<and> i \<notin> set visible) (filter (\<lambda>i. i \<noteq> c) old @ [c])))
    \<and> library_query (app_state_reducer s (SelectCollection c mode visible)) = ''''
    \<and> selected_books (app_state_reducer s (SelectCollection c mode visible)) = []
    \<and> format_filter (app_state_reducer s (SelectCollection c mode visible)) = format_filter s
    \<and> library_sort (app_state_reducer s (SelectCollection c mode visible)) = library_sort s
    \<and> settings_open (app_state_reducer s (SelectCollection c mode visible)) = settings_open s
    \<and> selected_book (app_state_reducer s (SelectCollection c mode visible)) = selected_book s"
proof -
  let ?old = "section_ids (app_section s)"
  have d: "distinct ?old" using assms(1) by (auto simp: app_inv_def section_ids_def split: library_section.splits)
  define sel where "sel = (if mode = Replace then {c} else if c \<in> set ?old then set ?old - {c} else insert c (set ?old))"
  define ids where "ids = (if mode = Replace then [c] else if c \<in> set ?old then filter (\<lambda>i. i \<noteq> c) ?old else ?old @ [c])"
  have di: "distinct ids" and si: "set ids = sel" using d by (auto simp: ids_def sel_def)
  have rest: "filter (\<lambda>i. i \<in> sel \<and> i \<notin> set visible) (filter (\<lambda>i. i \<noteq> c) ?old @ [c])
      = filter (\<lambda>i. i \<notin> set visible) ids"
    using assms(3) by (auto simp: ids_def sel_def filter_empty_conv intro!: filter_cong)
  have e: "reduce_collection_selection s c mode visible =
      enter_place s (collection_place (in_sidebar_order ids visible))
        (if in_sidebar_order ids visible = [] then None else Some c)"
    using assms(3) by (cases mode) (simp_all add: reduce_collection_selection_def ids_def Let_def)
  have "sel = {} \<longleftrightarrow> ids = []" using si by auto
  then have "app_section (reduce_collection_selection s c mode visible) =
      (if sel = {} then Smart AllBooks
       else Collection (filter (\<lambda>i. i \<in> sel) visible @ filter (\<lambda>i. i \<notin> set visible) ids))"
    using in_sidebar_order_split[OF di, of visible, symmetric] si
    by (auto simp: e enter_place_def collection_place_def)
  then show ?thesis
    unfolding rest[symmetric] using e by (simp add: sel_def[symmetric] enter_place_def Let_def)
qed

theorem collection_click_place_witness:
  "app_section (app_state_reducer (initial_app_state\<lparr>app_section := Collection [7, 3]\<rparr>)
      (SelectCollection 5 Toggle [5, 3, 8])) = Collection [5, 3, 7]"
proof -
  have i: "app_inv (initial_app_state\<lparr>app_section := Collection [7, 3]\<rparr>)"
    by (simp add: app_inv_def initial_app_state_def)
  show ?thesis
    using collection_click_place[OF i, of "[5, 3, 8]" Toggle 5] by (simp add: section_ids_def Let_def)
qed

text \<open>The anchor of the sidebar can outlive its place: after a Ctrl-click takes a collection out of the
  selection, deleting the last selected collection falls back to All Books with the taken-out
  collection still as the anchor, although a built-in section is documented to have none.\<close>

theorem deleted_place_keeps_anchor:
  assumes "a \<noteq> b"
  shows "app_section (run app_state_reducer initial_app_state
           [SelectCollection a Replace v1, SelectCollection b Toggle v2, SelectCollection b Toggle v3,
            CollectionDeleted a]) = Smart AllBooks
       \<and> collection_anchor (run app_state_reducer initial_app_state
           [SelectCollection a Replace v1, SelectCollection b Toggle v2, SelectCollection b Toggle v3,
            CollectionDeleted a]) = Some b"
proof -
  let ?s1 = "app_state_reducer initial_app_state (SelectCollection a Replace v1)"
  have o1: "in_sidebar_order [a] v1 \<noteq> []" by simp
  have s1: "app_section ?s1 = Collection (in_sidebar_order [a] v1)"
    by (simp add: reduce_collection_selection_def enter_place_def collection_place_def)
  let ?i1 = "in_sidebar_order [a] v1"
  let ?i2 = "in_sidebar_order (?i1 @ [b]) v2"
  let ?s2 = "app_state_reducer ?s1 (SelectCollection b Toggle v2)"
  have s2: "app_section ?s2 = Collection ?i2"
    using s1 assms by (simp add: reduce_collection_selection_def enter_place_def collection_place_def section_ids_def Let_def)
  let ?i3 = "in_sidebar_order (filter (\<lambda>i. i \<noteq> b) ?i2) v3"
  let ?s3 = "app_state_reducer ?s2 (SelectCollection b Toggle v3)"
  have st3: "set ?i3 = {a}" using assms by auto
  then have n3: "?i3 \<noteq> []" by force
  have b2: "b \<in> set ?i2" by simp
  have e3: "?s3 = enter_place ?s2 (Collection ?i3) (Some b)"
    using s2 b2 n3 by (simp add: reduce_collection_selection_def collection_place_def section_ids_def Let_def)
  have del: "filter (\<lambda>i. i \<noteq> a) ?i3 = []" using st3 by (auto simp: filter_empty_conv)
  have "app_state_reducer ?s3 (CollectionDeleted a) = enter_place ?s3 (Smart AllBooks) (Some b)"
    using e3 del n3 assms
    by (simp add: reduce_collection_deleted_def enter_place_def collection_place_def Let_def)
  then show ?thesis by (simp add: enter_place_def)
qed

theorem deleted_place_keeps_anchor_witness:
  "collection_anchor (run app_state_reducer initial_app_state
     [SelectCollection 1 Replace [1, 2], SelectCollection 2 Toggle [1, 2], SelectCollection 2 Toggle [1, 2],
      CollectionDeleted 1]) = Some 2"
  using deleted_place_keeps_anchor[of 1 2 "[1, 2]" "[1, 2]" "[1, 2]"] by simp

end
