(* ===== verification/CollectionPrefs.thy ===== *)
theory CollectionPrefs
  imports Prelude
begin

text \<open>
  \<open>frontend/src/lib/collectionPreferences.ts\<close>: which sidebar collections are pinned and the custom
  order of the two groups. The locale's lower-casing and comparison are a parameter
  (\<open>collation\<close>); the JSON parser and printer are parameters too.
\<close>

section \<open>Data\<close>

record coll_ref =
  c_id :: int
  c_name :: string

datatype group_id = Pinned | Unpinned

record prefs =
  pf_pinned :: "int list"
  pf_pinned_order :: "int list"
  pf_unpinned_order :: "int list"
  pf_collapsed :: bool

record coll_groups =
  g_pinned :: "coll_ref list"
  g_unpinned :: "coll_ref list"

record collation =
  to_locale_lower :: "string \<Rightarrow> string"
  locale_compare :: "string \<Rightarrow> string \<Rightarrow> int"

definition default_prefs :: prefs where
  "default_prefs = \<lparr>pf_pinned = [], pf_pinned_order = [], pf_unpinned_order = [], pf_collapsed = False\<rparr>"

section \<open>Orders\<close>

definition alphabetical_compare :: "collation \<Rightarrow> coll_ref \<Rightarrow> coll_ref \<Rightarrow> int" where
  "alphabetical_compare cl a b =
     (let lower = locale_compare cl (to_locale_lower cl (c_name a)) (to_locale_lower cl (c_name b)) in
      if lower \<noteq> 0 then lower
      else let loc = locale_compare cl (c_name a) (c_name b) in
        if loc \<noteq> 0 then loc else c_id a - c_id b)"

definition alphabetical_le :: "collation \<Rightarrow> coll_ref \<Rightarrow> coll_ref \<Rightarrow> bool" where
  "alphabetical_le cl a b = (alphabetical_compare cl a b \<le> 0)"

definition alphabetical :: "collation \<Rightarrow> coll_ref list \<Rightarrow> coll_ref list" where
  "alphabetical cl cs = js_sort (alphabetical_le cl) cs"

fun read_ids :: "int list \<Rightarrow> js list \<Rightarrow> int list" where
  "read_ids ids [] = ids"
| "read_ids ids (Num (Fin r) # es) =
     (if \<not> rat_is_int r \<or> \<lfloor>r\<rfloor> \<in> set ids then read_ids ids es else read_ids (ids @ [\<lfloor>r\<rfloor>]) es)"
| "read_ids ids (_ # es) = read_ids ids es"

definition read_id_list :: "js \<Rightarrow> int list" where
  "read_id_list v = (case v of Arr es \<Rightarrow> read_ids [] es | _ \<Rightarrow> [])"

text \<open>\<open>new Map(collections.map(c => [c.id, c]))\<close>: the last entry of an id wins.\<close>

definition by_id :: "coll_ref list \<Rightarrow> int \<Rightarrow> coll_ref option" where
  "by_id cs = map_of (rev (map (\<lambda>c. (c_id c, c)) cs))"

fun take_allowed :: "int list \<Rightarrow> int list \<Rightarrow> int list \<Rightarrow> int list" where
  "take_allowed ids ordered [] = ordered"
| "take_allowed ids ordered (i # is) =
     (if i \<notin> set ids \<or> i \<in> set ordered then take_allowed ids ordered is
      else take_allowed ids (ordered @ [i]) is)"

definition found :: "coll_ref list \<Rightarrow> int list \<Rightarrow> coll_ref list" where
  "found cs ids = List.map_filter (by_id cs) ids"

definition sanitize_order :: "collation \<Rightarrow> int list \<Rightarrow> js \<Rightarrow> coll_ref list \<Rightarrow> int list" where
  "sanitize_order cl ids stored known =
     (let ordered = take_allowed ids [] (read_id_list stored) in
      if ordered = [] then []
      else ordered @ map c_id (alphabetical cl (found known (filter (\<lambda>i. i \<notin> set ordered) ids))))"

definition obj_prop :: "string \<Rightarrow> js \<Rightarrow> js" where
  "obj_prop k v = (case v of Obj fs \<Rightarrow> get_prop k fs | _ \<Rightarrow> Undef)"

definition sanitize_prefs :: "collation \<Rightarrow> js \<Rightarrow> coll_ref list \<Rightarrow> prefs" where
  "sanitize_prefs cl raw cs =
     (let pinned = filter (\<lambda>i. by_id cs i \<noteq> None) (read_id_list (obj_prop ''pinned'' raw));
          unpinned = map c_id (filter (\<lambda>c. c_id c \<notin> set pinned) cs) in
      \<lparr>pf_pinned = pinned,
       pf_pinned_order = sanitize_order cl pinned (obj_prop ''pinnedOrder'' raw) cs,
       pf_unpinned_order = sanitize_order cl unpinned (obj_prop ''unpinnedOrder'' raw) cs,
       pf_collapsed = (obj_prop ''unpinnedCollapsed'' raw = Bool True)\<rparr>)"

section \<open>The rendered groups\<close>

definition order_group :: "collation \<Rightarrow> coll_ref list \<Rightarrow> int list \<Rightarrow> coll_ref list" where
  "order_group cl cs order =
     (if order = [] then alphabetical cl cs
      else let ordered = found cs order in
        ordered @ alphabetical cl (filter (\<lambda>c. c_id c \<notin> c_id ` set ordered) cs))"

definition resolve_groups :: "collation \<Rightarrow> coll_ref list \<Rightarrow> prefs \<Rightarrow> coll_groups" where
  "resolve_groups cl cs p =
     \<lparr>g_pinned = order_group cl (filter (\<lambda>c. c_id c \<in> set (pf_pinned p)) cs) (pf_pinned_order p),
      g_unpinned = order_group cl (filter (\<lambda>c. c_id c \<notin> set (pf_pinned p)) cs) (pf_unpinned_order p)\<rparr>"

section \<open>Operations\<close>

definition drop_id :: "int \<Rightarrow> int list \<Rightarrow> int list" where
  "drop_id i ids = filter (\<lambda>j. j \<noteq> i) ids"

definition pin_collection :: "prefs \<Rightarrow> int \<Rightarrow> prefs" where
  "pin_collection p i =
     (if i \<in> set (pf_pinned p) then p
      else p\<lparr>pf_pinned := pf_pinned p @ [i],
             pf_pinned_order := (if pf_pinned_order p \<noteq> [] then pf_pinned_order p @ [i] else pf_pinned_order p),
             pf_unpinned_order := drop_id i (pf_unpinned_order p)\<rparr>)"

definition unpin_collection :: "prefs \<Rightarrow> int \<Rightarrow> prefs" where
  "unpin_collection p i =
     (if i \<notin> set (pf_pinned p) then p
      else p\<lparr>pf_pinned := drop_id i (pf_pinned p),
             pf_pinned_order := drop_id i (pf_pinned_order p),
             pf_unpinned_order := (if pf_unpinned_order p \<noteq> [] then drop_id i (pf_unpinned_order p) @ [i]
                                   else pf_unpinned_order p)\<rparr>)"

definition set_group_order :: "prefs \<Rightarrow> group_id \<Rightarrow> int list \<Rightarrow> prefs" where
  "set_group_order p g order =
     (case g of Pinned \<Rightarrow> p\<lparr>pf_pinned_order := order\<rparr> | Unpinned \<Rightarrow> p\<lparr>pf_unpinned_order := order\<rparr>)"

definition group_of :: "prefs \<Rightarrow> int \<Rightarrow> group_id" where
  "group_of p i = (if i \<in> set (pf_pinned p) then Pinned else Unpinned)"

definition items_of :: "coll_groups \<Rightarrow> group_id \<Rightarrow> coll_ref list" where
  "items_of gs g = (case g of Pinned \<Rightarrow> g_pinned gs | Unpinned \<Rightarrow> g_unpinned gs)"

text \<open>\<open>direction\<close> is \<open>-1\<close> or \<open>1\<close>.\<close>

definition move_collection :: "collation \<Rightarrow> prefs \<Rightarrow> coll_ref list \<Rightarrow> int \<Rightarrow> int \<Rightarrow> prefs" where
  "move_collection cl p cs i direction =
     (let group = items_of (resolve_groups cl cs p) (group_of p i) in
      case index_of i (map c_id group) of
        None \<Rightarrow> p
      | Some k \<Rightarrow>
          let target = int k + direction in
          if target < 0 \<or> int (length group) \<le> target then p
          else set_group_order p (group_of p i)
                 (map c_id (group[k := group ! nat target, nat target := group ! k])))"

definition insert_at :: "nat \<Rightarrow> 'a \<Rightarrow> 'a list \<Rightarrow> 'a list" where
  "insert_at k x xs = take k xs @ x # drop k xs"

definition place_collection :: "collation \<Rightarrow> prefs \<Rightarrow> coll_ref list \<Rightarrow> int \<Rightarrow> group_id \<Rightarrow> int \<Rightarrow> prefs" where
  "place_collection cl p cs i target index =
     (case find (\<lambda>c. c_id c = i) cs of
        None \<Rightarrow> p
      | Some moving \<Rightarrow>
          let source = group_of p i;
              items = filter (\<lambda>c. c_id c \<noteq> i) (items_of (resolve_groups cl cs p) target);
              clamped = nat (max 0 (min index (int (length items))));
              order = map c_id (insert_at clamped moving items) in
          case target of
            Pinned \<Rightarrow>
              p\<lparr>pf_pinned := (if i \<in> set (pf_pinned p) then pf_pinned p else pf_pinned p @ [i]),
                pf_pinned_order := order,
                pf_unpinned_order := (if source = Unpinned then drop_id i (pf_unpinned_order p)
                                      else pf_unpinned_order p)\<rparr>
          | Unpinned \<Rightarrow>
              p\<lparr>pf_pinned := drop_id i (pf_pinned p),
                pf_pinned_order := drop_id i (pf_pinned_order p),
                pf_unpinned_order := order\<rparr>)"

definition set_unpinned_collapsed :: "prefs \<Rightarrow> bool \<Rightarrow> prefs" where
  "set_unpinned_collapsed p b = (if pf_collapsed p = b then p else p\<lparr>pf_collapsed := b\<rparr>)"

definition forget_collection :: "prefs \<Rightarrow> int \<Rightarrow> prefs" where
  "forget_collection p i =
     (let pinned = drop_id i (pf_pinned p); pinned_order = drop_id i (pf_pinned_order p);
          unpinned_order = drop_id i (pf_unpinned_order p) in
      if length pinned = length (pf_pinned p) \<and> length pinned_order = length (pf_pinned_order p)
         \<and> length unpinned_order = length (pf_unpinned_order p)
      then p
      else p\<lparr>pf_pinned := pinned, pf_pinned_order := pinned_order, pf_unpinned_order := unpinned_order\<rparr>)"

section \<open>Storage\<close>

text \<open>
  The browser's storage, absent or holding at most one text under the key, and the session's fallback. A call into storage can
  throw: the flag of an operation says whether it does not.
\<close>

record pref_store =
  st_item :: "string option option"
  st_session :: "string option"

definition read_raw :: "bool \<Rightarrow> pref_store \<Rightarrow> string option" where
  "read_raw get_works st =
     (case st_session st of
        Some r \<Rightarrow> Some r
      | None \<Rightarrow> (case st_item st of None \<Rightarrow> None | Some item \<Rightarrow> if get_works then item else None))"

definition parse_stored :: "(string \<Rightarrow> js option) \<Rightarrow> collation \<Rightarrow> string option \<Rightarrow> coll_ref list \<Rightarrow> prefs" where
  "parse_stored json_parse cl raw cs =
     (case raw of
        None \<Rightarrow> default_prefs
      | Some r \<Rightarrow>
          if r = '''' then default_prefs
          else (case json_parse r of None \<Rightarrow> default_prefs | Some v \<Rightarrow> sanitize_prefs cl v cs))"

definition prefs_js :: "prefs \<Rightarrow> js" where
  "prefs_js p =
     (let ids = (\<lambda>is. Arr (map (\<lambda>i. Num (Fin (of_int i))) is)) in
      Obj [(''pinned'', ids (pf_pinned p)), (''pinnedOrder'', ids (pf_pinned_order p)),
           (''unpinnedOrder'', ids (pf_unpinned_order p)), (''unpinnedCollapsed'', Bool (pf_collapsed p))])"

definition write_prefs :: "(js \<Rightarrow> string) \<Rightarrow> bool \<Rightarrow> prefs \<Rightarrow> pref_store \<Rightarrow> pref_store" where
  "write_prefs json_stringify set_works p st =
     (let raw = json_stringify (prefs_js p) in
      if st_item st \<noteq> None \<and> set_works then \<lparr>st_item = Some (Some raw), st_session = None\<rparr>
      else st\<lparr>st_session := Some raw\<rparr>)"

section \<open>Looking collections up\<close>

lemma by_id_Some:
  assumes "distinct (map c_id cs)"
  shows "by_id cs i = Some c \<longleftrightarrow> c \<in> set cs \<and> c_id c = i"
proof -
  have "distinct (map fst (rev (map (\<lambda>c. (c_id c, c)) cs)))"
    using assms by (simp add: rev_map[symmetric] comp_def)
  then show ?thesis by (auto simp: by_id_def)
qed

lemma by_id_None: "by_id cs i = None \<longleftrightarrow> i \<notin> c_id ` set cs"
  by (force simp: by_id_def map_of_eq_None_iff)

lemma by_id_known: "by_id cs i = Some c \<Longrightarrow> c \<in> set cs \<and> c_id c = i"
  by (auto simp: by_id_def dest!: map_of_SomeD)

lemma found_Nil [simp]: "found cs [] = []"
  by (simp add: found_def List.map_filter_def)

lemma found_Cons: "found cs (i # is) = (case by_id cs i of None \<Rightarrow> found cs is | Some c \<Rightarrow> c # found cs is)"
  by (simp add: found_def List.map_filter_def split: option.split)

lemma set_found: "set (found cs is) = {c. \<exists>i\<in>set is. by_id cs i = Some c}"
  by (auto simp: found_def List.map_filter_def image_iff) force

lemma ids_found: "map c_id (found cs is) = filter (\<lambda>i. i \<in> c_id ` set cs) is"
proof (induction "is")
  case (Cons i "is")
  then show ?case
    using by_id_None[of cs i] by_id_known[of cs i] by (cases "by_id cs i") (auto simp: found_Cons)
qed simp

lemma found_map:
  assumes "distinct (map c_id cs)"
  shows "set L \<subseteq> set cs \<Longrightarrow> found cs (map c_id L) = L"
proof (induction L)
  case (Cons c L)
  then have "by_id cs (c_id c) = Some c" using by_id_Some[OF assms] by simp
  then show ?case using Cons by (simp add: found_Cons)
qed simp

lemma set_alphabetical [simp]: "set (alphabetical cl cs) = set cs"
  by (simp add: alphabetical_def)

lemma mset_alphabetical [simp]: "mset (alphabetical cl cs) = mset cs"
  by (simp add: alphabetical_def)

lemma distinct_ids_alphabetical [simp]: "distinct (map c_id (alphabetical cl cs)) = distinct (map c_id cs)"
  by (simp add: alphabetical_def)

lemma distinct_ids_filter: "distinct (map c_id cs) \<Longrightarrow> distinct (map c_id (filter P cs))"
  by (induction cs) auto

section \<open>Every collection is rendered once\<close>

lemma mset_order_group:
  assumes d: "distinct (map c_id cs)" and ord: "distinct order"
  shows "mset (order_group cl cs order) = mset cs"
proof (cases "order = []")
  case False
  let ?f = "found cs order"
  have idf: "c_id c \<in> c_id ` set ?f \<longleftrightarrow> c_id c \<in> set order" if "c \<in> set cs" for c
  proof -
    have "c_id ` set ?f = set (map c_id ?f)" by simp
    then show ?thesis using that by (simp add: ids_found del: set_map)
  qed
  have dc: "distinct cs" using d by (simp add: distinct_map)
  have "distinct (map c_id ?f)" using ord by (simp add: ids_found)
  then have df: "distinct ?f" by (simp add: distinct_map)
  have "set ?f = set (filter (\<lambda>c. c_id c \<in> set order) cs)"
    using by_id_Some[OF d] by (auto simp: set_found)
  then have "mset ?f = mset (filter (\<lambda>c. c_id c \<in> set order) cs)"
    using df dc set_eq_iff_mset_eq_distinct[of ?f "filter (\<lambda>c. c_id c \<in> set order) cs"] by simp
  moreover have "filter (\<lambda>c. c_id c \<notin> c_id ` set ?f) cs = filter (\<lambda>c. c_id c \<notin> set order) cs"
    by (rule filter_cong) (use idf in auto)
  ultimately show ?thesis
    using False by (simp add: order_group_def Let_def)
qed (simp add: order_group_def)

text \<open>Whatever the preferences hold, as long as the stored orders have no duplicate, every collection is rendered
  exactly once: the Pinned group holds exactly the collections the preferences pin and the Unpinned
  group the others, and a collection missing from a custom order is not lost.\<close>

theorem groups_partition:
  assumes "distinct (map c_id cs)" and "distinct (pf_pinned_order p)" and "distinct (pf_unpinned_order p)"
  shows "mset (g_pinned (resolve_groups cl cs p)) = mset (filter (\<lambda>c. c_id c \<in> set (pf_pinned p)) cs)
    \<and> mset (g_unpinned (resolve_groups cl cs p)) = mset (filter (\<lambda>c. c_id c \<notin> set (pf_pinned p)) cs)
    \<and> mset (g_pinned (resolve_groups cl cs p) @ g_unpinned (resolve_groups cl cs p)) = mset cs"
  using mset_order_group[OF distinct_ids_filter[OF assms(1)] assms(2), of cl]
    mset_order_group[OF distinct_ids_filter[OF assms(1)] assms(3), of cl]
  by (simp add: resolve_groups_def)

definition demo_collation :: collation where
  "demo_collation = \<lparr>to_locale_lower = id, locale_compare = (\<lambda>a b. int (length a) - int (length b))\<rparr>"

definition demo_collections :: "coll_ref list" where
  "demo_collections = [\<lparr>c_id = 1, c_name = ''aaa''\<rparr>, \<lparr>c_id = 2, c_name = ''bb''\<rparr>, \<lparr>c_id = 3, c_name = ''c''\<rparr>]"

theorem groups_partition_witness:
  "mset (g_pinned (resolve_groups demo_collation demo_collections (default_prefs\<lparr>pf_pinned := [2, 9], pf_pinned_order := [9]\<rparr>)))
     = {#\<lparr>c_id = 2, c_name = ''bb''\<rparr>#}"
  using groups_partition[of demo_collections "default_prefs\<lparr>pf_pinned := [2, 9], pf_pinned_order := [9]\<rparr>" demo_collation]
  by (simp add: demo_collections_def default_prefs_def)

section \<open>The invariant\<close>

definition order_fits :: "int list \<Rightarrow> int set \<Rightarrow> bool" where
  "order_fits order ids \<longleftrightarrow> order = [] \<or> distinct order \<and> set order = ids"

definition prefs_wf :: "coll_ref list \<Rightarrow> prefs \<Rightarrow> bool" where
  "prefs_wf cs p \<longleftrightarrow> distinct (pf_pinned p) \<and> set (pf_pinned p) \<subseteq> c_id ` set cs
     \<and> order_fits (pf_pinned_order p) (set (pf_pinned p))
     \<and> order_fits (pf_unpinned_order p) (c_id ` set cs - set (pf_pinned p))"

lemma order_fits_drop: "order_fits order ids \<Longrightarrow> order_fits (drop_id i order) (ids - {i})"
  by (auto simp: order_fits_def drop_id_def)

lemma order_fits_Nil [simp]: "order_fits [] ids"
  by (simp add: order_fits_def)

lemma order_fits_append:
  "order_fits order ids \<Longrightarrow> order \<noteq> [] \<Longrightarrow> i \<notin> ids \<Longrightarrow> order_fits (order @ [i]) (insert i ids)"
  by (auto simp: order_fits_def)

lemma set_drop_id [simp]: "set (drop_id i ids) = set ids - {i}"
  by (auto simp: drop_id_def)

lemma distinct_drop_id [simp]: "distinct ids \<Longrightarrow> distinct (drop_id i ids)"
  by (simp add: drop_id_def)

lemma drop_id_absent: "i \<notin> set ids \<Longrightarrow> drop_id i ids = ids"
  unfolding drop_id_def by (rule filter_neq_absent)

lemma pin_wf:
  assumes "prefs_wf cs p" and "i \<in> c_id ` set cs"
  shows "prefs_wf cs (pin_collection p i)"
proof (cases "i \<in> set (pf_pinned p)")
  case False
  have "c_id ` set cs - insert i (set (pf_pinned p)) = c_id ` set cs - set (pf_pinned p) - {i}" by auto
  then have "order_fits (drop_id i (pf_unpinned_order p)) (c_id ` set cs - insert i (set (pf_pinned p)))"
    using order_fits_drop[of "pf_unpinned_order p" "c_id ` set cs - set (pf_pinned p)" i] assms(1)
    by (simp add: prefs_wf_def)
  then show ?thesis
    using False assms order_fits_append[of "pf_pinned_order p" "set (pf_pinned p)" i]
    by (auto simp: prefs_wf_def pin_collection_def)
qed (use assms in \<open>simp add: pin_collection_def\<close>)

lemma unpinned_insert:
  "prefs_wf cs p \<Longrightarrow> i \<in> set (pf_pinned p) \<Longrightarrow>
     c_id ` set cs - (set (pf_pinned p) - {i}) = insert i (c_id ` set cs - set (pf_pinned p))"
  by (auto simp: prefs_wf_def)

lemma unpin_wf:
  assumes "prefs_wf cs p"
  shows "prefs_wf cs (unpin_collection p i)"
proof (cases "i \<in> set (pf_pinned p)")
  case True
  have "drop_id i (pf_unpinned_order p) = pf_unpinned_order p"
    using assms True by (intro drop_id_absent) (auto simp: prefs_wf_def order_fits_def)
  moreover have "pf_unpinned_order p \<noteq> [] \<Longrightarrow>
      order_fits (pf_unpinned_order p @ [i]) (insert i (c_id ` set cs - set (pf_pinned p)))"
    using order_fits_append assms True by (simp add: prefs_wf_def)
  ultimately show ?thesis
    using True assms order_fits_drop[of "pf_pinned_order p" "set (pf_pinned p)" i] unpinned_insert[OF assms True]
    by (auto simp: prefs_wf_def unpin_collection_def)
qed (use assms in \<open>simp add: unpin_collection_def\<close>)

text \<open>The rendered groups of well-formed preferences.\<close>

definition group_items :: "coll_ref list \<Rightarrow> prefs \<Rightarrow> group_id \<Rightarrow> coll_ref list" where
  "group_items cs p g = filter (\<lambda>c. (c_id c \<in> set (pf_pinned p)) = (g = Pinned)) cs"

definition group_order :: "prefs \<Rightarrow> group_id \<Rightarrow> int list" where
  "group_order p g = (case g of Pinned \<Rightarrow> pf_pinned_order p | Unpinned \<Rightarrow> pf_unpinned_order p)"

lemma items_resolve: "items_of (resolve_groups cl cs p) g = order_group cl (group_items cs p g) (group_order p g)"
  by (cases g) (simp_all add: items_of_def resolve_groups_def group_items_def group_order_def)

lemma group_order_fits: "prefs_wf cs p \<Longrightarrow> order_fits (group_order p g) (c_id ` set (group_items cs p g))"
  by (cases g) (auto simp: prefs_wf_def group_order_def group_items_def intro: back_subst[of "order_fits _"])

lemma order_group_custom:
  assumes "distinct (map c_id G)" and "order \<noteq> []" and "set order = c_id ` set G"
  shows "order_group cl G order = found G order" and "map c_id (found G order) = order"
proof -
  show i: "map c_id (found G order) = order" using assms(3) by (simp add: ids_found)
  have "c_id ` set (found G order) = set order" using i by (metis set_map)
  then show "order_group cl G order = found G order"
    using assms by (simp add: order_group_def Let_def alphabetical_def filter_empty_conv)
qed

lemma set_order_group:
  assumes "distinct (map c_id G)" and "order_fits order (c_id ` set G)"
  shows "set (order_group cl G order) = set G" and "distinct (map c_id (order_group cl G order))"
proof -
  have "mset (order_group cl G order) = mset G"
    by (rule mset_order_group) (use assms in \<open>auto simp: order_fits_def\<close>)
  then show "set (order_group cl G order) = set G" "distinct (map c_id (order_group cl G order))"
    by (metis set_mset_mset, metis assms(1) mset_eq_imp_distinct_iff mset_map)
qed

lemma order_group_explicit:
  assumes "distinct (map c_id G)" and "set L = set G" and "L \<noteq> []"
  shows "order_group cl G (map c_id L) = L"
  using order_group_custom(1)[OF assms(1), of "map c_id L"] found_map[OF assms(1), of L] assms(2,3) by simp

text \<open>An order that lists every item is what the group renders.\<close>

lemma custom_is_rendered:
  assumes "distinct (map c_id G)" and "order_fits order (c_id ` set G)" and "order \<noteq> []"
  shows "order = map c_id (order_group cl G order)"
  using order_group_custom[OF assms(1,3)] assms(2,3) by (simp add: order_fits_def)

definition collation_ok :: "collation \<Rightarrow> bool" where
  "collation_ok cl \<longleftrightarrow>
     (\<forall>a b. sgn (locale_compare cl b a) = - sgn (locale_compare cl a b))
     \<and> (\<forall>a b c. locale_compare cl a b \<le> 0 \<longrightarrow> locale_compare cl b c \<le> 0 \<longrightarrow> locale_compare cl a c \<le> 0)"

lemma collation_flip:
  assumes "collation_ok cl"
  shows "(locale_compare cl a b \<le> 0) = (0 \<le> locale_compare cl b a)"
proof -
  have "sgn (locale_compare cl b a) = - sgn (locale_compare cl a b)"
    using assms unfolding collation_ok_def by blast
  then show ?thesis by (auto simp: sgn_if split: if_splits)
qed

lemma collation_trans:
  "collation_ok cl \<Longrightarrow> locale_compare cl a b \<le> 0 \<Longrightarrow> locale_compare cl b c \<le> 0 \<Longrightarrow> locale_compare cl a c \<le> 0"
  unfolding collation_ok_def by blast

lemma collation_squeeze:
  assumes ok: "collation_ok cl" and ab: "locale_compare cl a b \<le> 0" and bc: "locale_compare cl b c \<le> 0"
    and ac: "locale_compare cl a c = 0"
  shows "locale_compare cl a b = 0" and "locale_compare cl b c = 0"
proof -
  have ca: "locale_compare cl c a \<le> 0" using collation_flip[OF ok, of c a] ac by simp
  have "locale_compare cl b a \<le> 0" using collation_trans[OF ok bc ca] .
  then show "locale_compare cl a b = 0" using collation_flip[OF ok, of b a] ab by simp
  have "locale_compare cl c b \<le> 0" using collation_trans[OF ok ca ab] .
  then show "locale_compare cl b c = 0" using collation_flip[OF ok, of c b] bc by simp
qed

lemma alphabetical_le_iff:
  "alphabetical_le cl x y \<longleftrightarrow>
     (let l = locale_compare cl (to_locale_lower cl (c_name x)) (to_locale_lower cl (c_name y));
          n = locale_compare cl (c_name x) (c_name y) in
      l \<le> 0 \<and> (l = 0 \<longrightarrow> n \<le> 0 \<and> (n = 0 \<longrightarrow> c_id x \<le> c_id y)))"
  by (auto simp: alphabetical_le_def alphabetical_compare_def Let_def)

lemma alphabetical_comparator:
  assumes ok: "collation_ok cl"
  shows "comparator (alphabetical_le cl)"
proof
  fix x y z
  let ?l = "\<lambda>a b. locale_compare cl (to_locale_lower cl (c_name a)) (to_locale_lower cl (c_name b))"
  let ?n = "\<lambda>a b. locale_compare cl (c_name a) (c_name b)"
  note fl = collation_flip[OF ok] and tr = collation_trans[OF ok] and sq = collation_squeeze[OF ok]
  show "alphabetical_le cl x y \<or> alphabetical_le cl y x"
    using fl[of "to_locale_lower cl (c_name x)" "to_locale_lower cl (c_name y)"]
      fl[of "to_locale_lower cl (c_name y)" "to_locale_lower cl (c_name x)"]
      fl[of "c_name x" "c_name y"] fl[of "c_name y" "c_name x"]
    unfolding alphabetical_le_iff Let_def by linarith
  assume a: "alphabetical_le cl x y" "alphabetical_le cl y z"
  then have l: "?l x y \<le> 0" "?l y z \<le> 0" by (simp_all add: alphabetical_le_iff Let_def)
  have lx: "?l x z \<le> 0" by (rule tr[OF l])
  moreover have "?n x z \<le> 0 \<and> (?n x z = 0 \<longrightarrow> c_id x \<le> c_id z)" if l0: "?l x z = 0"
  proof -
    have n: "?n x y \<le> 0" "?n y z \<le> 0"
      using a sq(1)[OF l l0] sq(2)[OF l l0] by (simp_all add: alphabetical_le_iff Let_def)
    have "c_id x \<le> c_id z" if n0: "?n x z = 0"
      using a sq(1)[OF l l0] sq(2)[OF l l0] sq(1)[OF n n0] sq(2)[OF n n0]
      by (simp add: alphabetical_le_iff Let_def)
    then show ?thesis using tr[OF n] by blast
  qed
  ultimately show "alphabetical_le cl x z" unfolding alphabetical_le_iff Let_def by blast
qed

lemma alphabetical_filter: "collation_ok cl \<Longrightarrow> alphabetical cl (filter P cs) = filter P (alphabetical cl cs)"
  unfolding alphabetical_def using comparator.filter_js_sort[OF alphabetical_comparator] by metis

lemma drop_id_map: "drop_id i (map c_id L) = map c_id (filter (\<lambda>x. c_id x \<noteq> i) L)"
  by (simp add: drop_id_def filter_map comp_def)

text \<open>Dropping one item from a group and from its order drops it from what is rendered.\<close>

lemma order_group_drop:
  assumes d: "distinct (map c_id G)" and f: "order_fits order (c_id ` set G)" and c: "collation_ok cl"
  shows "order_group cl (filter (\<lambda>x. c_id x \<noteq> i) G) (drop_id i order)
       = filter (\<lambda>x. c_id x \<noteq> i) (order_group cl G order)"
proof (cases "order = []")
  case True
  then show ?thesis using alphabetical_filter[OF c] by (simp add: order_group_def drop_id_def)
next
  case False
  let ?L = "order_group cl G order" and ?G = "filter (\<lambda>x. c_id x \<noteq> i) G"
  let ?L' = "filter (\<lambda>x. c_id x \<noteq> i) ?L"
  have sL: "set ?L' = set ?G" using set_order_group(1)[OF d f] by auto
  have "drop_id i order = map c_id ?L'"
    using arg_cong[OF custom_is_rendered[OF d f False, of cl], of "drop_id i"] unfolding drop_id_map .
  moreover have "order_group cl ?G (map c_id ?L') = ?L'"
  proof (cases "?L' = []")
    case True
    then have "?G = []" using sL by (metis set_empty)
    then show ?thesis using True by (simp add: order_group_def alphabetical_def)
  qed (use order_group_explicit[OF distinct_ids_filter[OF d] sL] in blast)
  ultimately show ?thesis by simp
qed

section \<open>Drag and drop\<close>

lemma distinct_items: "distinct (map c_id cs) \<Longrightarrow> distinct (map c_id (group_items cs p g))"
  unfolding group_items_def by (rule distinct_ids_filter)

lemma rendered:
  assumes "distinct (map c_id cs)" and "prefs_wf cs p"
  shows "set (items_of (resolve_groups cl cs p) g) = set (group_items cs p g)"
    and "distinct (map c_id (items_of (resolve_groups cl cs p) g))"
  unfolding items_resolve
  using set_order_group[OF distinct_items[OF assms(1)] group_order_fits[OF assms(2)]] by blast+

lemma set_insert_at [simp]: "set (insert_at k x xs) = insert x (set xs)"
  unfolding insert_at_def by (metis Un_insert_right append_take_drop_id list.simps(15) set_append)

lemma distinct_insert_at [simp]: "distinct (insert_at k x xs) \<longleftrightarrow> x \<notin> set xs \<and> distinct xs"
proof -
  have "mset (insert_at k x xs) = mset (x # xs)"
    unfolding insert_at_def by (metis append_take_drop_id mset.simps(2) mset_append union_mset_add_mset_right)
  then show ?thesis by (metis distinct.simps(2) mset_eq_imp_distinct_iff)
qed

lemma insert_at_nonempty [simp]: "insert_at k x xs \<noteq> []"
  by (simp add: insert_at_def)

definition drop_slot :: "collation \<Rightarrow> prefs \<Rightarrow> coll_ref list \<Rightarrow> int \<Rightarrow> group_id \<Rightarrow> int \<Rightarrow> coll_ref \<Rightarrow> coll_ref list" where
  "drop_slot cl p cs i target index m =
     (let others = filter (\<lambda>c. c_id c \<noteq> i) (items_of (resolve_groups cl cs p) target) in
      insert_at (nat (max 0 (min index (int (length others))))) m others)"

definition other_group :: "group_id \<Rightarrow> group_id" where
  "other_group g = (case g of Pinned \<Rightarrow> Unpinned | Unpinned \<Rightarrow> Pinned)"

lemma find_by_id:
  assumes "distinct (map c_id cs)" and "m \<in> set cs"
  shows "find (\<lambda>c. c_id c = c_id m) cs = Some m"
  using assms by (induction cs) (auto simp: image_iff)

text \<open>What a drop does to the membership and the two orders, on well-formed preferences.\<close>

lemma place_shape:
  assumes d: "distinct (map c_id cs)" and w: "prefs_wf cs p" and m: "m \<in> set cs"
    and q_def: "q = place_collection cl p cs (c_id m) target index"
  shows "set (pf_pinned q) = (if target = Pinned then insert (c_id m) (set (pf_pinned p)) else set (pf_pinned p) - {c_id m})"
    and "distinct (pf_pinned q)"
    and "group_order q target = map c_id (drop_slot cl p cs (c_id m) target index m)"
    and "group_order q (other_group target) = drop_id (c_id m) (group_order p (other_group target))"
proof -
  have f: "find (\<lambda>c. c_id c = c_id m) cs = Some m" by (rule find_by_id[OF d m])
  show "set (pf_pinned q) = (if target = Pinned then insert (c_id m) (set (pf_pinned p)) else set (pf_pinned p) - {c_id m})"
    "distinct (pf_pinned q)"
    using f w by (cases target; auto simp: q_def place_collection_def Let_def prefs_wf_def)+
  show "group_order q target = map c_id (drop_slot cl p cs (c_id m) target index m)"
    using f by (cases target) (simp_all add: q_def place_collection_def Let_def group_order_def drop_slot_def)
  have "c_id m \<in> set (pf_pinned p) \<Longrightarrow> drop_id (c_id m) (pf_unpinned_order p) = pf_unpinned_order p"
    using w by (intro drop_id_absent) (auto simp: prefs_wf_def order_fits_def)
  then show "group_order q (other_group target) = drop_id (c_id m) (group_order p (other_group target))"
    using f by (cases target)
      (auto simp: q_def place_collection_def Let_def group_order_def other_group_def group_of_def)
qed

lemma place_items:
  assumes d: "distinct (map c_id cs)" and w: "prefs_wf cs p" and m: "m \<in> set cs"
    and q_def: "q = place_collection cl p cs (c_id m) target index"
  shows "group_items cs q (other_group target) = filter (\<lambda>c. c_id c \<noteq> c_id m) (group_items cs p (other_group target))"
    and "set (group_items cs q target) = insert m (set (filter (\<lambda>c. c_id c \<noteq> c_id m) (group_items cs p target)))"
proof -
  note s = place_shape(1)[OF d w m q_def]
  have u: "\<And>c. c \<in> set cs \<Longrightarrow> c_id c = c_id m \<Longrightarrow> c = m"
    using d m by (auto simp: distinct_map inj_on_def)
  show "group_items cs q (other_group target) = filter (\<lambda>c. c_id c \<noteq> c_id m) (group_items cs p (other_group target))"
    unfolding group_items_def filter_filter
    by (rule filter_cong) (use s in \<open>auto simp: other_group_def split: group_id.splits if_splits\<close>)
  show "set (group_items cs q target) = insert m (set (filter (\<lambda>c. c_id c \<noteq> c_id m) (group_items cs p target)))"
    unfolding group_items_def using s u m by (cases target) auto
qed

lemma drop_slot_facts:
  assumes "distinct (map c_id cs)" and "prefs_wf cs p"
  shows "set (drop_slot cl p cs (c_id m) target index m)
           = insert m (set (filter (\<lambda>c. c_id c \<noteq> c_id m) (group_items cs p target)))"
    and "distinct (map c_id (drop_slot cl p cs (c_id m) target index m))"
    and "drop_slot cl p cs (c_id m) target index m \<noteq> []"
  using rendered[OF assms, of cl target]
  by (auto simp: drop_slot_def Let_def distinct_map inj_on_def)

lemma place_wf:
  assumes d: "distinct (map c_id cs)" and w: "prefs_wf cs p" and m: "m \<in> set cs"
  shows "prefs_wf cs (place_collection cl p cs (c_id m) target index)"
proof -
  define q where "q = place_collection cl p cs (c_id m) target index"
  note sh = place_shape[OF d w m q_def] and it = place_items[OF d w m q_def]
  have t: "order_fits (group_order q target) (c_id ` set (group_items cs q target))"
    unfolding sh(3) it(2)
    using drop_slot_facts[OF d w, of cl m target index] by (simp add: order_fits_def)
  have "c_id ` set (group_items cs q (other_group target))
      = c_id ` set (group_items cs p (other_group target)) - {c_id m}" unfolding it(1) by auto
  then have o: "order_fits (group_order q (other_group target)) (c_id ` set (group_items cs q (other_group target)))"
    unfolding sh(4) using order_fits_drop[OF group_order_fits[OF w]] by simp
  have pin: "set (pf_pinned q) \<subseteq> c_id ` set cs" using sh(1) w m by (auto simp: prefs_wf_def split: if_splits)
  have sets: "c_id ` set (group_items cs q Pinned) = set (pf_pinned q)"
    "c_id ` set (group_items cs q Unpinned) = c_id ` set cs - set (pf_pinned q)"
    using pin by (auto simp: group_items_def)
  have "order_fits (pf_pinned_order q) (set (pf_pinned q))
      \<and> order_fits (pf_unpinned_order q) (c_id ` set cs - set (pf_pinned q))"
    using t o sets by (cases target) (simp_all add: group_order_def other_group_def)
  then show ?thesis unfolding q_def[symmetric] using sh(2) pin by (simp add: prefs_wf_def)
qed

text \<open>A drop lands where it was dropped: the target group then shows its other collections in their old
  order with the moved one at the (clamped) position, and the other group shows exactly what it showed
  without the moved one, also when it is alphabetical.\<close>

theorem drop_lands:
  assumes "distinct (map c_id cs)" and "prefs_wf cs p" and "collation_ok cl" and "m \<in> set cs"
  shows "items_of (resolve_groups cl cs (place_collection cl p cs (c_id m) target index)) target
       = (let others = filter (\<lambda>c. c_id c \<noteq> c_id m) (items_of (resolve_groups cl cs p) target);
              k = nat (max 0 (min index (int (length others)))) in
          take k others @ m # drop k others)
    \<and> items_of (resolve_groups cl cs (place_collection cl p cs (c_id m) target index)) (other_group target)
       = filter (\<lambda>c. c_id c \<noteq> c_id m) (items_of (resolve_groups cl cs p) (other_group target))"
proof -
  define q where "q = place_collection cl p cs (c_id m) target index"
  note sh = place_shape[OF assms(1,2,4) q_def] and it = place_items[OF assms(1,2,4) q_def]
  note ds = drop_slot_facts[OF assms(1,2), of cl m target index]
  have "items_of (resolve_groups cl cs q) target = drop_slot cl p cs (c_id m) target index m"
    unfolding items_resolve sh(3)
    by (rule order_group_explicit[OF distinct_items[OF assms(1)]]) (use ds it(2) in simp_all)
  moreover have "items_of (resolve_groups cl cs q) (other_group target)
      = filter (\<lambda>c. c_id c \<noteq> c_id m) (items_of (resolve_groups cl cs p) (other_group target))"
    unfolding items_resolve sh(4) it(1)
    by (rule order_group_drop[OF distinct_items[OF assms(1)] group_order_fits[OF assms(2)] assms(3)])
  ultimately show ?thesis by (simp add: q_def drop_slot_def insert_at_def Let_def)
qed

lemma demo_collation_ok: "collation_ok demo_collation"
  by (auto simp: collation_ok_def demo_collation_def sgn_if)

theorem drop_lands_witness:
  "map c_id (items_of (resolve_groups demo_collation demo_collections
     (place_collection demo_collation default_prefs demo_collections 1 Unpinned 1)) Unpinned) = [3, 1, 2]"
proof -
  have h: "distinct (map c_id demo_collections)" "prefs_wf demo_collections default_prefs"
    "\<lparr>c_id = 1, c_name = ''aaa''\<rparr> \<in> set demo_collections"
    by (simp_all add: demo_collections_def prefs_wf_def default_prefs_def)
  have e: "items_of (resolve_groups demo_collation demo_collections default_prefs) Unpinned = rev demo_collections"
    by (simp add: items_of_def resolve_groups_def order_group_def default_prefs_def demo_collections_def
        alphabetical_def alphabetical_le_iff demo_collation_def)
  show ?thesis
    using drop_lands[OF h(1,2) demo_collation_ok h(3), of Unpinned 1] e
    by (simp add: demo_collections_def Let_def)
qed

section \<open>Keyboard moves\<close>

lemma set_group_order_facts:
  "pf_pinned (set_group_order p g order) = pf_pinned p" "group_order (set_group_order p g order) g = order"
  "g' \<noteq> g \<Longrightarrow> group_order (set_group_order p g order) g' = group_order p g'"
  by (cases g; cases g'; simp add: set_group_order_def group_order_def)+

lemma group_items_order [simp]: "group_items cs (set_group_order p g order) g' = group_items cs p g'"
  by (simp add: group_items_def set_group_order_facts)

text \<open>The keyboard move swaps the collection with its neighbour in its own group, leaves the other group
  as it was and does nothing at the edges.\<close>

theorem move_swaps:
  assumes d: "distinct (map c_id cs)" and w: "prefs_wf cs p"
    and k: "k < length (items_of (resolve_groups cl cs p) (group_of p i))"
    and i: "c_id (items_of (resolve_groups cl cs p) (group_of p i) ! k) = i"
  shows "(let g = group_of p i; old = items_of (resolve_groups cl cs p) g; j = int k + direction;
              new = items_of (resolve_groups cl cs (move_collection cl p cs i direction)) in
          new g = (if 0 \<le> j \<and> j < int (length old) then old[k := old ! nat j, nat j := old ! k] else old)
          \<and> new (other_group g) = items_of (resolve_groups cl cs p) (other_group g))"
proof -
  define g where "g = group_of p i"
  define old where "old = items_of (resolve_groups cl cs p) g"
  have dl: "distinct (map c_id old)" and sl: "set old = set (group_items cs p g)"
    using rendered[OF d w, of cl g] by (simp_all add: old_def)
  have kl: "k < length old" and ki: "c_id (old ! k) = i" using k i by (simp_all add: old_def g_def)
  have "i \<in> set (map c_id old)" using kl ki by force
  then obtain k' where k': "index_of i (map c_id old) = Some k'" by (cases "index_of i (map c_id old)") auto
  have "k' = k" using index_of_Some[OF k'] kl ki dl by (metis distinct_conv_nth length_map nth_map)
  then have ix: "index_of i (map c_id old) = Some k" using k' by simp
  let ?j = "int k + direction"
  show ?thesis
  proof (cases "0 \<le> ?j \<and> ?j < int (length old)")
    case False
    then have "move_collection cl p cs i direction = p"
      using ix unfolding move_collection_def Let_def by (auto simp: g_def[symmetric] old_def[symmetric])
    then show ?thesis using False by (auto simp: g_def[symmetric] old_def[symmetric] Let_def)
  next
    case True
    let ?new = "old[k := old ! nat ?j, nat ?j := old ! k]"
    have j: "nat ?j < length old" using True by auto
    have q: "move_collection cl p cs i direction = set_group_order p g (map c_id ?new)"
      using ix True unfolding move_collection_def Let_def by (auto simp: g_def[symmetric] old_def[symmetric])
    have sn: "set ?new = set (group_items cs p g)" using mset_swap[OF j kl] sl by (metis set_mset_mset)
    have "?new \<noteq> []" using kl by auto
    then have "items_of (resolve_groups cl cs (move_collection cl p cs i direction)) g = ?new"
      unfolding items_resolve q set_group_order_facts group_items_order
      by (intro order_group_explicit[OF distinct_items[OF d] sn])
    moreover have "items_of (resolve_groups cl cs (move_collection cl p cs i direction)) (other_group g)
        = items_of (resolve_groups cl cs p) (other_group g)"
      unfolding items_resolve q group_items_order
      using set_group_order_facts(3)[of "other_group g" g p] by (cases g) (simp_all add: other_group_def)
    ultimately show ?thesis using True by (simp add: g_def[symmetric] old_def[symmetric] Let_def)
  qed
qed

theorem move_swaps_witness:
  "map c_id (items_of (resolve_groups demo_collation demo_collections
     (move_collection demo_collation default_prefs demo_collections 3 1)) Unpinned) = [2, 3, 1]"
proof -
  have h: "distinct (map c_id demo_collections)" "prefs_wf demo_collections default_prefs"
    by (simp_all add: demo_collections_def prefs_wf_def default_prefs_def)
  have g: "group_of default_prefs 3 = Unpinned" by (simp add: group_of_def default_prefs_def)
  have e: "items_of (resolve_groups demo_collation demo_collections default_prefs) Unpinned = rev demo_collections"
    by (simp add: items_of_def resolve_groups_def order_group_def default_prefs_def demo_collections_def
        alphabetical_def alphabetical_le_iff demo_collation_def)
  have l: "length (rev demo_collections) = 3" "c_id (rev demo_collections ! 0) = 3"
    by (simp_all add: demo_collections_def)
  have "items_of (resolve_groups demo_collation demo_collections
      (move_collection demo_collation default_prefs demo_collections 3 1)) Unpinned
      = (rev demo_collections)[0 := rev demo_collections ! 1, 1 := rev demo_collections ! 0]"
    using move_swaps[OF h, of 0 demo_collation 3 1] unfolding g e Let_def l by simp
  then show ?thesis by (simp add: demo_collections_def)
qed

section \<open>The preferences stay well formed\<close>

lemma move_wf:
  assumes d: "distinct (map c_id cs)" and w: "prefs_wf cs p"
  shows "prefs_wf cs (move_collection cl p cs i direction)"
proof (cases "move_collection cl p cs i direction = p")
  case False
  define g where "g = group_of p i"
  define old where "old = items_of (resolve_groups cl cs p) g"
  obtain k where k: "index_of i (map c_id old) = Some k"
    and j: "0 \<le> int k + direction" "int k + direction < int (length old)"
    and q: "move_collection cl p cs i direction
        = set_group_order p g (map c_id (old[k := old ! nat (int k + direction), nat (int k + direction) := old ! k]))"
    using False unfolding move_collection_def Let_def g_def[symmetric] old_def[symmetric]
    by (auto split: option.splits if_splits)
  have kl: "k < length old" using index_of_Some[OF k] by simp
  have "mset (old[k := old ! nat (int k + direction), nat (int k + direction) := old ! k]) = mset old"
    using mset_swap[of "nat (int k + direction)" old k] kl j by auto
  then have m: "mset (map c_id (old[k := old ! nat (int k + direction), nat (int k + direction) := old ! k]))
      = mset (map c_id old)" by (metis mset_map)
  have "distinct (map c_id old)" "set (map c_id old) = c_id ` set (group_items cs p g)"
    using rendered[OF d w, of cl g] by (simp_all add: old_def)
  then have "order_fits (map c_id (old[k := old ! nat (int k + direction), nat (int k + direction) := old ! k]))
      (c_id ` set (group_items cs p g))"
    using m unfolding order_fits_def by (metis mset_eq_imp_distinct_iff set_mset_mset)
  moreover have "c_id ` set (group_items cs p Pinned) = set (pf_pinned p)"
    "c_id ` set (group_items cs p Unpinned) = c_id ` set cs - set (pf_pinned p)"
    using w by (auto simp: group_items_def prefs_wf_def)
  ultimately show ?thesis
    using w q by (cases g) (simp_all add: prefs_wf_def set_group_order_def)
qed (use w in simp)

lemma length_drop_id: "length (drop_id i ids) = length ids \<longleftrightarrow> i \<notin> set ids"
  by (auto simp: drop_id_def length_filter_eq_iff)

lemma forget_shape:
  "forget_collection p i = p\<lparr>pf_pinned := drop_id i (pf_pinned p), pf_pinned_order := drop_id i (pf_pinned_order p),
     pf_unpinned_order := drop_id i (pf_unpinned_order p)\<rparr>"
  by (auto simp: forget_collection_def Let_def length_drop_id drop_id_absent)

lemma forget_wf:
  assumes "prefs_wf cs p"
  shows "prefs_wf (filter (\<lambda>c. c_id c \<noteq> i) cs) (forget_collection p i)"
proof -
  have i: "c_id ` set (filter (\<lambda>c. c_id c \<noteq> i) cs) = c_id ` set cs - {i}" by auto
  have s: "c_id ` set cs - {i} - (set (pf_pinned p) - {i}) = c_id ` set cs - set (pf_pinned p) - {i}" by auto
  show ?thesis
    using assms order_fits_drop[of "pf_pinned_order p" "set (pf_pinned p)" i]
      order_fits_drop[of "pf_unpinned_order p" "c_id ` set cs - set (pf_pinned p)" i]
    unfolding prefs_wf_def forget_shape i by (auto simp: s)
qed

text \<open>The sidebar's operations, over the list of collections that exists at each point.\<close>

datatype prefs_event =
    Pin int
  | Unpin int
  | Move int int
  | Place int group_id int
  | Collapse bool
  | Forget int

fun prefs_step :: "collation \<Rightarrow> coll_ref list \<times> prefs \<Rightarrow> prefs_event \<Rightarrow> coll_ref list \<times> prefs" where
  "prefs_step cl (cs, p) (Pin i) = (cs, if i \<in> c_id ` set cs then pin_collection p i else p)"
| "prefs_step cl (cs, p) (Unpin i) = (cs, unpin_collection p i)"
| "prefs_step cl (cs, p) (Move i direction) = (cs, move_collection cl p cs i direction)"
| "prefs_step cl (cs, p) (Place i g index) = (cs, place_collection cl p cs i g index)"
| "prefs_step cl (cs, p) (Collapse b) = (cs, set_unpinned_collapsed p b)"
| "prefs_step cl (cs, p) (Forget i) = (filter (\<lambda>c. c_id c \<noteq> i) cs, forget_collection p i)"

definition sidebar_ok :: "coll_ref list \<times> prefs \<Rightarrow> bool" where
  "sidebar_ok st \<longleftrightarrow> distinct (map c_id (fst st)) \<and> prefs_wf (fst st) (snd st)"

lemma place_wf_any:
  assumes "distinct (map c_id cs)" and "prefs_wf cs p"
  shows "prefs_wf cs (place_collection cl p cs i g index)"
proof (cases "find (\<lambda>c. c_id c = i) cs")
  case None
  then show ?thesis using assms by (simp add: place_collection_def)
next
  case (Some m)
  then have "m \<in> set cs" "c_id m = i" by (auto simp: find_Some_iff)
  then show ?thesis using place_wf[OF assms, of m] by blast
qed

lemma collapse_wf: "prefs_wf cs (set_unpinned_collapsed p b) = prefs_wf cs p"
  by (simp add: set_unpinned_collapsed_def prefs_wf_def)

lemma prefs_step_keeps: "sidebar_ok st \<Longrightarrow> sidebar_ok (prefs_step cl st e)"
  by (cases st; cases e)
    (auto simp: sidebar_ok_def collapse_wf
      distinct_ids_filter pin_wf unpin_wf move_wf place_wf_any forget_wf)

interpretation sidebar: invariant_machine "prefs_step cl" "\<lambda>_. True" sidebar_ok
  by unfold_locales (rule prefs_step_keeps)

section \<open>Reading stored preferences\<close>

lemma read_ids_distinct: "distinct ids \<Longrightarrow> distinct (read_ids ids es)"
  by (induction ids es rule: read_ids.induct) auto

lemma read_id_list_distinct: "distinct (read_id_list v)"
  by (cases v) (simp_all add: read_id_list_def read_ids_distinct)

lemma read_ids_ints:
  "distinct (acc @ ids) \<Longrightarrow> read_ids acc (map (\<lambda>i. Num (Fin (of_int i))) ids) = acc @ ids"
  by (induction ids arbitrary: acc) auto

lemma read_id_list_ints: "distinct ids \<Longrightarrow> read_id_list (Arr (map (\<lambda>i. Num (Fin (of_int i))) ids)) = ids"
  using read_ids_ints[of "[]" ids] by (simp add: read_id_list_def)

lemma take_allowed_facts:
  "distinct acc \<Longrightarrow> set acc \<subseteq> set ids \<Longrightarrow>
     distinct (take_allowed ids acc is) \<and> set (take_allowed ids acc is) \<subseteq> set ids"
  by (induction ids acc "is" rule: take_allowed.induct) auto

lemma take_allowed_all: "distinct (acc @ is) \<Longrightarrow> set is \<subseteq> set ids \<Longrightarrow> take_allowed ids acc is = acc @ is"
  by (induction "is" arbitrary: acc) auto

lemma sanitize_order_fits:
  assumes d: "distinct ids" and k: "set ids \<subseteq> c_id ` set cs"
  shows "order_fits (sanitize_order cl ids v cs) (set ids)"
proof (cases "take_allowed ids [] (read_id_list v) = []")
  case False
  let ?o = "take_allowed ids [] (read_id_list v)"
  let ?m = "filter (\<lambda>i. i \<notin> set ?o) ids"
  have o: "distinct ?o" "set ?o \<subseteq> set ids" using take_allowed_facts[of "[]" ids] by auto
  have im: "map c_id (found cs ?m) = ?m" using k by (auto simp: ids_found intro!: filter_cong)
  have ma: "mset (map c_id (alphabetical cl (found cs ?m))) = mset ?m"
    by (metis im mset_alphabetical mset_map)
  then have "set (map c_id (alphabetical cl (found cs ?m))) = set ?m" by (metis set_mset_mset)
  moreover have "distinct (map c_id (alphabetical cl (found cs ?m)))"
    using ma d by (metis distinct_filter mset_eq_imp_distinct_iff)
  ultimately have "distinct (?o @ map c_id (alphabetical cl (found cs ?m)))
      \<and> set (?o @ map c_id (alphabetical cl (found cs ?m))) = set ids"
    using o by (auto simp del: set_map)
  moreover have "sanitize_order cl ids v cs = ?o @ map c_id (alphabetical cl (found cs ?m))"
    using False by (simp add: sanitize_order_def Let_def)
  ultimately show ?thesis unfolding order_fits_def by metis
qed (simp add: sanitize_order_def)

lemma sanitize_wf:
  assumes "distinct (map c_id cs)"
  shows "prefs_wf cs (sanitize_prefs cl v cs)"
proof -
  let ?p = "filter (\<lambda>i. by_id cs i \<noteq> None) (read_id_list (obj_prop ''pinned'' v))"
  let ?u = "map c_id (filter (\<lambda>c. c_id c \<notin> set ?p) cs)"
  have p: "distinct ?p" "set ?p \<subseteq> c_id ` set cs" by (auto simp: read_id_list_distinct by_id_None)
  have u: "distinct ?u" "set ?u \<subseteq> c_id ` set cs" using assms distinct_ids_filter by auto
  have su: "set ?u = c_id ` set cs - set ?p" by auto
  show ?thesis
    using p sanitize_order_fits[OF p] sanitize_order_fits[OF u, unfolded su]
    by (simp add: prefs_wf_def sanitize_prefs_def Let_def del: set_map)
qed

lemma sanitize_order_id:
  assumes "order_fits order (set ids)" and "set ids \<subseteq> c_id ` set cs"
  shows "sanitize_order cl ids (Arr (map (\<lambda>i. Num (Fin (of_int i))) order)) cs = order"
proof (cases "order = []")
  case True
  then show ?thesis by (simp add: sanitize_order_def read_id_list_def)
next
  case False
  then have o: "distinct order" "set order = set ids" using assms(1) by (auto simp: order_fits_def)
  have "take_allowed ids [] order = order" using take_allowed_all[of "[]" order ids] o by simp
  moreover have "filter (\<lambda>i. i \<notin> set order) ids = []" using o by (simp add: filter_empty_conv)
  ultimately show ?thesis
    using read_id_list_ints[OF o(1)] False by (simp add: sanitize_order_def alphabetical_def)
qed

lemma sanitize_id:
  assumes "prefs_wf cs p"
  shows "sanitize_prefs cl (prefs_js p) cs = p"
proof -
  have k: "obj_prop ''pinned'' (prefs_js p) = Arr (map (\<lambda>i. Num (Fin (of_int i))) (pf_pinned p))"
    "obj_prop ''pinnedOrder'' (prefs_js p) = Arr (map (\<lambda>i. Num (Fin (of_int i))) (pf_pinned_order p))"
    "obj_prop ''unpinnedOrder'' (prefs_js p) = Arr (map (\<lambda>i. Num (Fin (of_int i))) (pf_unpinned_order p))"
    "obj_prop ''unpinnedCollapsed'' (prefs_js p) = Bool (pf_collapsed p)"
    by (simp_all add: prefs_js_def obj_prop_def Let_def)
  have p: "filter (\<lambda>i. by_id cs i \<noteq> None) (pf_pinned p) = pf_pinned p"
    using assms by (auto simp: prefs_wf_def filter_id_conv by_id_None)
  have d: "distinct (pf_pinned p)" using assms by (simp add: prefs_wf_def)
  have u: "set (map c_id (filter (\<lambda>c. c_id c \<notin> set (pf_pinned p)) cs)) = c_id ` set cs - set (pf_pinned p)" by auto
  have "sanitize_order cl (pf_pinned p) (Arr (map (\<lambda>i. Num (Fin (of_int i))) (pf_pinned_order p))) cs = pf_pinned_order p"
    using assms by (intro sanitize_order_id) (simp_all add: prefs_wf_def)
  moreover have "sanitize_order cl (map c_id (filter (\<lambda>c. c_id c \<notin> set (pf_pinned p)) cs))
      (Arr (map (\<lambda>i. Num (Fin (of_int i))) (pf_unpinned_order p))) cs = pf_unpinned_order p"
    using assms u by (intro sanitize_order_id) (auto simp: prefs_wf_def)
  ultimately show ?thesis
    unfolding sanitize_prefs_def k Let_def read_id_list_ints[OF d] p by simp
qed

text \<open>C10. Stored state is always repaired and never damaged: whatever value the storage holds, the
  preferences read from it are well formed for the collections that exist (no stale id, no
  duplicate, every order empty or complete), any further operations keep them so, and writing well-formed
  preferences and reading the text back gives exactly them.\<close>

theorem stored_prefs_repaired:
  assumes d: "distinct (map c_id cs)"
  shows "(let (cs', p) = run (prefs_step cl) (cs, parse_stored json_parse cl raw cs) es in
            distinct (map c_id cs') \<and> prefs_wf cs' p
            \<and> (json_stringify (prefs_js p) \<noteq> '''' \<and> json_parse (json_stringify (prefs_js p)) = Some (prefs_js p) \<longrightarrow>
                 parse_stored json_parse cl (read_raw True (write_prefs json_stringify works p st)) cs' = p))"
proof -
  have "prefs_wf cs default_prefs" by (simp add: prefs_wf_def default_prefs_def)
  then have "sidebar_ok (cs, parse_stored json_parse cl raw cs)"
    using sanitize_wf[OF d] d by (auto simp: sidebar_ok_def parse_stored_def split: option.split)
  then have ok: "sidebar_ok (run (prefs_step cl) (cs, parse_stored json_parse cl raw cs) es)"
    by (rule sidebar.run_keeps) (simp add: list_all_iff)
  obtain cs' p where r: "run (prefs_step cl) (cs, parse_stored json_parse cl raw cs) es = (cs', p)" by force
  have w: "prefs_wf cs' p" using ok r by (simp add: sidebar_ok_def)
  have "read_raw True (write_prefs json_stringify works p st) = Some (json_stringify (prefs_js p))"
    by (simp add: read_raw_def write_prefs_def Let_def)
  then have "json_stringify (prefs_js p) \<noteq> '''' \<and> json_parse (json_stringify (prefs_js p)) = Some (prefs_js p) \<longrightarrow>
      parse_stored json_parse cl (read_raw True (write_prefs json_stringify works p st)) cs' = p"
    using sanitize_id[OF w] by (simp add: parse_stored_def)
  then show ?thesis using ok r by (simp add: sidebar_ok_def)
qed

definition stale_prefs :: js where
  "stale_prefs = Obj [(''pinned'', Arr [Num (Fin 9), Num (Fin 2), Num (Fin 2), Str ''x'']), (''pinnedOrder'', Null)]"

theorem stored_prefs_repaired_witness:
  "run (prefs_step demo_collation)
       (demo_collections, parse_stored (\<lambda>_. Some stale_prefs) demo_collation (Some ''{}'') demo_collections) []
     = (demo_collections, \<lparr>pf_pinned = [2], pf_pinned_order = [], pf_unpinned_order = [], pf_collapsed = False\<rparr>)
   \<and> prefs_wf demo_collections \<lparr>pf_pinned = [2], pf_pinned_order = [], pf_unpinned_order = [], pf_collapsed = False\<rparr>"
proof -
  have d: "distinct (map c_id demo_collections)" by (simp add: demo_collections_def)
  have r: "run (prefs_step demo_collation)
       (demo_collections, parse_stored (\<lambda>_. Some stale_prefs) demo_collation (Some ''{}'') demo_collections) []
     = (demo_collections, \<lparr>pf_pinned = [2], pf_pinned_order = [], pf_unpinned_order = [], pf_collapsed = False\<rparr>)"
    by (simp add: parse_stored_def sanitize_prefs_def stale_prefs_def obj_prop_def read_id_list_def by_id_None
        sanitize_order_def demo_collections_def Let_def)
  show ?thesis
    using stored_prefs_repaired[OF d, where json_parse="\<lambda>_. Some stale_prefs" and cl=demo_collation and raw="Some ''{}''" and es="[]"] r by simp
qed

end
