(* ===== verification/Sections.thy ===== *)
theory Sections
  imports AppState CollectionPrefs
begin

text \<open>
  \<open>frontend/src/components/library/sections.ts\<close>: which books the library shows for a place, in which
  order, and under which title. The locale's comparison is the \<open>collation\<close> parameter; the
  sort key of a missing author (\<open>U+FFFF\<close>) is a parameter too, since it is outside the character type.
\<close>

section \<open>Data\<close>

record book =
  b_id :: int
  b_path :: string
  b_format :: book_format
  b_title :: string
  b_subtitle :: "string option"
  b_author :: "string option"
  b_publisher :: "string option"
  b_isbn :: "string option"
  b_description :: "string option"
  b_added :: string
  b_last_opened :: "string option"
  b_progress :: "rat option"
  b_progress_updated :: "string option"

record collection_summary =
  cs_id :: int
  cs_name :: string
  cs_books :: "int list"
  cs_memberships :: "(int \<times> string) list"

section \<open>Titles\<close>

fun smart_title :: "smart_section \<Rightarrow> string" where
  "smart_title AllBooks = ''All Books''"
| "smart_title RecentlyAdded = ''Recently Added''"
| "smart_title RecentlyRead = ''Recently Read''"
| "smart_title InProgress = ''In Progress''"
| "smart_title Finished = ''Finished''"

fun section_title :: "library_section \<Rightarrow> string" where
  "section_title (Smart s) = smart_title s"
| "section_title (Collection ids) = ''Collection''"
| "section_title ReadingHistory = ''Reading history''"

definition summary_by_id :: "collection_summary list \<Rightarrow> int \<Rightarrow> collection_summary option" where
  "summary_by_id cs = map_of (rev (map (\<lambda>c. (cs_id c, c)) cs))"

definition selected_collections :: "library_section \<Rightarrow> collection_summary list \<Rightarrow> collection_summary list" where
  "selected_collections sec cs = List.map_filter (summary_by_id cs) (section_ids sec)"

definition library_title :: "library_section \<Rightarrow> collection_summary list \<Rightarrow> string" where
  "library_title sec cs =
     (case sec of
        Collection ids \<Rightarrow>
          let names = map cs_name (selected_collections sec cs) in
          if 3 \<le> length ids then show_nat (length ids) @ '' collections''
          else (case names of
                  [a, b] \<Rightarrow> a @ '' and '' @ b
                | [] \<Rightarrow> ''Collection''
                | a # _ \<Rightarrow> a)
      | _ \<Rightarrow> section_title sec)"

datatype empty_kind = NotEmpty | EmptyOne | EmptyMulti

definition collection_empty_kind :: "library_section \<Rightarrow> collection_summary list \<Rightarrow> empty_kind" where
  "collection_empty_kind sec cs =
     (case sec of
        Collection ids \<Rightarrow>
          if list_ex (\<lambda>c. 0 < length (cs_books c)) (selected_collections sec cs) then NotEmpty
          else if 1 < length ids then EmptyMulti else EmptyOne
      | _ \<Rightarrow> NotEmpty)"

section \<open>Sorting\<close>

definition desc :: "collation \<Rightarrow> (book \<Rightarrow> string) \<Rightarrow> book \<Rightarrow> book \<Rightarrow> bool" where
  "desc cl key a b = (locale_compare cl (key b) (key a) \<le> 0)"

definition asc :: "collation \<Rightarrow> (book \<Rightarrow> string) \<Rightarrow> book \<Rightarrow> book \<Rightarrow> bool" where
  "asc cl key a b = (locale_compare cl (key a) (key b) \<le> 0)"

definition or_empty :: "string option \<Rightarrow> string" where
  "or_empty v = (case v of None \<Rightarrow> '''' | Some s \<Rightarrow> s)"

definition by_last_read :: "book \<Rightarrow> string" where "by_last_read b = or_empty (b_last_opened b)"
definition by_progress_updated :: "book \<Rightarrow> string" where "by_progress_updated b = or_empty (b_progress_updated b)"

definition in_progress :: "book \<Rightarrow> bool" where
  "in_progress b = (case b_progress b of None \<Rightarrow> False | Some x \<Rightarrow> x < 100)"

definition finished :: "book \<Rightarrow> bool" where
  "finished b = (case b_progress b of None \<Rightarrow> False | Some x \<Rightarrow> 100 \<le> x)"

definition filter_by_section :: "collation \<Rightarrow> book list \<Rightarrow> library_section \<Rightarrow> book list" where
  "filter_by_section cl books sec =
     (case sec of
        Smart AllBooks \<Rightarrow> books
      | Smart RecentlyAdded \<Rightarrow> js_sort (desc cl b_added) books
      | Smart RecentlyRead \<Rightarrow> js_sort (desc cl by_last_read) (filter (\<lambda>b. b_last_opened b \<noteq> None) books)
      | Smart InProgress \<Rightarrow> js_sort (desc cl by_progress_updated) (filter in_progress books)
      | Smart Finished \<Rightarrow> js_sort (desc cl by_progress_updated) (filter finished books)
      | _ \<Rightarrow> books)"

definition filter_by_format :: "book list \<Rightarrow> book_format list \<Rightarrow> book list" where
  "filter_by_format books formats =
     (if formats = [] then books else filter (\<lambda>b. b_format b \<in> set formats) books)"

definition filter_by_collection :: "book list \<Rightarrow> int list \<Rightarrow> book list" where
  "filter_by_collection books ids = filter (\<lambda>b. b_id b \<in> set ids) books"

definition book_sort_label :: "book_sort \<Rightarrow> library_section \<Rightarrow> string" where
  "book_sort_label srt sec =
     (case srt of
        DateAdded \<Rightarrow> (case sec of Collection _ \<Rightarrow> ''Added to collection'' | _ \<Rightarrow> ''Date added'')
      | SectionOrder \<Rightarrow> ''Section order''
      | LastRead \<Rightarrow> ''Last read''
      | ByTitle \<Rightarrow> ''Title''
      | ByAuthor \<Rightarrow> ''Author'')"

datatype sort_field = FDateAdded | FMembership | FLastRead | FProgressUpdated | FTitle | FAuthor

fun section_order_field :: "library_section \<Rightarrow> sort_field" where
  "section_order_field (Collection _) = FMembership"
| "section_order_field ReadingHistory = FLastRead"
| "section_order_field (Smart AllBooks) = FDateAdded"
| "section_order_field (Smart RecentlyAdded) = FDateAdded"
| "section_order_field (Smart RecentlyRead) = FLastRead"
| "section_order_field (Smart InProgress) = FProgressUpdated"
| "section_order_field (Smart Finished) = FProgressUpdated"

definition sort_field_for :: "book_sort \<Rightarrow> library_section \<Rightarrow> sort_field" where
  "sort_field_for srt sec =
     (case srt of
        SectionOrder \<Rightarrow> section_order_field sec
      | DateAdded \<Rightarrow> (case sec of Collection _ \<Rightarrow> FMembership | _ \<Rightarrow> FDateAdded)
      | LastRead \<Rightarrow> FLastRead
      | ByTitle \<Rightarrow> FTitle
      | ByAuthor \<Rightarrow> FAuthor)"

definition note_membership :: "collation \<Rightarrow> (int \<rightharpoonup> string) \<Rightarrow> int \<times> string \<Rightarrow> (int \<rightharpoonup> string)" where
  "note_membership cl dates m =
     (case dates (fst m) of
        None \<Rightarrow> dates(fst m \<mapsto> snd m)
      | Some current \<Rightarrow> if locale_compare cl (snd m) current < 0 then dates(fst m \<mapsto> snd m) else dates)"

definition earliest_membership_dates :: "collation \<Rightarrow> collection_summary list \<Rightarrow> (int \<rightharpoonup> string)" where
  "earliest_membership_dates cl cs =
     foldl (\<lambda>dates c. foldl (note_membership cl) dates (cs_memberships c)) Map.empty cs"

definition membership_key :: "collation \<Rightarrow> collection_summary list \<Rightarrow> book \<Rightarrow> string" where
  "membership_key cl cs b = (case earliest_membership_dates cl cs (b_id b) of None \<Rightarrow> b_added b | Some d \<Rightarrow> d)"

definition author_key :: "string \<Rightarrow> book \<Rightarrow> string" where
  "author_key missing b = (case b_author b of None \<Rightarrow> missing | Some a \<Rightarrow> a)"

definition field_order :: "collation \<Rightarrow> string \<Rightarrow> sort_field \<Rightarrow> collection_summary list \<Rightarrow> book \<Rightarrow> book \<Rightarrow> bool" where
  "field_order cl missing field cs =
     (case field of
        FDateAdded \<Rightarrow> desc cl b_added
      | FMembership \<Rightarrow> desc cl (membership_key cl cs)
      | FLastRead \<Rightarrow> desc cl by_last_read
      | FProgressUpdated \<Rightarrow> desc cl by_progress_updated
      | FTitle \<Rightarrow> asc cl b_title
      | FAuthor \<Rightarrow> asc cl (author_key missing))"

definition sort_books ::
    "collation \<Rightarrow> string \<Rightarrow> book list \<Rightarrow> book_sort \<Rightarrow> library_section \<Rightarrow> collection_summary list \<Rightarrow> book list" where
  "sort_books cl missing books srt sec cs = js_sort (field_order cl missing (sort_field_for srt sec) cs) books"

section \<open>Searching\<close>

text \<open>\<open>path.split(/[\\/]/).pop()\<close>\<close>

definition file_name_of :: "string \<Rightarrow> string" where
  "file_name_of path = rev (takeWhile (\<lambda>c. c \<noteq> CHR ''/'' \<and> c \<noteq> CHR 0x5C) (rev path))"

definition book_fields :: "book \<Rightarrow> string option list" where
  "book_fields b =
     [Some (b_title b), b_subtitle b, b_author b, b_publisher b, b_isbn b, b_description b,
      Some (file_name_of (b_path b))]"

definition book_matches :: "string \<Rightarrow> book \<Rightarrow> bool" where
  "book_matches needle b =
     list_ex (\<lambda>f. case f of None \<Rightarrow> False | Some s \<Rightarrow> contains (to_lower s) needle) (book_fields b)"

definition filter_by_query :: "book list \<Rightarrow> string \<Rightarrow> book list" where
  "filter_by_query books query =
     (let needle = to_lower (trim query) in if needle = '''' then books else filter (book_matches needle) books)"

definition select_visible_books ::
    "collation \<Rightarrow> string \<Rightarrow> book list \<Rightarrow> collection_summary list \<Rightarrow> library_section \<Rightarrow> book_format list
       \<Rightarrow> book_sort \<Rightarrow> string \<Rightarrow> book list" where
  "select_visible_books cl missing books cs sec formats srt query =
     (let place = selected_collections sec cs;
          scoped = (case sec of
                      Collection _ \<Rightarrow> filter_by_collection books (concat (map cs_books place))
                    | _ \<Rightarrow> filter_by_section cl books sec);
          filtered = filter_by_format scoped formats in
      filter_by_query (sort_books cl missing filtered srt sec place) query)"

section \<open>Orders\<close>

lemma desc_comparator: "collation_ok cl \<Longrightarrow> comparator (desc cl key)"
proof
  fix x y z
  assume ok: "collation_ok cl"
  show "desc cl key x y \<or> desc cl key y x"
    using collation_flip[OF ok, of "key x" "key y"] by (auto simp: desc_def)
  show "desc cl key x y \<Longrightarrow> desc cl key y z \<Longrightarrow> desc cl key x z"
    unfolding desc_def using collation_trans[OF ok] by blast
qed

lemma asc_comparator: "collation_ok cl \<Longrightarrow> comparator (asc cl key)"
proof
  fix x y z
  assume ok: "collation_ok cl"
  show "asc cl key x y \<or> asc cl key y x"
    using collation_flip[OF ok, of "key x" "key y"] by (auto simp: asc_def)
  show "asc cl key x y \<Longrightarrow> asc cl key y z \<Longrightarrow> asc cl key x z"
    unfolding asc_def using collation_trans[OF ok] by blast
qed

lemma field_order_comparator: "collation_ok cl \<Longrightarrow> comparator (field_order cl missing field cs)"
  by (cases field) (simp_all add: field_order_def desc_comparator asc_comparator)

section \<open>What the library shows\<close>

text \<open>Whether a place, its filters and its search keep a book.\<close>

definition in_place :: "library_section \<Rightarrow> collection_summary list \<Rightarrow> book \<Rightarrow> bool" where
  "in_place sec cs b =
     (case sec of
        Smart RecentlyRead \<Rightarrow> b_last_opened b \<noteq> None
      | Smart InProgress \<Rightarrow> in_progress b
      | Smart Finished \<Rightarrow> finished b
      | Collection ids \<Rightarrow> (\<exists>c\<in>set (selected_collections sec cs). b_id b \<in> set (cs_books c))
      | _ \<Rightarrow> True)"

definition shown :: "library_section \<Rightarrow> collection_summary list \<Rightarrow> book_format list \<Rightarrow> string \<Rightarrow> book \<Rightarrow> bool" where
  "shown sec cs formats query b \<longleftrightarrow> in_place sec cs b \<and> (formats = [] \<or> b_format b \<in> set formats)
     \<and> (to_lower (trim query) = '''' \<or> book_matches (to_lower (trim query)) b)"

lemma mset_filter_by_section:
  "\<forall>ids. sec \<noteq> Collection ids \<Longrightarrow> mset (filter_by_section cl books sec) = mset (filter (in_place sec cs) books)"
proof (cases sec)
  case (Smart s)
  then show ?thesis by (cases s) (simp_all add: filter_by_section_def in_place_def)
qed (simp_all add: filter_by_section_def in_place_def)

lemma mset_filter_by_collection:
  "mset (filter_by_collection books (concat (map cs_books (selected_collections (Collection ids) cs))))
     = mset (filter (in_place (Collection ids) cs) books)"
  unfolding filter_by_collection_def in_place_def by simp

lemma mset_filter_by_format:
  "mset (filter_by_format books formats) = filter_mset (\<lambda>b. formats = [] \<or> b_format b \<in> set formats) (mset books)"
  by (auto simp: filter_by_format_def)

lemma mset_filter_by_query:
  "mset (filter_by_query books q)
     = filter_mset (\<lambda>b. to_lower (trim q) = '''' \<or> book_matches (to_lower (trim q)) b) (mset books)"
  by (auto simp: filter_by_query_def Let_def)

lemma sorted_filter_by_query: "sorted_wrt P books \<Longrightarrow> sorted_wrt P (filter_by_query books q)"
  by (simp add: filter_by_query_def Let_def sorted_wrt_filter)

text \<open>The library shows every book that is in the place, has a ticked format and matches the search,
  each as often as the library lists it and no other, sorted by the field the chosen order resolves to
  in that place.\<close>

theorem visible_books_exact:
  assumes "collation_ok cl"
  shows "mset (select_visible_books cl missing books cs sec formats srt query)
           = mset (filter (shown sec cs formats query) books)
    \<and> sorted_wrt (field_order cl missing (sort_field_for srt sec) (selected_collections sec cs))
         (select_visible_books cl missing books cs sec formats srt query)"
proof -
  define scoped where "scoped = (case sec of
      Collection _ \<Rightarrow> filter_by_collection books (concat (map cs_books (selected_collections sec cs)))
    | _ \<Rightarrow> filter_by_section cl books sec)"
  have sc: "mset scoped = mset (filter (in_place sec cs) books)"
    unfolding scoped_def using mset_filter_by_section[of sec cl books cs] mset_filter_by_collection
    by (cases sec) auto
  have v: "select_visible_books cl missing books cs sec formats srt query =
      filter_by_query (sort_books cl missing (filter_by_format scoped formats) srt sec (selected_collections sec cs)) query"
    by (simp add: select_visible_books_def scoped_def Let_def)
  have "mset (select_visible_books cl missing books cs sec formats srt query)
      = mset (filter (shown sec cs formats query) books)"
    unfolding v mset_filter_by_query sort_books_def mset_js_sort mset_filter_by_format sc
    by (auto simp: shown_def filter_filter_mset intro!: filter_mset_cong)
  moreover have "sorted_wrt (field_order cl missing (sort_field_for srt sec) (selected_collections sec cs))
         (select_visible_books cl missing books cs sec formats srt query)"
    unfolding v sort_books_def
    by (intro sorted_filter_by_query comparator.sorted_js_sort field_order_comparator assms)
  ultimately show ?thesis by blast
qed

definition demo_book :: "int \<Rightarrow> string \<Rightarrow> book" where
  "demo_book i t = \<lparr>b_id = i, b_path = ''/b/'' @ t, b_format = EPUB, b_title = t, b_subtitle = None, b_author = None,
     b_publisher = None, b_isbn = None, b_description = None, b_added = t, b_last_opened = None, b_progress = None,
     b_progress_updated = None\<rparr>"

theorem visible_books_exact_witness:
  "mset (select_visible_books demo_collation ''zzzz'' [demo_book 1 ''bb'', demo_book 2 ''a'', demo_book 3 ''ccc'']
     [\<lparr>cs_id = 7, cs_name = ''Sea'', cs_books = [3, 1], cs_memberships = []\<rparr>] (Collection [7]) [] SectionOrder '''')
   = {#demo_book 1 ''bb'', demo_book 3 ''ccc''#}"
proof -
  let ?cs = "[\<lparr>cs_id = 7, cs_name = ''Sea'', cs_books = [3, 1], cs_memberships = []\<rparr>]"
  have s: "selected_collections (Collection [7]) ?cs = ?cs"
    by (simp add: selected_collections_def summary_by_id_def section_ids_def List.map_filter_def)
  have t: "to_lower (trim '''') = ''''" by (simp add: to_lower_def trim_def)
  show ?thesis
    using visible_books_exact[OF demo_collation_ok, of "''zzzz''"
        "[demo_book 1 ''bb'', demo_book 2 ''a'', demo_book 3 ''ccc'']" ?cs "Collection [7]" "[]" SectionOrder "''''"]
    unfolding shown_def in_place_def by (simp add: s t demo_book_def)
qed

section \<open>Membership dates\<close>

lemma note_membership_dates:
  assumes ok: "collation_ok cl"
    and inv: "\<forall>b. (case dates b of None \<Rightarrow> (\<forall>t. (b, t) \<notin> set seen)
        | Some d \<Rightarrow> (b, d) \<in> set seen \<and> (\<forall>t. (b, t) \<in> set seen \<longrightarrow> locale_compare cl d t \<le> 0))"
  shows "\<forall>b. (case foldl (note_membership cl) dates ms b of None \<Rightarrow> (\<forall>t. (b, t) \<notin> set (seen @ ms))
        | Some d \<Rightarrow> (b, d) \<in> set (seen @ ms) \<and> (\<forall>t. (b, t) \<in> set (seen @ ms) \<longrightarrow> locale_compare cl d t \<le> 0))"
  using inv
proof (induction ms arbitrary: dates seen)
  case (Cons m ms)
  obtain i t where m: "m = (i, t)" by force
  have refl: "locale_compare cl u u \<le> 0" for u using collation_flip[OF ok, of u u] by linarith
  have step: "case note_membership cl dates m b of None \<Rightarrow> (\<forall>t. (b, t) \<notin> set (seen @ [m]))
        | Some d \<Rightarrow> (b, d) \<in> set (seen @ [m]) \<and> (\<forall>t. (b, t) \<in> set (seen @ [m]) \<longrightarrow> locale_compare cl d t \<le> 0)" for b
  proof (cases "b = i")
    case False
    then have "note_membership cl dates m b = dates b"
      by (simp add: note_membership_def m split: option.split)
    then show ?thesis using Cons.prems[rule_format, of b] False by (simp add: m split: option.splits)
  next
    case True
    show ?thesis
    proof (cases "dates i")
      case None
      then show ?thesis using Cons.prems[rule_format, of i] True refl by (simp add: note_membership_def m)
    next
      case (Some d)
      then have d: "(i, d) \<in> set seen" "\<And>u. (i, u) \<in> set seen \<Longrightarrow> locale_compare cl d u \<le> 0"
        using Cons.prems[rule_format, of i] by auto
      show ?thesis
      proof (cases "locale_compare cl t d < 0")
        case True
        then have "locale_compare cl t u \<le> 0" if "(i, u) \<in> set seen" for u
          using collation_trans[OF ok, of t d u] d(2)[OF that] by simp
        then show ?thesis using True Some \<open>b = i\<close> refl by (auto simp: note_membership_def m)
      next
        case False
        then have "locale_compare cl d t \<le> 0" using collation_flip[OF ok, of d t] by simp
        then show ?thesis using False Some \<open>b = i\<close> d by (auto simp: note_membership_def m)
      qed
    qed
  qed
  have l: "(seen @ [m]) @ ms = seen @ m # ms" by simp
  show ?case using Cons.IH[where dates="note_membership cl dates m" and seen="seen @ [m]"] step
    unfolding l foldl_Cons by blast
next
  case Nil
  then show ?case unfolding append_Nil2 foldl_Nil .
qed

lemma foldl_concat: "foldl (\<lambda>acc c. foldl f acc (g c)) acc cs = foldl f acc (concat (map g cs))"
  by (induction cs arbitrary: acc) auto

text \<open>In a collection place a book is dated by its earliest membership among the selected collections:
  the date is one of those memberships and no later than any of them, so joining one more
  collection never makes a book look newer and the order of the collections cannot matter; a book without membership
  keeps its library date.\<close>

theorem membership_date_earliest:
  assumes "collation_ok cl"
  shows "case earliest_membership_dates cl cs b of
      None \<Rightarrow> (\<forall>c\<in>set cs. \<forall>t. (b, t) \<notin> set (cs_memberships c))
    | Some d \<Rightarrow> (\<exists>c\<in>set cs. (b, d) \<in> set (cs_memberships c))
        \<and> (\<forall>c\<in>set cs. \<forall>t. (b, t) \<in> set (cs_memberships c) \<longrightarrow> locale_compare cl d t \<le> 0)"
proof -
  have e: "earliest_membership_dates cl cs = foldl (note_membership cl) Map.empty (concat (map cs_memberships cs))"
    by (simp add: earliest_membership_dates_def foldl_concat)
  show ?thesis
    using note_membership_dates[OF assms, where dates=Map.empty and seen="[]" and ms="concat (map cs_memberships cs)",
        simplified, THEN spec, of b]
    unfolding e by (auto split: option.splits)
qed

theorem membership_date_earliest_witness:
  "earliest_membership_dates demo_collation
     [\<lparr>cs_id = 1, cs_name = ''A'', cs_books = [5], cs_memberships = [(5, ''ccc'')]\<rparr>,
      \<lparr>cs_id = 2, cs_name = ''B'', cs_books = [5], cs_memberships = [(5, ''bb''), (5, ''dddd'')]\<rparr>] 5 = Some ''bb''
   \<and> locale_compare demo_collation ''bb'' ''ccc'' \<le> 0"
proof -
  let ?cs = "[\<lparr>cs_id = 1, cs_name = ''A'', cs_books = [5], cs_memberships = [(5, ''ccc'')]\<rparr>,
      \<lparr>cs_id = 2, cs_name = ''B'', cs_books = [5], cs_memberships = [(5, ''bb''), (5, ''dddd'')]\<rparr>]"
  have e: "earliest_membership_dates demo_collation ?cs 5 = Some ''bb''"
    by (simp add: earliest_membership_dates_def note_membership_def demo_collation_def)
  show ?thesis using membership_date_earliest[OF demo_collation_ok, of ?cs 5] e by (simp del: One_nat_def)
qed

section \<open>Searching narrows\<close>

lemma contains_sublist: "contains s n \<longleftrightarrow> sublist n s"
  by (induction s n rule: contains.induct) (auto simp: starts_with_prefix sublist_Cons_right)

text \<open>Typing more never brings a book back: when the trimmed, lower-cased search text occurs in a second one,
  every book the second search keeps is kept by the first, in the same order, and searching again with
  the same text changes nothing.\<close>

theorem search_narrows:
  assumes "sublist (to_lower (trim q)) (to_lower (trim q'))"
  shows "filter_by_query (filter_by_query books q') q = filter_by_query books q'
    \<and> subseq (filter_by_query books q') (filter_by_query books q)"
proof -
  have c: "contains s (to_lower (trim q')) \<Longrightarrow> contains s (to_lower (trim q))" for s
    using assms unfolding contains_sublist by (rule sublist_order.order_trans)
  have m: "book_matches (to_lower (trim q')) b \<Longrightarrow> book_matches (to_lower (trim q)) b" for b
    unfolding book_matches_def list_ex_iff by (auto split: option.splits intro!: bexI c)
  have e: "filter_by_query books q = filter (\<lambda>b. to_lower (trim q) = '''' \<or> book_matches (to_lower (trim q)) b) books" for books q
    by (auto simp: filter_by_query_def Let_def)
  have k: "to_lower (trim q) = '''' \<or> book_matches (to_lower (trim q)) b"
    if "to_lower (trim q') = '''' \<or> book_matches (to_lower (trim q')) b" for b
    using that m assms by auto
  have "filter_by_query (filter_by_query books q') q = filter_by_query books q'"
    unfolding e filter_filter using k by (intro filter_cong) auto
  moreover have "filter_by_query books q' = filter (\<lambda>b. to_lower (trim q') = '''' \<or> book_matches (to_lower (trim q')) b)
      (filter_by_query books q)"
    unfolding e filter_filter using k by (intro filter_cong) auto
  ultimately show ?thesis by (metis subseq_filter_left)
qed

theorem search_narrows_witness:
  "subseq (filter_by_query [demo_book 1 ''Sea wolf'', demo_book 2 ''Seaside''] ''SEA W'')
     (filter_by_query [demo_book 1 ''Sea wolf'', demo_book 2 ''Seaside''] '' se'')"
proof -
  have "to_lower (trim '' se'') = ''se''" "to_lower (trim ''SEA W'') = ''sea w''" by code_simp+
  then have "sublist (to_lower (trim '' se'')) (to_lower (trim ''SEA W''))"
    unfolding contains_sublist[symmetric] by (metis append_Cons append_Nil sublist_appendI contains_sublist)
  then show ?thesis using search_narrows by blast
qed

end
