(* ===== verification/BitmapCache.thy ===== *)
theory BitmapCache
  imports Prelude
begin

text \<open>
  \<open>frontend/src/components/reader/pdf/pdfBitmapCache.ts\<close> and \<open>pdfPreloadQueue.ts\<close>: the LRU cache of
  rendered PDF pages and the queue that rasters neighbour pages into it. A \<open>Map\<close> is an association
  list in insertion order; a canvas is its dimensions and an identity.
\<close>

section \<open>Bitmaps and keys\<close>

record canvas =
  cv_width :: nat
  cv_height :: nat
  cv_id :: nat

record bitmap =
  bm_page :: nat
  bm_region :: "string option"
  bm_scale :: rat
  bm_ratio :: rat
  bm_variant :: string
  bm_buffer :: canvas

definition DEFAULT_BUDGET_BYTES :: int where "DEFAULT_BUDGET_BYTES = 320 * 1024 * 1024"
definition DEFAULT_MAX_ENTRIES :: nat where "DEFAULT_MAX_ENTRIES = 8"

definition bitmap_bytes :: "canvas \<Rightarrow> int" where
  "bitmap_bytes b = int (cv_width b) * int (cv_height b) * 4"

definition cache_key :: "nat \<Rightarrow> string option \<Rightarrow> string" where
  "cache_key page region = show_nat page @ CHR 0x00 # (case region of None \<Rightarrow> ''full'' | Some r \<Rightarrow> r)"

record bitmap_cache =
  bc_entries :: "(string \<times> bitmap) list"
  bc_bytes :: int
  bc_max_bytes :: int
  bc_max_entries :: nat

definition new_cache :: "int \<Rightarrow> nat \<Rightarrow> bitmap_cache" where
  "new_cache max_bytes max_entries =
     \<lparr>bc_entries = [], bc_bytes = 0, bc_max_bytes = max_bytes, bc_max_entries = max_entries\<rparr>"

section \<open>Operations\<close>

definition delete_key :: "string \<Rightarrow> (string \<times> bitmap) list \<Rightarrow> (string \<times> bitmap) list" where
  "delete_key k es = filter (\<lambda>e. fst e \<noteq> k) es"

definition cache_get ::
    "bitmap_cache \<Rightarrow> nat \<Rightarrow> rat \<Rightarrow> rat \<Rightarrow> string \<Rightarrow> string option \<Rightarrow> bitmap_cache \<times> bitmap option" where
  "cache_get c page scale ratio variant region =
     (let key = cache_key page region in
      case map_of (bc_entries c) key of
        None \<Rightarrow> (c, None)
      | Some hit \<Rightarrow>
          if bm_scale hit \<noteq> scale \<or> bm_ratio hit \<noteq> ratio \<or> bm_variant hit \<noteq> variant then (c, None)
          else (c\<lparr>bc_entries := delete_key key (bc_entries c) @ [(key, hit)]\<rparr>, Some hit))"

definition cache_remove :: "bitmap_cache \<Rightarrow> nat \<Rightarrow> string option \<Rightarrow> bitmap_cache" where
  "cache_remove c page region =
     (let key = cache_key page region in
      case map_of (bc_entries c) key of
        None \<Rightarrow> c
      | Some existing \<Rightarrow>
          c\<lparr>bc_bytes := bc_bytes c - bitmap_bytes (bm_buffer existing),
            bc_entries := delete_key key (bc_entries c)\<rparr>)"

fun trim_entries :: "int \<Rightarrow> nat \<Rightarrow> (string \<times> bitmap) list \<Rightarrow> int \<Rightarrow> (string \<times> bitmap) list \<times> int" where
  "trim_entries max_bytes max_entries (oldest # e # es) bytes =
     (if bytes \<le> max_bytes \<and> length (oldest # e # es) \<le> max_entries then (oldest # e # es, bytes)
      else trim_entries max_bytes max_entries (e # es) (bytes - bitmap_bytes (bm_buffer (snd oldest))))"
| "trim_entries max_bytes max_entries es bytes = (es, bytes)"

definition cache_trim :: "bitmap_cache \<Rightarrow> bitmap_cache" where
  "cache_trim c =
     (let (es, bytes) = trim_entries (bc_max_bytes c) (bc_max_entries c) (bc_entries c) (bc_bytes c) in
      c\<lparr>bc_entries := es, bc_bytes := bytes\<rparr>)"

definition cache_put :: "bitmap_cache \<Rightarrow> bitmap \<Rightarrow> bitmap_cache" where
  "cache_put c b =
     (let c1 = cache_remove c (bm_page b) (bm_region b) in
      cache_trim (c1\<lparr>bc_entries := bc_entries c1 @ [(cache_key (bm_page b) (bm_region b), b)],
                    bc_bytes := bc_bytes c1 + bitmap_bytes (bm_buffer b)\<rparr>))"

definition cache_clear :: "bitmap_cache \<Rightarrow> bitmap_cache" where
  "cache_clear c = c\<lparr>bc_entries := [], bc_bytes := 0\<rparr>"

definition cache_size :: "bitmap_cache \<Rightarrow> nat" where
  "cache_size c = length (bc_entries c)"

section \<open>Keys do not collide\<close>

lemma cache_key_inj:
  "cache_key p r = cache_key p' r' \<longleftrightarrow>
     p = p' \<and> (case r of None \<Rightarrow> ''full'' | Some x \<Rightarrow> x) = (case r' of None \<Rightarrow> ''full'' | Some x \<Rightarrow> x)"
proof
  assume e: "cache_key p r = cache_key p' r'"
  have nd: "\<not> is_digit CHR 0x00" by code_simp
  have tw: "takeWhile is_digit (cache_key q s) = show_nat q" for q s
    unfolding cache_key_def by (rule takeWhile_digits[OF show_nat_digits nd])
  have "show_nat p = show_nat p'" using e tw[of p r] tw[of p' r'] by simp
  then have "p = p'" by (metis nat_of_digits_show)
  then show "p = p' \<and> (case r of None \<Rightarrow> ''full'' | Some x \<Rightarrow> x) = (case r' of None \<Rightarrow> ''full'' | Some x \<Rightarrow> x)"
    using e by (simp add: cache_key_def)
qed (simp add: cache_key_def)

section \<open>The invariant\<close>

definition entries_bytes :: "(string \<times> bitmap) list \<Rightarrow> int" where
  "entries_bytes es = sum_list (map (\<lambda>e. bitmap_bytes (bm_buffer (snd e))) es)"

definition keyed :: "(string \<times> bitmap) list \<Rightarrow> bool" where
  "keyed es \<longleftrightarrow> distinct (map fst es) \<and> (\<forall>(k, b)\<in>set es. k = cache_key (bm_page b) (bm_region b))"

definition within_budget :: "bitmap_cache \<Rightarrow> bool" where
  "within_budget c \<longleftrightarrow> length (bc_entries c) \<le> 1
     \<or> bc_bytes c \<le> bc_max_bytes c \<and> length (bc_entries c) \<le> bc_max_entries c"

definition cache_inv :: "bitmap_cache \<Rightarrow> bool" where
  "cache_inv c \<longleftrightarrow> keyed (bc_entries c) \<and> bc_bytes c = entries_bytes (bc_entries c) \<and> within_budget c"

lemma bitmap_bytes_nonneg [simp]: "0 \<le> bitmap_bytes b"
  by (simp add: bitmap_bytes_def)

lemma entries_bytes_simps [simp]:
  "entries_bytes [] = 0"
  "entries_bytes (e # es) = bitmap_bytes (bm_buffer (snd e)) + entries_bytes es"
  "entries_bytes (es @ fs) = entries_bytes es + entries_bytes fs"
  by (simp_all add: entries_bytes_def)

lemma delete_absent: "k \<notin> fst ` set es \<Longrightarrow> delete_key k es = es"
  by (force simp: delete_key_def filter_id_conv)

lemma delete_bytes:
  "distinct (map fst es) \<Longrightarrow> map_of es k = Some b \<Longrightarrow>
     entries_bytes (delete_key k es) = entries_bytes es - bitmap_bytes (bm_buffer b)"
proof (induction es)
  case (Cons e es)
  show ?case
  proof (cases "fst e = k")
    case True
    then have "delete_key k es = es" using Cons.prems by (intro delete_absent) auto
    then show ?thesis using True Cons.prems by (simp add: delete_key_def)
  next
    case False
    then show ?thesis using Cons by (cases e) (auto simp: delete_key_def)
  qed
qed simp

lemma length_delete:
  "distinct (map fst es) \<Longrightarrow> map_of es k = Some b \<Longrightarrow> Suc (length (delete_key k es)) = length es"
proof (induction es)
  case (Cons e es)
  show ?case
  proof (cases "fst e = k")
    case True
    then have "delete_key k es = es" using Cons.prems by (intro delete_absent) auto
    then show ?thesis using True by (simp add: delete_key_def)
  next
    case False
    then show ?thesis using Cons by (cases e) (auto simp: delete_key_def)
  qed
qed simp

lemma delete_bytes_le: "entries_bytes (delete_key k es) \<le> entries_bytes es"
proof (induction es)
  case (Cons e es)
  have "0 \<le> bitmap_bytes (bm_buffer (snd e))" by simp
  then show ?case using Cons by (auto simp: delete_key_def intro: order_trans)
qed (simp add: delete_key_def)

lemma keyed_delete: "keyed es \<Longrightarrow> keyed (delete_key k es) \<and> k \<notin> fst ` set (delete_key k es)"
  by (auto simp: keyed_def delete_key_def distinct_map_filter)

lemma keyed_append:
  "keyed es \<Longrightarrow> k \<notin> fst ` set es \<Longrightarrow> k = cache_key (bm_page b) (bm_region b) \<Longrightarrow> keyed (es @ [(k, b)])"
  by (auto simp: keyed_def)

text \<open>Trimming drops a shortest prefix that brings the rest within both bounds, and never the last entry.\<close>

lemma trim_drop:
  "es \<noteq> [] \<Longrightarrow> bytes = entries_bytes es \<Longrightarrow>
     \<exists>n < length es. trim_entries mb me es bytes = (drop n es, entries_bytes (drop n es))
       \<and> (length es - n \<le> 1 \<or> entries_bytes (drop n es) \<le> mb \<and> length es - n \<le> me)
       \<and> (\<forall>j < n. \<not> (entries_bytes (drop j es) \<le> mb \<and> length es - j \<le> me))"
proof (induction mb me es bytes rule: trim_entries.induct)
  case (1 mb me oldest e es bytes)
  show ?case
  proof (cases "bytes \<le> mb \<and> length (oldest # e # es) \<le> me")
    case True
    then show ?thesis using 1 by (intro exI[of _ 0]) auto
  next
    case False
    then obtain n where n: "n < length (e # es)"
        "trim_entries mb me (e # es) (bytes - bitmap_bytes (bm_buffer (snd oldest)))
           = (drop n (e # es), entries_bytes (drop n (e # es)))"
        "length (e # es) - n \<le> 1 \<or> entries_bytes (drop n (e # es)) \<le> mb \<and> length (e # es) - n \<le> me"
        "\<forall>j < n. \<not> (entries_bytes (drop j (e # es)) \<le> mb \<and> length (e # es) - j \<le> me)"
      using 1 by auto
    have "\<not> (entries_bytes (drop j (oldest # e # es)) \<le> mb \<and> length (oldest # e # es) - j \<le> me)" if "j < Suc n" for j
      using that n(4) False 1(3) by (cases j) auto
    then show ?thesis using n False by (intro exI[of _ "Suc n"]) auto
  qed
qed auto

lemma keyed_drop: "keyed es \<Longrightarrow> keyed (drop n es)"
  unfolding keyed_def by (metis distinct_drop drop_map in_set_dropD)

section \<open>Puts, hits and evictions\<close>

lemma remove_shape:
  assumes "cache_inv c"
  shows "bc_entries (cache_remove c p r) = delete_key (cache_key p r) (bc_entries c)"
    and "bc_bytes (cache_remove c p r) = entries_bytes (delete_key (cache_key p r) (bc_entries c))"
    and "bc_max_bytes (cache_remove c p r) = bc_max_bytes c"
    and "bc_max_entries (cache_remove c p r) = bc_max_entries c"
proof -
  have d: "distinct (map fst (bc_entries c))" using assms by (simp add: cache_inv_def keyed_def)
  have a: "map_of (bc_entries c) k = None \<Longrightarrow> delete_key k (bc_entries c) = bc_entries c" for k
    by (intro delete_absent) (simp add: map_of_eq_None_iff)
  show "bc_entries (cache_remove c p r) = delete_key (cache_key p r) (bc_entries c)"
    "bc_bytes (cache_remove c p r) = entries_bytes (delete_key (cache_key p r) (bc_entries c))"
    "bc_max_bytes (cache_remove c p r) = bc_max_bytes c"
    "bc_max_entries (cache_remove c p r) = bc_max_entries c"
    using assms a delete_bytes[OF d]
    by (auto simp: cache_remove_def Let_def cache_inv_def split: option.split)
qed

text \<open>The entries before trimming: the key's old entry is gone and the new one is the newest.\<close>

definition with_newest :: "bitmap_cache \<Rightarrow> bitmap \<Rightarrow> (string \<times> bitmap) list" where
  "with_newest c b =
     delete_key (cache_key (bm_page b) (bm_region b)) (bc_entries c) @ [(cache_key (bm_page b) (bm_region b), b)]"

lemma put_shape:
  assumes "cache_inv c"
  shows "\<exists>n < length (with_newest c b). bc_entries (cache_put c b) = drop n (with_newest c b)
       \<and> bc_bytes (cache_put c b) = entries_bytes (drop n (with_newest c b))
       \<and> bc_max_bytes (cache_put c b) = bc_max_bytes c \<and> bc_max_entries (cache_put c b) = bc_max_entries c
       \<and> (length (with_newest c b) - n \<le> 1
          \<or> entries_bytes (drop n (with_newest c b)) \<le> bc_max_bytes c
            \<and> length (with_newest c b) - n \<le> bc_max_entries c)
       \<and> (\<forall>j < n. \<not> (entries_bytes (drop j (with_newest c b)) \<le> bc_max_bytes c
            \<and> length (with_newest c b) - j \<le> bc_max_entries c))"
proof -
  have ne: "with_newest c b \<noteq> []" by (simp add: with_newest_def)
  have bys: "entries_bytes (delete_key (cache_key (bm_page b) (bm_region b)) (bc_entries c)) + bitmap_bytes (bm_buffer b)
      = entries_bytes (with_newest c b)" by (simp add: with_newest_def)
  obtain n where "n < length (with_newest c b)"
    "trim_entries (bc_max_bytes c) (bc_max_entries c) (with_newest c b) (entries_bytes (with_newest c b))
       = (drop n (with_newest c b), entries_bytes (drop n (with_newest c b)))"
    "length (with_newest c b) - n \<le> 1 \<or> entries_bytes (drop n (with_newest c b)) \<le> bc_max_bytes c
       \<and> length (with_newest c b) - n \<le> bc_max_entries c"
    "\<forall>j < n. \<not> (entries_bytes (drop j (with_newest c b)) \<le> bc_max_bytes c
       \<and> length (with_newest c b) - j \<le> bc_max_entries c)"
    using trim_drop[OF ne refl] by blast
  then show ?thesis
    by (intro exI[of _ n])
      (simp add: cache_put_def cache_trim_def remove_shape[OF assms] bys with_newest_def[symmetric])
qed

lemma keyed_with_newest: "cache_inv c \<Longrightarrow> keyed (with_newest c b)"
  unfolding with_newest_def cache_inv_def by (intro keyed_append) (use keyed_delete in auto)

lemma put_inv: "cache_inv c \<Longrightarrow> cache_inv (cache_put c b)"
  using put_shape[of c b] keyed_with_newest[of c b] keyed_drop
  by (auto simp: cache_inv_def within_budget_def)
lemma remove_inv: "cache_inv c \<Longrightarrow> cache_inv (cache_remove c p r)"
proof -
  assume i: "cache_inv c"
  let ?es = "delete_key (cache_key p r) (bc_entries c)"
  have "length ?es \<le> length (bc_entries c)" by (simp add: delete_key_def)
  moreover have "entries_bytes ?es \<le> entries_bytes (bc_entries c)"
    by (rule delete_bytes_le)
  ultimately show ?thesis
    using i keyed_delete[of "bc_entries c" "cache_key p r"] remove_shape[OF i, of p r]
    by (auto simp: cache_inv_def within_budget_def)
qed

lemma clear_inv: "cache_inv c \<Longrightarrow> cache_inv (cache_clear c)"
  by (simp add: cache_inv_def cache_clear_def keyed_def within_budget_def)

lemma new_cache_inv: "cache_inv (new_cache mb me)"
  by (simp add: cache_inv_def new_cache_def keyed_def within_budget_def)

text \<open>What a lookup returns, as a function of the whole key it is asked for.\<close>

type_synonym bitmap_key = "nat \<times> rat \<times> rat \<times> string \<times> string option"

definition lookup :: "bitmap_cache \<Rightarrow> bitmap_key \<Rightarrow> bitmap option" where
  "lookup c k = (case k of (p, s, r, v, g) \<Rightarrow> snd (cache_get c p s r v g))"

definition key_of :: "bitmap \<Rightarrow> bitmap_key" where
  "key_of b = (bm_page b, bm_scale b, bm_ratio b, bm_variant b, bm_region b)"

lemma lookup_Some:
  "lookup c (p, s, r, v, g) = Some x \<longleftrightarrow>
     map_of (bc_entries c) (cache_key p g) = Some x \<and> bm_scale x = s \<and> bm_ratio x = r \<and> bm_variant x = v"
  by (auto simp: lookup_def cache_get_def Let_def split: option.split)

lemma map_of_newest:
  assumes "cache_inv c" and "(k, x) \<in> set (with_newest c b)"
  shows "x = b \<and> k = cache_key (bm_page b) (bm_region b)
    \<or> map_of (bc_entries c) k = Some x \<and> k \<noteq> cache_key (bm_page b) (bm_region b)"
proof -
  have "distinct (map fst (bc_entries c))" using assms(1) by (simp add: cache_inv_def keyed_def)
  then show ?thesis using assms(2) by (auto simp: with_newest_def delete_key_def)
qed

lemma put_entries:
  assumes "cache_inv c"
  shows "map_of (bc_entries (cache_put c b)) (cache_key (bm_page b) (bm_region b)) = Some b"
    and "map_of (bc_entries (cache_put c b)) k = Some x \<Longrightarrow>
           x = b \<and> k = cache_key (bm_page b) (bm_region b) \<or> map_of (bc_entries c) k = Some x"
proof -
  obtain n where n: "n < length (with_newest c b)" "bc_entries (cache_put c b) = drop n (with_newest c b)"
    using put_shape[OF assms, of b] by blast
  have l: "(cache_key (bm_page b) (bm_region b), b) \<in> set (drop n (with_newest c b))"
    using n(1) by (simp add: with_newest_def)
  have d: "distinct (map fst (drop n (with_newest c b)))"
    using keyed_drop[OF keyed_with_newest[OF assms]] by (simp add: keyed_def)
  show "map_of (bc_entries (cache_put c b)) (cache_key (bm_page b) (bm_region b)) = Some b"
    unfolding n(2) using d l by (rule map_of_is_SomeI)
  assume "map_of (bc_entries (cache_put c b)) k = Some x"
  then have "(k, x) \<in> set (with_newest c b)" unfolding n(2) by (metis in_set_dropD map_of_SomeD)
  then show "x = b \<and> k = cache_key (bm_page b) (bm_region b) \<or> map_of (bc_entries c) k = Some x"
    using map_of_newest[OF assms] by blast
qed

section \<open>The store interface\<close>

text \<open>What the preloads rely on: a put is found again, and nothing is found that was not put.\<close>

locale bitmap_store =
  fixes put :: "'c \<Rightarrow> 'b \<Rightarrow> 'c" and find_in :: "'c \<Rightarrow> 'k \<Rightarrow> 'b option"
    and name_of :: "'b \<Rightarrow> 'k" and sound :: "'c \<Rightarrow> bool"
  assumes put_sound: "sound c \<Longrightarrow> sound (put c b)"
    and put_hit: "sound c \<Longrightarrow> find_in (put c b) (name_of b) = Some b"
    and put_only: "sound c \<Longrightarrow> find_in (put c b) k = Some x \<Longrightarrow> x = b \<or> find_in c k = Some x"
begin

lemma puts_sound: "sound c \<Longrightarrow> sound (foldl put c bs)"
  by (induction bs arbitrary: c) (simp_all add: put_sound)

lemma last_put_hit: "sound c \<Longrightarrow> find_in (foldl put c (bs @ [b])) (name_of b) = Some b"
  by (simp add: puts_sound put_hit)

lemma hit_was_put: "sound c \<Longrightarrow> find_in (foldl put c bs) k = Some x \<Longrightarrow> x \<in> set bs \<or> find_in c k = Some x"
proof (induction bs arbitrary: c)
  case (Cons b bs)
  then show ?case using put_only[of c b k x] put_sound[of c b] by fastforce
qed simp

end

interpretation store: bitmap_store cache_put lookup key_of cache_inv
proof
  fix c :: bitmap_cache and b x :: bitmap and k :: bitmap_key
  show "cache_inv c \<Longrightarrow> cache_inv (cache_put c b)" by (rule put_inv)
  show "cache_inv c \<Longrightarrow> lookup (cache_put c b) (key_of b) = Some b"
    using put_entries(1) by (simp add: key_of_def lookup_Some)
  show "cache_inv c \<Longrightarrow> lookup (cache_put c b) k = Some x \<Longrightarrow> x = b \<or> lookup c k = Some x"
    using put_entries(2) by (cases k) (auto simp: lookup_Some)
qed

lemma get_inv: "cache_inv c \<Longrightarrow> cache_inv (fst (cache_get c p s r v g))"
proof (cases "lookup c (p, s, r, v, g)")
  case None
  then have "fst (cache_get c p s r v g) = c"
    by (auto simp: lookup_def cache_get_def Let_def split: option.split)
  then show "cache_inv c \<Longrightarrow> ?thesis" by simp
next
  case (Some x)
  assume i: "cache_inv c"
  let ?k = "cache_key p g"
  have m: "map_of (bc_entries c) ?k = Some x" using Some by (simp add: lookup_Some)
  have f: "fst (cache_get c p s r v g) = c\<lparr>bc_entries := delete_key ?k (bc_entries c) @ [(?k, x)]\<rparr>"
    using Some by (simp add: lookup_Some cache_get_def Let_def)
  have d: "distinct (map fst (bc_entries c))" and kx: "?k = cache_key (bm_page x) (bm_region x)"
    using i map_of_SomeD[OF m] by (auto simp: cache_inv_def keyed_def)
  have "keyed (delete_key ?k (bc_entries c) @ [(?k, x)])"
    using keyed_delete[of "bc_entries c" ?k] i kx by (intro keyed_append) (auto simp: cache_inv_def)
  moreover have "entries_bytes (delete_key ?k (bc_entries c) @ [(?k, x)]) = entries_bytes (bc_entries c)"
    using delete_bytes[OF d m] by simp
  moreover have "length (delete_key ?k (bc_entries c) @ [(?k, x)]) = length (bc_entries c)"
    using length_delete[OF d] m by simp
  ultimately show ?thesis using i f by (auto simp: cache_inv_def within_budget_def)
qed

section \<open>Runs of the cache\<close>

datatype cache_op =
    Get nat rat rat string "string option"
  | Put bitmap
  | Remove nat "string option"
  | Clear

fun cache_step :: "bitmap_cache \<Rightarrow> cache_op \<Rightarrow> bitmap_cache" where
  "cache_step c (Get p s r v g) = fst (cache_get c p s r v g)"
| "cache_step c (Put b) = cache_put c b"
| "cache_step c (Remove p g) = cache_remove c p g"
| "cache_step c Clear = cache_clear c"

interpretation cache: invariant_machine cache_step "\<lambda>_. True" cache_inv
  by unfold_locales (case_tac e; simp add: get_inv put_inv remove_inv clear_inv)

lemma trim_limits [simp]:
  "bc_max_bytes (cache_trim c) = bc_max_bytes c" "bc_max_entries (cache_trim c) = bc_max_entries c"
  by (simp_all add: cache_trim_def split: prod.split)

lemma step_limits:
  "bc_max_bytes (cache_step c e) = bc_max_bytes c \<and> bc_max_entries (cache_step c e) = bc_max_entries c"
  by (cases e) (auto simp: cache_get_def cache_put_def cache_remove_def cache_clear_def Let_def split: option.split)

lemma run_limits:
  "bc_max_bytes (run cache_step c es) = bc_max_bytes c \<and> bc_max_entries (run cache_step c es) = bc_max_entries c"
  by (induction es arbitrary: c) (simp_all add: step_limits)


definition demo_bitmap :: "nat \<Rightarrow> nat \<Rightarrow> bitmap" where
  "demo_bitmap p w = \<lparr>bm_page = p, bm_region = None, bm_scale = 1, bm_ratio = 2, bm_variant = ''original'',
     bm_buffer = \<lparr>cv_width = w, cv_height = 1, cv_id = p\<rparr>\<rparr>"

lemma demo_key: "cache_key p None \<noteq> cache_key q None \<longleftrightarrow> p \<noteq> q"
  by (simp add: cache_key_inj)


text \<open>C13. Eviction is least-recently-used and minimal: a put drops the bitmap's old version and then the shortest
  run of oldest entries that brings the cache within both bounds, keeping the order of the rest with the new one newest;
  a hit returns exactly the bitmap stored for that page, region, scale, ratio and colour variant and makes it the newest
  without changing the others.\<close>

theorem cache_lru:
  assumes "cache_inv c"
  shows "(\<exists>n. bc_entries (cache_put c b) = drop n (delete_key (cache_key (bm_page b) (bm_region b)) (bc_entries c)
                 @ [(cache_key (bm_page b) (bm_region b), b)])
        \<and> n \<le> length (delete_key (cache_key (bm_page b) (bm_region b)) (bc_entries c))
        \<and> (\<forall>j < n. bc_max_bytes c < entries_bytes (drop j (with_newest c b))
             \<or> bc_max_entries c < length (with_newest c b) - j))
    \<and> (\<forall>p s r v g x. snd (cache_get c p s r v g) = Some x \<longrightarrow>
         bm_page x = p \<and> bm_scale x = s \<and> bm_ratio x = r \<and> bm_variant x = v
         \<and> cache_key (bm_page x) (bm_region x) = cache_key p g
         \<and> bc_entries (fst (cache_get c p s r v g)) = delete_key (cache_key p g) (bc_entries c) @ [(cache_key p g, x)])"
proof (intro conjI)
  obtain n where "n < length (with_newest c b)" "bc_entries (cache_put c b) = drop n (with_newest c b)"
    "\<forall>j < n. \<not> (entries_bytes (drop j (with_newest c b)) \<le> bc_max_bytes c
       \<and> length (with_newest c b) - j \<le> bc_max_entries c)"
    using put_shape[OF assms, of b] by blast
  then show "\<exists>n. bc_entries (cache_put c b) = drop n (delete_key (cache_key (bm_page b) (bm_region b)) (bc_entries c)
                 @ [(cache_key (bm_page b) (bm_region b), b)])
        \<and> n \<le> length (delete_key (cache_key (bm_page b) (bm_region b)) (bc_entries c))
        \<and> (\<forall>j < n. bc_max_bytes c < entries_bytes (drop j (with_newest c b))
             \<or> bc_max_entries c < length (with_newest c b) - j)"
    by (intro exI[of _ n]) (auto simp: with_newest_def not_le)
next
  show "\<forall>p s r v g x. snd (cache_get c p s r v g) = Some x \<longrightarrow>
         bm_page x = p \<and> bm_scale x = s \<and> bm_ratio x = r \<and> bm_variant x = v
         \<and> cache_key (bm_page x) (bm_region x) = cache_key p g
         \<and> bc_entries (fst (cache_get c p s r v g)) = delete_key (cache_key p g) (bc_entries c) @ [(cache_key p g, x)]"
  proof (intro allI impI)
    fix p s r v g x
    assume h: "snd (cache_get c p s r v g) = Some x"
    then have l: "lookup c (p, s, r, v, g) = Some x" by (simp add: lookup_def)
    then have m: "map_of (bc_entries c) (cache_key p g) = Some x" by (simp add: lookup_Some)
    have k: "cache_key p g = cache_key (bm_page x) (bm_region x)"
      using map_of_SomeD[OF m] assms by (auto simp: cache_inv_def keyed_def)
    then have "p = bm_page x" by (simp add: cache_key_inj)
    moreover have "bc_entries (fst (cache_get c p s r v g)) = delete_key (cache_key p g) (bc_entries c) @ [(cache_key p g, x)]"
      using l m by (simp add: lookup_Some cache_get_def Let_def)
    ultimately show "bm_page x = p \<and> bm_scale x = s \<and> bm_ratio x = r \<and> bm_variant x = v
         \<and> cache_key (bm_page x) (bm_region x) = cache_key p g
         \<and> bc_entries (fst (cache_get c p s r v g)) = delete_key (cache_key p g) (bc_entries c) @ [(cache_key p g, x)]"
      using l k by (simp add: lookup_Some)
  qed
qed

theorem cache_lru_witness:
  "map (bm_page \<circ> snd) (bc_entries (fst (cache_get (run cache_step (new_cache 20 8)
      [Put (demo_bitmap 1 2), Put (demo_bitmap 2 2)]) 1 1 2 ''original'' None))) = [2, 1]"
proof -
  let ?c = "run cache_step (new_cache 20 8) [Put (demo_bitmap 1 2), Put (demo_bitmap 2 2)]"
  have i: "cache_inv ?c" by (rule cache.run_keeps[OF new_cache_inv]) simp
  have e: "bc_entries ?c = [(cache_key 1 None, demo_bitmap 1 2), (cache_key 2 None, demo_bitmap 2 2)]"
    by (simp add: new_cache_def demo_bitmap_def cache_put_def cache_remove_def cache_trim_def
        delete_key_def bitmap_bytes_def cache_key_inj Let_def)
  have g: "snd (cache_get ?c 1 1 2 ''original'' None) = Some (demo_bitmap 1 2)"
    using e by (simp add: cache_get_def Let_def demo_bitmap_def)
  show ?thesis
    using cache_lru[OF i] g e by (simp add: delete_key_def cache_key_inj demo_bitmap_def)
qed

section \<open>The preload queue\<close>

record preload_target =
  pt_page :: nat
  pt_scale :: rat
  pt_ratio :: rat

datatype raster = Rendered canvas | RasterFailed | RasterCancelled

record preload =
  pq_targets :: "preload_target list"
  pq_active :: "preload_target option"
  pq_cancelled :: bool
  pq_cancel_sent :: bool
  pq_variant :: string
  pq_cache :: bitmap_cache
  pq_preloaded :: "nat list"

text \<open>The head of the loop: stop, or start the next raster.\<close>

definition next_target :: "preload \<Rightarrow> preload" where
  "next_target q =
     (case pq_targets q of
        [] \<Rightarrow> q\<lparr>pq_active := None\<rparr>
      | t # ts \<Rightarrow>
          if pq_cancelled q then q\<lparr>pq_active := None, pq_targets := []\<rparr>
          else q\<lparr>pq_active := Some t, pq_targets := ts\<rparr>)"

definition start_preload :: "preload_target list \<Rightarrow> string \<Rightarrow> bitmap_cache \<Rightarrow> preload" where
  "start_preload targets variant c =
     next_target \<lparr>pq_targets = targets, pq_active = None, pq_cancelled = False, pq_cancel_sent = False,
                  pq_variant = variant, pq_cache = c, pq_preloaded = []\<rparr>"

definition end_preload :: "preload \<Rightarrow> preload" where
  "end_preload q = q\<lparr>pq_active := None, pq_targets := []\<rparr>"

definition target_bitmap :: "preload_target \<Rightarrow> string \<Rightarrow> canvas \<Rightarrow> bitmap" where
  "target_bitmap t variant buffer =
     \<lparr>bm_page = pt_page t, bm_region = Some ''full'', bm_scale = pt_scale t, bm_ratio = pt_ratio t,
      bm_variant = variant, bm_buffer = buffer\<rparr>"

text \<open>The active raster's promise settles; without one nothing happens.\<close>

definition settle_raster :: "preload \<Rightarrow> raster \<Rightarrow> preload" where
  "settle_raster q r =
     (case pq_active q of
        None \<Rightarrow> q
      | Some t \<Rightarrow>
          (case r of
             Rendered buffer \<Rightarrow>
               if pq_cancelled q then end_preload q
               else next_target (q\<lparr>pq_cache := cache_put (pq_cache q) (target_bitmap t (pq_variant q) buffer),
                                   pq_preloaded := pq_preloaded q @ [pt_page t]\<rparr>)
           | RasterFailed \<Rightarrow> next_target q
           | RasterCancelled \<Rightarrow> end_preload q))"

definition cancel_preload :: "preload \<Rightarrow> preload" where
  "cancel_preload q = q\<lparr>pq_cancelled := True, pq_cancel_sent := (pq_cancel_sent q \<or> pq_active q \<noteq> None)\<rparr>"

text \<open>The queue's own events and the reader's use of the shared cache in between.\<close>

datatype preload_event = Settle raster | Cancel | Reader cache_op

fun preload_step :: "preload \<Rightarrow> preload_event \<Rightarrow> preload" where
  "preload_step q (Settle r) = settle_raster q r"
| "preload_step q Cancel = cancel_preload q"
| "preload_step q (Reader e) = q\<lparr>pq_cache := cache_step (pq_cache q) e\<rparr>"

definition reader_ops :: "preload_event list \<Rightarrow> cache_op list" where
  "reader_ops es = List.map_filter (\<lambda>e. case e of Reader x \<Rightarrow> Some x | _ \<Rightarrow> None) es"

lemma next_target_cache [simp]:
  "pq_cache (next_target q) = pq_cache q" "pq_preloaded (next_target q) = pq_preloaded q"
  "pq_cancelled (next_target q) = pq_cancelled q" "pq_variant (next_target q) = pq_variant q"
  by (auto simp: next_target_def split: list.split)

lemma preload_inv: "cache_inv (pq_cache q) \<Longrightarrow> cache_inv (pq_cache (preload_step q e))"
proof (cases e)
  case (Settle r)
  then show "cache_inv (pq_cache q) \<Longrightarrow> ?thesis"
    by (auto simp: settle_raster_def end_preload_def put_inv split: option.split raster.split)
next
  case (Reader x)
  then show "cache_inv (pq_cache q) \<Longrightarrow> ?thesis" using cache.step_keeps[of "pq_cache q" x] by simp
qed (simp add: cancel_preload_def)

interpretation preloads: invariant_machine preload_step "\<lambda>_. True" "\<lambda>q. cache_inv (pq_cache q)"
  by unfold_locales (rule preload_inv)

lemma cancelled_step:
  "pq_cancelled q \<Longrightarrow> pq_cancelled (preload_step q e)
     \<and> pq_preloaded (preload_step q e) = pq_preloaded q
     \<and> pq_cache (preload_step q e) = run cache_step (pq_cache q) (reader_ops [e])"
  by (cases e) (auto simp: settle_raster_def end_preload_def cancel_preload_def reader_ops_def List.map_filter_def
      split: option.split raster.split)

lemma reader_ops_Cons: "reader_ops (e # es) = reader_ops [e] @ reader_ops es"
  by (simp add: reader_ops_def List.map_filter_def)

lemma cancelled_run:
  "pq_cancelled q \<Longrightarrow> pq_preloaded (run preload_step q es) = pq_preloaded q
     \<and> pq_cache (run preload_step q es) = run cache_step (pq_cache q) (reader_ops es)"
proof (induction es arbitrary: q)
  case Nil
  then show ?case by (simp add: reader_ops_def List.map_filter_def)
next
  case (Cons e es)
  then show ?case
    using cancelled_step[OF Cons.prems, of e] reader_ops_Cons[of e es] by (simp add: run_append)
qed

text \<open>A superseded preload run never touches the shared cache again: after its cancel, whatever still settles, the
  cache changes only by the reader's own operations and no page is reported. Before it, a finished raster is stored
  before it is reported, and the reader's next lookup for that page, scale, ratio and variant, under the whole-page
  region, finds exactly that buffer.\<close>

theorem preload_cancel_final:
  assumes "cache_inv (pq_cache q)"
  shows "pq_cache (run preload_step (preload_step q Cancel) es) = run cache_step (pq_cache q) (reader_ops es)
    \<and> pq_preloaded (run preload_step (preload_step q Cancel) es) = pq_preloaded q
    \<and> (\<forall>t buffer. pq_active q = Some t \<longrightarrow> \<not> pq_cancelled q \<longrightarrow>
         pq_preloaded (preload_step q (Settle (Rendered buffer))) = pq_preloaded q @ [pt_page t]
         \<and> snd (cache_get (pq_cache (preload_step q (Settle (Rendered buffer)))) (pt_page t) (pt_scale t) (pt_ratio t)
                 (pq_variant q) None) = Some (target_bitmap t (pq_variant q) buffer))"
proof -
  have c: "pq_cancelled (preload_step q Cancel)" "pq_cache (preload_step q Cancel) = pq_cache q"
    "pq_preloaded (preload_step q Cancel) = pq_preloaded q"
    by (simp_all add: cancel_preload_def)
  have "snd (cache_get (cache_put (pq_cache q) (target_bitmap t v buffer)) (pt_page t) (pt_scale t) (pt_ratio t) v None)
      = Some (target_bitmap t v buffer)" for t v buffer
  proof -
    have "lookup (cache_put (pq_cache q) (target_bitmap t v buffer)) (key_of (target_bitmap t v buffer))
        = Some (target_bitmap t v buffer)" using store.put_hit[OF assms] .
    then have "lookup (cache_put (pq_cache q) (target_bitmap t v buffer)) (pt_page t, pt_scale t, pt_ratio t, v, None)
        = Some (target_bitmap t v buffer)"
      by (simp add: key_of_def lookup_Some target_bitmap_def cache_key_def)
    then show ?thesis by (simp add: lookup_def)
  qed
  then show ?thesis using cancelled_run[OF c(1), of es] c by (simp add: settle_raster_def)
qed

theorem preload_cancel_final_witness:
  "pq_preloaded (run preload_step (preload_step (start_preload [\<lparr>pt_page = 4, pt_scale = 1, pt_ratio = 2\<rparr>] ''smart''
      (new_cache 100 8)) Cancel) [Settle (Rendered \<lparr>cv_width = 1, cv_height = 1, cv_id = 0\<rparr>)]) = []"
proof -
  have p: "pq_cache (start_preload [\<lparr>pt_page = 4, pt_scale = 1, pt_ratio = 2\<rparr>] ''smart'' (new_cache 100 8)) = new_cache 100 8"
    "pq_preloaded (start_preload [\<lparr>pt_page = 4, pt_scale = 1, pt_ratio = 2\<rparr>] ''smart'' (new_cache 100 8)) = []"
    by (simp_all add: start_preload_def)
  have i: "cache_inv (pq_cache (start_preload [\<lparr>pt_page = 4, pt_scale = 1, pt_ratio = 2\<rparr>] ''smart'' (new_cache 100 8)))"
    unfolding p by (rule new_cache_inv)
  show ?thesis using preload_cancel_final[OF i, THEN conjunct2, THEN conjunct1] p(2) by (rule trans)
qed

end
