(* ===== verification/PdfLayout.thy ===== *)
theory PdfLayout
  imports Prelude
begin

text \<open>
  \<open>frontend/src/components/reader/pdf/pdfLayout.ts\<close>: the layout arithmetic of the PDF reader. Numbers are
  exact rationals, with \<open>jnum\<close> where the code tests \<open>Number.isFinite\<close>; the power of the wheel zoom and
  \<open>Number(text)\<close> are parameters, the first because its floating-point value is left to the implementation.
\<close>

section \<open>Pages and zoom requests\<close>

record page_size =
  ps_page :: nat
  ps_width :: rat
  ps_height :: rat

record box =
  bx_width :: rat
  bx_height :: rat

datatype zoom_mode = FitWidth | FitPage | FitAuto | Custom

record scale_request =
  sr_mode :: zoom_mode
  sr_level :: jnum
  sr_reference :: "box option"
  sr_presentation :: "box option"

record layout_slot =
  ls_page :: nat
  ls_top :: rat
  ls_width :: rat
  ls_height :: rat

definition PAPERS_VIEW_SPACING :: rat where "PAPERS_VIEW_SPACING = 12"
definition PAGE_GAP_PX :: rat where "PAGE_GAP_PX = 8"

section \<open>Fit scales\<close>

definition fit_width_scale :: "rat \<Rightarrow> rat \<Rightarrow> rat \<Rightarrow> rat" where
  "fit_width_scale available page_width spacing =
     (let target = available - 2 * spacing in
      if target \<le> 0 \<or> page_width \<le> 0 then 1 else target / page_width)"

definition fit_height_scale :: "rat \<Rightarrow> rat \<Rightarrow> rat \<Rightarrow> rat" where
  "fit_height_scale available page_height spacing =
     (let target = available - 2 * spacing in
      if target \<le> 0 \<or> page_height \<le> 0 then 1 else target / page_height)"

definition fit_page_scale :: "rat \<Rightarrow> rat \<Rightarrow> rat \<Rightarrow> rat \<Rightarrow> rat \<Rightarrow> rat" where
  "fit_page_scale aw ah pw ph spacing =
     (if pw \<le> 0 \<or> ph \<le> 0 then 1 else min (fit_width_scale aw pw spacing) (fit_height_scale ah ph spacing))"

definition auto_fit_scale :: "rat \<Rightarrow> rat \<Rightarrow> rat \<Rightarrow> rat \<Rightarrow> rat \<Rightarrow> rat" where
  "auto_fit_scale aw ah pw ph spacing =
     (if pw \<le> 0 \<or> ph \<le> 0 then 1
      else if ph < pw then min (fit_width_scale aw pw spacing) (fit_height_scale ah ph spacing)
      else fit_width_scale aw pw spacing)"

section \<open>Zoom levels\<close>

definition ZOOM_PRESETS :: "rat list" where
  "ZOOM_PRESETS =
     [12/100, 25/100, 33/100, 5/10, 66/100, 75/100, 1, 125/100, 15/10, 2, 4, 8, 16, 25, 50, 100]"

definition MIN_ZOOM :: rat where "MIN_ZOOM = 12/100"
definition MAX_ZOOM :: rat where "MAX_ZOOM = 100"
definition DEFAULT_ZOOM_LEVEL :: rat where "DEFAULT_ZOOM_LEVEL = 1"

fun clamp_zoom :: "jnum \<Rightarrow> rat" where
  "clamp_zoom (Fin s) = (if s \<le> 0 then DEFAULT_ZOOM_LEVEL else min MAX_ZOOM (max MIN_ZOOM s))"
| "clamp_zoom _ = DEFAULT_ZOOM_LEVEL"

definition compute_pdf_scale :: "scale_request \<Rightarrow> rat \<Rightarrow> rat \<Rightarrow> rat \<Rightarrow> rat" where
  "compute_pdf_scale rq aw vh spacing =
     (case sr_presentation rq of
        Some p \<Rightarrow> fit_page_scale aw vh (bx_width p) (bx_height p) spacing
      | None \<Rightarrow>
          (case sr_reference rq of
             None \<Rightarrow> 1
           | Some b \<Rightarrow>
               (case sr_mode rq of
                  FitWidth \<Rightarrow> fit_width_scale aw (bx_width b) spacing
                | FitPage \<Rightarrow> fit_page_scale aw vh (bx_width b) (bx_height b) spacing
                | FitAuto \<Rightarrow> auto_fit_scale aw vh (bx_width b) (bx_height b) spacing
                | Custom \<Rightarrow> clamp_zoom (sr_level rq))))"

text \<open>The Arabic percent sign the code also drops is outside the character type.\<close>

definition parse_zoom_percent :: "(string \<Rightarrow> jnum) \<Rightarrow> string \<Rightarrow> rat option" where
  "parse_zoom_percent to_number text =
     (let normalized = trim (filter (\<lambda>c. c \<noteq> CHR ''%'' \<and> c \<noteq> CHR ''&'') text) in
      if normalized = '''' then None
      else (case to_number normalized of
              Fin percent \<Rightarrow> if percent \<le> 0 then None else Some (percent / 100)
            | _ \<Rightarrow> None))"

definition math_round :: "rat \<Rightarrow> int" where
  "math_round x = \<lfloor>x + 1/2\<rfloor>"

definition format_zoom_percent :: "rat \<Rightarrow> string" where
  "format_zoom_percent s =
     (let tenths = math_round (s * 1000) in
      if tenths mod 10 = 0 then show_int (tenths div 10)
      else (if tenths < 0 then ''-'' else '''') @ show_nat (nat \<bar>tenths\<bar> div 10) @ ''.''
             @ show_nat (nat \<bar>tenths\<bar> mod 10))"

text \<open>The index of the last preset at most the scale, 0 when there is none.\<close>

definition preset_index :: "rat \<Rightarrow> nat" where
  "preset_index s =
     fold (\<lambda>i idx. if ZOOM_PRESETS ! i \<le> s then i else idx) [0..<length ZOOM_PRESETS] 0"

function step_up :: "rat \<Rightarrow> nat \<Rightarrow> nat" where
  "step_up s i =
     (if i < length ZOOM_PRESETS - 1 \<and> ZOOM_PRESETS ! i \<le> s then step_up s (Suc i) else i)"
  by pat_completeness auto
termination by (relation "measure (\<lambda>(s, i). length ZOOM_PRESETS - i)") auto

fun step_down :: "rat \<Rightarrow> nat \<Rightarrow> nat" where
  "step_down s 0 = 0"
| "step_down s (Suc i) = (if s \<le> ZOOM_PRESETS ! Suc i then step_down s i else Suc i)"

declare step_up.simps [simp del]

definition step_zoom_level :: "rat \<Rightarrow> bool \<Rightarrow> rat" where
  "step_zoom_level s zoom_in =
     ZOOM_PRESETS ! (if zoom_in then step_up s (preset_index s) else step_down s (preset_index s))"

definition WHEEL_LINE_HEIGHT_PX :: rat where "WHEEL_LINE_HEIGHT_PX = 16"
definition WHEEL_MAX_DELTA_PX :: rat where "WHEEL_MAX_DELTA_PX = 300"

definition wheel_delta_px :: "rat \<Rightarrow> int \<Rightarrow> rat \<Rightarrow> rat" where
  "wheel_delta_px delta_y delta_mode page_px =
     (if delta_mode = 1 then delta_y * WHEEL_LINE_HEIGHT_PX
      else if delta_mode = 2 then delta_y * (if 0 < page_px then page_px else 1)
      else delta_y)"

text \<open>\<open>pow x\<close> stands for \<open>1.2 ** x\<close>.\<close>

definition wheel_zoom_scale :: "(rat \<Rightarrow> rat) \<Rightarrow> rat \<Rightarrow> rat \<Rightarrow> int \<Rightarrow> rat \<Rightarrow> rat" where
  "wheel_zoom_scale pow s delta_y delta_mode page_px =
     (let delta = min WHEEL_MAX_DELTA_PX (max (- WHEEL_MAX_DELTA_PX) (wheel_delta_px delta_y delta_mode page_px)) in
      clamp_zoom (Fin (s * pow (- delta / 100))))"

section \<open>Sizes and slots\<close>

definition estimate_page_sizes :: "nat \<Rightarrow> box \<Rightarrow> page_size list" where
  "estimate_page_sizes n b =
     map (\<lambda>i. \<lparr>ps_page = i + 1, ps_width = bx_width b, ps_height = bx_height b\<rparr>) [0..<n]"

definition area_le :: "box \<Rightarrow> box \<Rightarrow> bool" where
  "area_le a b = (bx_width a * bx_height a - bx_width b * bx_height b \<le> 0)"

definition median_page_size :: "box list \<Rightarrow> box option" where
  "median_page_size samples =
     (if samples = [] then None else Some (js_sort area_le samples ! ((length samples - 1) div 2)))"

definition scaled_pixels :: "rat \<Rightarrow> rat \<Rightarrow> int" where
  "scaled_pixels points scale = \<lfloor>points * scale + 1/2\<rfloor>"

definition displayed_sizes :: "page_size list \<Rightarrow> rat \<Rightarrow> page_size list" where
  "displayed_sizes sizes scale =
     map (\<lambda>s. \<lparr>ps_page = ps_page s, ps_width = of_int (scaled_pixels (ps_width s) scale),
              ps_height = of_int (scaled_pixels (ps_height s) scale)\<rparr>) sizes"

definition document_max_page_size :: "page_size list \<Rightarrow> box option" where
  "document_max_page_size sizes =
     (if sizes = [] then None
      else Some (foldl (\<lambda>b s. \<lparr>bx_width = (if bx_width b < ps_width s then ps_width s else bx_width b),
                             bx_height = (if bx_height b < ps_height s then ps_height s else bx_height b)\<rparr>)
                   \<lparr>bx_width = 0, bx_height = 0\<rparr> sizes))"

definition thumbnail_geometry :: "box \<Rightarrow> rat \<Rightarrow> box" where
  "thumbnail_geometry b cell =
     (if bx_width b \<le> 0 \<or> bx_height b \<le> 0 then \<lparr>bx_width = cell, bx_height = cell\<rparr>
      else \<lparr>bx_width = cell, bx_height = cell * bx_height b / bx_width b\<rparr>)"

fun slots_from :: "rat \<Rightarrow> rat \<Rightarrow> page_size list \<Rightarrow> layout_slot list" where
  "slots_from gap t [] = []"
| "slots_from gap t (s # ss) =
     \<lparr>ls_page = ps_page s, ls_top = t, ls_width = ps_width s, ls_height = ps_height s\<rparr>
       # slots_from gap (t + (ps_height s + gap)) ss"

definition layout_slots :: "page_size list \<Rightarrow> rat \<Rightarrow> layout_slot list" where
  "layout_slots sizes gap = slots_from gap 0 sizes"

section \<open>Spreads\<close>

record rect =
  rc_top :: rat
  rc_left :: rat
  rc_width :: rat
  rc_height :: rat

record spread_layout =
  sp_pages :: "(nat \<times> rect) list"
  sp_bounds :: rect

definition spread_start_index :: "int \<Rightarrow> int" where
  "spread_start_index i = (if i \<le> 0 then 0 else 1 + 2 * ((i - 1) div 2))"

fun spread_pages :: "rat \<Rightarrow> rat \<Rightarrow> page_size list \<Rightarrow> (nat \<times> rect) list" where
  "spread_pages gap left [] = []"
| "spread_pages gap left (s # ss) =
     (ps_page s, \<lparr>rc_top = 0, rc_left = left, rc_width = ps_width s, rc_height = ps_height s\<rparr>)
       # spread_pages gap (left + (ps_width s + gap)) ss"

definition layout_spread :: "page_size list \<Rightarrow> int \<Rightarrow> rat \<Rightarrow> spread_layout option" where
  "layout_spread sizes i gap =
     (if sizes = [] \<or> i < 0 \<or> int (length sizes) \<le> i then None
      else let start = nat (spread_start_index i);
               members = take ((if start = 0 then 1 else start + 2) - start) (drop start sizes);
               left = foldl (\<lambda>l s. l + (ps_width s + gap)) 0 members;
               height = foldl (\<lambda>h s. max h (ps_height s)) 0 members in
        Some \<lparr>sp_pages = spread_pages gap 0 members,
              sp_bounds = \<lparr>rc_top = 0, rc_left = 0, rc_width = max 0 (left - gap), rc_height = height\<rparr>\<rparr>)"

definition next_spread_page_index :: "int \<Rightarrow> int \<Rightarrow> int" where
  "next_spread_page_index i n =
     (if n \<le> 0 then 0
      else let index = min (max 0 i) (n - 1) in
        if index = 0 then min 1 (n - 1) else min (spread_start_index index + 2) (n - 1))"

definition previous_spread_page_index :: "int \<Rightarrow> int" where
  "previous_spread_page_index i =
     (let start = spread_start_index i in if start = 0 then 0 else start - 1)"

definition spread_neighbour_page_indexes :: "int \<Rightarrow> int \<Rightarrow> int list" where
  "spread_neighbour_page_indexes i n =
     filter (\<lambda>k. spread_start_index k \<noteq> spread_start_index i)
       [next_spread_page_index i n, previous_spread_page_index i]"

section \<open>Offsets\<close>

definition document_height :: "layout_slot list \<Rightarrow> rat" where
  "document_height slots = (if slots = [] then 0 else ls_top (last slots) + ls_height (last slots))"

function page_search :: "layout_slot list \<Rightarrow> rat \<Rightarrow> int \<Rightarrow> int \<Rightarrow> nat \<Rightarrow> nat" where
  "page_search slots off low high candidate =
     (if high < low then candidate
      else let mid = (low + high) div 2 in
        if ls_top (slots ! nat mid) \<le> off then page_search slots off (mid + 1) high (nat mid)
        else page_search slots off low (mid - 1) candidate)"
  by pat_completeness auto
termination
  by (relation "measure (\<lambda>(slots, off, low, high, c). nat (high - low + 1))") auto

declare page_search.simps [simp del]

definition page_at_offset :: "rat \<Rightarrow> layout_slot list \<Rightarrow> nat option" where
  "page_at_offset off slots =
     (if slots = [] then None
      else Some (ls_page (slots ! page_search slots off 0 (int (length slots) - 1) 0)))"

definition slot_of :: "nat \<Rightarrow> layout_slot list \<Rightarrow> layout_slot option" where
  "slot_of p slots = find (\<lambda>s. ls_page s = p) slots"

definition offset_for_page :: "nat \<Rightarrow> layout_slot list \<Rightarrow> rat option" where
  "offset_for_page p slots = map_option ls_top (slot_of p slots)"

definition clamp_offset :: "rat \<Rightarrow> rat \<Rightarrow> rat \<Rightarrow> rat" where
  "clamp_offset off viewport_height doc_height =
     (let mx = max 0 (doc_height - viewport_height) in max 0 (min mx off))"

definition compensate_offset :: "rat \<Rightarrow> layout_slot list \<Rightarrow> layout_slot list \<Rightarrow> rat" where
  "compensate_offset off before after =
     (case page_at_offset off before of
        None \<Rightarrow> off
      | Some p \<Rightarrow>
          (case (slot_of p before, slot_of p after) of
             (Some a, Some b) \<Rightarrow> off + (ls_top b - ls_top a)
           | _ \<Rightarrow> off))"

record scroll_adjustment =
  sa_value :: rat
  sa_upper :: rat
  sa_page_size :: rat

datatype scroll_policy = KeepPosition | Center

definition clamp_scroll_value :: "rat \<Rightarrow> rat \<Rightarrow> rat \<Rightarrow> rat" where
  "clamp_scroll_value v upper page_size = (let mx = max 0 (upper - page_size) in max 0 (min mx v))"

definition keep_position_value :: "scroll_adjustment \<Rightarrow> rat \<Rightarrow> rat \<Rightarrow> rat" where
  "keep_position_value a new_upper new_page_size =
     (let factor = (if sa_upper a \<noteq> 0 then sa_value a / sa_upper a else 0) in
      clamp_scroll_value (new_upper * factor) new_upper new_page_size)"

definition center_value :: "scroll_adjustment \<Rightarrow> rat \<Rightarrow> rat \<Rightarrow> rat \<Rightarrow> rat" where
  "center_value a new_upper new_page_size zoom_center =
     (let c = (if 0 \<le> zoom_center then zoom_center else sa_page_size a / 2);
          factor = (if sa_upper a \<noteq> 0 then (sa_value a + c) / sa_upper a else 0) in
      clamp_scroll_value (new_upper * factor - c) new_upper new_page_size)"

definition adjustment_value_for_policy ::
    "scroll_policy \<Rightarrow> scroll_adjustment \<Rightarrow> rat \<Rightarrow> rat \<Rightarrow> rat \<Rightarrow> rat" where
  "adjustment_value_for_policy policy a new_upper new_page_size zoom_center =
     (if policy = Center then center_value a new_upper new_page_size zoom_center
      else keep_position_value a new_upper new_page_size)"

definition viewport_point_to_document_point :: "rat \<Rightarrow> rat \<Rightarrow> rat \<Rightarrow> rat \<Rightarrow> rat" where
  "viewport_point_to_document_point scroll_value pos spacing scale =
     (if scale \<le> 0 then 0 else (scroll_value + pos - spacing) / scale)"

record document_anchor =
  da_page :: nat
  da_fraction :: rat

definition anchor_at_offset :: "rat \<Rightarrow> layout_slot list \<Rightarrow> document_anchor option" where
  "anchor_at_offset off slots =
     (case page_at_offset off slots of
        None \<Rightarrow> None
      | Some p \<Rightarrow>
          (case slot_of p slots of
             None \<Rightarrow> Some \<lparr>da_page = p, da_fraction = 0\<rparr>
           | Some s \<Rightarrow>
               if ls_height s \<le> 0 then Some \<lparr>da_page = p, da_fraction = 0\<rparr>
               else Some \<lparr>da_page = p, da_fraction = max 0 (min 1 ((off - ls_top s) / ls_height s))\<rparr>))"

definition offset_for_anchor :: "document_anchor \<Rightarrow> layout_slot list \<Rightarrow> rat option" where
  "offset_for_anchor a slots =
     map_option (\<lambda>s. ls_top s + da_fraction a * ls_height s) (slot_of (da_page a) slots)"

section \<open>Regions\<close>

text \<open>\<open>Math.ceil(x / step) * step\<close> and \<open>Math.floor(x / step) * step\<close>.\<close>

definition snap_up :: "rat \<Rightarrow> rat \<Rightarrow> rat" where "snap_up x step = of_int \<lceil>x / step\<rceil> * step"
definition snap_down :: "rat \<Rightarrow> rat \<Rightarrow> rat" where "snap_down x step = of_int \<lfloor>x / step\<rfloor> * step"

definition visible_page_region :: "rect \<Rightarrow> rect \<Rightarrow> rat \<Rightarrow> rat \<Rightarrow> rect option" where
  "visible_page_region page vp overscan step =
     (let top = max (rc_top page) (rc_top vp - overscan);
          bottom = min (rc_top page + rc_height page) (rc_top vp + rc_height vp + overscan);
          left = max (rc_left page) (rc_left vp - overscan);
          right = min (rc_left page + rc_width page) (rc_left vp + rc_width vp + overscan) in
      if bottom \<le> top then None
      else if right \<le> left then None
      else let snap = 0 < step;
               l = (if snap then max 0 (snap_down (left - rc_left page) step) else left - rc_left page);
               t = (if snap then max 0 (snap_down (top - rc_top page) step) else top - rc_top page);
               r = (if snap then min (rc_width page) (snap_up (right - rc_left page) step) else right - rc_left page);
               b = (if snap then min (rc_height page) (snap_up (bottom - rc_top page) step) else bottom - rc_top page) in
        Some \<lparr>rc_top = t, rc_left = l, rc_width = max 1 (r - l), rc_height = max 1 (b - t)\<rparr>)"

definition region_covers :: "rect \<Rightarrow> rect \<Rightarrow> bool" where
  "region_covers rendered wanted \<longleftrightarrow>
     rc_left rendered \<le> rc_left wanted + 1/2
     \<and> rc_top rendered \<le> rc_top wanted + 1/2
     \<and> rc_left wanted + rc_width wanted - 1/2 \<le> rc_left rendered + rc_width rendered
     \<and> rc_top wanted + rc_height wanted - 1/2 \<le> rc_top rendered + rc_height rendered"

section \<open>Finding the page at an offset\<close>

lemma page_search_spec:
  assumes "sorted_wrt (\<lambda>a b. ls_top a \<le> ls_top b) slots"
    and "0 \<le> low" and "high < int (length slots)" and "low \<le> high + 1" and "int c = max 0 (low - 1)"
    and "\<forall>i. int i < low \<longrightarrow> ls_top (slots ! i) \<le> off"
    and "\<forall>i. high < int i \<longrightarrow> i < length slots \<longrightarrow> off < ls_top (slots ! i)"
  shows "(let k = page_search slots off low high c in
            (k = 0 \<or> ls_top (slots ! k) \<le> off) \<and> (\<forall>i. k < i \<longrightarrow> i < length slots \<longrightarrow> off < ls_top (slots ! i)))"
  using assms
proof (induction slots off low high c rule: page_search.induct)
  case (1 slots off low high c)
  show ?case
  proof (cases "high < low")
    case True
    then have "low = high + 1" using 1(6) by simp
    then have "c = 0 \<or> ls_top (slots ! c) \<le> off" "\<forall>i. c < i \<longrightarrow> i < length slots \<longrightarrow> off < ls_top (slots ! i)"
      using 1(7,8,9) by (auto simp: max_def split: if_splits)
    then show ?thesis using True by (subst page_search.simps) simp
  next
    case False
    let ?m = "(low + high) div 2"
    have m: "low \<le> ?m" "?m \<le> high" "0 \<le> ?m" using False 1(4) by auto
    then have ml: "nat ?m < length slots" using 1(5) by linarith
    have mono: "ls_top (slots ! i) \<le> ls_top (slots ! j)" if "i \<le> j" "j < length slots" for i j
      using 1(3) that by (metis order_refl le_neq_implies_less sorted_wrt_iff_nth_less)
    show ?thesis
    proof (cases "ls_top (slots ! nat ?m) \<le> off")
      case True
      have below: "\<forall>i. int i < ?m + 1 \<longrightarrow> ls_top (slots ! i) \<le> off"
      proof (intro allI impI)
        fix i assume "int i < ?m + 1"
        then have "i \<le> nat ?m" by linarith
        then show "ls_top (slots ! i) \<le> off" using mono[OF _ ml] True order_trans by blast
      qed
      have "page_search slots off low high c = page_search slots off (?m + 1) high (nat ?m)"
        using False True by (subst page_search.simps) (simp add: Let_def)
      then show ?thesis
        using 1(1)[OF False refl True 1(3) _ 1(5) _ _ below 1(9)] m by auto
    next
      case above: False
      have hi: "\<forall>i. ?m - 1 < int i \<longrightarrow> i < length slots \<longrightarrow> off < ls_top (slots ! i)"
      proof (intro allI impI)
        fix i assume "?m - 1 < int i" "i < length slots"
        then have "nat ?m \<le> i" by linarith
        then show "off < ls_top (slots ! i)" using mono[of "nat ?m" i] \<open>i < length slots\<close> above by linarith
      qed
      have "page_search slots off low high c = page_search slots off low (?m - 1) c"
        using False above by (subst page_search.simps) (simp add: Let_def)
      then show ?thesis
        using 1(2)[OF False refl above 1(3,4) _ _ 1(7,8) hi] m 1(5) by auto
    qed
  qed
qed

text \<open>The last slot that starts at or above the offset; the first one when there is none.\<close>

definition slot_index :: "rat \<Rightarrow> layout_slot list \<Rightarrow> nat" where
  "slot_index off slots = page_search slots off 0 (int (length slots) - 1) 0"

lemma slot_index_spec:
  assumes "sorted_wrt (\<lambda>a b. ls_top a \<le> ls_top b) slots" and "slots \<noteq> []"
  shows "slot_index off slots = 0 \<or> ls_top (slots ! slot_index off slots) \<le> off"
    and "slot_index off slots < i \<Longrightarrow> i < length slots \<Longrightarrow> off < ls_top (slots ! i)"
  using page_search_spec[OF assms(1), of 0 "int (length slots) - 1" 0 off] assms(2)
  by (auto simp: slot_index_def Let_def)

lemma page_search_bound:
  "c < length slots \<Longrightarrow> 0 \<le> low \<Longrightarrow> high < int (length slots) \<Longrightarrow> page_search slots off low high c < length slots"
proof (induction slots off low high c rule: page_search.induct)
  case (1 slots off low high c)
  show ?case
  proof (cases "high < low")
    case False
    let ?m = "(low + high) div 2"
    have m: "0 \<le> ?m" "?m \<le> high" using False 1(4) by auto
    then have "nat ?m < length slots" using 1(5) by linarith
    then show ?thesis
      using False 1 m by (subst page_search.simps) (auto simp: Let_def)
  qed (use 1 in \<open>simp add: page_search.simps[of slots off low high c]\<close>)
qed

lemma slot_index_bound: "slots \<noteq> [] \<Longrightarrow> slot_index off slots < length slots"
  unfolding slot_index_def by (rule page_search_bound) auto

lemma slot_index_unique:
  assumes "sorted_wrt (\<lambda>a b. ls_top a \<le> ls_top b) slots" and "i < length slots"
    and "ls_top (slots ! i) \<le> off" and "Suc i < length slots \<Longrightarrow> off < ls_top (slots ! Suc i)"
  shows "slot_index off slots = i"
proof (rule ccontr)
  assume ne: "slot_index off slots \<noteq> i"
  have s: "slots \<noteq> []" using assms(2) by auto
  show False
  proof (cases "slot_index off slots < i")
    case True
    then show False using slot_index_spec(2)[OF assms(1) s True assms(2)] assms(3) by simp
  next
    case False
    then have g: "i < slot_index off slots" using ne by simp
    have b: "slot_index off slots < length slots" using slot_index_bound[OF s] .
    have "ls_top (slots ! Suc i) \<le> ls_top (slots ! slot_index off slots)"
      using assms(1) g b by (metis Suc_leI order_refl le_neq_implies_less sorted_wrt_iff_nth_less)
    moreover have "ls_top (slots ! slot_index off slots) \<le> off"
      using slot_index_spec(1)[OF assms(1) s] g by (metis not_less0)
    ultimately show False using assms(4) g b by (meson Suc_leI le_less_trans not_le order_trans)
  qed
qed

section \<open>Slots laid out from sizes\<close>

lemma length_slots_from [simp]: "length (slots_from gap t ss) = length ss"
  by (induction ss arbitrary: t) auto

lemma slots_from_nth:
  "i < length ss \<Longrightarrow> slots_from gap t ss ! i =
     \<lparr>ls_page = ps_page (ss ! i), ls_top = t + (\<Sum>s\<leftarrow>take i ss. ps_height s + gap),
      ls_width = ps_width (ss ! i), ls_height = ps_height (ss ! i)\<rparr>"
proof (induction ss arbitrary: t i)
  case (Cons s ss)
  then show ?case by (cases i) (auto simp: algebra_simps)
qed simp

lemma slots_pages: "map ls_page (slots_from gap t ss) = map ps_page ss"
  by (induction ss arbitrary: t) auto

lemma slots_from_tops: "0 \<le> gap \<Longrightarrow> \<forall>s\<in>set ss. 0 \<le> ps_height s \<Longrightarrow> x \<in> set (slots_from gap t ss) \<Longrightarrow> t \<le> ls_top x"
proof (induction ss arbitrary: t)
  case (Cons s ss)
  then show ?case using Cons.IH[of "t + (ps_height s + gap)"] by fastforce
qed simp

lemma slots_from_sorted:
  "0 \<le> gap \<Longrightarrow> \<forall>s\<in>set ss. 0 \<le> ps_height s \<Longrightarrow> sorted_wrt (\<lambda>a b. ls_top a \<le> ls_top b) (slots_from gap t ss)"
proof (induction ss arbitrary: t)
  case (Cons s ss)
  have "\<forall>x\<in>set (slots_from gap (t + (ps_height s + gap)) ss). t \<le> ls_top x"
    using slots_from_tops[OF Cons.prems(1), of ss] Cons.prems by fastforce
  then show ?case using Cons by simp
qed simp

lemma slot_of_nth:
  assumes "distinct (map ls_page slots)" and "i < length slots"
  shows "slot_of (ls_page (slots ! i)) slots = Some (slots ! i)"
proof -
  have "\<forall>j<i. ls_page (slots ! j) \<noteq> ls_page (slots ! i)"
  proof (intro allI impI)
    fix j assume j: "j < i"
    then have "map ls_page slots ! j \<noteq> map ls_page slots ! i"
      using assms nth_eq_iff_index_eq[of "map ls_page slots" j i] by simp
    then show "ls_page (slots ! j) \<noteq> ls_page (slots ! i)" using j assms(2) by simp
  qed
  then show ?thesis unfolding slot_of_def by (subst find_Some_iff) (use assms(2) in auto)
qed

text \<open>Where page \<open>i\<close> starts in the document.\<close>

definition page_top :: "page_size list \<Rightarrow> rat \<Rightarrow> nat \<Rightarrow> rat" where
  "page_top sizes gap i = (\<Sum>s\<leftarrow>take i sizes. ps_height s + gap)"

lemma layout_nth:
  "i < length sizes \<Longrightarrow> layout_slots sizes gap ! i =
     \<lparr>ls_page = ps_page (sizes ! i), ls_top = page_top sizes gap i, ls_width = ps_width (sizes ! i),
      ls_height = ps_height (sizes ! i)\<rparr>"
  by (simp add: layout_slots_def slots_from_nth page_top_def)

lemma page_top_Suc: "i < length sizes \<Longrightarrow> page_top sizes gap (Suc i) = page_top sizes gap i + ps_height (sizes ! i) + gap"
  by (simp add: page_top_def take_Suc_conv_app_nth)

lemma layout_sorted:
  "0 \<le> gap \<Longrightarrow> \<forall>s\<in>set sizes. 0 \<le> ps_height s \<Longrightarrow> sorted_wrt (\<lambda>a b. ls_top a \<le> ls_top b) (layout_slots sizes gap)"
  unfolding layout_slots_def by (rule slots_from_sorted)

lemma layout_index:
  assumes "0 \<le> gap" and "\<forall>s\<in>set sizes. 0 \<le> ps_height s" and "i < length sizes"
    and "page_top sizes gap i \<le> off" and "Suc i < length sizes \<Longrightarrow> off < page_top sizes gap (Suc i)"
  shows "slot_index off (layout_slots sizes gap) = i"
proof (rule slot_index_unique[OF layout_sorted[OF assms(1,2)]])
  show "i < length (layout_slots sizes gap)" using assms(3) by (simp add: layout_slots_def)
  show "ls_top (layout_slots sizes gap ! i) \<le> off" using assms(3,4) by (simp add: layout_nth)
  assume "Suc i < length (layout_slots sizes gap)"
  then have "Suc i < length sizes" by (simp add: layout_slots_def)
  then show "off < ls_top (layout_slots sizes gap ! Suc i)" using assms(5) by (simp add: layout_nth)
qed

lemma page_at_layout:
  assumes "0 \<le> gap" and "\<forall>s\<in>set sizes. 0 \<le> ps_height s" and "i < length sizes"
    and "page_top sizes gap i \<le> off" and "Suc i < length sizes \<Longrightarrow> off < page_top sizes gap (Suc i)"
  shows "page_at_offset off (layout_slots sizes gap) = Some (ps_page (sizes ! i))"
proof -
  have "layout_slots sizes gap \<noteq> []" using assms(3) by (metis layout_slots_def length_slots_from length_0_conv not_less0)
  then show ?thesis
    using layout_index[OF assms] assms(3) by (simp add: page_at_offset_def slot_index_def layout_nth)
qed

text \<open>C14. The binary search finds the page a linear scan would: in a laid-out document of pages with
  non-negative heights, an offset from a page's top to just above the next page's top (its gap included)
  belongs to that page, an offset past the end to the last page, and one above the
  document to the first; a page's own offset is found again on that page when its slot is not empty.\<close>

theorem page_at_offset_exact:
  assumes "0 \<le> gap" and "\<forall>s\<in>set sizes. 0 \<le> ps_height s" and "i < length sizes"
  shows "(page_top sizes gap i \<le> off \<and> (Suc i < length sizes \<longrightarrow> off < page_top sizes gap (Suc i)) \<longrightarrow>
            page_at_offset off (layout_slots sizes gap) = Some (ps_page (sizes ! i)))
    \<and> (off < 0 \<longrightarrow> page_at_offset off (layout_slots sizes gap) = Some (ps_page (sizes ! 0)))
    \<and> (distinct (map ps_page sizes) \<and> 0 < ps_height (sizes ! i) + gap \<longrightarrow>
         Option.bind (offset_for_page (ps_page (sizes ! i)) (layout_slots sizes gap))
           (\<lambda>o'. page_at_offset o' (layout_slots sizes gap)) = Some (ps_page (sizes ! i)))"
proof (intro conjI impI)
  let ?sl = "layout_slots sizes gap"
  have ne: "?sl \<noteq> []" using assms(3) by (metis layout_slots_def length_slots_from length_0_conv not_less0)
  have sz: "sizes \<noteq> []" using assms(3) by auto
  show "page_at_offset off ?sl = Some (ps_page (sizes ! i))"
    if "page_top sizes gap i \<le> off \<and> (Suc i < length sizes \<longrightarrow> off < page_top sizes gap (Suc i))"
    using page_at_layout[OF assms] that by blast
  show "page_at_offset off ?sl = Some (ps_page (sizes ! 0))" if o: "off < 0"
  proof -
    let ?k = "slot_index off ?sl"
    have kl: "?k < length sizes" using slot_index_bound[OF ne, of off] by (simp add: layout_slots_def)
    have "0 \<le> ls_top x" if "x \<in> set ?sl" for x
      using slots_from_tops[OF assms(1,2)] that by (simp add: layout_slots_def)
    then have "0 \<le> ls_top (?sl ! ?k)" using slot_index_bound[OF ne, of off] by simp
    then have "?k = 0" using slot_index_spec(1)[OF layout_sorted[OF assms(1,2)] ne, of off] o by linarith
    then show ?thesis using ne sz by (simp add: page_at_offset_def slot_index_def[symmetric] layout_nth)
  qed
  assume d: "distinct (map ps_page sizes) \<and> 0 < ps_height (sizes ! i) + gap"
  have dp: "distinct (map ls_page ?sl)" using d by (simp add: layout_slots_def slots_pages)
  have il: "i < length ?sl" using assms(3) by (simp add: layout_slots_def)
  have "slot_of (ps_page (sizes ! i)) ?sl = Some (?sl ! i)"
    using slot_of_nth[OF dp il] assms(3) by (simp add: layout_nth)
  then have "offset_for_page (ps_page (sizes ! i)) ?sl = Some (page_top sizes gap i)"
    using assms(3) by (simp add: offset_for_page_def layout_nth)
  moreover have "page_at_offset (page_top sizes gap i) ?sl = Some (ps_page (sizes ! i))"
    using d by (intro page_at_layout[OF assms]) (simp_all add: page_top_Suc[OF assms(3)])
  ultimately show "Option.bind (offset_for_page (ps_page (sizes ! i)) ?sl) (\<lambda>o'. page_at_offset o' ?sl)
      = Some (ps_page (sizes ! i))" by simp
qed

definition demo_sizes :: "page_size list" where
  "demo_sizes = [\<lparr>ps_page = 1, ps_width = 600, ps_height = 800\<rparr>, \<lparr>ps_page = 2, ps_width = 600, ps_height = 400\<rparr>,
     \<lparr>ps_page = 3, ps_width = 600, ps_height = 800\<rparr>]"

theorem page_at_offset_exact_witness:
  "page_at_offset 1210 (layout_slots demo_sizes PAGE_GAP_PX) = Some 2"
proof -
  have h: "0 \<le> PAGE_GAP_PX" "\<forall>s\<in>set demo_sizes. 0 \<le> ps_height s" "1 < length demo_sizes"
    by (simp_all add: PAGE_GAP_PX_def demo_sizes_def)
  have "page_top demo_sizes PAGE_GAP_PX 1 \<le> 1210" "1210 < page_top demo_sizes PAGE_GAP_PX (Suc 1)" "ps_page (demo_sizes ! 1) = 2"
    by (simp_all add: page_top_def demo_sizes_def PAGE_GAP_PX_def)
  then show ?thesis using page_at_offset_exact[OF h, of 1210] by simp
qed

text \<open>A reading position survives the anchor: turning an offset into a page and a fraction and back gives
  the offset, except inside the gap below a page, where it gives that page's bottom edge.\<close>

theorem anchor_roundtrip:
  assumes "0 \<le> gap" and "\<forall>s\<in>set sizes. 0 < ps_height s" and "distinct (map ps_page sizes)" and "i < length sizes"
    and "page_top sizes gap i \<le> off" and "Suc i < length sizes \<longrightarrow> off < page_top sizes gap (Suc i)"
  shows "anchor_at_offset off (layout_slots sizes gap) \<noteq> None
    \<and> offset_for_anchor (the (anchor_at_offset off (layout_slots sizes gap))) (layout_slots sizes gap)
       = Some (min off (page_top sizes gap i + ps_height (sizes ! i)))"
proof -
  let ?sl = "layout_slots sizes gap" and ?t = "page_top sizes gap i" and ?h = "ps_height (sizes ! i)"
  have h: "\<forall>s\<in>set sizes. 0 \<le> ps_height s" and hp: "0 < ?h" using assms(2,4) by (auto intro: less_imp_le)
  have pg: "page_at_offset off ?sl = Some (ps_page (sizes ! i))"
    using page_at_layout[OF assms(1) h assms(4,5)] assms(6) by blast
  have dp: "distinct (map ls_page ?sl)" using assms(3) by (simp add: layout_slots_def slots_pages)
  have il: "i < length ?sl" using assms(4) by (simp add: layout_slots_def)
  have sl: "slot_of (ps_page (sizes ! i)) ?sl = Some (?sl ! i)"
    using slot_of_nth[OF dp il] assms(4) by (simp add: layout_nth)
  have f: "max 0 (min 1 ((off - ?t) / ?h)) = min 1 ((off - ?t) / ?h)" using assms(5) hp by simp
  have a: "anchor_at_offset off ?sl = Some \<lparr>da_page = ps_page (sizes ! i), da_fraction = min 1 ((off - ?t) / ?h)\<rparr>"
    using hp f by (simp add: anchor_at_offset_def pg sl layout_nth[OF assms(4)])
  have "?t + min 1 ((off - ?t) / ?h) * ?h = min off (?t + ?h)"
  proof (cases "off \<le> ?t + ?h")
    case True
    then have "(off - ?t) / ?h \<le> 1" using hp by (simp add: pos_divide_le_eq)
    then have "min 1 ((off - ?t) / ?h) * ?h = off - ?t" using hp by (simp add: min_absorb2)
    then show ?thesis using True by simp
  next
    case False
    then have "1 \<le> (off - ?t) / ?h" using hp by (simp add: pos_le_divide_eq)
    then have "min 1 ((off - ?t) / ?h) = 1" by (rule min_absorb1)
    then show ?thesis using False by simp
  qed
  then show ?thesis using a sl by (simp add: offset_for_anchor_def layout_nth[OF assms(4)])
qed

theorem anchor_roundtrip_witness:
  "offset_for_anchor (the (anchor_at_offset 1000 (layout_slots demo_sizes PAGE_GAP_PX))) (layout_slots demo_sizes PAGE_GAP_PX)
     = Some 1000"
proof -
  have h: "0 \<le> PAGE_GAP_PX" "\<forall>s\<in>set demo_sizes. 0 < ps_height s" "distinct (map ps_page demo_sizes)" "1 < length demo_sizes"
    "page_top demo_sizes PAGE_GAP_PX 1 \<le> 1000" "Suc 1 < length demo_sizes \<longrightarrow> 1000 < page_top demo_sizes PAGE_GAP_PX (Suc 1)"
    "min 1000 (page_top demo_sizes PAGE_GAP_PX 1 + ps_height (demo_sizes ! 1)) = 1000"
    by (simp_all add: PAGE_GAP_PX_def demo_sizes_def page_top_def)
  show ?thesis using anchor_roundtrip[OF h(1-6)] h(7) by simp
qed

section \<open>Zoom stepping\<close>

lemma presets_sorted: "sorted_wrt (<) ZOOM_PRESETS"
  by (simp add: ZOOM_PRESETS_def)

lemma presets_length: "length ZOOM_PRESETS = 16"
  by (simp add: ZOOM_PRESETS_def)

lemma presets_less: "i < j \<Longrightarrow> j < 16 \<Longrightarrow> ZOOM_PRESETS ! i < ZOOM_PRESETS ! j"
  using presets_sorted presets_length by (simp add: sorted_wrt_iff_nth_less)

lemma presets_le: "i \<le> j \<Longrightarrow> j < 16 \<Longrightarrow> ZOOM_PRESETS ! i \<le> ZOOM_PRESETS ! j"
  using presets_less[of i j] by (cases "i = j") auto

lemma fold_last_index:
  "(let k = fold (\<lambda>i idx. if P i then i else idx) [0..<n] 0 in
     (k = 0 \<or> P k) \<and> (\<forall>i. k < i \<longrightarrow> i < n \<longrightarrow> \<not> P i) \<and> (0 < n \<longrightarrow> k < n))"
proof (induction n)
  case (Suc n)
  then show ?case by (auto simp: Let_def less_Suc_eq)
qed simp

lemma preset_index_spec:
  "preset_index s < 16" "preset_index s = 0 \<or> ZOOM_PRESETS ! preset_index s \<le> s"
  "preset_index s < i \<Longrightarrow> i < 16 \<Longrightarrow> s < ZOOM_PRESETS ! i"
  using fold_last_index[of "\<lambda>i. ZOOM_PRESETS ! i \<le> s" 16]
  unfolding preset_index_def presets_length by (auto simp: Let_def not_le)

lemma step_up_shape:
  "step_up s (preset_index s)
     = (if ZOOM_PRESETS ! preset_index s \<le> s then min (Suc (preset_index s)) 15 else preset_index s)"
proof (cases "ZOOM_PRESETS ! preset_index s \<le> s \<and> preset_index s < 15")
  case True
  then have u: "step_up s (preset_index s) = step_up s (Suc (preset_index s))"
    by (subst step_up.simps) (simp add: presets_length)
  have "s < ZOOM_PRESETS ! Suc (preset_index s)" using preset_index_spec(3)[of s "Suc (preset_index s)"] True by simp
  then have "step_up s (Suc (preset_index s)) = Suc (preset_index s)"
    by (subst step_up.simps) (simp add: not_le)
  then show ?thesis using u True by (simp add: min_def)
next
  case False
  then have "step_up s (preset_index s) = preset_index s"
    by (subst step_up.simps) (auto simp: presets_length)
  then show ?thesis using False preset_index_spec(1)[of s] by (auto simp: min_def)
qed

lemma step_down_shape:
  "step_down s (preset_index s)
     = (if 0 < preset_index s \<and> s \<le> ZOOM_PRESETS ! preset_index s then preset_index s - 1 else preset_index s)"
proof (cases "preset_index s")
  case (Suc k)
  then have p: "ZOOM_PRESETS ! Suc k \<le> s" "Suc k < 16" using preset_index_spec(1,2)[of s] by auto
  then have "ZOOM_PRESETS ! k < s" using presets_less[of k "Suc k"] by simp
  then have "step_down s k = k" by (cases k) auto
  then show ?thesis using Suc by simp
qed simp

lemma presets_ends: "ZOOM_PRESETS ! 0 = 12/100" "ZOOM_PRESETS ! 15 = 100"
  by (simp_all add: ZOOM_PRESETS_def)

lemma preset_nth: "p \<in> set ZOOM_PRESETS \<Longrightarrow> \<exists>i < 16. p = ZOOM_PRESETS ! i"
  by (metis in_set_conv_nth presets_length)

lemma zoom_in_least:
  "step_zoom_level s True \<in> set ZOOM_PRESETS \<and> (s < step_zoom_level s True \<or> step_zoom_level s True = 100)
   \<and> (\<forall>p\<in>set ZOOM_PRESETS. s < p \<longrightarrow> step_zoom_level s True \<le> p)"
proof -
  let ?k = "preset_index s" and ?u = "step_up s (preset_index s)"
  have e: "step_zoom_level s True = ZOOM_PRESETS ! ?u" by (simp add: step_zoom_level_def)
  have u: "?u < 16" using preset_index_spec(1)[of s] by (auto simp: step_up_shape min_def)
  have gt: "s < ZOOM_PRESETS ! ?u \<or> ?u = 15"
    using preset_index_spec(1)[of s] preset_index_spec(3)[of s "Suc ?k"] by (auto simp: step_up_shape min_def)
  have least: "ZOOM_PRESETS ! ?u \<le> p" if "p \<in> set ZOOM_PRESETS" "s < p" for p
  proof -
    obtain i where i: "i < 16" "p = ZOOM_PRESETS ! i" using preset_nth[OF \<open>p \<in> set ZOOM_PRESETS\<close>] by blast
    have "?u \<le> i"
    proof (rule ccontr)
      assume "\<not> ?u \<le> i"
      then have l: "i < ?u" by simp
      then have "ZOOM_PRESETS ! ?k \<le> s"
        using preset_index_spec(2)[of s] by (auto simp: step_up_shape split: if_splits)
      then have "i \<le> ?k" using l by (simp add: step_up_shape min_def split: if_splits)
      then have "p \<le> s" using presets_le[of i ?k] preset_index_spec(1)[of s] i \<open>ZOOM_PRESETS ! ?k \<le> s\<close> by simp
      then show False using \<open>s < p\<close> by simp
    qed
    then show ?thesis using presets_le i by simp
  qed
  show ?thesis using e u gt least presets_ends(2) presets_length by (metis nth_mem)
qed

lemma zoom_out_greatest:
  "step_zoom_level s False \<in> set ZOOM_PRESETS \<and> (step_zoom_level s False < s \<or> step_zoom_level s False = 12/100)
   \<and> (\<forall>p\<in>set ZOOM_PRESETS. p < s \<longrightarrow> p \<le> step_zoom_level s False)"
proof -
  let ?k = "preset_index s" and ?d = "step_down s (preset_index s)"
  have e: "step_zoom_level s False = ZOOM_PRESETS ! ?d" by (simp add: step_zoom_level_def)
  have d: "?d < 16" "?d \<le> ?k" using preset_index_spec(1)[of s] by (auto simp: step_down_shape)
  have lt: "ZOOM_PRESETS ! ?d < s \<or> ?d = 0"
  proof (cases "0 < ?k \<and> s \<le> ZOOM_PRESETS ! ?k")
    case True
    then have "ZOOM_PRESETS ! (?k - 1) < ZOOM_PRESETS ! ?k" "ZOOM_PRESETS ! ?k = s"
      using presets_less[of "?k - 1" ?k] preset_index_spec(1,2)[of s] by auto
    then show ?thesis using True by (simp add: step_down_shape)
  next
    case False
    then show ?thesis by (auto simp: step_down_shape)
  qed
  have greatest: "p \<le> ZOOM_PRESETS ! ?d" if "p \<in> set ZOOM_PRESETS" "p < s" for p
  proof -
    obtain i where i: "i < 16" "p = ZOOM_PRESETS ! i" using preset_nth[OF \<open>p \<in> set ZOOM_PRESETS\<close>] by blast
    have ik: "i \<le> ?k" using preset_index_spec(3)[of s i] i \<open>p < s\<close> by (meson not_le less_asym')
    have "i \<le> ?d"
    proof (cases "0 < ?k \<and> s \<le> ZOOM_PRESETS ! ?k")
      case True
      then have "i \<noteq> ?k" using i \<open>p < s\<close> by auto
      then show ?thesis using ik True by (simp add: step_down_shape)
    qed (use ik in \<open>auto simp: step_down_shape\<close>)
    then show ?thesis using presets_le i d by simp
  qed
  show ?thesis using e d lt greatest presets_ends(1) presets_length by (metis nth_mem)
qed

text \<open>Zooming in goes to the smallest preset above the current scale (100 when there is none) and zooming out to the
  largest below it (0.12 when there is none), from any scale on or off the presets; below the top, zooming
  in from a preset and out again comes back to it.\<close>

theorem zoom_step_neighbour:
  "step_zoom_level s True \<in> set ZOOM_PRESETS \<and> step_zoom_level s False \<in> set ZOOM_PRESETS
   \<and> (s < step_zoom_level s True \<or> step_zoom_level s True = 100)
   \<and> (\<forall>p\<in>set ZOOM_PRESETS. s < p \<longrightarrow> step_zoom_level s True \<le> p)
   \<and> (step_zoom_level s False < s \<or> step_zoom_level s False = 12/100)
   \<and> (\<forall>p\<in>set ZOOM_PRESETS. p < s \<longrightarrow> p \<le> step_zoom_level s False)
   \<and> (s \<in> set ZOOM_PRESETS \<and> s < 100 \<longrightarrow> step_zoom_level (step_zoom_level s True) False = s)"
proof -
  let ?u = "step_zoom_level s True"
  have "step_zoom_level ?u False = s" if s: "s \<in> set ZOOM_PRESETS" "s < 100"
  proof -
    have su: "s < ?u" using zoom_in_least[of s] s(2) by auto
    have lo: "12/100 \<le> s" using s(1) by (auto simp: ZOOM_PRESETS_def)
    have 1: "s \<le> step_zoom_level ?u False" using zoom_out_greatest[of ?u] s(1) su by blast
    have 2: "step_zoom_level ?u False < ?u" using zoom_out_greatest[of ?u] su lo by auto
    have "\<not> s < step_zoom_level ?u False"
      using zoom_in_least[of s] zoom_out_greatest[of ?u] 2 by (meson not_le)
    then show ?thesis using 1 by simp
  qed
  then show ?thesis using zoom_in_least[of s] zoom_out_greatest[of s] by blast
qed

theorem zoom_step_neighbour_witness:
  "step_zoom_level (step_zoom_level (3/2) True) False = 3/2 \<and> step_zoom_level (3/2) True \<le> 2"
proof -
  have "(3/2::rat) \<in> set ZOOM_PRESETS" "(2::rat) \<in> set ZOOM_PRESETS" by (simp_all add: ZOOM_PRESETS_def)
  then show ?thesis using zoom_step_neighbour[of "3/2"] by auto
qed

section \<open>Fitting\<close>

lemma fit_width_pos: "0 < fit_width_scale aw pw sp"
  by (auto simp: fit_width_scale_def Let_def not_le)

lemma fit_height_pos: "0 < fit_height_scale ah ph sp"
  by (auto simp: fit_height_scale_def Let_def not_le)

lemma clamp_zoom_range: "12/100 \<le> clamp_zoom x \<and> clamp_zoom x \<le> 100"
  by (cases x) (auto simp: DEFAULT_ZOOM_LEVEL_def MAX_ZOOM_def MIN_ZOOM_def)

lemma fit_width_fits: "0 < aw - 2 * sp \<Longrightarrow> 0 < pw \<Longrightarrow> pw * fit_width_scale aw pw sp = aw - 2 * sp"
  by (simp add: fit_width_scale_def Let_def)

lemma fit_height_fits: "0 < ah - 2 * sp \<Longrightarrow> 0 < ph \<Longrightarrow> ph * fit_height_scale ah ph sp = ah - 2 * sp"
  by (simp add: fit_height_scale_def Let_def)

text \<open>The layout scale is always positive, whatever the request and the measured area, and a custom
  level always lands in [0.12, 100]. When the area minus its margins and the reference are
  measurable, every fit mode fills the width or fits inside it, fit page and the presentation also fit the
  height, and fit page touches at least one of the two limits.\<close>

theorem layout_scale_fits:
  "0 < compute_pdf_scale rq aw vh sp
   \<and> (sr_presentation rq = None \<and> sr_mode rq = Custom \<and> sr_reference rq \<noteq> None \<longrightarrow>
        12/100 \<le> compute_pdf_scale rq aw vh sp \<and> compute_pdf_scale rq aw vh sp \<le> 100)
   \<and> (\<forall>b. (if sr_presentation rq = None then sr_reference rq = Some b \<and> sr_mode rq \<noteq> Custom
           else sr_presentation rq = Some b) \<and> 0 < bx_width b \<and> 0 < bx_height b
         \<and> 0 < aw - 2 * sp \<and> 0 < vh - 2 * sp \<longrightarrow>
        bx_width b * compute_pdf_scale rq aw vh sp \<le> aw - 2 * sp
        \<and> (sr_presentation rq \<noteq> None \<or> sr_mode rq = FitPage \<longrightarrow>
             bx_height b * compute_pdf_scale rq aw vh sp \<le> vh - 2 * sp
             \<and> (bx_width b * compute_pdf_scale rq aw vh sp = aw - 2 * sp
                \<or> bx_height b * compute_pdf_scale rq aw vh sp = vh - 2 * sp)))"
proof (intro conjI allI impI)
  show "0 < compute_pdf_scale rq aw vh sp"
    using clamp_zoom_range[of "sr_level rq"]
    by (auto simp: compute_pdf_scale_def fit_page_scale_def auto_fit_scale_def fit_width_pos fit_height_pos
        split: option.split zoom_mode.split)
  show "12/100 \<le> compute_pdf_scale rq aw vh sp" "compute_pdf_scale rq aw vh sp \<le> 100"
    if "sr_presentation rq = None \<and> sr_mode rq = Custom \<and> sr_reference rq \<noteq> None"
    using that clamp_zoom_range[of "sr_level rq"] by (auto simp: compute_pdf_scale_def)
next
  fix b
  assume h: "(if sr_presentation rq = None then sr_reference rq = Some b \<and> sr_mode rq \<noteq> Custom
           else sr_presentation rq = Some b) \<and> 0 < bx_width b \<and> 0 < bx_height b \<and> 0 < aw - 2 * sp \<and> 0 < vh - 2 * sp"
  let ?w = "fit_width_scale aw (bx_width b) sp" and ?h = "fit_height_scale vh (bx_height b) sp"
  let ?s = "compute_pdf_scale rq aw vh sp"
  have w: "bx_width b * ?w = aw - 2 * sp" using fit_width_fits h by blast
  have t: "bx_height b * ?h = vh - 2 * sp" using fit_height_fits h by blast
  have s: "?s = min ?w ?h \<or> ?s = ?w"
    using h by (auto simp: compute_pdf_scale_def fit_page_scale_def auto_fit_scale_def
        split: option.splits zoom_mode.splits if_splits)
  then have sw: "?s \<le> ?w" by auto
  show "bx_width b * ?s \<le> aw - 2 * sp" using mult_left_mono[OF sw, of "bx_width b"] h w by auto
  assume p: "sr_presentation rq \<noteq> None \<or> sr_mode rq = FitPage"
  have m: "?s = min ?w ?h"
    using h p by (auto simp: compute_pdf_scale_def fit_page_scale_def split: option.splits zoom_mode.splits if_splits)
  then have "?s \<le> ?h" by simp
  from mult_left_mono[OF this, of "bx_height b"] h t show "bx_height b * ?s \<le> vh - 2 * sp" by auto
  show "bx_width b * ?s = aw - 2 * sp \<or> bx_height b * ?s = vh - 2 * sp"
    using m w t by (auto simp: min_def)
qed

theorem layout_scale_fits_witness:
  "compute_pdf_scale \<lparr>sr_mode = FitPage, sr_level = NaN, sr_reference = Some \<lparr>bx_width = 500, bx_height = 800\<rparr>,
      sr_presentation = None\<rparr> 1024 824 12 = 1
   \<and> 800 * compute_pdf_scale \<lparr>sr_mode = FitPage, sr_level = NaN, sr_reference = Some \<lparr>bx_width = 500, bx_height = 800\<rparr>,
      sr_presentation = None\<rparr> 1024 824 12 \<le> 800"
proof -
  let ?rq = "\<lparr>sr_mode = FitPage, sr_level = NaN, sr_reference = Some \<lparr>bx_width = 500, bx_height = 800\<rparr>, sr_presentation = None\<rparr>"
  have "compute_pdf_scale ?rq 1024 824 12 = 1"
    by (simp add: compute_pdf_scale_def fit_page_scale_def fit_width_scale_def fit_height_scale_def)
  moreover have "bx_height \<lparr>bx_width = 500, bx_height = 800\<rparr> * compute_pdf_scale ?rq 1024 824 12 \<le> 824 - 2 * 12"
    using layout_scale_fits[of ?rq 1024 824 12] by simp
  ultimately show ?thesis by simp
qed

section \<open>Turning spreads\<close>

lemma spread_start_le: "0 \<le> i \<Longrightarrow> 0 \<le> spread_start_index i \<and> spread_start_index i \<le> i \<and> i \<le> spread_start_index i + 1"
  unfolding spread_start_index_def by presburger

lemma spread_start_odd: "0 < i \<Longrightarrow> \<exists>k\<ge>0. spread_start_index i = 1 + 2 * k"
  by (auto simp: spread_start_index_def)

lemma spread_start_idem [simp]: "spread_start_index (spread_start_index i) = spread_start_index i"
  unfolding spread_start_index_def by (cases "i \<le> 0") (simp, presburger)

lemma spread_start_plus2: "0 < i \<Longrightarrow> spread_start_index (spread_start_index i + 2) = spread_start_index i + 2"
  by (auto simp: spread_start_index_def)

text \<open>Book mode groups the pages into a cover and facing pairs, and turning visits every group once: from any
  page but those of the last group a forward turn lands on the first page of the very next group, from the
  last it stays in it; a backward turn lands on the page just before the group, and a forward turn followed by a
  backward one ends in the group it started from.\<close>

theorem spread_turns:
  assumes "0 \<le> i" and "i < n"
  shows "(let start = spread_start_index i; stop = (if start = 0 then 1 else start + 2) in
       start \<le> i \<and> i < stop \<and> (\<forall>k. start \<le> k \<and> k < stop \<longrightarrow> spread_start_index k = start)
       \<and> next_spread_page_index i n = (if stop < n then stop else n - 1)
       \<and> (stop < n \<longrightarrow> spread_start_index (next_spread_page_index i n) = stop
            \<and> previous_spread_page_index (next_spread_page_index i n) = stop - 1)
       \<and> (\<not> stop < n \<longrightarrow> spread_start_index (next_spread_page_index i n) = start)
       \<and> previous_spread_page_index i = (if start = 0 then 0 else start - 1))"
proof (cases "i = 0")
  case True
  then show ?thesis
    using assms by (auto simp: spread_start_index_def next_spread_page_index_def previous_spread_page_index_def Let_def)
next
  case False
  then obtain k where k: "0 \<le> k" "spread_start_index i = 1 + 2 * k" using spread_start_odd[of i] assms(1) by auto
  have b: "1 + 2 * k \<le> i" "i \<le> 2 + 2 * k" using spread_start_le[OF assms(1)] k by auto
  have g: "spread_start_index j = 1 + 2 * k" if "1 + 2 * k \<le> j" "j < 3 + 2 * k" for j
    using that k(1) by (auto simp: spread_start_index_def)
  have s3: "spread_start_index (3 + 2 * k) = 3 + 2 * k" using k(1) by (auto simp: spread_start_index_def)
  have nx: "next_spread_page_index i n = (if 3 + 2 * k < n then 3 + 2 * k else n - 1)"
    using assms b k False by (auto simp: next_spread_page_index_def Let_def min_def)
  have last: "\<not> 3 + 2 * k < n \<Longrightarrow> spread_start_index (n - 1) = 1 + 2 * k"
    using b assms by (intro g) auto
  show ?thesis
    using k b g s3 nx last by (auto simp: Let_def previous_spread_page_index_def add.commute)
qed

theorem spread_turns_witness:
  "next_spread_page_index 3 10 = 5 \<and> previous_spread_page_index 5 = 4"
proof -
  have "spread_start_index 3 = 3" by (simp add: spread_start_index_def)
  then show ?thesis using spread_turns[of 3 10] by (auto simp: Let_def)
qed

section \<open>The raster region\<close>

lemma snap_down_le: "0 < step \<Longrightarrow> snap_down x step \<le> x"
  by (simp add: snap_down_def pos_le_divide_eq[symmetric])

lemma snap_up_ge: "0 < step \<Longrightarrow> x \<le> snap_up x step"
  by (simp add: snap_up_def pos_divide_le_eq[symmetric])

text \<open>One axis of the region: the page starts at \<open>p\<close> and is \<open>w\<close> wide, the visible interval is \<open>[a, b]\<close>.\<close>

lemma region_axis:
  assumes "0 \<le> w" and "p \<le> a" and "a < b" and "b \<le> p + w"
    and l: "l = (if 0 < step then max 0 (snap_down (a - p) step) else a - p)"
    and r: "r = (if 0 < step then min w (snap_up (b - p) step) else b - p)"
  shows "0 \<le> l" and "l \<le> a - p" and "b - p \<le> r" and "r \<le> w" and "b - p \<le> l + max 1 (r - l)"
    and "l + max 1 (r - l) \<le> max w (l + 1)"
proof -
  show a: "0 \<le> l" "l \<le> a - p" "b - p \<le> r" "r \<le> w"
    using assms snap_down_le[of step "a - p"] snap_up_ge[of step "b - p"] by (auto split: if_splits)
  show "b - p \<le> l + max 1 (r - l)" "l + max 1 (r - l) \<le> max w (l + 1)" using a by linarith+
qed

text \<open>A point of the page that a viewport shows.\<close>

definition sees :: "rect \<Rightarrow> rect \<Rightarrow> rat \<Rightarrow> rat \<Rightarrow> bool" where
  "sees page vp x y \<longleftrightarrow>
     rc_left page \<le> x \<and> x \<le> rc_left page + rc_width page \<and> rc_top page \<le> y \<and> y \<le> rc_top page + rc_height page
     \<and> rc_left vp \<le> x \<and> x \<le> rc_left vp + rc_width vp \<and> rc_top vp \<le> y \<and> y \<le> rc_top vp + rc_height vp"

text \<open>The region to rasterise, when there is one, covers every point of the page that is visible now or after
  scrolling either axis by at most the overscan, starts inside the page and ends inside it
  or within one pixel of its start; snapping to the grid only makes it larger.\<close>

theorem region_covers_scroll:
  assumes "visible_page_region page vp overscan step = Some r" and "0 \<le> rc_width page" and "0 \<le> rc_height page"
  shows "(\<forall>dx dy x y. \<bar>dx\<bar> \<le> overscan \<and> \<bar>dy\<bar> \<le> overscan
          \<and> sees page (vp\<lparr>rc_left := rc_left vp + dx, rc_top := rc_top vp + dy\<rparr>) x y \<longrightarrow>
          rc_left r \<le> x - rc_left page \<and> x - rc_left page \<le> rc_left r + rc_width r
          \<and> rc_top r \<le> y - rc_top page \<and> y - rc_top page \<le> rc_top r + rc_height r)
    \<and> 0 \<le> rc_left r \<and> 0 \<le> rc_top r
    \<and> rc_left r + rc_width r \<le> max (rc_width page) (rc_left r + 1)
    \<and> rc_top r + rc_height r \<le> max (rc_height page) (rc_top r + 1)"
proof -
  define t where "t = max (rc_top page) (rc_top vp - overscan)"
  define b where "b = min (rc_top page + rc_height page) (rc_top vp + rc_height vp + overscan)"
  define l where "l = max (rc_left page) (rc_left vp - overscan)"
  define rr where "rr = min (rc_left page + rc_width page) (rc_left vp + rc_width vp + overscan)"
  define L where "L = (if 0 < step then max 0 (snap_down (l - rc_left page) step) else l - rc_left page)"
  define R where "R = (if 0 < step then min (rc_width page) (snap_up (rr - rc_left page) step) else rr - rc_left page)"
  define T where "T = (if 0 < step then max 0 (snap_down (t - rc_top page) step) else t - rc_top page)"
  define B where "B = (if 0 < step then min (rc_height page) (snap_up (b - rc_top page) step) else b - rc_top page)"
  have tb: "t < b" "l < rr" and r: "r = \<lparr>rc_top = T, rc_left = L, rc_width = max 1 (R - L), rc_height = max 1 (B - T)\<rparr>"
    using assms(1) unfolding visible_page_region_def Let_def t_def[symmetric] b_def[symmetric] l_def[symmetric]
      rr_def[symmetric] L_def[symmetric] R_def[symmetric] T_def[symmetric] B_def[symmetric]
    by (auto split: if_splits)
  note X = region_axis[of "rc_width page" "rc_left page" l rr L step R, OF assms(2) _ tb(2) _ L_def R_def]
  note Y = region_axis[of "rc_height page" "rc_top page" t b T step B, OF assms(3) _ tb(1) _ T_def B_def]
  have hx: "rc_left page \<le> l" "rr \<le> rc_left page + rc_width page" by (simp_all add: l_def rr_def)
  have hy: "rc_top page \<le> t" "b \<le> rc_top page + rc_height page" by (simp_all add: t_def b_def)
  have "rc_left r \<le> x - rc_left page \<and> x - rc_left page \<le> rc_left r + rc_width r
          \<and> rc_top r \<le> y - rc_top page \<and> y - rc_top page \<le> rc_top r + rc_height r"
    if "\<bar>dx\<bar> \<le> overscan \<and> \<bar>dy\<bar> \<le> overscan
          \<and> sees page (vp\<lparr>rc_left := rc_left vp + dx, rc_top := rc_top vp + dy\<rparr>) x y" for dx dy x y
  proof -
    have "l \<le> x" "x \<le> rr" "t \<le> y" "y \<le> b"
      using that by (auto simp: sees_def l_def rr_def t_def b_def)
    then show ?thesis using X(2,5)[OF hx] Y(2,5)[OF hy] by (simp add: r)
  qed
  then show ?thesis using X(1,6)[OF hx] Y(1,6)[OF hy] by (simp add: r)
qed

theorem region_covers_scroll_witness:
  "visible_page_region \<lparr>rc_top = 0, rc_left = 0, rc_width = 600, rc_height = 1000\<rparr>
      \<lparr>rc_top = 100, rc_left = 0, rc_width = 800, rc_height = 300\<rparr> 50 64
     = Some \<lparr>rc_top = 0, rc_left = 0, rc_width = 600, rc_height = 512\<rparr>
   \<and> (440::rat) \<le> 0 + 512"
proof -
  let ?page = "\<lparr>rc_top = 0, rc_left = 0, rc_width = 600, rc_height = 1000\<rparr>"
  let ?vp = "\<lparr>rc_top = 100, rc_left = 0, rc_width = 800, rc_height = 300\<rparr>"
  have c: "\<lceil>225 / 32 :: rat\<rceil> = 8" "\<lceil>75 / 8 :: rat\<rceil> = 10"
    by (simp_all add: ceiling_eq_iff)
  have v: "visible_page_region ?page ?vp 50 64
      = Some \<lparr>rc_top = 0, rc_left = 0, rc_width = 600, rc_height = 512\<rparr>"
    by (simp add: visible_page_region_def snap_up_def snap_down_def Let_def c)
  have "sees ?page (?vp\<lparr>rc_left := rc_left ?vp + 0, rc_top := rc_top ?vp + 40\<rparr>) 10 440"
    by (simp add: sees_def)
  then show ?thesis
    using region_covers_scroll[OF v] v by simp
qed

section \<open>Holding a point while zooming\<close>

lemma clamp_scroll_range:
  "0 \<le> clamp_scroll_value v upper ps \<and> clamp_scroll_value v upper ps \<le> max 0 (upper - ps)"
  by (auto simp: clamp_scroll_value_def Let_def)

lemma clamp_scroll_id: "0 \<le> v \<Longrightarrow> v \<le> upper - ps \<Longrightarrow> clamp_scroll_value v upper ps = v"
  by (simp add: clamp_scroll_value_def Let_def)

text \<open>The scroll offset after a zoom is always inside the new content, and when the pointer's document point can be
  kept under the pointer it is: its fraction of the content is the same before and after, and zooming by a
  factor and back over the same point returns to the offset it started from.\<close>

theorem zoom_holds_point:
  assumes "0 < sa_upper a" and "0 < k" and "0 \<le> c"
    and "0 \<le> k * (sa_value a + c) - c" and "k * (sa_value a + c) - c \<le> k * sa_upper a - sa_page_size a"
    and "0 \<le> sa_value a" and "sa_value a \<le> sa_upper a - sa_page_size a"
  shows "(let v = center_value a (k * sa_upper a) (sa_page_size a) c in
            (v + c) / (k * sa_upper a) = (sa_value a + c) / sa_upper a
          \<and> 0 \<le> v \<and> v \<le> max 0 (k * sa_upper a - sa_page_size a)
          \<and> center_value \<lparr>sa_value = v, sa_upper = k * sa_upper a, sa_page_size = sa_page_size a\<rparr>
              (sa_upper a) (sa_page_size a) c = sa_value a)"
proof -
  have f: "k * sa_upper a * ((sa_value a + c) / sa_upper a) - c = k * (sa_value a + c) - c"
    using assms(1) by simp
  have v: "center_value a (k * sa_upper a) (sa_page_size a) c = k * (sa_value a + c) - c"
    using assms f clamp_scroll_id by (simp add: center_value_def Let_def)
  have "sa_upper a * ((k * (sa_value a + c) - c + c) / (k * sa_upper a)) - c = sa_value a"
    using assms(1,2) by (simp add: field_simps)
  then have "center_value \<lparr>sa_value = k * (sa_value a + c) - c, sa_upper = k * sa_upper a, sa_page_size = sa_page_size a\<rparr>
      (sa_upper a) (sa_page_size a) c = sa_value a"
    using assms clamp_scroll_id[OF assms(6,7)] by (simp add: center_value_def Let_def)
  then show ?thesis
    using v assms clamp_scroll_range[of "k * (sa_value a + c) - c" "k * sa_upper a" "sa_page_size a"]
    by (simp add: Let_def)
qed

theorem zoom_holds_point_witness:
  "center_value \<lparr>sa_value = 2500, sa_upper = 4000, sa_page_size = 500\<rparr> 2000 500 300 = 1100"
proof -
  let ?a = "\<lparr>sa_value = 1100, sa_upper = 2000, sa_page_size = 500\<rparr>"
  have "center_value ?a (2 * sa_upper ?a) (sa_page_size ?a) 300 = 2500"
    by (simp add: center_value_def clamp_scroll_value_def)
  then show ?thesis using zoom_holds_point[of ?a 2 300] by (simp add: Let_def)
qed

section \<open>The median page\<close>

interpretation area: comparator area_le
  by unfold_locales (auto simp: area_le_def)

lemma length_filter_ge:
  assumes "\<And>i. lo \<le> i \<Longrightarrow> i < hi \<Longrightarrow> P (xs ! i)" and "hi \<le> length xs"
  shows "hi - lo \<le> length (filter P xs)"
proof -
  have "{i. lo \<le> i \<and> i < hi} \<subseteq> {i. i < length xs \<and> P (xs ! i)}" using assms by auto
  then have "card {i. lo \<le> i \<and> i < hi} \<le> card {i. i < length xs \<and> P (xs ! i)}"
    by (rule card_mono[rotated]) simp
  moreover have "{i. lo \<le> i \<and> i < hi} = {lo..<hi}" by auto
  ultimately show ?thesis by (simp add: length_filter_conv_card)
qed

lemma length_filter_js_sort: "length (filter P (js_sort le xs)) = length (filter P xs)"
  by (metis mset_filter mset_js_sort size_mset)

text \<open>The size that stands for unmeasured pages is one of the samples, and by area at least half of the samples
  are no larger and at least half no smaller; with an even count it is the lower of the two middle
  ones.\<close>

theorem median_is_middle:
  assumes m: "median_page_size samples = Some m"
  shows "m \<in> set samples
     \<and> length samples \<le> 2 * length (filter (\<lambda>x. area_le x m) samples)
     \<and> length samples < 2 * length (filter (\<lambda>x. area_le m x) samples)"
proof -
  let ?s = "js_sort area_le samples" and ?n = "length samples"
  let ?k = "(?n - 1) div 2"
  have ne: "samples \<noteq> []" and me: "m = ?s ! ?k" using m by (auto simp: median_page_size_def split: if_splits)
  then have "0 < ?n" by simp
  then have k: "?k < length ?s" unfolding length_js_sort by linarith
  have le: "area_le (?s ! i) (?s ! j)" if "i \<le> j" "j < length ?s" for i j
    using that area.sorted_js_sort[of samples] area.le_refl by (metis le_neq_implies_less sorted_wrt_iff_nth_less)
  have a: "Suc ?k - 0 \<le> length (filter (\<lambda>x. area_le x m) ?s)"
    using le k by (intro length_filter_ge) (auto simp: me)
  have b: "length ?s - ?k \<le> length (filter (\<lambda>x. area_le m x) ?s)"
    using le by (intro length_filter_ge) (auto simp: me)
  have "m \<in> set samples" using k me by (metis nth_mem set_js_sort)
  then show ?thesis
    using a b ne unfolding length_filter_js_sort length_js_sort by (cases ?n) auto
qed

theorem median_is_middle_witness:
  "median_page_size [\<lparr>bx_width = 3, bx_height = 3\<rparr>, \<lparr>bx_width = 1, bx_height = 2\<rparr>, \<lparr>bx_width = 2, bx_height = 2\<rparr>]
     = Some \<lparr>bx_width = 2, bx_height = 2\<rparr>
   \<and> \<lparr>bx_width = 2, bx_height = 2\<rparr> \<in> set [\<lparr>bx_width = 3, bx_height = 3\<rparr>, \<lparr>bx_width = 1, bx_height = 2\<rparr>, \<lparr>bx_width = 2, bx_height = (2::rat)\<rparr>]"
proof -
  have m: "median_page_size [\<lparr>bx_width = 3, bx_height = 3\<rparr>, \<lparr>bx_width = 1, bx_height = 2\<rparr>, \<lparr>bx_width = 2, bx_height = 2\<rparr>]
     = Some \<lparr>bx_width = 2, bx_height = 2\<rparr>"
    by (simp add: median_page_size_def area_le_def)
  show ?thesis using median_is_middle[OF m] m by blast
qed

end
