(* ===== verification/RenderPolicy.thy ===== *)
theory RenderPolicy
  imports PdfLayout
begin

text \<open>
  \<open>frontend/src/components/reader/pdf/pdfRenderPolicy.ts\<close>, \<open>pdfPages.ts\<close>, \<open>pdfBookTurn.ts\<close> and
  \<open>frontend/src/components/reader/epub/epubBookTurn.ts\<close>: the resolution a page is rastered at, the pages that keep their
  canvas, page numbers and positions, and the turn adapters of book mode. Ratios are real numbers,
  since they are square roots.
\<close>

section \<open>Render ratios\<close>

definition MAX_RENDER_PIXELS :: real where "MAX_RENDER_PIXELS = 2 ^ 24"
definition MAX_RENDER_PIXELS_HARD :: real where "MAX_RENDER_PIXELS_HARD = 2 ^ 25"
definition MAX_RENDER_DIMENSION :: real where "MAX_RENDER_DIMENSION = 8192"
definition MAX_ACTIVE_CANVAS_BYTES :: real where "MAX_ACTIVE_CANVAS_BYTES = 256 * 1024 * 1024"

record ratio_options =
  ro_max_pixels :: real
  ro_max_dimension :: real
  ro_hard_max_pixels :: real

definition default_ratio_options :: ratio_options where
  "default_ratio_options =
     \<lparr>ro_max_pixels = MAX_RENDER_PIXELS, ro_max_dimension = MAX_RENDER_DIMENSION,
      ro_hard_max_pixels = MAX_RENDER_PIXELS_HARD\<rparr>"

definition effective_render_ratio :: "real \<Rightarrow> real \<Rightarrow> real \<Rightarrow> real \<Rightarrow> ratio_options \<Rightarrow> real" where
  "effective_render_ratio width height scale dpr opts =
     (if \<not> 0 < width \<or> \<not> 0 < height \<or> \<not> 0 < scale \<or> \<not> 0 < dpr then 1
      else let area = width * height * scale * scale;
               area_soft = sqrt (ro_max_pixels opts / area);
               area_hard = sqrt (ro_hard_max_pixels opts / area);
               dimension_ratio = min (ro_max_dimension opts / (width * scale)) (ro_max_dimension opts / (height * scale));
               candidate = min (min dpr area_soft) dimension_ratio;
               flr = min (min 1 area_hard) dimension_ratio in
        min dpr (max candidate flr))"

definition presentation_page_plan :: "rat \<Rightarrow> rat \<Rightarrow> rat \<Rightarrow> real \<Rightarrow> int \<times> int \<times> real" where
  "presentation_page_plan w h scale dpr =
     (let width = scaled_pixels w scale; height = scaled_pixels h scale in
      (width, height,
       effective_render_ratio (if 0 < scale then of_int width / of_rat scale else of_int width)
         (if 0 < scale then of_int height / of_rat scale else of_int height) (of_rat scale) dpr
         default_ratio_options))"

definition needs_region_render :: "real \<Rightarrow> real \<Rightarrow> real \<Rightarrow> real \<Rightarrow> ratio_options \<Rightarrow> bool" where
  "needs_region_render width height scale dpr opts
     \<longleftrightarrow> effective_render_ratio width height scale dpr opts < dpr - 1 / 10 ^ 9"

definition region_render_ratio :: "real \<Rightarrow> real \<Rightarrow> real \<Rightarrow> ratio_options \<Rightarrow> real" where
  "region_render_ratio width height dpr opts =
     (if \<not> 0 < width \<or> \<not> 0 < height \<or> \<not> 0 < dpr then 1
      else let hard = sqrt (ro_hard_max_pixels opts / (width * height));
               dimension_ratio = min (ro_max_dimension opts / width) (ro_max_dimension opts / height) in
        max (1/100) (min (min dpr hard) dimension_ratio))"

definition region_render_ratio_for_page :: "real \<Rightarrow> real \<Rightarrow> real \<Rightarrow> real \<Rightarrow> real \<Rightarrow> real \<Rightarrow> real" where
  "region_render_ratio_for_page pw ph rw rh scale dpr =
     min (region_render_ratio rw rh dpr default_ratio_options)
       (effective_render_ratio pw ph scale dpr default_ratio_options)"

definition render_buffer_bytes :: "real \<Rightarrow> real \<Rightarrow> real \<Rightarrow> real" where
  "render_buffer_bytes width height ratio = width * height * ratio * ratio * 4"

section \<open>Which pages keep their canvas\<close>

fun cap_loop :: "('a \<Rightarrow> real) \<Rightarrow> real \<Rightarrow> 'a list \<Rightarrow> nat \<Rightarrow> 'a list \<Rightarrow> real \<Rightarrow> 'a list" where
  "cap_loop byte_of max_bytes [] index kept tot = kept"
| "cap_loop byte_of max_bytes (x # xs) index kept tot =
     (if 0 < index \<and> max_bytes < tot + byte_of x then kept
      else cap_loop byte_of max_bytes xs (Suc index) (kept @ [x]) (tot + byte_of x))"

definition cap_by_bytes :: "'a list \<Rightarrow> ('a \<Rightarrow> real) \<Rightarrow> real \<Rightarrow> 'a list" where
  "cap_by_bytes items byte_of max_bytes = cap_loop byte_of max_bytes items 0 [] 0"

definition RETAIN_NEAR_VISIBLE_PAGES :: int where "RETAIN_NEAR_VISIBLE_PAGES = 3"

definition ring_distance :: "int \<Rightarrow> int \<Rightarrow> int \<Rightarrow> int" where
  "ring_distance mn mx page = (if page < mn then mn - page else if mx < page then page - mx else 0)"

fun ring_collect :: "int \<Rightarrow> int \<Rightarrow> int \<Rightarrow> int list \<Rightarrow> int list \<Rightarrow> (int \<times> int) list" where
  "ring_collect mn mx depth seen [] = []"
| "ring_collect mn mx depth seen (page # ps) =
     (if page \<in> set seen then ring_collect mn mx depth seen ps
      else let d = ring_distance mn mx page in
        (if 0 < d \<and> d \<le> depth then [(page, d)] else []) @ ring_collect mn mx depth (page # seen) ps)"

definition ring_le :: "int \<times> int \<Rightarrow> int \<times> int \<Rightarrow> bool" where
  "ring_le a b = ((if snd a - snd b \<noteq> 0 then snd a - snd b else fst a - fst b) \<le> 0)"

definition retention_ring :: "int list \<Rightarrow> int list \<Rightarrow> int \<Rightarrow> int list" where
  "retention_ring visible candidates depth =
     (if depth \<le> 0 then []
      else if visible = [] then []
      else map fst (js_sort ring_le (ring_collect (Min (set visible)) (Max (set visible)) depth [] candidates)))"

section \<open>Page numbers and positions\<close>

definition position_to_page :: "rat \<Rightarrow> int \<Rightarrow> int" where
  "position_to_page position n =
     (let clamped = max 0 (min 100 position) in
      min (max 1 (math_round (clamped / 100 * (of_int n - 1)) + 1)) n)"

definition page_to_position :: "int \<Rightarrow> int \<Rightarrow> rat" where
  "page_to_position page n = (if n \<le> 1 then 0 else of_int (page - 1) / of_int (n - 1) * 100)"

definition clamp_page :: "int \<Rightarrow> int \<Rightarrow> int" where
  "clamp_page page n = min n (max 1 page)"

definition parse_page_number :: "string \<Rightarrow> int \<Rightarrow> int option" where
  "parse_page_number text n =
     (if n \<le> 0 then None
      else let normalized = trim text in
        if normalized = '''' \<or> \<not> all_digits normalized then None
        else Some (clamp_page (int (nat_of_digits normalized)) n))"

section \<open>Turning\<close>

record turn_host =
  th_current :: int
  th_count :: int

text \<open>The page \<open>onSettle\<close> is called with, or \<open>None\<close> when it is not called.\<close>

definition instant_turn :: "(int \<Rightarrow> int \<Rightarrow> int) \<Rightarrow> turn_host \<Rightarrow> int option" where
  "instant_turn target_for host =
     (if th_count host \<le> 0 then None
      else let current = min (max 1 (th_current host)) (th_count host);
               target = target_for (current - 1) (th_count host) in
        if target = current - 1 then None else Some (target + 1))"

definition turn_advance :: "turn_host \<Rightarrow> int option" where
  "turn_advance host = instant_turn next_spread_page_index host"

definition turn_retreat :: "turn_host \<Rightarrow> int option" where
  "turn_retreat host = instant_turn (\<lambda>i _. previous_spread_page_index i) host"

datatype turn_direction = TurnNext | TurnPrev

text \<open>The EPUB adapter: a move that rejects (\<open>Inl\<close>) settles as \<open>null\<close>.\<close>

definition epub_turn :: "(turn_direction \<Rightarrow> string + string option) \<Rightarrow> turn_direction \<Rightarrow> string option" where
  "epub_turn move d = (case move d of Inl _ \<Rightarrow> None | Inr l \<Rightarrow> l)"

section \<open>The ratio stays within the budgets\<close>

lemma sqrt_le_area:
  assumes "0 < a" and "0 \<le> r" and "0 \<le> m" and "r \<le> sqrt (m / a)"
  shows "a * r\<^sup>2 \<le> m"
proof -
  have "r\<^sup>2 \<le> (sqrt (m / a))\<^sup>2" using assms(2,4) by (rule power_mono[rotated])
  also have "\<dots> = m / a" using assms(1,3) by simp
  finally show ?thesis using assms(1) by (simp add: pos_le_divide_eq mult.commute)
qed

text \<open>For a measurable page and positive budgets with the soft one at most the hard one, the ratio is positive and at most the device pixel
  ratio, the buffer never exceeds the hard pixel budget nor the side limit, it equals the device pixel ratio whenever
  no budget binds, and it is at least CSS resolution whenever the device and the hard budgets allow that.\<close>

theorem render_ratio_budgets:
  assumes "0 < width" and "0 < height" and "0 < scale" and "0 < dpr"
    and "0 < ro_max_pixels opts" and "ro_max_pixels opts \<le> ro_hard_max_pixels opts" and "0 < ro_max_dimension opts"
  shows "(let r = effective_render_ratio width height scale dpr opts; area = width * height * scale * scale in
     0 < r \<and> r \<le> dpr
     \<and> (width * scale * r) * (height * scale * r) \<le> ro_hard_max_pixels opts
     \<and> width * scale * r \<le> ro_max_dimension opts \<and> height * scale * r \<le> ro_max_dimension opts
     \<and> (area * dpr\<^sup>2 \<le> ro_max_pixels opts \<and> width * scale * dpr \<le> ro_max_dimension opts
          \<and> height * scale * dpr \<le> ro_max_dimension opts \<longrightarrow> r = dpr)
     \<and> (1 \<le> dpr \<and> area \<le> ro_hard_max_pixels opts \<and> width * scale \<le> ro_max_dimension opts
          \<and> height * scale \<le> ro_max_dimension opts \<longrightarrow> 1 \<le> r))"
proof -
  define area where "area = width * height * scale * scale"
  define soft where "soft = sqrt (ro_max_pixels opts / area)"
  define hard where "hard = sqrt (ro_hard_max_pixels opts / area)"
  define dim where "dim = min (ro_max_dimension opts / (width * scale)) (ro_max_dimension opts / (height * scale))"
  define r where "r = effective_render_ratio width height scale dpr opts"
  have a: "0 < area" using assms by (simp add: area_def)
  have ws: "0 < width * scale" "0 < height * scale" using assms by simp_all
  have p: "0 < soft" "0 < hard" "0 < dim" using assms a ws by (simp_all add: soft_def hard_def dim_def)
  have sh: "soft \<le> hard" unfolding soft_def hard_def
    by (rule real_sqrt_le_mono) (rule divide_right_mono[OF assms(6) less_imp_le[OF a]])
  have r: "r = min dpr (max (min (min dpr soft) dim) (min (min 1 hard) dim))"
    using assms by (simp add: r_def effective_render_ratio_def Let_def area_def soft_def hard_def dim_def)
  have r0: "0 < r" "r \<le> dpr" "r \<le> hard" "r \<le> dim"
    using p sh assms(4) unfolding r by linarith+
  have "area * r\<^sup>2 \<le> ro_hard_max_pixels opts"
    using sqrt_le_area[OF a _ _ r0(3)[unfolded hard_def]] r0(1) assms(5,6) by simp
  then have px: "(width * scale * r) * (height * scale * r) \<le> ro_hard_max_pixels opts"
    by (simp add: area_def power2_eq_square algebra_simps)
  have "r \<le> ro_max_dimension opts / (width * scale)" "r \<le> ro_max_dimension opts / (height * scale)"
    using r0(4) by (auto simp: dim_def)
  then have sides: "width * scale * r \<le> ro_max_dimension opts" "height * scale * r \<le> ro_max_dimension opts"
    using ws by (simp_all add: pos_le_divide_eq mult.commute)
  have full: "r = dpr" if "area * dpr\<^sup>2 \<le> ro_max_pixels opts" "width * scale * dpr \<le> ro_max_dimension opts"
    "height * scale * dpr \<le> ro_max_dimension opts"
  proof -
    have "dpr\<^sup>2 \<le> ro_max_pixels opts / area" using that(1) a by (simp add: pos_le_divide_eq mult.commute)
    then have "dpr \<le> soft" using assms(4) by (simp add: soft_def real_le_rsqrt)
    moreover have "dpr \<le> dim" using that(2,3) ws by (simp add: dim_def pos_le_divide_eq mult.commute)
    ultimately show ?thesis using r by simp
  qed
  have one: "1 \<le> r" if "1 \<le> dpr" "area \<le> ro_hard_max_pixels opts" "width * scale \<le> ro_max_dimension opts"
    "height * scale \<le> ro_max_dimension opts"
  proof -
    have "1 \<le> hard" using that(2) a by (simp add: hard_def)
    moreover have "1 \<le> dim" using that(3,4) ws by (simp add: dim_def)
    ultimately show ?thesis using r that(1) by simp
  qed
  show ?thesis using r0 px sides full one by (simp add: r_def area_def Let_def)
qed

theorem render_ratio_budgets_witness:
  "effective_render_ratio 600 800 1 2 default_ratio_options = 2"
proof -
  have h: "0 < (600::real)" "0 < (800::real)" "0 < (1::real)" "0 < (2::real)"
    "0 < ro_max_pixels default_ratio_options" "ro_max_pixels default_ratio_options \<le> ro_hard_max_pixels default_ratio_options"
    "0 < ro_max_dimension default_ratio_options"
    by (simp_all add: default_ratio_options_def MAX_RENDER_PIXELS_def MAX_RENDER_PIXELS_HARD_def MAX_RENDER_DIMENSION_def)
  show ?thesis
    using render_ratio_budgets[OF h]
    by (simp add: default_ratio_options_def MAX_RENDER_PIXELS_def MAX_RENDER_DIMENSION_def Let_def)
qed

section \<open>The byte budget keeps the longest prefix\<close>

lemma cap_loop_take:
  "0 < index \<Longrightarrow> \<exists>n\<le>length xs. cap_loop f m xs index kept t = kept @ take n xs
     \<and> (\<forall>k\<in>{1..n}. t + sum_list (map f (take k xs)) \<le> m)
     \<and> (n < length xs \<longrightarrow> m < t + sum_list (map f (take (Suc n) xs)))"
proof (induction xs arbitrary: index kept t)
  case (Cons x xs)
  show ?case
  proof (cases "m < t + f x")
    case True
    then show ?thesis using Cons.prems by (intro exI[of _ 0]) simp
  next
    case False
    obtain n where n: "n \<le> length xs" "cap_loop f m xs (Suc index) (kept @ [x]) (t + f x) = (kept @ [x]) @ take n xs"
      "\<forall>k\<in>{1..n}. (t + f x) + sum_list (map f (take k xs)) \<le> m"
      "n < length xs \<longrightarrow> m < (t + f x) + sum_list (map f (take (Suc n) xs))"
      using Cons.IH[of "Suc index" "kept @ [x]" "t + f x"] by auto
    have "t + sum_list (map f (take k (x # xs))) \<le> m" if "k \<in> {1..Suc n}" for k
    proof (cases "k = 1")
      case False
      define j where "j = k - 1"
      have "k = Suc j" "j \<in> {1..n}" using that False by (auto simp: j_def)
      then show ?thesis using n(3) by (auto simp: add.assoc)
    qed (use \<open>\<not> m < t + f x\<close> in simp)
    then show ?thesis using n(1,2,4) False
      by (intro exI[of _ "Suc n"]) (simp add: add.assoc)
  qed
qed simp

text \<open>Capping keeps a prefix: the first item always, whatever its size, every further prefix within the budget, and
  it stops only where one more item would exceed it.\<close>

theorem cap_longest_prefix:
  "\<exists>n\<le>length items. cap_by_bytes items f m = take n items \<and> (items \<noteq> [] \<longrightarrow> 1 \<le> n)
     \<and> (\<forall>k\<in>{2..n}. sum_list (map f (take k items)) \<le> m)
     \<and> (n < length items \<longrightarrow> m < sum_list (map f (take (Suc n) items)))"
proof (cases items)
  case (Cons x xs)
  obtain n where n: "n \<le> length xs" "cap_loop f m xs (Suc 0) [x] (f x) = [x] @ take n xs"
    "\<forall>k\<in>{1..n}. f x + sum_list (map f (take k xs)) \<le> m"
    "n < length xs \<longrightarrow> m < f x + sum_list (map f (take (Suc n) xs))"
    using cap_loop_take[of "Suc 0" xs f m "[x]" "f x"] by auto
  have "sum_list (map f (take k items)) \<le> m" if "k \<in> {2..Suc n}" for k
  proof -
    define j where "j = k - 1"
    have "k = Suc j" "j \<in> {1..n}" using \<open>k \<in> {2..Suc n}\<close> by (auto simp: j_def)
    then show ?thesis using n(3) Cons by simp
  qed
  then show ?thesis using n(1,2,4) Cons
    by (intro exI[of _ "Suc n"]) (simp add: cap_by_bytes_def)
qed (simp add: cap_by_bytes_def)

theorem cap_longest_prefix_witness:
  "cap_by_bytes [900, 50, 60, 10] id 960 = [900, 50 :: real]"
proof -
  let ?xs = "[900, 50, 60, 10 :: real]"
  obtain n where n: "cap_by_bytes ?xs id 960 = take n ?xs" "?xs \<noteq> [] \<longrightarrow> 1 \<le> n"
    "\<forall>k\<in>{2..n}. sum_list (map id (take k ?xs)) \<le> (960 :: real)"
    "n < length ?xs \<longrightarrow> 960 < sum_list (map id (take (Suc n) ?xs))"
    using cap_longest_prefix[of ?xs id 960] by blast
  have "\<not> 3 \<le> n"
    using n(3)[rule_format, of 3] by (auto simp: numeral_eq_Suc)
  moreover have "n \<noteq> 1" using n(4) by (auto simp: numeral_eq_Suc)
  ultimately have "n = 2" using n(2) by simp
  then show ?thesis using n(1) by simp
qed

section \<open>The retention ring\<close>

interpretation ring: comparator ring_le
  by unfold_locales (auto simp: ring_le_def split: if_splits)

lemma ring_collect_props:
  "distinct (map fst (ring_collect mn mx depth seen ps))"
  "set (ring_collect mn mx depth seen ps)
     = {(p, ring_distance mn mx p) |p. p \<in> set ps \<and> p \<notin> set seen
          \<and> 0 < ring_distance mn mx p \<and> ring_distance mn mx p \<le> depth}"
proof (induction ps arbitrary: seen)
  case (Cons p ps)
  { case 1 show ?case using Cons(1,2)[of "p # seen"] Cons(1)[of seen] by (auto simp: Let_def)
  next
    case 2 show ?case using Cons(2)[of "p # seen"] Cons(2)[of seen] by (auto simp: Let_def) }
qed auto

text \<open>The retention ring holds exactly the offered pages outside the visible range and at most \<open>depth\<close> pages from
  it, each once, the closest first and the lower page first among equally close ones, so a byte cut drops the farthest.\<close>

theorem retention_ring_exact:
  assumes "visible \<noteq> []"
  shows "(let lo = Min (set visible); hi = Max (set visible); ring = retention_ring visible candidates depth in
     set ring = {p \<in> set candidates. (lo - depth \<le> p \<and> p < lo) \<or> (hi < p \<and> p \<le> hi + depth)}
     \<and> distinct ring
     \<and> sorted_wrt (\<lambda>p q. ring_distance lo hi p < ring_distance lo hi q
          \<or> ring_distance lo hi p = ring_distance lo hi q \<and> p < q) ring)"
proof -
  define lo hi where "lo = Min (set visible)" and "hi = Max (set visible)"
  have lohi: "lo \<le> hi" using assms by (simp add: lo_def hi_def)
  define es where "es = js_sort ring_le (ring_collect lo hi depth [] candidates)"
  have r: "retention_ring visible candidates depth = (if depth \<le> 0 then [] else map fst es)"
    using assms by (simp add: retention_ring_def es_def lo_def hi_def)
  have es: "set es = {(p, ring_distance lo hi p) |p. p \<in> set candidates
       \<and> 0 < ring_distance lo hi p \<and> ring_distance lo hi p \<le> depth}"
    unfolding es_def set_js_sort by (auto simp: ring_collect_props(2))
  have "mset (map fst es) = mset (map fst (ring_collect lo hi depth [] candidates))"
    by (simp add: es_def)
  then have d: "distinct (map fst es)"
    using ring_collect_props(1)[of lo hi depth "[]" candidates] by (metis mset_eq_imp_distinct_iff)
  have s: "sorted_wrt ring_le es" unfolding es_def by (rule ring.sorted_js_sort)
  have srt: "sorted_wrt (\<lambda>p q. ring_distance lo hi p < ring_distance lo hi q
          \<or> ring_distance lo hi p = ring_distance lo hi q \<and> p < q) (map fst es)"
    unfolding sorted_wrt_iff_nth_less
  proof (intro allI impI, goal_cases)
    case (1 i j)
    then have ij: "i < length es" "j < length es" "i < j" by auto
    have "ring_le (es ! i) (es ! j)" using s ij by (simp add: sorted_wrt_iff_nth_less)
    moreover have "fst (es ! i) \<noteq> fst (es ! j)"
      using d ij nth_eq_iff_index_eq[OF d, of i j] by simp
    moreover have "snd e = ring_distance lo hi (fst e)" if "e \<in> set es" for e using that es by auto
    then have "snd (es ! i) = ring_distance lo hi (fst (es ! i))" "snd (es ! j) = ring_distance lo hi (fst (es ! j))"
      using ij by simp_all
    ultimately show ?case using ij by (auto simp: ring_le_def split: if_splits)
  qed
  have "fst ` set es = {p \<in> set candidates. 0 < ring_distance lo hi p \<and> ring_distance lo hi p \<le> depth}"
    unfolding es by force
  also have "\<dots> = {p \<in> set candidates. (lo - depth \<le> p \<and> p < lo) \<or> (hi < p \<and> p \<le> hi + depth)}"
    using lohi by (auto simp: ring_distance_def split: if_splits)
  finally show ?thesis
    using srt d by (auto simp: r Let_def lo_def[symmetric] hi_def[symmetric])
qed

theorem retention_ring_exact_witness:
  "set (retention_ring [4, 5] [1, 2, 3, 4, 5, 6, 9] 2) = {2, 3, 6}"
proof -
  have "{p \<in> set [1, 2, 3, 4, 5, 6, 9]. (4 - 2 \<le> p \<and> p < 4) \<or> (5 < p \<and> p \<le> 5 + 2)} = {2, 3, 6 :: int}"
    by auto
  then show ?thesis
    using retention_ring_exact[of "[4, 5]" "[1, 2, 3, 4, 5, 6, 9]" 2] by (simp add: Let_def)
qed

section \<open>Pages and positions\<close>

text \<open>Saving the page as a position and reading it back gives the page, in every document; any position, in range or
  not, names a page of the document; and a typed page number always does too, exactly when it is all digits.\<close>

theorem page_position_roundtrip:
  assumes "1 \<le> n"
  shows "(1 \<le> page \<and> page \<le> n \<longrightarrow> position_to_page (page_to_position page n) n = page)
     \<and> 1 \<le> position_to_page position n \<and> position_to_page position n \<le> n
     \<and> (parse_page_number text n = None \<longleftrightarrow> trim text = '''' \<or> \<not> all_digits (trim text))
     \<and> (\<forall>p. parse_page_number text n = Some p \<longrightarrow> 1 \<le> p \<and> p \<le> n)"
proof -
  have "position_to_page (page_to_position page n) n = page" if p: "1 \<le> page" "page \<le> n"
  proof (cases "n = 1")
    case False
    then have n: "0 < rat_of_int n - 1" using assms by simp
    let ?x = "rat_of_int (page - 1) / rat_of_int (n - 1) * 100"
    have x: "0 \<le> ?x" "?x \<le> 100" using p n by (simp_all add: field_simps)
    then have "max 0 (min 100 ?x) = ?x" by simp
    moreover have "?x / 100 * (rat_of_int n - 1) = rat_of_int (page - 1)"
      using n by (simp add: field_simps del: of_int_diff) (simp add: algebra_simps)
    moreover have "\<lfloor>rat_of_int (page - 1) + 1 / 2\<rfloor> = page - 1" by (simp add: floor_unique)
    ultimately show ?thesis using p False assms
      by (simp add: position_to_page_def page_to_position_def math_round_def Let_def del: of_int_diff)
  qed (use p in \<open>simp add: position_to_page_def Let_def\<close>)
  moreover have "1 \<le> position_to_page position n" "position_to_page position n \<le> n"
    using assms by (simp_all add: position_to_page_def Let_def)
  ultimately show ?thesis using assms
    by (auto simp: parse_page_number_def clamp_page_def Let_def split: if_splits)
qed

theorem page_position_roundtrip_witness:
  "position_to_page (page_to_position 3 7) 7 = 3"
  using page_position_roundtrip[of 7 3 0 "[]"] by simp

section \<open>Where a turn settles\<close>

text \<open>A forward turn from any spread but the last settles on the first page of the next one, and a backward turn on the
  LAST page of the spread before, not on its first page as the host's contract says; on the first page of a
  two-page last spread a forward turn still settles, on the other page of the same spread.\<close>

theorem turn_settles:
  assumes "1 \<le> page" and "page \<le> n"
  shows "(let start = spread_start_index (page - 1); stop = (if start = 0 then 1 else start + 2);
              host = \<lparr>th_current = page, th_count = n\<rparr> in
       turn_advance host = (if stop < n then Some (stop + 1) else if page < n then Some n else None)
       \<and> (stop < n \<longrightarrow> spread_start_index stop = stop)
       \<and> (\<not> stop < n \<and> page < n \<longrightarrow> spread_start_index (n - 1) = start)
       \<and> turn_retreat host = (if start = 0 then None else Some start)
       \<and> (3 \<le> start \<longrightarrow> spread_start_index (start - 1) = start - 2))"
proof -
  define i where "i = page - 1"
  have i: "0 \<le> i" "i < n" "page = i + 1" using assms by (simp_all add: i_def)
  define start where "start = spread_start_index i"
  define stop where "stop = (if start = 0 then 1 else start + 2)"
  have t: "start \<le> i" "i < stop" "next_spread_page_index i n = (if stop < n then stop else n - 1)"
    "previous_spread_page_index i = (if start = 0 then 0 else start - 1)"
    "stop < n \<Longrightarrow> spread_start_index (next_spread_page_index i n) = stop"
    "\<not> stop < n \<Longrightarrow> spread_start_index (next_spread_page_index i n) = start"
    using spread_turns[OF i(1,2)] unfolding Let_def start_def[symmetric] stop_def[symmetric] by auto
  have pos: "0 \<le> start" by (simp add: start_def spread_start_index_def)
  have odd: "start = 0 \<or> (\<exists>k\<ge>0. start = 1 + 2 * k)"
    using i(1) by (auto simp: start_def spread_start_index_def pos_imp_zdiv_nonneg_iff)
  have prev: "spread_start_index (start - 1) = start - 2" if "3 \<le> start"
    using odd that unfolding spread_start_index_def by presburger
  show ?thesis
  proof -
    have cur: "min (max 1 page) n = page" "page - 1 = i" "\<not> n \<le> 0" using i by auto
    have "turn_advance \<lparr>th_current = page, th_count = n\<rparr>
        = (if stop < n then Some (stop + 1) else if page < n then Some n else None)"
      using t(1,2) i by (auto simp: turn_advance_def instant_turn_def Let_def cur t(3))
    moreover have "turn_retreat \<lparr>th_current = page, th_count = n\<rparr> = (if start = 0 then None else Some start)"
    proof (cases "start = 0")
      case True
      then have "i = 0" using t(2) i(1) by (simp add: stop_def)
      then show ?thesis using True t(4) by (simp add: turn_retreat_def instant_turn_def Let_def cur)
    next
      case False
      then show ?thesis using t(1) by (simp add: turn_retreat_def instant_turn_def Let_def cur t(4))
    qed
    moreover have "stop < n \<Longrightarrow> spread_start_index stop = stop"
      "\<not> stop < n \<Longrightarrow> spread_start_index (n - 1) = start"
      using t(3,5,6) by simp_all
    ultimately show ?thesis using prev
      by (simp add: Let_def cur(2) start_def[symmetric] stop_def[symmetric] del: One_nat_def)
  qed
qed

theorem turn_settles_witness:
  "turn_advance \<lparr>th_current = 4, th_count = 5\<rparr> = Some 5
   \<and> spread_start_index 3 = spread_start_index 4
   \<and> turn_retreat \<lparr>th_current = 4, th_count = 5\<rparr> = Some 3"
proof -
  have s: "spread_start_index 3 = 3" "spread_start_index 4 = 3" by (simp_all add: spread_start_index_def)
  show ?thesis using turn_settles[of 4 5] by (simp add: s Let_def)
qed

end
