(* ===== verification/Startup.thy ===== *)
theory Startup
  imports Paths
begin

text \<open>
  \<open>electron/main/cli.ts\<close>, \<open>bootRecovery.ts\<close>, \<open>gpuFallback.ts\<close> and \<open>rendererConsole.ts\<close>: what happens
  before the window opens and what is kept for the next launch. The injected writers, dialogs and files
  are modelled by the effects they are asked for, in order, and by whether each of them succeeds;
  \<open>JSON\<close>, \<open>Date\<close> and number conversion are parameters.
\<close>

section \<open>The command line\<close>

datatype cli_command = CmdHelp | CmdVersion | CmdUsageError string | CmdDryRun | CmdResetData | CmdGui "string list"

datatype token_event = EvHelp | EvVersion | EvDryRun | EvResetData | EvError string

definition BOOLEAN_OPTIONS :: "string list" where
  "BOOLEAN_OPTIONS = [''-h'', ''-v'', ''--help'', ''--version'', ''--dry-run'', ''--reset-data'']"

definition PASSTHROUGH_OPTIONS :: "string list" where
  "PASSTHROUGH_OPTIONS =
     [''--no-sandbox'', ''--ozone-platform'', ''--force-device-scale-factor'',
      ''--use-fake-device-for-media-stream'', ''--disable-gpu'']"

abbreviation equals_sign :: char where
  "equals_sign \<equiv> CHR ''=''"

definition quoted :: "string \<Rightarrow> string" where
  "quoted s = [CHR 0x27] @ s @ [CHR 0x27]"

definition option_name :: "string \<Rightarrow> string" where
  "option_name token =
     (case index_of equals_sign token of None \<Rightarrow> token | Some separator \<Rightarrow> take separator token)"

definition classify :: "string \<Rightarrow> token_event option" where
  "classify token =
     (if token = ''-h'' \<or> token = ''--help'' then Some EvHelp
      else if token = ''-v'' \<or> token = ''--version'' then Some EvVersion
      else if token = ''--dry-run'' then Some EvDryRun
      else if token = ''--reset-data'' then Some EvResetData
      else if \<not> starts_with token ''-'' \<or> token = ''-'' then None
      else let separator = index_of equals_sign token; name = option_name token in
        if name \<in> set PASSTHROUGH_OPTIONS then None
        else if separator \<noteq> None \<and> name \<in> set BOOLEAN_OPTIONS
          then Some (EvError (''option '' @ quoted name @ '' does not take a value''))
        else Some (EvError (''unknown option '' @ quoted name)))"

record cli_scan =
  cs_help :: bool
  cs_version :: bool
  cs_dry_run :: bool
  cs_reset_data :: bool
  cs_error :: "string option"
  cs_forwarded :: "string list"

definition empty_scan :: cli_scan where
  "empty_scan = \<lparr>cs_help = False, cs_version = False, cs_dry_run = False, cs_reset_data = False,
     cs_error = None, cs_forwarded = []\<rparr>"

definition note_event :: "token_event option \<Rightarrow> cli_scan \<Rightarrow> cli_scan" where
  "note_event event scan =
     (case event of
        None \<Rightarrow> scan
      | Some (EvError e) \<Rightarrow> scan\<lparr>cs_error := (case cs_error scan of None \<Rightarrow> Some e | Some e' \<Rightarrow> Some e')\<rparr>
      | Some EvHelp \<Rightarrow> scan\<lparr>cs_help := True\<rparr>
      | Some EvVersion \<Rightarrow> scan\<lparr>cs_version := True\<rparr>
      | Some EvDryRun \<Rightarrow> scan\<lparr>cs_dry_run := True\<rparr>
      | Some EvResetData \<Rightarrow> scan\<lparr>cs_reset_data := True\<rparr>)"

fun scan_tokens :: "string list \<Rightarrow> cli_scan \<Rightarrow> cli_scan" where
  "scan_tokens [] scan = scan"
| "scan_tokens (token # rest) scan =
     (if token = ''--'' then scan\<lparr>cs_forwarded := rest\<rparr>
      else scan_tokens rest (note_event (classify token) scan))"

definition scan_argv :: "string list \<Rightarrow> cli_scan" where
  "scan_argv argv = scan_tokens argv empty_scan"

definition parse_cli :: "string list \<Rightarrow> cli_command" where
  "parse_cli argv =
     (let scan = scan_argv argv in
      if cs_help scan then CmdHelp
      else if cs_version scan then CmdVersion
      else case cs_error scan of
          Some message \<Rightarrow> CmdUsageError message
        | None \<Rightarrow>
            if cs_dry_run scan then CmdDryRun
            else if cs_reset_data scan then CmdResetData
            else CmdGui (cs_forwarded scan))"

text \<open>What the injected writers and actions are asked to do.\<close>

datatype cli_effect =
    Stdout string
  | Stderr string
  | Exit int
  | RunDryRun
  | RunResetData
  | ForwardSwitch string "string option"

definition help_line :: "string \<Rightarrow> string" where
  "help_line s = s @ [CHR 0x0A]"

definition HELP_TEXT :: string where
  "HELP_TEXT =
     help_line ''Usage: tuxbooks [options]'' @ help_line '''' @
     help_line ''TuxBooks: a local-first ebook library and reader.'' @ help_line '''' @
     help_line ''Options:'' @
     help_line ''  -h, --help     Show this help and exit'' @
     help_line ''  -v, --version  Show version and exit'' @
     help_line ''  --dry-run      Print app data locations and sizes; change nothing'' @
     help_line ''  --reset-data   Clear app data and caches; never touch book files'' @
     help_line ''  -- <switches>  Pass every following switch to Chromium'' @
     ''                 (e.g. tuxbooks -- --force-gpu-mem-available-mb=256)''"

definition USAGE_HINT :: string where
  "USAGE_HINT = ''Run '' @ quoted ''tuxbooks --help'' @ '' for usage.''"

text \<open>A thrown value: an \<open>Error\<close> with its message and name, a string, or anything else with its \<open>String(v)\<close>.\<close>

datatype failure = ErrorValue string string | StringValue string | OtherValue string

fun describe_startup_failure :: "failure \<Rightarrow> string" where
  "describe_startup_failure (ErrorValue message name) = (if message = '''' then name else message)"
| "describe_startup_failure (StringValue s) = s"
| "describe_startup_failure (OtherValue s) = s"

definition forward_token :: "string \<Rightarrow> cli_effect list" where
  "forward_token token =
     (if \<not> starts_with token ''-'' \<or> token = ''-'' \<or> token = ''--'' then []
      else [ForwardSwitch (option_name token)
              (map_option (\<lambda>separator. drop (separator + 1) token) (index_of equals_sign token))])"

text \<open>\<open>reset\<close> is how the promise of \<open>runResetData\<close> settles.\<close>

definition run_cli :: "string \<Rightarrow> failure + unit \<Rightarrow> string list \<Rightarrow> cli_effect list \<times> bool" where
  "run_cli version reset argv =
     (case parse_cli argv of
        CmdHelp \<Rightarrow> ([Stdout HELP_TEXT, Exit 0], True)
      | CmdVersion \<Rightarrow> ([Stdout (''tuxbooks '' @ version), Exit 0], True)
      | CmdUsageError message \<Rightarrow> ([Stderr (''tuxbooks: '' @ message), Stderr USAGE_HINT, Exit 2], True)
      | CmdDryRun \<Rightarrow> ([RunDryRun, Exit 0], True)
      | CmdResetData \<Rightarrow>
          (RunResetData # (case reset of
              Inr _ \<Rightarrow> [Exit 0]
            | Inl e \<Rightarrow> [Stderr (''TuxBooks could not reset app data: '' @ describe_startup_failure e), Exit 1]),
           True)
      | CmdGui forwarded \<Rightarrow> (concat (map forward_token forwarded), False))"

section \<open>Recovery after a failed start\<close>

definition STARTUP_ERROR_LOG :: string where "STARTUP_ERROR_LOG = ''startup-error.log''"
definition RESET_DATA_COMMAND :: string where "RESET_DATA_COMMAND = ''tuxbooks --reset-data''"

record storage_dirs =
  sd_data_dir :: string
  sd_config_dir :: string

text \<open>
  How the injected surfaces behave: which of them throw, and which button the dialog reports
  (\<open>None\<close> when it rejects).
\<close>

record surfaces =
  sf_mkdir_ok :: bool
  sf_append_ok :: bool
  sf_stderr_ok :: bool
  sf_dialog :: "int option"

text \<open>The calls made on the surfaces, in order, whether or not they succeed.\<close>

datatype recovery_call =
    MkdirCall string
  | AppendCall string string
  | StderrCall string
  | DialogCall (dialog_type: string) (dialog_title: string) (dialog_message: string) (dialog_detail: string)
      (dialog_buttons: "string list")
  | OpenPathCall string

definition startup_error_log_path :: "string \<Rightarrow> string" where
  "startup_error_log_path data_dir = path_join data_dir STARTUP_ERROR_LOG"

definition startup_failure_message :: "failure \<Rightarrow> storage_dirs \<Rightarrow> string" where
  "startup_failure_message f paths =
     ''TuxBooks could not start. Startup failure: '' @ describe_startup_failure f @ ''.''
     @ '' Data directory: '' @ sd_data_dir paths @ ''.''
     @ '' Config directory: '' @ sd_config_dir paths @ ''.''
     @ '' To recover, run: '' @ RESET_DATA_COMMAND"

definition write_startup_error_log :: "surfaces \<Rightarrow> storage_dirs \<Rightarrow> string \<Rightarrow> string \<Rightarrow> recovery_call list" where
  "write_startup_error_log sf paths message now_iso =
     (if sf_mkdir_ok sf
      then [MkdirCall (sd_data_dir paths),
            AppendCall (startup_error_log_path (sd_data_dir paths)) (now_iso @ '' '' @ message @ [CHR 0x0A])]
      else [MkdirCall (sd_data_dir paths)])"

definition show_recovery_dialog ::
    "surfaces \<Rightarrow> storage_dirs \<Rightarrow> string \<Rightarrow> string \<Rightarrow> string \<Rightarrow> string \<Rightarrow> recovery_call list" where
  "show_recovery_dialog sf paths kind title message detail =
     DialogCall kind title message detail [''Open data folder'']
     # (case sf_dialog sf of
          None \<Rightarrow> []
        | Some response \<Rightarrow> if response = 0 then [OpenPathCall (sd_data_dir paths)] else [])"

definition show_startup_error_dialog :: "surfaces \<Rightarrow> storage_dirs \<Rightarrow> failure \<Rightarrow> recovery_call list" where
  "show_startup_error_dialog sf paths f =
     show_recovery_dialog sf paths ''error'' ''TuxBooks could not start''
       (''TuxBooks could not start. '' @ describe_startup_failure f @ ''.'')
       (''A startup error log was written to:'' @ [CHR 0x0A] @ startup_error_log_path (sd_data_dir paths))"

definition safe_stderr :: "string \<Rightarrow> recovery_call list" where
  "safe_stderr message = [StderrCall message]"

definition report_startup_failure :: "surfaces \<Rightarrow> storage_dirs \<Rightarrow> failure \<Rightarrow> string \<Rightarrow> recovery_call list" where
  "report_startup_failure sf paths f now_iso =
     (let message = startup_failure_message f paths in
      write_startup_error_log sf paths message now_iso @ safe_stderr message @ show_startup_error_dialog sf paths f)"

record quarantine_report =
  qr_from :: string
  qr_to :: string

definition parse_quarantine_report :: "js \<Rightarrow> quarantine_report option" where
  "parse_quarantine_report v =
     (case v of
        Obj r \<Rightarrow>
          (case get_prop ''from'' r of
             Str from_path \<Rightarrow>
               if from_path = '''' then None
               else (case get_prop ''to'' r of
                       Str to_path \<Rightarrow> if to_path = '''' then None else Some \<lparr>qr_from = from_path, qr_to = to_path\<rparr>
                     | _ \<Rightarrow> None)
           | _ \<Rightarrow> None)
      | _ \<Rightarrow> None)"

definition show_quarantine_dialog :: "surfaces \<Rightarrow> storage_dirs \<Rightarrow> quarantine_report \<Rightarrow> recovery_call list" where
  "show_quarantine_dialog sf paths report =
     show_recovery_dialog sf paths ''warning'' ''TuxBooks repaired its database''
       ''TuxBooks found a damaged database and started a new one.''
       (''The damaged file was kept here:'' @ [CHR 0x0A] @ qr_to report @ [CHR 0x0A, CHR 0x0A] @
        ''TuxBooks moved it and its WAL and shared-memory files aside; nothing was deleted.'')"

text \<open>\<open>answer\<close> is how the sidecar's \<open>get_startup_recovery\<close> call settles.\<close>

definition surface_startup_quarantine ::
    "surfaces \<Rightarrow> storage_dirs \<Rightarrow> failure + js \<Rightarrow> recovery_call list \<times> quarantine_report option" where
  "surface_startup_quarantine sf paths answer =
     (case answer of
        Inl e \<Rightarrow> (safe_stderr (''[recovery] could not read the startup recovery report: '' @ describe_startup_failure e), None)
      | Inr v \<Rightarrow>
          (case parse_quarantine_report v of
             None \<Rightarrow> ([], None)
           | Some report \<Rightarrow>
               (safe_stderr (''[recovery] quarantined a broken database: '' @ qr_from report @ '' -> '' @ qr_to report)
                  @ show_quarantine_dialog sf paths report, Some report)))"

section \<open>The GPU fallback marker\<close>

definition GPU_FALLBACK_MARKER :: string where "GPU_FALLBACK_MARKER = ''gpu-fallback.json''"
definition GPU_CRASH_FALLBACK_THRESHOLD :: int where "GPU_CRASH_FALLBACK_THRESHOLD = 2"
definition GPU_FALLBACK_EXPIRY_DAYS :: int where "GPU_FALLBACK_EXPIRY_DAYS = 7"

definition gpu_fallback_marker_path :: "string \<Rightarrow> string" where
  "gpu_fallback_marker_path data_dir = path_join data_dir GPU_FALLBACK_MARKER"

text \<open>
  What the module takes from the language: \<open>JSON.parse\<close> and \<open>JSON.stringify\<close>, \<open>new Date(s).getTime()\<close>
  (\<open>None\<close> for \<open>NaN\<close>), \<open>toISOString\<close>, and the number conversion of \<open>Math.max\<close>.
\<close>

record runtime =
  rt_json_parse :: "string \<Rightarrow> js option"
  rt_stringify :: "js \<Rightarrow> string"
  rt_date_ms :: "string \<Rightarrow> int option"
  rt_iso :: "int \<Rightarrow> string"
  rt_to_number :: "js \<Rightarrow> jnum"

text \<open>The marker file: its content, and whether reading and writing (or removing) it succeed.\<close>

record marker_file =
  mf_content :: "string option"
  mf_readable :: bool
  mf_writable :: bool

definition read_gpu_fallback_marker :: "runtime \<Rightarrow> marker_file \<Rightarrow> int \<Rightarrow> (string \<times> js) list option" where
  "read_gpu_fallback_marker rt f now =
     (if \<not> mf_readable f then None
      else case mf_content f of
        None \<Rightarrow> None
      | Some raw \<Rightarrow>
          (case rt_json_parse rt raw of
             Some (Obj parsed) \<Rightarrow>
               if get_prop ''reason'' parsed \<noteq> Str ''repeated-gpu-process-crashes'' then None
               else (case get_prop ''expiresAt'' parsed of
                       Str expires \<Rightarrow>
                         (case rt_date_ms rt expires of
                            None \<Rightarrow> None
                          | Some t \<Rightarrow> if t \<le> now then None else Some parsed)
                     | _ \<Rightarrow> None)
           | _ \<Rightarrow> None))"

definition coalesce :: "js \<Rightarrow> js \<Rightarrow> js" where
  "coalesce v d = (if v = Undef \<or> v = Null then d else v)"

definition existing_prop :: "string \<Rightarrow> (string \<times> js) list option \<Rightarrow> js" where
  "existing_prop k m = (case m of None \<Rightarrow> Undef | Some r \<Rightarrow> get_prop k r)"

text \<open>\<open>Math.max\<close> of an integer and a converted value.\<close>

fun math_max :: "int \<Rightarrow> jnum \<Rightarrow> jnum" where
  "math_max n (Fin r) = Fin (max (of_int n) r)"
| "math_max n NaN = NaN"
| "math_max n PosInf = PosInf"
| "math_max n NegInf = Fin (of_int n)"

definition gpu_marker ::
    "runtime \<Rightarrow> (string \<times> js) list option \<Rightarrow> int \<Rightarrow> string \<Rightarrow> string \<Rightarrow> int \<Rightarrow> (string \<times> js) list" where
  "gpu_marker rt existing crash_count electron chrome now =
     [(''reason'', Str ''repeated-gpu-process-crashes''),
      (''crashes'', Num (math_max crash_count (rt_to_number rt (coalesce (existing_prop ''crashes'' existing) (Num (Fin 0)))))),
      (''firstCrashAt'', coalesce (existing_prop ''firstCrashAt'' existing) (Str (rt_iso rt now))),
      (''lastCrashAt'', Str (rt_iso rt now)),
      (''expiresAt'', Str (rt_iso rt (now + GPU_FALLBACK_EXPIRY_DAYS * 24 * 60 * 60 * 1000))),
      (''electron'', Str electron),
      (''chrome'', Str chrome)]"

definition record_gpu_crashes ::
    "runtime \<Rightarrow> marker_file \<Rightarrow> int \<Rightarrow> string \<Rightarrow> string \<Rightarrow> int \<Rightarrow> marker_file \<times> (string \<times> js) list option" where
  "record_gpu_crashes rt f crash_count electron chrome now =
     (if crash_count < GPU_CRASH_FALLBACK_THRESHOLD then (f, None)
      else let marker = gpu_marker rt (read_gpu_fallback_marker rt f now) crash_count electron chrome now in
        if mf_writable f then (f\<lparr>mf_content := Some (rt_stringify rt (Obj marker))\<rparr>, Some marker)
        else (f, None))"

definition clear_gpu_fallback_marker :: "marker_file \<Rightarrow> marker_file \<times> bool" where
  "clear_gpu_fallback_marker f =
     (if mf_content f = None then (f, False)
      else if mf_writable f then (f\<lparr>mf_content := None\<rparr>, True) else (f, False))"

definition gpu_fallback_marker_exists :: "marker_file \<Rightarrow> bool" where
  "gpu_fallback_marker_exists f = (mf_content f \<noteq> None)"

text \<open>
  The session of \<open>main/index.ts\<close>: the decision at launch, the crash count of \<open>child-process-gone\<close> and the
  self-heal of \<open>will-quit\<close>.
\<close>

record gpu_session =
  gs_file :: marker_file
  gs_active :: bool
  gs_crashes :: int

datatype gpu_event = GpuGone (gone_type: string) (gone_reason: string) (gone_at: int)

definition gpu_launch :: "runtime \<Rightarrow> marker_file \<Rightarrow> int \<Rightarrow> gpu_session" where
  "gpu_launch rt f now =
     \<lparr>gs_file = f, gs_active = (read_gpu_fallback_marker rt f now \<noteq> None), gs_crashes = 0\<rparr>"

fun gpu_event_step :: "runtime \<Rightarrow> string \<Rightarrow> string \<Rightarrow> gpu_session \<Rightarrow> gpu_event \<Rightarrow> gpu_session" where
  "gpu_event_step rt electron chrome s (GpuGone kind reason now) =
     (if kind \<noteq> ''GPU'' then s
      else let n = (if reason = ''crashed'' then gs_crashes s + 1 else gs_crashes s) in
        if \<not> gs_active s \<and> reason = ''crashed''
        then s\<lparr>gs_crashes := n, gs_file := fst (record_gpu_crashes rt (gs_file s) n electron chrome now)\<rparr>
        else s\<lparr>gs_crashes := n\<rparr>)"

definition gpu_quit :: "gpu_session \<Rightarrow> marker_file" where
  "gpu_quit s =
     (if gs_active s \<or> 0 < gs_crashes s then gs_file s else fst (clear_gpu_fallback_marker (gs_file s)))"

section \<open>The renderer console tail\<close>

definition BENIGN_RENDERER_MESSAGES :: "string list" where
  "BENIGN_RENDERER_MESSAGES = [''ResizeObserver loop completed with undelivered notifications'']"

definition is_benign_renderer_message :: "string \<Rightarrow> bool" where
  "is_benign_renderer_message message = list_ex (\<lambda>benign. contains message benign) BENIGN_RENDERER_MESSAGES"

definition is_echoed_live :: "string \<Rightarrow> string \<Rightarrow> bool" where
  "is_echoed_live level message = (level = ''error'' \<and> \<not> is_benign_renderer_message message)"

definition RENDERER_CONSOLE_LIMIT :: nat where "RENDERER_CONSOLE_LIMIT = 200"
definition RENDERER_CONSOLE_TAIL :: nat where "RENDERER_CONSOLE_TAIL = 40"

record console_details =
  cd_message :: string
  cd_level :: string
  cd_line :: int
  cd_source :: string

definition console_line :: "console_details \<Rightarrow> string" where
  "console_line d =
     ''[renderer:'' @ cd_level d @ ''] '' @ cd_message d @ '' ('' @ cd_source d @ '':'' @ show_int (cd_line d) @ '')''"

text \<open>The buffer, and the lines written to the terminal by a call.\<close>

definition record_renderer_console :: "string list \<Rightarrow> console_details \<Rightarrow> string list \<times> string list" where
  "record_renderer_console buffer d =
     (let line = console_line d; pushed = buffer @ [line] in
      (if RENDERER_CONSOLE_LIMIT < length pushed then drop 1 pushed else pushed,
       if is_echoed_live (cd_level d) (cd_message d) then [line] else []))"

definition replay_renderer_console_tail :: "string list \<Rightarrow> string list \<times> string list \<times> string list" where
  "replay_renderer_console_tail buffer =
     (if buffer = [] then ([], [], [])
      else let tail = drop (length buffer - RENDERER_CONSOLE_TAIL) buffer in
        ([],
         (''[electron] last '' @ show_nat (min (length buffer) RENDERER_CONSOLE_TAIL) @ '' renderer messages:'')
           # map (\<lambda>line. ''  '' @ line) tail,
         tail))"

datatype console_event = ConsoleMessage console_details | RendererGone

fun console_step :: "string list \<Rightarrow> console_event \<Rightarrow> string list" where
  "console_step buffer (ConsoleMessage d) = fst (record_renderer_console buffer d)"
| "console_step buffer RendererGone = fst (replay_renderer_console_tail buffer)"

section \<open>The command line is read as documented\<close>

definition cli_options :: "string list \<Rightarrow> string list" where
  "cli_options argv = takeWhile (\<lambda>t. t \<noteq> ''--'') argv"

definition usage_errors :: "string list \<Rightarrow> string list" where
  "usage_errors ts = concat (map (\<lambda>t. case classify t of Some (EvError e) \<Rightarrow> [e] | _ \<Rightarrow> []) ts)"

lemma note_event_fields:
  "cs_help (note_event ev s) = (cs_help s \<or> ev = Some EvHelp)"
  "cs_version (note_event ev s) = (cs_version s \<or> ev = Some EvVersion)"
  "cs_dry_run (note_event ev s) = (cs_dry_run s \<or> ev = Some EvDryRun)"
  "cs_reset_data (note_event ev s) = (cs_reset_data s \<or> ev = Some EvResetData)"
  "cs_forwarded (note_event ev s) = cs_forwarded s"
  by (auto simp: note_event_def split: option.splits token_event.splits)

lemma note_event_error:
  "cs_error (note_event ev s) = (case cs_error s of Some e \<Rightarrow> Some e
     | None \<Rightarrow> (case ev of Some (EvError e) \<Rightarrow> Some e | _ \<Rightarrow> None))"
  by (auto simp: note_event_def split: option.splits token_event.splits)

lemma scan_tokens_fields:
  "cs_help (scan_tokens ts s) = (cs_help s \<or> (\<exists>t\<in>set (cli_options ts). classify t = Some EvHelp))"
  "cs_version (scan_tokens ts s) = (cs_version s \<or> (\<exists>t\<in>set (cli_options ts). classify t = Some EvVersion))"
  "cs_dry_run (scan_tokens ts s) = (cs_dry_run s \<or> (\<exists>t\<in>set (cli_options ts). classify t = Some EvDryRun))"
  "cs_reset_data (scan_tokens ts s) = (cs_reset_data s \<or> (\<exists>t\<in>set (cli_options ts). classify t = Some EvResetData))"
  "cs_error (scan_tokens ts s) = (case cs_error s of Some e \<Rightarrow> Some e
     | None \<Rightarrow> (case usage_errors (cli_options ts) of [] \<Rightarrow> None | e # _ \<Rightarrow> Some e))"
  "cs_forwarded s = [] \<Longrightarrow> cs_forwarded (scan_tokens ts s) = drop (Suc (length (cli_options ts))) ts"
proof (induction ts arbitrary: s)
  case (Cons t ts)
  note f = note_event_fields note_event_error
  { case 1 then show ?case using Cons(1)[of "note_event (classify t) s"] by (auto simp: cli_options_def f)
  next case 2 then show ?case using Cons(2)[of "note_event (classify t) s"] by (auto simp: cli_options_def f)
  next case 3 then show ?case using Cons(3)[of "note_event (classify t) s"] by (auto simp: cli_options_def f)
  next case 4 then show ?case using Cons(4)[of "note_event (classify t) s"] by (auto simp: cli_options_def f)
  next case 5 then show ?case using Cons(5)[of "note_event (classify t) s"]
      by (cases "t = ''--''") (auto simp: cli_options_def f usage_errors_def split: option.splits token_event.splits)
  next case 6 then show ?case using Cons(6)[of "note_event (classify t) s"] by (auto simp: cli_options_def f) }
qed (simp_all add: cli_options_def usage_errors_def split: option.splits)

text \<open>Only the tokens before the first \<open>--\<close> are options, and only their set matters except for the first usage error:
  help wins over version, version over a usage error (the earliest typo is the one reported), a usage error over a dry
  run, a dry run over a reset, and the window opens exactly when no option and no typo is there, with everything after
  the \<open>--\<close> handed on unchanged.\<close>

theorem cli_precedence:
  "parse_cli argv =
     (let ts = cli_options argv in
      if ''-h'' \<in> set ts \<or> ''--help'' \<in> set ts then CmdHelp
      else if ''-v'' \<in> set ts \<or> ''--version'' \<in> set ts then CmdVersion
      else if usage_errors ts \<noteq> [] then CmdUsageError (hd (usage_errors ts))
      else if ''--dry-run'' \<in> set ts then CmdDryRun
      else if ''--reset-data'' \<in> set ts then CmdResetData
      else CmdGui (drop (Suc (length ts)) argv))"
proof -
  have c: "classify t = Some EvHelp \<longleftrightarrow> t = ''-h'' \<or> t = ''--help''"
    "classify t = Some EvVersion \<longleftrightarrow> t = ''-v'' \<or> t = ''--version''"
    "classify t = Some EvDryRun \<longleftrightarrow> t = ''--dry-run''"
    "classify t = Some EvResetData \<longleftrightarrow> t = ''--reset-data''" for t
    by (auto simp: classify_def Let_def)
  show ?thesis
    unfolding parse_cli_def scan_argv_def Let_def scan_tokens_fields(1-5) c
    by (auto simp: empty_scan_def scan_tokens_fields(6) split: list.splits)
qed

fun switch_text :: "cli_effect \<Rightarrow> string" where
  "switch_text (ForwardSwitch n None) = n"
| "switch_text (ForwardSwitch n (Some v)) = n @ [equals_sign] @ v"
| "switch_text _ = []"

text \<open>A command never opens the window and ends in exactly one exit: 0 for help, version, a dry run and a successful
  reset, 2 for a usage error, 1 for a reset that failed. Only a reset runs the reset. A plain launch exits nowhere and forwards, in order,
  exactly the switches after \<open>--\<close>, each split at its first \<open>=\<close> so that joining the parts gives the token back.\<close>

theorem cli_effects:
  "(let (effects, handled) = run_cli version reset argv; exits = filter (\<lambda>e. \<exists>c. e = Exit c) effects in
     (\<not> handled \<longleftrightarrow> (\<exists>f. parse_cli argv = CmdGui f))
     \<and> (handled \<longrightarrow> (\<exists>c. exits = [Exit c] \<and> last effects = Exit c
          \<and> (c = 2 \<longleftrightarrow> (\<exists>m. parse_cli argv = CmdUsageError m))
          \<and> (c = 1 \<longleftrightarrow> parse_cli argv = CmdResetData \<and> (\<exists>e. reset = Inl e))
          \<and> c \<in> {0, 1, 2}))
     \<and> (RunResetData \<in> set effects \<longleftrightarrow> parse_cli argv = CmdResetData)
     \<and> (\<forall>f. parse_cli argv = CmdGui f \<longrightarrow>
          map switch_text effects
            = filter (\<lambda>t. starts_with t ''-'' \<and> t \<noteq> ''-'' \<and> t \<noteq> ''--'') f
          \<and> (\<forall>e\<in>set effects. \<exists>n v. e = ForwardSwitch n v \<and> CHR ''='' \<notin> set n)))"
proof -
  have tok: "map switch_text (forward_token t)
      = (if starts_with t ''-'' \<and> t \<noteq> ''-'' \<and> t \<noteq> ''--'' then [t] else [])
    \<and> (\<forall>e\<in>set (forward_token t). \<exists>n v. e = ForwardSwitch n v \<and> CHR ''='' \<notin> set n)" for t
  proof (cases "index_of equals_sign t")
    case None
    then have "CHR ''='' \<notin> set t" by simp
    then show ?thesis by (auto simp: forward_token_def option_name_def)
  next
    case (Some i)
    then have i: "i < length t" "t ! i = CHR ''=''" "i = length (takeWhile (\<lambda>c. c \<noteq> CHR ''='') t)"
      using index_of_Some[OF Some] by (auto simp: index_of_def split: if_splits)
    have "t = take i t @ ''='' @ drop (Suc i) t" using id_take_nth_drop[OF i(1)] i(2) by simp
    moreover have "CHR ''='' \<notin> set (take i t)"
      using i(3) by (metis (mono_tags, lifting) set_takeWhileD takeWhile_eq_take)
    ultimately show ?thesis using Some by (auto simp: forward_token_def option_name_def)
  qed
  have toks: "map switch_text
        (concat (map forward_token f)) = filter (\<lambda>t. starts_with t ''-'' \<and> t \<noteq> ''-'' \<and> t \<noteq> ''--'') f
      \<and> (\<forall>e\<in>set (concat (map forward_token f)). \<exists>n v. e = ForwardSwitch n v \<and> CHR ''='' \<notin> set n)" for f
    using tok by (induction f) auto
  have no_reset: "RunResetData \<notin> set (concat (map forward_token f))" for f
    using toks[of f] by blast
  show ?thesis
  proof (cases "parse_cli argv")
    case (CmdGui f)
    then show ?thesis using toks[of f] no_reset[of f] by (simp add: run_cli_def)
  qed (auto simp: run_cli_def split: sum.splits)
qed

theorem cli_effects_witness:
  "fst (run_cli ''1.0'' (Inr ()) [''app'', ''--'', ''--gpu=off'']) \<noteq> []"
proof -
  have p: "parse_cli [''app'', ''--'', ''--gpu=off''] = CmdGui [''--gpu=off'']"
    by (simp add: cli_precedence cli_options_def usage_errors_def classify_def starts_with_def)
  show ?thesis
    using cli_effects[of "''1.0''" "Inr ()" "[''app'', ''--'', ''--gpu=off'']"]
    by (auto simp: p starts_with_def split: prod.splits)
qed

section \<open>A failed start is always reported\<close>

text \<open>A failed start reports on every surface whatever the others do: the log is attempted first, the recovery
  message always goes to stderr and always names the cause, both directories and the reset command, the dialog is
  always shown, and the folder opens exactly when its button is chosen. A quarantine is announced exactly when the
  sidecar answers with two non-empty paths, and a failed query shows no dialog.\<close>

theorem startup_failure_reported:
  "(let calls = report_startup_failure sf paths f now in
     hd calls = MkdirCall (sd_data_dir paths)
     \<and> StderrCall (startup_failure_message f paths) \<in> set calls
     \<and> list_all (\<lambda>part. contains (startup_failure_message f paths) part)
          [describe_startup_failure f, sd_data_dir paths, sd_config_dir paths, RESET_DATA_COMMAND]
     \<and> (\<exists>m d. DialogCall ''error'' ''TuxBooks could not start'' m d [''Open data folder''] \<in> set calls
          \<and> contains d (startup_error_log_path (sd_data_dir paths)))
     \<and> (OpenPathCall (sd_data_dir paths) \<in> set calls \<longleftrightarrow> sf_dialog sf = Some 0)
     \<and> ((\<exists>file text. AppendCall file text \<in> set calls) \<longleftrightarrow> sf_mkdir_ok sf))
   \<and> (let (calls, report) = surface_startup_quarantine sf paths answer in
       ((\<exists>k t m d b. DialogCall k t m d b \<in> set calls) \<longleftrightarrow> report \<noteq> None)
       \<and> (report \<noteq> None \<longleftrightarrow> (\<exists>r a b. answer = Inr (Obj r) \<and> get_prop ''from'' r = Str a \<and> get_prop ''to'' r = Str b
            \<and> a \<noteq> '''' \<and> b \<noteq> '''')))"
proof -
  have c: "contains (a @ s @ b) s" for a s b :: string
  proof (induction a)
    case Nil
    then show ?case using starts_with_append[of s b] by (cases "s @ b") (auto simp del: starts_with_append)
  qed auto
  have c2: "contains (a @ s) s" for a s :: string using c[of a s "[]"] by simp
  have "list_all (\<lambda>part. contains (startup_failure_message f paths) part)
          [describe_startup_failure f, sd_data_dir paths, sd_config_dir paths, RESET_DATA_COMMAND]"
  proof -
    let ?a = "''TuxBooks could not start. Startup failure: ''"
    let ?b = "describe_startup_failure f" let ?c = "sd_data_dir paths" let ?d = "sd_config_dir paths"
    have 1: "startup_failure_message f paths
        = ?a @ ?b @ (''. Data directory: '' @ ?c @ ''. Config directory: '' @ ?d @ ''. To recover, run: '' @ RESET_DATA_COMMAND)"
      "startup_failure_message f paths
        = (?a @ ?b @ ''. Data directory: '') @ ?c @ (''. Config directory: '' @ ?d @ ''. To recover, run: '' @ RESET_DATA_COMMAND)"
      "startup_failure_message f paths
        = (?a @ ?b @ ''. Data directory: '' @ ?c @ ''. Config directory: '') @ ?d @ (''. To recover, run: '' @ RESET_DATA_COMMAND)"
      "startup_failure_message f paths
        = (?a @ ?b @ ''. Data directory: '' @ ?c @ ''. Config directory: '' @ ?d @ ''. To recover, run: '') @ RESET_DATA_COMMAND"
      by (simp_all add: startup_failure_message_def)
    have "contains (startup_failure_message f paths) ?b" by (subst 1(1)) (rule c)
    moreover have "contains (startup_failure_message f paths) ?c" by (subst 1(2)) (rule c)
    moreover have "contains (startup_failure_message f paths) ?d" by (subst 1(3)) (rule c)
    moreover have "contains (startup_failure_message f paths) RESET_DATA_COMMAND" by (subst 1(4)) (rule c2)
    ultimately show ?thesis by simp
  qed
  note parts = this
  define msg where "msg = startup_failure_message f paths"
  let ?log = "startup_error_log_path (sd_data_dir paths)"
  have "show_startup_error_dialog sf paths f
      = DialogCall ''error'' ''TuxBooks could not start'' (''TuxBooks could not start. '' @ describe_startup_failure f @ ''.'')
          (''A startup error log was written to:'' @ [CHR 0x0A] @ ?log) [''Open data folder'']
        # (if sf_dialog sf = Some 0 then [OpenPathCall (sd_data_dir paths)] else [])"
    by (cases "sf_dialog sf") (simp_all add: show_startup_error_dialog_def show_recovery_dialog_def)
  moreover have "contains (''A startup error log was written to:'' @ [CHR 0x0A] @ ?log) ?log"
    using c2[of "''A startup error log was written to:'' @ [CHR 0x0A]" ?log] by (simp only: append_assoc)
  ultimately obtain m d where dlg: "show_startup_error_dialog sf paths f
      = DialogCall ''error'' ''TuxBooks could not start'' m d [''Open data folder'']
        # (if sf_dialog sf = Some 0 then [OpenPathCall (sd_data_dir paths)] else [])"
    and d: "contains d ?log"
    by blast
  have calls: "report_startup_failure sf paths f now
      = MkdirCall (sd_data_dir paths)
        # (if sf_mkdir_ok sf then [AppendCall (startup_error_log_path (sd_data_dir paths)) (now @ '' '' @ msg @ [CHR 0x0A])] else [])
        @ StderrCall msg # show_startup_error_dialog sf paths f"
    by (simp add: report_startup_failure_def write_startup_error_log_def safe_stderr_def msg_def Let_def)
  have q: "(let (calls, report) = surface_startup_quarantine sf paths answer in
       ((\<exists>k t m d b. DialogCall k t m d b \<in> set calls) \<longleftrightarrow> report \<noteq> None)
       \<and> (report \<noteq> None \<longleftrightarrow> (\<exists>r a b. answer = Inr (Obj r) \<and> get_prop ''from'' r = Str a \<and> get_prop ''to'' r = Str b
            \<and> a \<noteq> '''' \<and> b \<noteq> '''')))"
  proof (cases answer)
    case (Inr v)
    have p: "parse_quarantine_report v \<noteq> None \<longleftrightarrow> (\<exists>r a b. v = Obj r \<and> get_prop ''from'' r = Str a
        \<and> get_prop ''to'' r = Str b \<and> a \<noteq> '''' \<and> b \<noteq> '''')"
      by (cases v) (auto simp: parse_quarantine_report_def split: js.splits if_splits)
    show ?thesis
    proof (cases "parse_quarantine_report v")
      case None
      then show ?thesis using p Inr by (auto simp: surface_startup_quarantine_def)
    next
      case (Some report)
      then show ?thesis using p Inr
        by (simp add: surface_startup_quarantine_def safe_stderr_def show_quarantine_dialog_def show_recovery_dialog_def)
     qed
  qed (simp add: surface_startup_quarantine_def safe_stderr_def)
  show ?thesis
    unfolding Let_def[of "report_startup_failure sf paths f now"] calls dlg msg_def[symmetric]
    using parts[folded msg_def] d q by (cases "sf_mkdir_ok sf") auto
qed

section \<open>The GPU fallback across sessions\<close>

text \<open>
  What the module relies on: a stringified marker parses back to an object with the same reason and
  expiry, and an ISO time reads back as itself.
\<close>

definition runtime_ok :: "runtime \<Rightarrow> bool" where
  "runtime_ok rt \<longleftrightarrow>
     (\<forall>ex n el ch t. \<exists>m'. rt_json_parse rt (rt_stringify rt (Obj (gpu_marker rt ex n el ch t))) = Some (Obj m')
        \<and> (\<forall>k\<in>{''reason'', ''expiresAt''}. get_prop k m' = get_prop k (gpu_marker rt ex n el ch t)))
     \<and> (\<forall>t. rt_date_ms rt (rt_iso rt t) = Some t)"

definition gpu_run :: "runtime \<Rightarrow> string \<Rightarrow> string \<Rightarrow> gpu_session \<Rightarrow> gpu_event list \<Rightarrow> gpu_session" where
  "gpu_run rt electron chrome = run (gpu_event_step rt electron chrome)"

definition is_gpu_crash :: "gpu_event \<Rightarrow> bool" where
  "is_gpu_crash e = (gone_type e = ''GPU'' \<and> gone_reason e = ''crashed'')"

lemma marker_read_back:
  assumes rt: "runtime_ok rt" and f: "mf_readable f" "mf_content f = Some (rt_stringify rt (Obj (gpu_marker rt ex n el ch t)))"
  shows "read_gpu_fallback_marker rt f t' \<noteq> None \<longleftrightarrow> t' < t + 7 * 24 * 60 * 60 * 1000"
proof -
  define m where "m = gpu_marker rt ex n el ch t"
  have g: "get_prop ''reason'' m = Str ''repeated-gpu-process-crashes''"
    "get_prop ''expiresAt'' m = Str (rt_iso rt (t + GPU_FALLBACK_EXPIRY_DAYS * 24 * 60 * 60 * 1000))"
    by (simp_all add: m_def gpu_marker_def)
  obtain m' where m': "rt_json_parse rt (rt_stringify rt (Obj m)) = Some (Obj m')"
    "\<forall>k\<in>{''reason'', ''expiresAt''}. get_prop k m' = get_prop k m"
    using rt unfolding runtime_ok_def m_def by blast
  then have "get_prop ''reason'' m' = Str ''repeated-gpu-process-crashes''"
    "get_prop ''expiresAt'' m' = Str (rt_iso rt (t + GPU_FALLBACK_EXPIRY_DAYS * 24 * 60 * 60 * 1000))"
    using g by auto
  moreover have "rt_date_ms rt (rt_iso rt u) = Some u" for u using rt unfolding runtime_ok_def by blast
  ultimately show ?thesis
    using f m'(1) by (auto simp: read_gpu_fallback_marker_def m_def[symmetric] GPU_FALLBACK_EXPIRY_DAYS_def)
qed

lemma gpu_step_active: "gs_active s \<Longrightarrow> gs_active (gpu_event_step rt el ch s e) \<and> gs_file (gpu_event_step rt el ch s e) = gs_file s"
  by (cases e) (simp add: Let_def)

lemma gpu_run_active: "gs_active s \<Longrightarrow> gs_active (gpu_run rt el ch s es) \<and> gs_file (gpu_run rt el ch s es) = gs_file s"
  unfolding gpu_run_def by (induction es arbitrary: s) (use gpu_step_active in \<open>auto\<close>)

lemma gpu_run_props:
  "\<not> gs_active s \<Longrightarrow> gs_crashes (gpu_run rt el ch s es) = gs_crashes s + int (length (filter is_gpu_crash es))
     \<and> \<not> gs_active (gpu_run rt el ch s es)
     \<and> mf_readable (gs_file (gpu_run rt el ch s es)) = mf_readable (gs_file s)
     \<and> mf_writable (gs_file (gpu_run rt el ch s es)) = mf_writable (gs_file s)
     \<and> (gs_crashes s + int (length (filter is_gpu_crash es)) < 2 \<longrightarrow> gs_file (gpu_run rt el ch s es) = gs_file s)"
  unfolding gpu_run_def
proof (induction es arbitrary: s)
  case (Cons e es)
  obtain k r t where e: "e = GpuGone k r t" by (cases e)
  define s' where "s' = gpu_event_step rt el ch s e"
  have s': "\<not> gs_active s'" "gs_crashes s' = gs_crashes s + (if is_gpu_crash e then 1 else 0)"
    "mf_readable (gs_file s') = mf_readable (gs_file s)" "mf_writable (gs_file s') = mf_writable (gs_file s)"
    "gs_crashes s' < 2 \<or> \<not> is_gpu_crash e \<longrightarrow> gs_file s' = gs_file s"
    using Cons.prems by (auto simp: s'_def e is_gpu_crash_def Let_def record_gpu_crashes_def GPU_CRASH_FALLBACK_THRESHOLD_def)
  show ?case using Cons.IH[OF s'(1)] s' by (auto simp: s'_def[symmetric])
qed simp

text \<open>C20. One crash never degrades the next launch and two always do, for a week: after a hardware session whose crashes number
  at least two, with the last at \<open>t\<close>, a later launch runs in software exactly when it starts before \<open>t\<close> plus seven days. A session with no crash or a single one leaves every later launch as the file
  already had it, except that a crash-free one removes the marker; and a software session leaves the file alone, whatever happens in it.\<close>

theorem gpu_fallback_cycle:
  assumes rt: "runtime_ok rt" and f: "mf_readable f" "mf_writable f"
  shows "(let s = gpu_launch rt f now; crashes = length (filter is_gpu_crash es); g = gpu_quit (gpu_run rt el ch s es);
              last_at = gone_at (last (filter is_gpu_crash es)) in
       (gs_active s \<longrightarrow> g = f)
     \<and> (\<not> gs_active s \<and> 2 \<le> crashes \<longrightarrow> gs_active (gpu_launch rt g later) = (later < last_at + 7 * 24 * 60 * 60 * 1000))
     \<and> (\<not> gs_active s \<and> crashes = 1 \<longrightarrow> g = f)
     \<and> (\<not> gs_active s \<and> crashes = 0 \<longrightarrow> mf_content g = None \<and> \<not> gs_active (gpu_launch rt g later)))"
proof -
  define s where "s = gpu_launch rt f now"
  have s: "gs_file s = f" "gs_crashes s = 0" by (simp_all add: s_def gpu_launch_def)
  have two: "\<exists>ex n. mf_content (gs_file (gpu_run rt el ch s es))
      = Some (rt_stringify rt (Obj (gpu_marker rt ex n el ch (gone_at (last (filter is_gpu_crash es))))))"
    if "\<not> gs_active s" "2 \<le> length (filter is_gpu_crash es)"
    using that
  proof (induction es rule: rev_induct)
    case (snoc e es)
    define r where "r = gpu_run rt el ch s es"
    have r: "gs_crashes r = int (length (filter is_gpu_crash es))" "\<not> gs_active r" "mf_writable (gs_file r)"
      using gpu_run_props[OF snoc.prems(1), of rt el ch es] s f by (simp_all add: r_def)
    have st: "gpu_run rt el ch s (es @ [e]) = gpu_event_step rt el ch r e"
      by (simp add: gpu_run_def r_def run_append)
    obtain k z t where e: "e = GpuGone k z t" by (cases e)
    show ?case
    proof (cases "is_gpu_crash e")
      case True
      then have "k = ''GPU''" "z = ''crashed''" by (simp_all add: e is_gpu_crash_def)
      then show ?thesis using snoc.prems(2) r st e True
        by (auto simp: record_gpu_crashes_def GPU_CRASH_FALLBACK_THRESHOLD_def Let_def)
    next
      case False
      then have "gs_file (gpu_event_step rt el ch r e) = gs_file r"
        using e by (auto simp: is_gpu_crash_def Let_def)
      then show ?thesis using False snoc.IH[OF snoc.prems(1)] snoc.prems(2) st by (simp add: r_def)
    qed
  qed simp
  show ?thesis
  proof (cases "gs_active s")
    case True
    then show ?thesis
      using gpu_run_active[OF True, of rt el ch es] s by (simp add: s_def[symmetric] Let_def gpu_quit_def)
  next
    case False
    define e where "e = gpu_run rt el ch s es"
    note p = gpu_run_props[OF False, of rt el ch es, folded e_def]
    have rd: "mf_readable (gs_file e)" "mf_writable (gs_file e)" using p s f by simp_all
    have later: "gs_active (gpu_launch rt (gs_file e) later) = (later < gone_at (last (filter is_gpu_crash es)) + 7 * 24 * 60 * 60 * 1000)"
      if many: "2 \<le> length (filter is_gpu_crash es)"
    proof -
      obtain ex n where c: "mf_content (gs_file e)
          = Some (rt_stringify rt (Obj (gpu_marker rt ex n el ch (gone_at (last (filter is_gpu_crash es))))))"
        using two[OF False many] by (auto simp: e_def)
      show ?thesis using marker_read_back[OF rt rd(1) c, of later] by (simp add: gpu_launch_def)
    qed
    have keep: "gs_file e = f" if "length (filter is_gpu_crash es) < 2" using p that s by simp
    have n: "read_gpu_fallback_marker rt h later = None" if "mf_content h = None" for h
      using that by (simp add: read_gpu_fallback_marker_def)
    have q: "gpu_quit e = (if 0 < length (filter is_gpu_crash es) then gs_file e else f\<lparr>mf_content := None\<rparr>)"
    proof (cases "length (filter is_gpu_crash es) = 0")
      case True
      then show ?thesis using p s f keep False
        by (cases f) (auto simp: gpu_quit_def clear_gpu_fallback_marker_def)
    qed (use p s in \<open>simp add: gpu_quit_def\<close>)
    show ?thesis unfolding Let_def s_def[symmetric] e_def[symmetric] q
      using False later keep by (auto simp: gpu_launch_def n)
  qed
qed

definition demo_runtime :: runtime where
  "demo_runtime = \<lparr>rt_json_parse = (\<lambda>s. if starts_with s ''{'' then
        Some (Obj [(''reason'', Str ''repeated-gpu-process-crashes''), (''expiresAt'', Str (drop 1 s))]) else None),
     rt_stringify = (\<lambda>v. case v of Obj m \<Rightarrow> (case get_prop ''expiresAt'' m of Str s \<Rightarrow> ''{'' @ s | _ \<Rightarrow> '''') | _ \<Rightarrow> ''''),
     rt_date_ms = (\<lambda>s. Some (if starts_with s ''y'' then - int (length s) else int (length s))),
     rt_iso = (\<lambda>t. replicate (nat \<bar>t\<bar>) (if t < 0 then CHR ''y'' else CHR ''x'')),
     rt_to_number = (\<lambda>v. case v of Num n \<Rightarrow> n | _ \<Rightarrow> NaN)\<rparr>"

theorem gpu_fallback_cycle_witness:
  "gs_active (gpu_launch demo_runtime
      (gpu_quit (gpu_run demo_runtime ''e'' ''c'' (gpu_launch demo_runtime \<lparr>mf_content = None, mf_readable = True, mf_writable = True\<rparr> 0)
         [GpuGone ''GPU'' ''crashed'' 5, GpuGone ''Utility'' ''crashed'' 6, GpuGone ''GPU'' ''crashed'' 7])) 1000)"
proof -
  have ok: "runtime_ok demo_runtime"
    unfolding runtime_ok_def
  proof (intro conjI allI)
    show "rt_date_ms demo_runtime (rt_iso demo_runtime t) = Some t" for t
    proof (cases "t < 0")
      case True
      then obtain n where "nat \<bar>t\<bar> = Suc n" by (metis abs_of_neg neg_0_less_iff_less not0_implies_Suc zero_less_nat_eq less_irrefl)
      then show ?thesis using True by (simp add: demo_runtime_def starts_with_def)
    next
      case False
      then show ?thesis by (cases "nat t") (auto simp: demo_runtime_def starts_with_def)
    qed
  qed (simp add: demo_runtime_def gpu_marker_def starts_with_def)
  show ?thesis
    using gpu_fallback_cycle[OF ok, of "\<lparr>mf_content = None, mf_readable = True, mf_writable = True\<rparr>" 0
        "[GpuGone ''GPU'' ''crashed'' 5, GpuGone ''Utility'' ''crashed'' 6, GpuGone ''GPU'' ''crashed'' 7]" "''e''" "''c''" 1000]
    by (simp add: Let_def is_gpu_crash_def) (simp add: gpu_launch_def read_gpu_fallback_marker_def)
qed

section \<open>The console tail is the last messages\<close>

fun since_replay :: "console_details list \<Rightarrow> console_event list \<Rightarrow> console_details list" where
  "since_replay ds [] = ds"
| "since_replay ds (ConsoleMessage d # es) = since_replay (ds @ [d]) es"
| "since_replay ds (RendererGone # es) = since_replay [] es"

definition last_n :: "nat \<Rightarrow> 'a list \<Rightarrow> 'a list" where
  "last_n n xs = drop (length xs - n) xs"

lemma last_n_snoc: "0 < n \<Longrightarrow> last_n n (xs @ [x]) = (if n < length (last_n n xs @ [x]) then drop 1 (last_n n xs @ [x]) else last_n n xs @ [x])"
  by (auto simp: last_n_def Suc_diff_le)

lemma last_n_last_n: "m \<le> n \<Longrightarrow> last_n m (last_n n xs) = last_n m xs"
proof (cases "n \<le> length xs")
  case True
  assume "m \<le> n"
  then have "length xs - (length xs - n + m) + (length xs - n) = length xs - m" using True by arith
  then show ?thesis using True \<open>m \<le> n\<close> by (simp add: last_n_def)
qed (simp add: last_n_def)

text \<open>However long the session, the buffer is the last 200 messages since the last renderer death, and the replay after a
  death returns the last 40 of them, oldest first, and empties it. Only error messages that are not the benign
  resize notice are echoed live, and every message is buffered, echoed or not.\<close>

theorem console_tail_exact:
  "(let buffer = run console_step [] es; logged = map console_line (since_replay [] es) in
     buffer = last_n 200 logged
     \<and> snd (snd (replay_renderer_console_tail buffer)) = last_n 40 logged
     \<and> fst (replay_renderer_console_tail buffer) = []
     \<and> last (fst (record_renderer_console buffer d)) = console_line d
     \<and> snd (record_renderer_console buffer d)
         = (if cd_level d = ''error''
               \<and> \<not> contains (cd_message d) ''ResizeObserver loop completed with undelivered notifications''
            then [console_line d] else []))"
proof -
  have "run console_step (last_n 200 (map console_line ds)) es = last_n 200 (map console_line (since_replay ds es))" for ds
  proof (induction es arbitrary: ds)
    case (Cons e es)
    show ?case
    proof (cases e)
      case (ConsoleMessage d)
      have "console_step (last_n 200 (map console_line ds)) e = last_n 200 (map console_line (ds @ [d]))"
        using last_n_snoc[of 200 "map console_line ds" "console_line d"]
        by (simp add: ConsoleMessage record_renderer_console_def RENDERER_CONSOLE_LIMIT_def Let_def)
      then show ?thesis using Cons.IH[of "ds @ [d]"] ConsoleMessage by simp
    next
      case RendererGone
      then show ?thesis using Cons.IH[of "[]"]
        by (simp add: replay_renderer_console_tail_def last_n_def Let_def)
    qed
  qed simp
  from this[of "[]"] have b: "run console_step [] es = last_n 200 (map console_line (since_replay [] es))"
    by (simp add: last_n_def)
  have t: "snd (snd (replay_renderer_console_tail buf)) = last_n 40 buf" "fst (replay_renderer_console_tail buf) = []" for buf
    by (simp_all add: replay_renderer_console_tail_def last_n_def RENDERER_CONSOLE_TAIL_def Let_def)
  show ?thesis
    unfolding Let_def b t last_n_last_n[of 40 200, simplified]
    by (simp add: record_renderer_console_def is_echoed_live_def is_benign_renderer_message_def
        BENIGN_RENDERER_MESSAGES_def RENDERER_CONSOLE_LIMIT_def Let_def)
qed

end
