(* ===== verification/Storage.thy ===== *)
theory Storage
  imports Startup
begin

text \<open>
  \<open>electron/main/storageSizing.ts\<close>, \<open>clearCache.ts\<close> and \<open>resetData.ts\<close>: the bounded walk that sizes a
  directory, the storage report, and the two operations that delete, the cache clear and
  \<open>--reset-data\<close>. The file system is a world of any type with the operations the code calls on
  it; the operations that change it return the new world or \<open>None\<close> when they throw. Every deletion and
  rename is recorded with the world it was made in, so that a property can say what held at that moment.
\<close>

section \<open>The file system\<close>

datatype node = FileNode int | DirNode | LinkNode | OtherNode

record 'w fs_ops =
  fo_lstat :: "'w \<Rightarrow> string \<Rightarrow> node option"
  fo_readdir :: "'w \<Rightarrow> string \<Rightarrow> string list option"
  fo_realpath :: "'w \<Rightarrow> string \<Rightarrow> string option"
  fo_exists :: "'w \<Rightarrow> string \<Rightarrow> bool"
  fo_rm :: "'w \<Rightarrow> string \<Rightarrow> 'w option"
  fo_rename :: "'w \<Rightarrow> string \<Rightarrow> string \<Rightarrow> 'w option"

section \<open>Sizes\<close>

definition MAX_WALK_ENTRIES :: nat where "MAX_WALK_ENTRIES = 100000"
definition CATALOG_DB_FILENAME :: string where "CATALOG_DB_FILENAME = ''tuxbooks.db''"
definition COVERS_DIRNAME :: string where "COVERS_DIRNAME = ''covers''"

definition BROWSER_CACHE_DIRS :: "string list" where
  "BROWSER_CACHE_DIRS = [''Cache'', ''Code Cache'', ''GPUCache'', ''DawnGraphiteCache'', ''DawnWebGPUCache'',
     ''GrShaderCache'', ''ShaderCache'']"

definition file_bytes :: "'w fs_ops \<Rightarrow> 'w \<Rightarrow> string \<Rightarrow> int" where
  "file_bytes fs w p = (case fo_lstat fs w p of Some (FileNode n) \<Rightarrow> n | _ \<Rightarrow> 0)"

text \<open>
  The inner loop over the names of one directory: the bytes, the visit count and the stack so far, and
  whether the cap stopped the walk. The stack grows at its end, as \<open>push\<close> and \<open>pop\<close> have it.
\<close>

fun visit_names ::
    "'w fs_ops \<Rightarrow> 'w \<Rightarrow> nat \<Rightarrow> string \<Rightarrow> string list \<Rightarrow> int \<Rightarrow> nat \<Rightarrow> string list \<Rightarrow> (int \<times> nat \<times> string list) \<times> bool" where
  "visit_names fs w cap current [] tot visited stack = ((tot, visited, stack), False)"
| "visit_names fs w cap current (name # names) tot visited stack =
     (if cap \<le> visited then ((tot, visited, stack), True)
      else let visited' = visited + 1; full = path_join current name in
        (case fo_lstat fs w full of
           Some DirNode \<Rightarrow> visit_names fs w cap current names tot visited' (stack @ [full])
         | Some (FileNode n) \<Rightarrow> visit_names fs w cap current names (tot + n) visited' stack
         | _ \<Rightarrow> visit_names fs w cap current names tot visited' stack))"

lemma visit_names_measure:
  "visit_names fs w cap current names tot visited stack = ((tot', visited', stack'), False) \<Longrightarrow>
     (cap - visited') + length stack' \<le> (cap - visited) + length stack"
proof (induction names arbitrary: tot visited stack)
  case (Cons name names)
  show ?case
  proof (cases "cap \<le> visited")
    case True
    then show ?thesis using Cons.prems by auto
  next
    case False
    then have "cap - visited = Suc (cap - Suc visited)" by simp
    then show ?thesis
      using Cons.prems False Cons.IH[of tot "Suc visited" "stack @ [path_join current name]"]
        Cons.IH[of _ "Suc visited" stack]
      by (fastforce simp: Let_def split: option.splits node.splits)
  qed
qed simp

function directory_walk :: "'w fs_ops \<Rightarrow> 'w \<Rightarrow> nat \<Rightarrow> int \<Rightarrow> nat \<Rightarrow> string list \<Rightarrow> int" where
  "directory_walk fs w cap tot visited stack =
     (if stack = [] then tot
      else let current = last stack; rest = butlast stack in
        (case fo_readdir fs w current of
           None \<Rightarrow> directory_walk fs w cap (tot + file_bytes fs w current) visited rest
         | Some names \<Rightarrow>
             (case visit_names fs w cap current names tot visited rest of
                ((tot', visited', stack'), stopped) \<Rightarrow>
                  if stopped then tot' else directory_walk fs w cap tot' visited' stack')))"
  by pat_completeness auto
termination
proof (relation "measure (\<lambda>(fs, w, cap, tot, visited, stack). (cap - visited) + length stack)", goal_cases)
  case (3 fs w cap tot visited stack current rest names x stopped t y v st)
  from 3 have "visit_names fs w cap current names tot visited rest = ((t, v, st), False)" by simp
  from visit_names_measure[OF this] show ?case using 3(1,3) by (cases stack rule: rev_cases) auto
qed auto

declare directory_walk.simps [simp del]

definition directory_bytes :: "'w fs_ops \<Rightarrow> 'w \<Rightarrow> string \<Rightarrow> int" where
  "directory_bytes fs w top_dir = directory_walk fs w MAX_WALK_ENTRIES 0 0 [top_dir]"
definition catalog_bytes :: "'w fs_ops \<Rightarrow> 'w \<Rightarrow> string \<Rightarrow> int" where
  "catalog_bytes fs w data_dir =
     (let database = path_join data_dir CATALOG_DB_FILENAME in
      file_bytes fs w database + file_bytes fs w (database @ ''-wal'') + file_bytes fs w (database @ ''-shm''))"

definition browser_cache_bytes :: "'w fs_ops \<Rightarrow> 'w \<Rightarrow> string \<Rightarrow> int" where
  "browser_cache_bytes fs w config_dir =
     foldl (\<lambda>tot name. tot + directory_bytes fs w (path_join config_dir name)) 0 BROWSER_CACHE_DIRS"

section \<open>The storage report\<close>

datatype entry_kind = Derived | OnlyCopy | Settings

record storage_entry =
  se_id :: string
  se_label :: string
  se_path :: string
  se_size :: int
  se_kind :: entry_kind

record storage_root =
  sr_id :: string
  sr_label :: string
  sr_path :: string
  sr_size :: int
  sr_entries :: "storage_entry list"

record location_stat =
  ln_id :: int
  ln_path :: string
  ln_added_at :: string
  ln_book_count :: int
  ln_bytes :: int
  ln_missing :: bool
  ln_status :: string

record catalog_counts =
  cc_books :: int
  cc_authors :: int
  cc_collections :: int
  cc_annotations :: int
  cc_progress :: int

record library_stats =
  ls_locations :: "location_stat list"
  ls_book_bytes :: int
  ls_catalog :: catalog_counts

record storage_report =
  rp_roots :: "storage_root list"
  rp_app_data :: int
  rp_cache :: int
  rp_locations :: "location_stat list"
  rp_book_bytes :: int
  rp_catalog :: catalog_counts

definition build_storage_report :: "'w fs_ops \<Rightarrow> 'w \<Rightarrow> storage_dirs \<Rightarrow> library_stats \<Rightarrow> storage_report" where
  "build_storage_report fs w dirs library =
     (let data_dir = sd_data_dir dirs; config_dir = sd_config_dir dirs;
          data_root = directory_bytes fs w data_dir;
          config_root = directory_bytes fs w config_dir;
          cache_dirs = browser_cache_bytes fs w config_dir;
          gpu_marker_bytes = file_bytes fs w (path_join data_dir GPU_FALLBACK_MARKER) in
      \<lparr>rp_roots =
         [\<lparr>sr_id = ''app-data'', sr_label = ''App data'', sr_path = data_dir, sr_size = data_root, sr_entries =
             [\<lparr>se_id = ''catalog'', se_label = ''Catalog database'', se_path = path_join data_dir CATALOG_DB_FILENAME,
                se_size = catalog_bytes fs w data_dir, se_kind = OnlyCopy\<rparr>,
              \<lparr>se_id = ''covers'', se_label = ''Cover cache'', se_path = path_join data_dir COVERS_DIRNAME,
                se_size = directory_bytes fs w (path_join data_dir COVERS_DIRNAME), se_kind = OnlyCopy\<rparr>,
              \<lparr>se_id = ''gpu-fallback'', se_label = ''GPU fallback marker'', se_path = path_join data_dir GPU_FALLBACK_MARKER,
                se_size = gpu_marker_bytes, se_kind = Derived\<rparr>]\<rparr>,
          \<lparr>sr_id = ''app-config'', sr_label = ''App settings and caches'', sr_path = config_dir, sr_size = config_root, sr_entries =
             [\<lparr>se_id = ''browser-caches'', se_label = ''Browser caches'', se_path = config_dir,
                se_size = cache_dirs, se_kind = Derived\<rparr>,
              \<lparr>se_id = ''settings'', se_label = ''Settings and other app files'', se_path = config_dir,
                se_size = max 0 (config_root - cache_dirs), se_kind = Settings\<rparr>]\<rparr>],
       rp_app_data = data_root + config_root,
       rp_cache = cache_dirs + gpu_marker_bytes,
       rp_locations = ls_locations library,
       rp_book_bytes = ls_book_bytes library,
       rp_catalog = ls_catalog library\<rparr>)"

section \<open>Clearing the caches\<close>

text \<open>A call that changes the file system, recorded with the world it is made in.\<close>

datatype fs_call = RmCall string | RenameCall string string

definition clear_targets :: "storage_dirs \<Rightarrow> (string \<times> string) list" where
  "clear_targets dirs =
     map (\<lambda>name. (sd_config_dir dirs, name)) BROWSER_CACHE_DIRS @ [(sd_data_dir dirs, GPU_FALLBACK_MARKER)]"

text \<open>\<open>fo_rm\<close> and \<open>fo_rename\<close> returning \<open>None\<close> throw and leave the world as it is.\<close>

fun clear_loop ::
    "'w fs_ops \<Rightarrow> string \<Rightarrow> (string \<times> string) list \<Rightarrow> 'w \<Rightarrow> int \<Rightarrow> ('w \<times> fs_call) list \<Rightarrow> 'w \<times> int \<times> ('w \<times> fs_call) list" where
  "clear_loop fs cwd [] w freed calls = (w, freed, calls)"
| "clear_loop fs cwd ((top_dir, name) # targets) w freed calls =
     (let target = path_join top_dir name in
      if \<not> is_contained cwd (fo_realpath fs w) top_dir target then clear_loop fs cwd targets w freed calls
      else let bytes = directory_bytes fs w target; calls' = calls @ [(w, RmCall target)] in
        (case fo_rm fs w target of
           Some w' \<Rightarrow> clear_loop fs cwd targets w' (freed + bytes) calls'
         | None \<Rightarrow> clear_loop fs cwd targets w freed calls'))"

definition clear_app_cache :: "'w fs_ops \<Rightarrow> string \<Rightarrow> storage_dirs \<Rightarrow> 'w \<Rightarrow> 'w \<times> int \<times> ('w \<times> fs_call) list" where
  "clear_app_cache fs cwd dirs w = clear_loop fs cwd (clear_targets dirs) w 0 []"

section \<open>Resetting the application data\<close>

definition LAUNCH_COMMAND :: string where "LAUNCH_COMMAND = ''tuxbooks''"

record reset_report =
  rr_dirs :: storage_dirs
  rr_removed :: "string list"
  rr_quarantined :: "(string \<times> string) option"
  rr_freed :: int

definition EMPTY_LIBRARY :: library_stats where
  "EMPTY_LIBRARY = \<lparr>ls_locations = [], ls_book_bytes = 0,
     ls_catalog = \<lparr>cc_books = 0, cc_authors = 0, cc_collections = 0, cc_annotations = 0, cc_progress = 0\<rparr>\<rparr>"

text \<open>The clock gives \<open>now.toISOString()\<close> and \<open>now.getTime()\<close>.\<close>

record clock =
  ck_iso :: string
  ck_ms :: int

definition quarantine_stamp :: "clock \<Rightarrow> string" where
  "quarantine_stamp now = filter (\<lambda>c. c \<noteq> CHR ''-'' \<and> c \<noteq> CHR '':'') (ck_iso now)"

definition quarantine_candidate :: "string \<Rightarrow> string \<Rightarrow> nat \<Rightarrow> string" where
  "quarantine_candidate database stamp attempt =
     (if attempt = 0 then database @ ''.corrupt-'' @ stamp
      else database @ ''.corrupt-'' @ stamp @ ''-'' @ show_nat attempt)"

definition quarantine_target :: "'w fs_ops \<Rightarrow> 'w \<Rightarrow> string \<Rightarrow> clock \<Rightarrow> string" where
  "quarantine_target fs w database now =
     (let stamp = quarantine_stamp now in
      case find (\<lambda>candidate. \<not> fo_exists fs w candidate) (map (quarantine_candidate database stamp) [0..<1000]) of
        Some candidate \<Rightarrow> candidate
      | None \<Rightarrow> database @ ''.corrupt-'' @ stamp @ ''-'' @ show_int (ck_ms now))"

fun move_sidecars ::
    "'w fs_ops \<Rightarrow> string \<Rightarrow> string \<Rightarrow> string list \<Rightarrow> 'w \<Rightarrow> ('w \<times> fs_call) list \<Rightarrow> 'w \<times> ('w \<times> fs_call) list" where
  "move_sidecars fs database target [] w calls = (w, calls)"
| "move_sidecars fs database target (ext # exts) w calls =
     (let side = database @ ext in
      if \<not> fo_exists fs w side then move_sidecars fs database target exts w calls
      else let calls' = calls @ [(w, RenameCall side (target @ ext))] in
        (case fo_rename fs w side (target @ ext) of
           Some w' \<Rightarrow> move_sidecars fs database target exts w' calls'
         | None \<Rightarrow> move_sidecars fs database target exts w calls'))"

text \<open>\<open>Inl\<close>: the rename of the database itself throws, and with it the whole reset.\<close>

definition quarantine_database ::
    "'w fs_ops \<Rightarrow> string \<Rightarrow> clock \<Rightarrow> 'w \<Rightarrow> ('w \<times> fs_call) list \<Rightarrow>
     'w \<times> ('w \<times> fs_call) list \<times> (string + (string \<times> string) option)" where
  "quarantine_database fs data_dir now w calls =
     (let database = path_join data_dir CATALOG_DB_FILENAME in
      if \<not> fo_exists fs w database then (w, calls, Inr None)
      else let target = quarantine_target fs w database now; calls' = calls @ [(w, RenameCall database target)] in
        (case fo_rename fs w database target of
           None \<Rightarrow> (w, calls', Inl ''rename failed'')
         | Some w' \<Rightarrow>
             (case move_sidecars fs database target [''-wal'', ''-shm''] w' calls' of
                (w'', calls'') \<Rightarrow> (w'', calls'', Inr (Some (database, target))))))"

definition remove_contained ::
    "'w fs_ops \<Rightarrow> string \<Rightarrow> string \<Rightarrow> string \<Rightarrow> 'w \<Rightarrow> ('w \<times> fs_call) list \<Rightarrow>
     'w \<times> ('w \<times> fs_call) list \<times> (string \<times> int) option" where
  "remove_contained fs cwd top_dir target w calls =
     (if \<not> is_contained cwd (fo_realpath fs w) top_dir target then (w, calls, None)
      else let bytes = directory_bytes fs w target; calls' = calls @ [(w, RmCall target)] in
        (case fo_rm fs w target of
           Some w' \<Rightarrow> (w', calls', Some (target, bytes))
         | None \<Rightarrow> (w, calls', None)))"

fun remove_settings ::
    "'w fs_ops \<Rightarrow> string \<Rightarrow> string \<Rightarrow> string list \<Rightarrow> 'w \<Rightarrow> ('w \<times> fs_call) list \<Rightarrow> string list \<Rightarrow> int \<Rightarrow>
     'w \<times> ('w \<times> fs_call) list \<times> string list \<times> int" where
  "remove_settings fs cwd config_dir [] w calls removed freed = (w, calls, removed, freed)"
| "remove_settings fs cwd config_dir (name # names) w calls removed freed =
     (if name \<in> set BROWSER_CACHE_DIRS then remove_settings fs cwd config_dir names w calls removed freed
      else (case remove_contained fs cwd config_dir (path_join config_dir name) w calls of
              (w', calls', Some (p, bytes)) \<Rightarrow>
                remove_settings fs cwd config_dir names w' calls' (removed @ [p]) (freed + bytes)
            | (w', calls', None) \<Rightarrow> remove_settings fs cwd config_dir names w' calls' removed freed))"

definition reset_app_data ::
    "'w fs_ops \<Rightarrow> string \<Rightarrow> storage_dirs \<Rightarrow> clock \<Rightarrow> 'w \<Rightarrow>
     'w \<times> ('w \<times> fs_call) list \<times> string list \<times> (string + reset_report)" where
  "reset_app_data fs cwd dirs now w =
     (case clear_app_cache fs cwd dirs w of (w1, freed1, calls1) \<Rightarrow>
      let covers = path_join (sd_data_dir dirs) COVERS_DIRNAME in
      case remove_contained fs cwd (sd_data_dir dirs) covers w1 calls1 of (w2, calls2, covers_result) \<Rightarrow>
      let removed2 = (case covers_result of Some (p, _) \<Rightarrow> [p] | None \<Rightarrow> []);
          freed2 = (case covers_result of Some (_, bytes) \<Rightarrow> freed1 + bytes | None \<Rightarrow> freed1);
          errors = (if covers_result = None \<and> fo_exists fs w2 covers
                    then [''[reset] refused to remove '' @ covers @ '': it resolves outside the data root''] else []) in
      case quarantine_database fs (sd_data_dir dirs) now w2 calls2 of (w3, calls3, quarantined) \<Rightarrow>
        (case quarantined of
           Inl e \<Rightarrow> (w3, calls3, errors, Inl e)
         | Inr q \<Rightarrow>
             let names = (case fo_readdir fs w3 (sd_config_dir dirs) of Some ns \<Rightarrow> ns | None \<Rightarrow> []) in
             case remove_settings fs cwd (sd_config_dir dirs) names w3 calls3 removed2 freed2 of
               (w4, calls4, removed, freed) \<Rightarrow>
                 (w4, calls4, errors, Inr \<lparr>rr_dirs = dirs, rr_removed = removed, rr_quarantined = q, rr_freed = freed\<rparr>)))"

definition bytes_text :: "int \<Rightarrow> string" where
  "bytes_text n = show_int n @ '' bytes''"

abbreviation nl :: string where
  "nl \<equiv> [CHR 0x0A]"

definition format_dry_run :: "storage_report \<Rightarrow> string" where
  "format_dry_run report =
     join_with nl
       ([''TuxBooks dry run: no files were changed.'']
        @ concat (map (\<lambda>r. (sr_label r @ '': '' @ sr_path r @ '' ('' @ bytes_text (sr_size r) @ '')'')
              # map (\<lambda>e. ''  '' @ se_label e @ '': '' @ se_path e @ '' ('' @ bytes_text (se_size e) @ '')'') (sr_entries r))
            (rp_roots report))
        @ [''To clear app data, run: '' @ RESET_DATA_COMMAND])"

definition format_reset_report :: "reset_report \<Rightarrow> string" where
  "format_reset_report report =
     join_with nl
       ([''TuxBooks reset complete. No book files were touched.'',
         ''App data: '' @ sd_data_dir (rr_dirs report),
         ''App settings and caches: '' @ sd_config_dir (rr_dirs report)]
        @ (case rr_quarantined report of
             None \<Rightarrow> [] | Some (a, b) \<Rightarrow> [''Quarantined database: '' @ a @ '' -> '' @ b])
        @ [''Removed '' @ show_nat (length (rr_removed report)) @ '' app data entries ('' @ bytes_text (rr_freed report) @ '' freed).'',
           ''To start TuxBooks again, run: '' @ LAUNCH_COMMAND])"

text \<open>The two commands: the lines written to stdout.\<close>

definition run_dry_run :: "'w fs_ops \<Rightarrow> storage_dirs \<Rightarrow> 'w \<Rightarrow> string list" where
  "run_dry_run fs dirs w = [format_dry_run (build_storage_report fs w dirs EMPTY_LIBRARY)]"

definition run_reset_data ::
    "'w fs_ops \<Rightarrow> string \<Rightarrow> storage_dirs \<Rightarrow> clock \<Rightarrow> 'w \<Rightarrow>
     'w \<times> ('w \<times> fs_call) list \<times> string list \<times> (string + reset_report)" where
  "run_reset_data fs cwd dirs now w =
     (case reset_app_data fs cwd dirs now w of
        (w', calls, errors, Inl e) \<Rightarrow> (w', calls, [], Inl e)
      | (w', calls, errors, Inr report) \<Rightarrow> (w', calls, [format_reset_report report], Inr report))"

section \<open>The walk computes the size of the tree\<close>

text \<open>
  A directory tree as the file system shows it below a path: files with their sizes, readable directories,
  directories that cannot be read, links, other nodes, and names that vanish before they are inspected.
\<close>

datatype ftree = TFile int | TDir "(string \<times> ftree) list" | TDenied | TLink | TOther | TGone

fun tree_bytes :: "ftree \<Rightarrow> int" where
  "tree_bytes (TFile n) = n"
| "tree_bytes (TDir cs) = sum_list (map (\<lambda>c. tree_bytes (snd c)) cs)"
| "tree_bytes _ = 0"

fun tree_entries :: "ftree \<Rightarrow> nat" where
  "tree_entries (TDir cs) = sum_list (map (\<lambda>c. Suc (tree_entries (snd c))) cs)"
| "tree_entries _ = 0"

fun displays :: "'w fs_ops \<Rightarrow> 'w \<Rightarrow> string \<Rightarrow> ftree \<Rightarrow> bool" where
  "displays fs w p (TFile n) = (fo_lstat fs w p = Some (FileNode n) \<and> 0 \<le> n)"
| "displays fs w p (TDir cs) =
     (fo_lstat fs w p = Some DirNode \<and> fo_readdir fs w p = Some (map fst cs)
      \<and> list_all (\<lambda>c. displays fs w (path_join p (fst c)) (snd c)) cs)"
| "displays fs w p TDenied = (fo_lstat fs w p = Some DirNode \<and> fo_readdir fs w p = None)"
| "displays fs w p TLink = (fo_lstat fs w p = Some LinkNode)"
| "displays fs w p TOther = (fo_lstat fs w p = Some OtherNode)"
| "displays fs w p TGone = (fo_lstat fs w p = None)"

definition is_tdir :: "ftree \<Rightarrow> bool" where
  "is_tdir t = (case t of TDir _ \<Rightarrow> True | TDenied \<Rightarrow> True | _ \<Rightarrow> False)"

definition pending_bytes :: "ftree list \<Rightarrow> int" where
  "pending_bytes ts = sum_list (map tree_bytes ts)"

definition pending_entries :: "ftree list \<Rightarrow> nat" where
  "pending_entries ts = sum_list (map tree_entries ts)"

lemma displays_nonneg: "displays fs w p t \<Longrightarrow> 0 \<le> tree_bytes t"
proof (induction fs w p t rule: displays.induct)
  case (2 fs w p cs)
  then show ?case by (auto simp: list_all_iff intro!: sum_list_nonneg)
qed auto

lemma visit_names_shown:
  assumes "list_all (\<lambda>c. displays fs w (path_join p (fst c)) (snd c)) cs"
    and "visited + length cs \<le> cap"
  shows "\<exists>ds. list_all2 (displays fs w) (map fst ds) (map snd ds) \<and> list_all (is_tdir \<circ> snd) ds
     \<and> visit_names fs w cap p (map fst cs) tot visited stack
         = ((tot + sum_list (map (\<lambda>c. if is_tdir (snd c) then 0 else tree_bytes (snd c)) cs), visited + length cs, stack @ map fst ds), False)
     \<and> pending_bytes (map snd ds) = sum_list (map (\<lambda>c. if is_tdir (snd c) then tree_bytes (snd c) else 0) cs)
     \<and> pending_entries (map snd ds) = sum_list (map (\<lambda>c. tree_entries (snd c)) cs)"
  using assms
proof (induction cs arbitrary: tot visited stack)
  case Nil
  then show ?case by (intro exI[of _ "[]"]) (simp add: pending_bytes_def pending_entries_def)
next
  case (Cons c cs)
  obtain n t where c: "c = (n, t)" by (cases c)
  define full where "full = path_join p n"
  define tot' where "tot' = (if is_tdir t then tot else tot + tree_bytes t)"
  define stack' where "stack' = (if is_tdir t then stack @ [full] else stack)"
  have t: "displays fs w full t" using Cons.prems(1) c by (simp add: full_def)
  have step: "visit_names fs w cap p (map fst (c # cs)) tot visited stack
      = visit_names fs w cap p (map fst cs) tot' (Suc visited) stack'"
    using t Cons.prems(2) c by (cases t) (simp_all add: full_def[symmetric] tot'_def stack'_def is_tdir_def Let_def)
  obtain ds where ds: "list_all2 (displays fs w) (map fst ds) (map snd ds)" "list_all (is_tdir \<circ> snd) ds"
    "visit_names fs w cap p (map fst cs) tot' (Suc visited) stack'
         = ((tot' + sum_list (map (\<lambda>c. if is_tdir (snd c) then 0 else tree_bytes (snd c)) cs), Suc visited + length cs, stack' @ map fst ds), False)"
    "pending_bytes (map snd ds) = sum_list (map (\<lambda>c. if is_tdir (snd c) then tree_bytes (snd c) else 0) cs)"
    "pending_entries (map snd ds) = sum_list (map (\<lambda>c. tree_entries (snd c)) cs)"
  proof -
    have "list_all (\<lambda>c. displays fs w (path_join p (fst c)) (snd c)) cs" "Suc visited + length cs \<le> cap"
      using Cons.prems by simp_all
    from Cons.IH[OF this, of tot' stack'] show ?thesis using that by blast
  qed
  have leaf: "\<not> is_tdir t \<Longrightarrow> tree_entries t = 0" by (cases t) (simp_all add: is_tdir_def)
  show ?case
    unfolding step ds(3)
    using ds t leaf c
    by (intro exI[of _ "(if is_tdir t then [(full, t)] else []) @ ds"])
      (auto simp: comp_def tot'_def stack'_def pending_bytes_def pending_entries_def)
qed

lemma walk_exact:
  "list_all2 (displays fs w) stack ts \<Longrightarrow> list_all is_tdir ts \<Longrightarrow> visited + pending_entries ts \<le> cap \<Longrightarrow>
     directory_walk fs w cap tot visited stack = tot + pending_bytes ts"
proof (induction fs w cap tot visited stack arbitrary: ts rule: directory_walk.induct)
  case (1 fs w cap tot visited stack)
  show ?case
  proof (cases "stack = []")
    case True
    then show ?thesis using 1 by (simp add: directory_walk.simps pending_bytes_def)
  next
    case False
    then obtain rest p rts t where st: "stack = rest @ [p]" "ts = rts @ [t]"
      using 1(3) by (metis append_butlast_last_id list_all2_Nil2)
    then have "length rest = length rts" using list_all2_lengthD[OF 1(3)] by simp
    then have r: "list_all2 (displays fs w) rest rts" "displays fs w p t"
      using 1(3) st by (simp_all add: list_all2_append)
    have td: "is_tdir t" "list_all is_tdir rts" using 1(4) st by auto
    show ?thesis
    proof (cases t)
      case (TDir cs)
      then have rd: "fo_readdir fs w p = Some (map fst cs)"
        and sh: "list_all (\<lambda>c. displays fs w (path_join p (fst c)) (snd c)) cs" using r by simp_all
      have e: "tree_entries t = length cs + sum_list (map (\<lambda>c. tree_entries (snd c)) cs)"
        unfolding TDir by (simp add: sum_list_Suc)
      have cap: "visited + length cs \<le> cap"
        using 1(5) st e by (simp add: pending_entries_def)
      obtain ds where ds: "list_all2 (displays fs w) (map fst ds) (map snd ds)" "list_all (is_tdir \<circ> snd) ds"
        "visit_names fs w cap p (map fst cs) tot visited rest
         = ((tot + sum_list (map (\<lambda>c. if is_tdir (snd c) then 0 else tree_bytes (snd c)) cs), visited + length cs, rest @ map fst ds), False)"
        "pending_bytes (map snd ds) = sum_list (map (\<lambda>c. if is_tdir (snd c) then tree_bytes (snd c) else 0) cs)"
        "pending_entries (map snd ds) = sum_list (map (\<lambda>c. tree_entries (snd c)) cs)"
        using visit_names_shown[OF sh cap] by blast
      have b: "sum_list (map (\<lambda>c. if is_tdir (snd c) then 0 else tree_bytes (snd c)) cs)
          + sum_list (map (\<lambda>c. if is_tdir (snd c) then tree_bytes (snd c) else 0) cs) = tree_bytes t"
        unfolding TDir by (induction cs) auto
      have "directory_walk fs w cap tot visited stack = directory_walk fs w cap
          (tot + sum_list (map (\<lambda>c. if is_tdir (snd c) then 0 else tree_bytes (snd c)) cs)) (visited + length cs) (rest @ map fst ds)"
        using False st rd ds(3) by (subst directory_walk.simps) simp
      also have "\<dots> = (tot + sum_list (map (\<lambda>c. if is_tdir (snd c) then 0 else tree_bytes (snd c)) cs))
          + pending_bytes (rts @ map snd ds)"
        using False st rd ds r(1) td e 1(5)
        by (intro 1(2)[where ts="rts @ map snd ds"])
          (auto simp: pending_entries_def list_all_iff intro!: list_all2_appendI)
      finally show ?thesis using st ds(4) b by (simp add: pending_bytes_def)
    next
      case TDenied
      then have rd: "fo_readdir fs w p = None" "file_bytes fs w p = 0" using r by (simp_all add: file_bytes_def)
      have "directory_walk fs w cap tot visited stack = directory_walk fs w cap (tot + 0) visited rest"
        using False st rd by (subst directory_walk.simps) simp
      also have "\<dots> = tot + 0 + pending_bytes rts"
        using False st rd r(1) td 1(5) 1(1)[OF False refl refl, where ts=rts]
        by (simp add: pending_entries_def)
      finally show ?thesis using st TDenied by (simp add: pending_bytes_def)
    qed (use td in \<open>simp_all add: is_tdir_def\<close>)
  qed
qed

text \<open>The bounded stack walk computes the size of the tree: for a readable directory with at most
  100000 entries below it the result is the sum of the sizes of all its files at every depth, whatever the order of the names;
  links count nothing, wherever they point, and neither do directories that cannot be read or names that vanish.\<close>

theorem directory_bytes_exact:
  assumes "displays fs w top_dir (TDir cs)" and "tree_entries (TDir cs) \<le> 100000"
  shows "directory_bytes fs w top_dir = tree_bytes (TDir cs)"
  using walk_exact[of fs w "[top_dir]" "[TDir cs]" 0 MAX_WALK_ENTRIES 0] assms
  by (simp add: directory_bytes_def is_tdir_def pending_entries_def pending_bytes_def MAX_WALK_ENTRIES_def)

definition demo_fs :: "(string \<Rightarrow> node option) fs_ops" where
  "demo_fs = \<lparr>fo_lstat = (\<lambda>w. w),
     fo_readdir = (\<lambda>w p. if p = ''/d'' then Some [''a'', ''link''] else if p = ''/d/link'' then Some [''a''] else None),
     fo_realpath = (\<lambda>w. Some), fo_exists = (\<lambda>w p. w p \<noteq> None),
     fo_rm = (\<lambda>w p. Some (w(p := None))), fo_rename = (\<lambda>w p q. Some (w(p := None, q := w p)))\<rparr>"

definition demo_world :: "string \<Rightarrow> node option" where
  "demo_world p = (if p = ''/d'' then Some DirNode else if p = ''/d/a'' then Some (FileNode 7)
     else if p = ''/d/link'' then Some LinkNode else None)"

theorem directory_bytes_exact_witness: "directory_bytes demo_fs demo_world ''/d'' = 7"
proof -
  have j: "path_join ''/d'' ''a'' = ''/d/a''" "path_join ''/d'' ''link'' = ''/d/link''"
    by (simp_all add: path_join_def normalize_def segments_def is_absolute_def starts_with_def ends_with_def Let_def)
  have "displays demo_fs demo_world ''/d'' (TDir [(''a'', TFile 7), (''link'', TLink)])"
    by (simp add: demo_fs_def demo_world_def j)
  from directory_bytes_exact[OF this] show ?thesis by simp
qed

section \<open>What the two deletions may touch\<close>

lemma join_last: "ss \<noteq> [] \<Longrightarrow> \<exists>pre. join_with sep ss = pre @ last ss"
proof (induction ss)
  case (Cons s ss)
  then show ?case by (cases "ss = []") (auto simp: join_with_Cons)
qed simp

text \<open>Joining a plain name to a directory gives a path that ends in that name.\<close>

lemma path_join_name:
  assumes n: "plain_seg name" "slash \<notin> set name"
  shows "\<exists>pre. path_join d name = pre @ name \<and> (pre = '''' \<or> last pre = slash)"
proof -
  have e: "name \<noteq> ''''" and nd: "''..'' \<noteq> name" using n(1) by (auto simp: plain_seg_def)
  define full where "full = (if d = '''' then name else d @ ''/'' @ name)"
  have full: "path_join d name = normalize full" using e by (simp add: path_join_def full_def)
  have sn: "segments name = [name]" using n(2) by (simp add: segments_def split_on_id)
  have fs: "norm_segs up [] (segments full) = norm_segs up [] (if d = '''' then [] else segments d) @ [name]" for up
  proof -
    have "segments full = (if d = '''' then [] else segments d) @ [name]"
      using segments_append_slash[of d name] sn by (auto simp: full_def)
    then show ?thesis
      using norm_segs_append[of "[name]" up "[]" "if d = '''' then [] else segments d"] n(1) nd by simp
  qed
  have nt: "\<not> ends_with full ''/''"
  proof -
    have "last full = last name" "full \<noteq> []" using e by (auto simp: full_def)
    moreover have "last name \<noteq> slash" using n(2) e last_in_set by metis
    ultimately show ?thesis by (auto simp: ends_with_suffix suffix_def)
  qed
  define segs where "segs = norm_segs (\<not> is_absolute full) [] (segments full)"
  have segs: "segs \<noteq> []" "last segs = name" by (simp_all add: segs_def fs)
  have norm: "normalize full = (if is_absolute full then ''/'' else '''') @ join_with ''/'' segs"
  proof -
    have "full \<noteq> ''''" using e by (simp add: full_def)
    then show ?thesis using segs(1) nt by (simp add: normalize_def Let_def segs_def[symmetric])
  qed
  show ?thesis
  proof (cases "butlast segs = []")
    case True
    then have "segs = [name]" using segs by (metis append_butlast_last_id append_self_conv2)
    then show ?thesis using norm full
      by (intro exI[of _ "if is_absolute full then ''/'' else ''''"]) auto
  next
    case False
    have "join_with ''/'' segs = join_with ''/'' (butlast segs) @ ''/'' @ name"
      using join_with_append[OF False, of "[name]" "''/''"] segs by (metis append_butlast_last_id join_with.simps(2) list.distinct(1))
    then show ?thesis using norm full
      by (intro exI[of _ "(if is_absolute full then ''/'' else '''') @ join_with ''/'' (butlast segs) @ ''/''"]) auto
  qed
qed

lemma path_join_inj:
  assumes "plain_seg a" "slash \<notin> set a" "plain_seg b" "slash \<notin> set b" and "path_join d a = path_join d' b"
  shows "a = b"
proof -
  obtain p q where p: "path_join d a = p @ a" "p = '''' \<or> last p = slash" and q: "path_join d' b = q @ b" "q = '''' \<or> last q = slash"
    using path_join_name[OF assms(1,2)] path_join_name[OF assms(3,4)] by metis
  have t: "rev (takeWhile (\<lambda>c. c \<noteq> slash) (rev (p @ a))) = a" if "slash \<notin> set a" "p = '''' \<or> last p = slash" for p a :: string
  proof -
    have "takeWhile (\<lambda>c. c \<noteq> slash) (rev a) = rev a" using that(1) by (auto simp: takeWhile_eq_all_conv)
    then have "takeWhile (\<lambda>c. c \<noteq> slash) (rev a @ rev p) = rev a"
      using that by (cases p rule: rev_cases) (auto simp: takeWhile_append)
    then show ?thesis by simp
  qed
  have "p @ a = q @ b" using p(1) q(1) assms(5) by simp
  then show ?thesis using t[OF assms(2) p(2)] t[OF assms(4) q(2)] by metis
qed

text \<open>
  A call is owned when it removes a contained cache, cover or settings entry, or moves a
  database file aside to a name next to it.
\<close>

fun owned_call :: "'w fs_ops \<Rightarrow> string \<Rightarrow> storage_dirs \<Rightarrow> 'w \<times> fs_call \<Rightarrow> bool" where
  "owned_call fs cwd dirs (w, RmCall target) =
     ((\<exists>name\<in>{GPU_FALLBACK_MARKER, COVERS_DIRNAME}. target = path_join (sd_data_dir dirs) name
          \<and> is_contained cwd (fo_realpath fs w) (sd_data_dir dirs) target)
      \<or> (\<exists>name. target = path_join (sd_config_dir dirs) name
          \<and> is_contained cwd (fo_realpath fs w) (sd_config_dir dirs) target))"
| "owned_call fs cwd dirs (w, RenameCall old new) =
     (\<exists>ext\<in>{'''', ''-wal'', ''-shm''}. old = path_join (sd_data_dir dirs) CATALOG_DB_FILENAME @ ext
        \<and> fo_exists fs w old
        \<and> (\<exists>stamp. new = path_join (sd_data_dir dirs) CATALOG_DB_FILENAME @ ''.corrupt-'' @ stamp @ ext))"

lemma clear_loop_owned:
  "list_all (\<lambda>(r, n). r = sd_config_dir dirs \<or> r = sd_data_dir dirs \<and> n = GPU_FALLBACK_MARKER) targets \<Longrightarrow>
   list_all (owned_call fs cwd dirs) calls \<Longrightarrow> clear_loop fs cwd targets w freed calls = (w', freed', calls') \<Longrightarrow>
   list_all (owned_call fs cwd dirs) calls' \<and> (\<forall>(v, c)\<in>set calls'. (v, c) \<in> set calls \<or> (\<exists>t. c = RmCall t))"
proof (induction targets arbitrary: w freed calls)
  case (Cons t targets)
  obtain r n where t: "t = (r, n)" by (cases t)
  have own: "is_contained cwd (fo_realpath fs w) r (path_join r n) \<Longrightarrow>
      list_all (owned_call fs cwd dirs) (calls @ [(w, RmCall (path_join r n))])"
    using Cons.prems(1,2) t by auto
  have rest: "list_all (\<lambda>(r, n). r = sd_config_dir dirs \<or> r = sd_data_dir dirs \<and> n = GPU_FALLBACK_MARKER) targets"
    using Cons.prems(1) by simp
  show ?case
  proof (cases "is_contained cwd (fo_realpath fs w) r (path_join r n)")
    case True
    let ?calls = "calls @ [(w, RmCall (path_join r n))]"
    obtain v f where "clear_loop fs cwd targets v f ?calls = (w', freed', calls')"
      using Cons.prems(3) True t by (auto simp: Let_def split: option.splits)
    from Cons.IH[OF rest own[OF True] this] show ?thesis by auto
  next
    case False
    then show ?thesis using Cons.IH[OF rest Cons.prems(2)] Cons.prems(3) t by (auto simp: Let_def)
  qed
qed auto

lemma remove_contained_owned:
  assumes "remove_contained fs cwd r (path_join r n) w calls = (w', calls', res)"
    and "list_all (owned_call fs cwd dirs) calls"
    and "r = sd_config_dir dirs \<or> r = sd_data_dir dirs \<and> n = COVERS_DIRNAME"
  shows "list_all (owned_call fs cwd dirs) calls'"
  using assms by (auto simp: remove_contained_def Let_def split: if_splits option.splits)

lemma remove_settings_owned:
  "remove_settings fs cwd (sd_config_dir dirs) names w calls removed freed = (w', calls', removed', freed') \<Longrightarrow>
   list_all (owned_call fs cwd dirs) calls \<Longrightarrow> list_all (owned_call fs cwd dirs) calls'"
proof (induction names arbitrary: w calls removed freed)
  case (Cons name names)
  show ?case
  proof (cases "name \<in> set BROWSER_CACHE_DIRS")
    case False
    obtain v cs res where r: "remove_contained fs cwd (sd_config_dir dirs) (path_join (sd_config_dir dirs) name) w calls = (v, cs, res)"
      by (cases "remove_contained fs cwd (sd_config_dir dirs) (path_join (sd_config_dir dirs) name) w calls") auto
    have own: "list_all (owned_call fs cwd dirs) cs"
      using remove_contained_owned[OF r Cons.prems(2)] by simp
    then show ?thesis using Cons.prems(1) False r Cons.IH[OF _ own] by (cases res) auto
  qed (use Cons in auto)
qed simp

lemma quarantine_target_shape: "\<exists>stamp. quarantine_target fs w database now = database @ ''.corrupt-'' @ stamp"
proof -
  have "quarantine_target fs w database now \<in> set (map (quarantine_candidate database (quarantine_stamp now)) [0..<1000])
     \<or> quarantine_target fs w database now = database @ ''.corrupt-'' @ quarantine_stamp now @ ''-'' @ show_int (ck_ms now)"
    by (auto simp: quarantine_target_def Let_def find_Some_iff split: option.split)
  then show ?thesis by (auto simp: quarantine_candidate_def split: if_splits)
qed

text \<open>The chosen name is free unless all thousand candidates are taken.\<close>

lemma quarantine_target_free:
  "(\<exists>attempt<1000. \<not> fo_exists fs w (quarantine_candidate database (quarantine_stamp now) attempt)) \<Longrightarrow>
     \<not> fo_exists fs w (quarantine_target fs w database now)"
  by (auto simp: quarantine_target_def Let_def find_None_iff find_Some_iff split: option.split)

lemma quarantine_owned:
  assumes q: "quarantine_database fs (sd_data_dir dirs) now w calls = (w', calls', res)"
    and c: "list_all (owned_call fs cwd dirs) calls"
  shows "list_all (owned_call fs cwd dirs) calls'"
proof -
  define db where "db = path_join (sd_data_dir dirs) CATALOG_DB_FILENAME"
  obtain stamp where st: "quarantine_target fs w db now = db @ ''.corrupt-'' @ stamp"
    using quarantine_target_shape[of fs w db now] by blast
  have ms: "list_all (owned_call fs cwd dirs) cs'"
    if "move_sidecars fs db (db @ ''.corrupt-'' @ stamp) exts v cs = (v', cs')" "set exts \<subseteq> {''-wal'', ''-shm''}"
      "list_all (owned_call fs cwd dirs) cs" for exts v cs v' cs'
    using that
  proof (induction exts arbitrary: v cs)
    case (Cons ext exts)
    let ?call = "(v, RenameCall (db @ ext) ((db @ ''.corrupt-'' @ stamp) @ ext))"
    have own: "fo_exists fs v (db @ ext) \<Longrightarrow> list_all (owned_call fs cwd dirs) (cs @ [?call])"
      using Cons.prems(2,3) by (auto simp: db_def)
    show ?case
      using Cons.prems(1,2,3) Cons.IH[of _ "cs @ [?call]"] Cons.IH[of v cs] own
      by (auto simp: Let_def split: if_splits option.splits)
  qed simp
  have own: "fo_exists fs w db \<Longrightarrow> list_all (owned_call fs cwd dirs) (calls @ [(w, RenameCall db (db @ ''.corrupt-'' @ stamp))])"
    using c by (auto simp: db_def)
  show ?thesis
  proof (cases "fo_exists fs w db")
    case True
    let ?calls = "calls @ [(w, RenameCall db (db @ ''.corrupt-'' @ stamp))]"
    show ?thesis
    proof (cases "fo_rename fs w db (db @ ''.corrupt-'' @ stamp)")
      case None
      then have "calls' = ?calls" using q True by (auto simp: quarantine_database_def Let_def db_def[symmetric] st)
      then show ?thesis using own[OF True] by simp
    next
      case (Some v)
      obtain v' cs where m: "move_sidecars fs db (db @ ''.corrupt-'' @ stamp) [''-wal'', ''-shm''] v ?calls = (v', cs)"
        by (metis surj_pair)
      have "calls' = cs"
        using q True Some m by (simp add: quarantine_database_def Let_def db_def[symmetric] st del: move_sidecars.simps)
      then show ?thesis using ms[OF m _ own[OF True]] by simp
    qed
  qed (use q c in \<open>simp add: quarantine_database_def Let_def db_def[symmetric]\<close>)
qed

text \<open>C17. Clearing and resetting touch only what the app owns. Every removal is of the GPU marker, the cover cache or an
  entry of the config root, and at that moment it resolves, links followed, strictly inside its root; the database and its two sidecar files are
  never removed but renamed to a name next to them, which is a free one unless a thousand are taken; the cache clear renames nothing and removes only the caches and the marker.\<close>

theorem deletions_owned:
  "list_all (owned_call fs cwd dirs) (snd (snd (clear_app_cache fs cwd dirs w)))
   \<and> list_all (owned_call fs cwd dirs) (fst (snd (run_reset_data fs cwd dirs now w)))
   \<and> (\<forall>(v, c)\<in>set (snd (snd (clear_app_cache fs cwd dirs w))). \<exists>target. c = RmCall target)
   \<and> (\<forall>name\<in>{GPU_FALLBACK_MARKER, COVERS_DIRNAME}. path_join (sd_data_dir dirs) name \<noteq> path_join (sd_data_dir dirs) CATALOG_DB_FILENAME)
   \<and> ((\<exists>attempt<1000. \<not> fo_exists fs w (quarantine_candidate database (quarantine_stamp now) attempt)) \<longrightarrow>
        \<not> fo_exists fs w (quarantine_target fs w database now))"
proof -
  obtain w1 f1 c1 where c: "clear_app_cache fs cwd dirs w = (w1, f1, c1)" by (metis surj_pair)
  have t: "list_all (\<lambda>(r, n). r = sd_config_dir dirs \<or> r = sd_data_dir dirs \<and> n = GPU_FALLBACK_MARKER) (clear_targets dirs)"
    by (simp add: clear_targets_def BROWSER_CACHE_DIRS_def)
  have c1: "list_all (owned_call fs cwd dirs) c1" "\<forall>(v, c)\<in>set c1. \<exists>target. c = RmCall target"
    using clear_loop_owned[OF t _ c[unfolded clear_app_cache_def]] by auto
  define covers where "covers = path_join (sd_data_dir dirs) COVERS_DIRNAME"
  obtain w2 c2 r2 where r: "remove_contained fs cwd (sd_data_dir dirs) covers w1 c1 = (w2, c2, r2)" by (metis surj_pair)
  have c2: "list_all (owned_call fs cwd dirs) c2"
    using remove_contained_owned[OF r[unfolded covers_def] c1(1)] by simp
  obtain w3 c3 q where q: "quarantine_database fs (sd_data_dir dirs) now w2 c2 = (w3, c3, q)" by (metis surj_pair)
  have c3: "list_all (owned_call fs cwd dirs) c3" using quarantine_owned[OF q c2] .
  have "list_all (owned_call fs cwd dirs) (fst (snd (reset_app_data fs cwd dirs now w)))"
    using c3 by (auto simp: reset_app_data_def c r q covers_def[symmetric] Let_def remove_settings_owned
        split: sum.split prod.split)
  then have reset: "list_all (owned_call fs cwd dirs) (fst (snd (run_reset_data fs cwd dirs now w)))"
    by (auto simp: run_reset_data_def split: prod.splits sum.splits)
  have pl: "plain_seg n \<and> slash \<notin> set n" if "n \<in> {GPU_FALLBACK_MARKER, COVERS_DIRNAME, CATALOG_DB_FILENAME}" for n
    using that by (auto simp: GPU_FALLBACK_MARKER_def COVERS_DIRNAME_def CATALOG_DB_FILENAME_def plain_seg_def)
  have ne: "path_join d n \<noteq> path_join d CATALOG_DB_FILENAME" if "n \<in> {GPU_FALLBACK_MARKER, COVERS_DIRNAME}" for n d
  proof
    assume "path_join d n = path_join d CATALOG_DB_FILENAME"
    from path_join_inj[OF _ _ _ _ this] have "n = CATALOG_DB_FILENAME" using pl that by blast
    then show False using that by (auto simp: GPU_FALLBACK_MARKER_def COVERS_DIRNAME_def CATALOG_DB_FILENAME_def)
  qed
  show ?thesis
    unfolding c snd_conv
  proof (intro conjI impI)
    show "\<not> fo_exists fs w (quarantine_target fs w database now)"
      if "\<exists>attempt<1000. \<not> fo_exists fs w (quarantine_candidate database (quarantine_stamp now) attempt)"
      using that by (rule quarantine_target_free)
  qed (use c1 ne reset in auto)
qed

theorem deletions_owned_witness:
  "\<not> fo_exists demo_fs demo_world (quarantine_target demo_fs demo_world ''/d/tuxbooks.db'' \<lparr>ck_iso = ''2024-01'', ck_ms = 0\<rparr>)"
proof -
  have "\<exists>attempt<1000. \<not> fo_exists demo_fs demo_world (quarantine_candidate ''/d/tuxbooks.db'' (quarantine_stamp \<lparr>ck_iso = ''2024-01'', ck_ms = 0\<rparr>) attempt)"
    by (intro exI[of _ 0]) (simp add: demo_fs_def demo_world_def quarantine_candidate_def)
  then show ?thesis
    using deletions_owned[of demo_fs "''/''" "\<lparr>sd_data_dir = ''/d'', sd_config_dir = ''/c''\<rparr>" demo_world
        "\<lparr>ck_iso = ''2024-01'', ck_ms = 0\<rparr>" "''/d/tuxbooks.db''"] by blast
qed

text \<open>A cover cache whose removal fails is reported as resolving outside the data root.\<close>

lemma failed_cover_removal_misreported:
  assumes "clear_app_cache fs cwd dirs w = (w1, freed, calls)"
    and "is_contained cwd (fo_realpath fs w1) (sd_data_dir dirs) covers" and "covers = path_join (sd_data_dir dirs) COVERS_DIRNAME"
    and "fo_rm fs w1 covers = None" and "fo_exists fs w1 covers"
  shows "fst (snd (snd (reset_app_data fs cwd dirs now w)))
    = [''[reset] refused to remove '' @ covers @ '': it resolves outside the data root'']"
  using assms by (auto simp: reset_app_data_def remove_contained_def Let_def split: prod.splits sum.splits)

end
