(* ===== verification/MainIpc.thy ===== *)
theory MainIpc
  imports IpcPolicy Storage
begin

text \<open>
  \<open>electron/main/ipcHandlers.ts\<close> and \<open>electron/preload/preload.ts\<close>: the twelve channels between the renderer
  and the main process. A handler runs with the issued paths and the file system as its state and
  reports the native calls it makes, in order, with its result; the sidecar's answers, the native
  dialogs, URL parsing and string conversion are parameters.
\<close>

section \<open>Messages, native calls and results\<close>

datatype channel =
    ChInvoke | ChDialog | ChReveal | ChStorageReport | ChOpenDataFolder | ChOpenLibraryLocation | ChOpenSyncFolder
  | ChCopyDataPath | ChCopyLibraryLocationPath | ChCopyText | ChClearCache | ChEvent

fun channel_name :: "channel \<Rightarrow> string" where
  "channel_name ChInvoke = ''tuxbooks:invoke''"
| "channel_name ChDialog = ''tuxbooks:dialog''"
| "channel_name ChReveal = ''tuxbooks:reveal''"
| "channel_name ChStorageReport = ''tuxbooks:storage-report''"
| "channel_name ChOpenDataFolder = ''tuxbooks:open-data-folder''"
| "channel_name ChOpenLibraryLocation = ''tuxbooks:open-library-location''"
| "channel_name ChOpenSyncFolder = ''tuxbooks:open-sync-folder''"
| "channel_name ChCopyDataPath = ''tuxbooks:copy-data-path''"
| "channel_name ChCopyLibraryLocationPath = ''tuxbooks:copy-library-location-path''"
| "channel_name ChCopyText = ''tuxbooks:copy-text''"
| "channel_name ChClearCache = ''tuxbooks:clear-cache''"
| "channel_name ChEvent = ''tuxbooks:event''"

text \<open>A message: the URL of the sender's frame, when it has one, the channel and the two arguments.\<close>

record message =
  ms_sender :: "string option"
  ms_channel :: channel
  ms_arg :: js
  ms_params :: js

datatype native_call =
    SidecarCall string js
  | OpenDialog string
  | ShowInFolder js
  | OpenPath js
  | WriteClipboard js

datatype ipc_value = IpcUndefined | IpcValue js | IpcReport storage_report | IpcFreed int

record dialog_result =
  dr_canceled :: bool
  dr_paths :: "string list"

record 'w ipc_env =
  en_new_url :: "string \<Rightarrow> url option"
  en_dev_server :: "string option"
  en_json_length :: "js \<Rightarrow> nat option"
  en_string :: "js \<Rightarrow> string"
  en_byte_length :: "string \<Rightarrow> nat"
  en_sidecar :: "string \<Rightarrow> js \<Rightarrow> string + js"
  en_dialog :: "string \<Rightarrow> dialog_result"
  en_stats :: "js \<Rightarrow> library_stats"
  en_fs :: "'w fs_ops"
  en_cwd :: string
  en_dirs :: storage_dirs

record 'w ipc_state =
  st_issued :: issued_paths
  st_world :: 'w

type_synonym 'w ipc_result = "'w ipc_state \<times> native_call list \<times> (string + ipc_value)"

section \<open>The handlers\<close>

definition require_app_sender :: "'w ipc_env \<Rightarrow> string option \<Rightarrow> unit outcome" where
  "require_app_sender env sender =
     (let sender_url = (case sender of None \<Rightarrow> '''' | Some u \<Rightarrow> u) in
      require (is_allowed_sender_url (en_new_url env) sender_url (en_dev_server env)) ''sender is not the application page'')"

text \<open>Reading a property of an \<open>unknown\<close> answer: \<open>null\<close> and \<open>undefined\<close> throw.\<close>

fun read_prop :: "string \<Rightarrow> js \<Rightarrow> js outcome" where
  "read_prop k (Obj r) = Inr (get_prop k r)"
| "read_prop k Undef = Inl ''TypeError''"
| "read_prop k Null = Inl ''TypeError''"
| "read_prop k _ = Inr Undef"

text \<open>\<open>candidates.find((candidate) => candidate.id === id)\<close>, \<open>Undef\<close> when there is none.\<close>

fun find_by_id :: "js \<Rightarrow> js list \<Rightarrow> js outcome" where
  "find_by_id i [] = Inr Undef"
| "find_by_id i (c # cs) =
     and_then (read_prop ''id'' c) (\<lambda>v. if v = i then Inr c else find_by_id i cs)"

definition find_in :: "js \<Rightarrow> js \<Rightarrow> js outcome" where
  "find_in i candidates = (case candidates of Arr cs \<Rightarrow> find_by_id i cs | _ \<Rightarrow> Inl ''TypeError'')"

definition handle_invoke :: "'w ipc_env \<Rightarrow> 'w ipc_state \<Rightarrow> js \<Rightarrow> js \<Rightarrow> 'w ipc_result" where
  "handle_invoke env st m params =
     (case m of
        Str name \<Rightarrow>
          (case validate_invoke_params (en_json_length env) name params (st_issued st) of
             Inl e \<Rightarrow> (st, [], Inl e)
           | Inr _ \<Rightarrow> (st, [SidecarCall name params], map_sum id IpcValue (en_sidecar env name params)))
      | _ \<Rightarrow> (st, [], Inl (''method not allowed: '' @ en_string env m)))"

definition pick_one :: "'w ipc_env \<Rightarrow> 'w ipc_state \<Rightarrow> issued_kind \<Rightarrow> string \<Rightarrow> 'w ipc_result" where
  "pick_one env st kind kind_name =
     (let result = en_dialog env kind_name in
      case dr_paths result of
        [] \<Rightarrow> (st, [OpenDialog kind_name], Inr (IpcValue Null))
      | picked # _ \<Rightarrow>
          if dr_canceled result then (st, [OpenDialog kind_name], Inr (IpcValue Null))
          else (st\<lparr>st_issued := issue (st_issued st) (kind, picked)\<rparr>, [OpenDialog kind_name], Inr (IpcValue (Str picked))))"

definition handle_dialog :: "'w ipc_env \<Rightarrow> 'w ipc_state \<Rightarrow> js \<Rightarrow> 'w ipc_result" where
  "handle_dialog env st kind =
     (if kind = Str ''directory'' then pick_one env st KDirectory ''directory''
      else if kind = Str ''sync-folder'' then pick_one env st KSyncFolder ''sync-folder''
      else if kind = Str ''book-file'' then pick_one env st KBookFile ''book-file''
      else if kind = Str ''book-files'' then
        (let result = en_dialog env ''book-files'' in
         if dr_canceled result then (st, [OpenDialog ''book-files''], Inr (IpcValue (Arr [])))
         else (st\<lparr>st_issued := foldl (\<lambda>m p. issue m (KBookFiles, p)) (st_issued st) (dr_paths result)\<rparr>,
               [OpenDialog ''book-files''], Inr (IpcValue (Arr (map Str (dr_paths result))))))
      else if kind = Str ''cover-image'' then pick_one env st KCoverImage ''cover-image''
      else (st, [], Inl (''unknown dialog kind: '' @ en_string env kind)))"

definition handle_reveal :: "'w ipc_env \<Rightarrow> 'w ipc_state \<Rightarrow> js \<Rightarrow> 'w ipc_result" where
  "handle_reveal env st book_id =
     (if \<not> is_valid_book_id book_id then (st, [], Inl ''reveal requires a book id'')
      else let asked = SidecarCall ''list_books'' Undef in
        (case and_then (en_sidecar env ''list_books'' Undef) (find_in book_id) of
           Inl e \<Rightarrow> (st, [asked], Inl e)
         | Inr book \<Rightarrow>
             (case book of
                Obj r \<Rightarrow> (st, [asked, ShowInFolder (get_prop ''path'' r)], Inr IpcUndefined)
              | _ \<Rightarrow> (st, [asked], Inl (''no book '' @ en_string env book_id)))))"

definition handle_storage_report :: "'w ipc_env \<Rightarrow> 'w ipc_state \<Rightarrow> 'w ipc_result" where
  "handle_storage_report env st =
     (let asked = SidecarCall ''get_storage_stats'' Undef in
      (case en_sidecar env ''get_storage_stats'' Undef of
         Inl e \<Rightarrow> (st, [asked], Inl e)
       | Inr library \<Rightarrow>
           (st, [asked], Inr (IpcReport (build_storage_report (en_fs env) (st_world st) (en_dirs env) (en_stats env library))))))"

definition root_path :: "'w ipc_env \<Rightarrow> js \<Rightarrow> string" where
  "root_path env root_id = (if root_id = Str ''app-data'' then sd_data_dir (en_dirs env) else sd_config_dir (en_dirs env))"

definition handle_open_data_folder :: "'w ipc_env \<Rightarrow> 'w ipc_state \<Rightarrow> js \<Rightarrow> 'w ipc_result" where
  "handle_open_data_folder env st root_id =
     (if \<not> is_storage_root_id root_id then (st, [], Inl ''open requires a known data folder id'')
      else (st, [OpenPath (Str (root_path env root_id))], Inr IpcUndefined))"

definition locate :: "'w ipc_env \<Rightarrow> js \<Rightarrow> js outcome" where
  "locate env location_id =
     and_then (en_sidecar env ''get_storage_stats'' Undef) (\<lambda>library.
       and_then (read_prop ''locations'' library) (find_in location_id))"

definition with_location :: "'w ipc_env \<Rightarrow> 'w ipc_state \<Rightarrow> string \<Rightarrow> (js \<Rightarrow> native_call) \<Rightarrow> js \<Rightarrow> 'w ipc_result" where
  "with_location env st verb act location_id =
     (if \<not> is_valid_library_location_id location_id then (st, [], Inl (verb @ '' requires a known library location id''))
      else let asked = SidecarCall ''get_storage_stats'' Undef in
        (case locate env location_id of
           Inl e \<Rightarrow> (st, [asked], Inl e)
         | Inr location \<Rightarrow>
             (case location of
                Obj r \<Rightarrow> (st, [asked, act (get_prop ''path'' r)], Inr IpcUndefined)
              | _ \<Rightarrow> (st, [asked], Inl (''no library location '' @ en_string env location_id)))))"

text \<open>The falsy values of \<open>!status.folder\<close>.\<close>

fun truthy :: "js \<Rightarrow> bool" where
  "truthy Undef = False"
| "truthy Null = False"
| "truthy (Bool b) = b"
| "truthy (Num n) = (n \<noteq> NaN \<and> n \<noteq> Fin 0)"
| "truthy (Str s) = (s \<noteq> '''')"
| "truthy (Arr _) = True"
| "truthy (Obj _) = True"

definition handle_open_sync_folder :: "'w ipc_env \<Rightarrow> 'w ipc_state \<Rightarrow> 'w ipc_result" where
  "handle_open_sync_folder env st =
     (let asked = SidecarCall ''sync_status'' Undef in
      (case and_then (en_sidecar env ''sync_status'' Undef) (read_prop ''folder'') of
         Inl e \<Rightarrow> (st, [asked], Inl e)
       | Inr folder \<Rightarrow>
           if \<not> truthy folder then (st, [asked], Inl ''sync is not connected'')
           else (st, [asked, OpenPath folder], Inr IpcUndefined)))"

definition handle_clear_cache :: "'w ipc_env \<Rightarrow> 'w ipc_state \<Rightarrow> 'w ipc_result" where
  "handle_clear_cache env st =
     (case clear_app_cache (en_fs env) (en_cwd env) (en_dirs env) (st_world st) of
        (w, freed, _) \<Rightarrow> (st\<lparr>st_world := w\<rparr>, [], Inr (IpcFreed freed)))"

definition handle_copy_data_path :: "'w ipc_env \<Rightarrow> 'w ipc_state \<Rightarrow> js \<Rightarrow> 'w ipc_result" where
  "handle_copy_data_path env st root_id =
     (if \<not> is_storage_root_id root_id then (st, [], Inl ''copy requires a known data folder id'')
      else (st, [WriteClipboard (Str (root_path env root_id))], Inr IpcUndefined))"

definition handle_copy_text :: "'w ipc_env \<Rightarrow> 'w ipc_state \<Rightarrow> js \<Rightarrow> 'w ipc_result" where
  "handle_copy_text env st text_arg =
     (case text_arg of
        Str s \<Rightarrow>
          if s = '''' then (st, [], Inl ''copy requires text'')
          else if MAX_CLIPBOARD_TEXT_BYTES < en_byte_length env s then (st, [], Inl ''copy text too large'')
          else (st, [WriteClipboard (Str s)], Inr IpcUndefined)
      | _ \<Rightarrow> (st, [], Inl ''copy requires text''))"

text \<open>The dispatch; every handler checks the sender first. No handler is registered on the event channel.\<close>

definition dispatch :: "'w ipc_env \<Rightarrow> 'w ipc_state \<Rightarrow> message \<Rightarrow> 'w ipc_result" where
  "dispatch env st m =
     (case ms_channel m of
        ChInvoke \<Rightarrow> handle_invoke env st (ms_arg m) (ms_params m)
      | ChDialog \<Rightarrow> handle_dialog env st (ms_arg m)
      | ChReveal \<Rightarrow> handle_reveal env st (ms_arg m)
      | ChStorageReport \<Rightarrow> handle_storage_report env st
      | ChOpenDataFolder \<Rightarrow> handle_open_data_folder env st (ms_arg m)
      | ChOpenLibraryLocation \<Rightarrow> with_location env st ''open'' OpenPath (ms_arg m)
      | ChOpenSyncFolder \<Rightarrow> handle_open_sync_folder env st
      | ChCopyDataPath \<Rightarrow> handle_copy_data_path env st (ms_arg m)
      | ChCopyLibraryLocationPath \<Rightarrow> with_location env st ''copy'' WriteClipboard (ms_arg m)
      | ChCopyText \<Rightarrow> handle_copy_text env st (ms_arg m)
      | ChClearCache \<Rightarrow> handle_clear_cache env st
      | ChEvent \<Rightarrow> (st, [], Inl ''no handler registered''))"

definition handle_message :: "'w ipc_env \<Rightarrow> 'w ipc_state \<Rightarrow> message \<Rightarrow> 'w ipc_result" where
  "handle_message env st m =
     (case require_app_sender env (ms_sender m) of
        Inl e \<Rightarrow> (st, [], Inl e)
      | Inr _ \<Rightarrow> dispatch env st m)"
section \<open>The preload bridge\<close>

text \<open>A call on \<open>window.tuxbooks\<close> that goes over IPC, and the message it sends or the \<open>TypeError\<close> it rejects with.\<close>

datatype preload_call =
    PlInvoke js js
  | PlPickDirectory | PlPickSyncFolder | PlPickBookFile | PlPickBookFiles | PlPickCoverImage
  | PlRevealBook js
  | PlStorageReport
  | PlOpenDataFolder js
  | PlOpenLibraryLocation js
  | PlOpenSyncFolder
  | PlCopyDataPath js
  | PlCopyLibraryLocationPath js
  | PlCopyText js
  | PlClearCache

fun preload :: "(js \<Rightarrow> string) \<Rightarrow> preload_call \<Rightarrow> string + channel \<times> js \<times> js" where
  "preload to_str (PlInvoke m p) = Inr (ChInvoke, m, if p = Undef \<or> p = Null then Obj [] else p)"
| "preload to_str PlPickDirectory = Inr (ChDialog, Str ''directory'', Undef)"
| "preload to_str PlPickSyncFolder = Inr (ChDialog, Str ''sync-folder'', Undef)"
| "preload to_str PlPickBookFile = Inr (ChDialog, Str ''book-file'', Undef)"
| "preload to_str PlPickBookFiles = Inr (ChDialog, Str ''book-files'', Undef)"
| "preload to_str PlPickCoverImage = Inr (ChDialog, Str ''cover-image'', Undef)"
| "preload to_str (PlRevealBook i) =
     (if \<not> is_valid_book_id i then Inl (''invalid book id: '' @ to_str i) else Inr (ChReveal, i, Undef))"
| "preload to_str PlStorageReport = Inr (ChStorageReport, Undef, Undef)"
| "preload to_str (PlOpenDataFolder r) =
     (if \<not> is_storage_root_id r then Inl (''invalid data folder id: '' @ to_str r) else Inr (ChOpenDataFolder, r, Undef))"
| "preload to_str (PlOpenLibraryLocation i) =
     (if \<not> is_valid_library_location_id i then Inl (''invalid library location id: '' @ to_str i)
      else Inr (ChOpenLibraryLocation, i, Undef))"
| "preload to_str PlOpenSyncFolder = Inr (ChOpenSyncFolder, Undef, Undef)"
| "preload to_str (PlCopyDataPath r) =
     (if \<not> is_storage_root_id r then Inl (''invalid data folder id: '' @ to_str r) else Inr (ChCopyDataPath, r, Undef))"
| "preload to_str (PlCopyLibraryLocationPath i) =
     (if \<not> is_valid_library_location_id i then Inl (''invalid library location id: '' @ to_str i)
      else Inr (ChCopyLibraryLocationPath, i, Undef))"
| "preload to_str (PlCopyText t) =
     (case t of Str s \<Rightarrow> if s = '''' then Inl (''invalid clipboard text: '' @ to_str t) else Inr (ChCopyText, t, Undef)
      | _ \<Rightarrow> Inl (''invalid clipboard text: '' @ to_str t))"
| "preload to_str PlClearCache = Inr (ChClearCache, Undef, Undef)"

text \<open>The URL that \<open>fetchBookBytes\<close> fetches, or the \<open>TypeError\<close>.\<close>

definition fetch_book_url :: "(js \<Rightarrow> string) \<Rightarrow> js \<Rightarrow> js \<Rightarrow> string outcome" where
  "fetch_book_url to_str book_id format =
     (if \<not> is_valid_book_id book_id \<or> \<not> is_valid_book_format format
      then Inl (''invalid book request: '' @ to_str book_id @ '' '' @ to_str format)
      else Inr (''tuxbooks://book/'' @ to_str book_id @ ''?format='' @ to_str format))"

section \<open>No foreign frame and no renderer path\<close>

definition trusted_sender :: "'w ipc_env \<Rightarrow> message \<Rightarrow> bool" where
  "trusted_sender env m = passes (require_app_sender env (ms_sender m))"


definition quiet_ops :: "unit fs_ops" where
  "quiet_ops = \<lparr>fo_lstat = \<lambda>_ _. None, fo_readdir = \<lambda>_ _. None, fo_realpath = \<lambda>_ _. None, fo_exists = \<lambda>_ _. False,
     fo_rm = \<lambda>_ _. None, fo_rename = \<lambda>_ _ _. None\<rparr>"

text \<open>An environment with one application URL, a directory dialog that picks \<open>/books\<close>, and a sidecar that answers \<open>null\<close>.\<close>

definition demo_url :: url where
  "demo_url = \<lparr>url_protocol = ''app:'', url_host = ''bundle'', url_hostname = ''bundle'', url_pathname = ''/index.html'',
     url_origin = ''null'', url_href = ''app://bundle/index.html'', url_username = '''', url_password = '''', url_format = None\<rparr>"

definition demo_env :: "unit ipc_env" where
  "demo_env = \<lparr>en_new_url = (\<lambda>s. if s = ''app://bundle/index.html'' then Some demo_url else None),
     en_dev_server = None, en_json_length = (\<lambda>_. Some 20), en_string = (\<lambda>_. ''?''), en_byte_length = length,
     en_sidecar = (\<lambda>_ _. Inr Null), en_dialog = (\<lambda>_. \<lparr>dr_canceled = False, dr_paths = [''/books'']\<rparr>),
     en_stats = (\<lambda>_. EMPTY_LIBRARY), en_fs = quiet_ops, en_cwd = ''/'',
     en_dirs = \<lparr>sd_data_dir = ''/d'', sd_config_dir = ''/c''\<rparr>\<rparr>"


lemma and_then_Inr_iff: "and_then m f = Inr y \<longleftrightarrow> (\<exists>x. m = Inr x \<and> f x = Inr y)"
  by (cases m) (simp_all add: and_then_def)

lemma find_by_id_sound: "find_by_id i cs = Inr (Obj r) \<Longrightarrow> Obj r \<in> set cs \<and> get_prop ''id'' r = i"
  by (induction cs) (auto simp: and_then_Inr_iff split: if_splits)

text \<open>
  Where a path that leaves the main process comes from: the two roots, a book or a watched location of the
  sidecar's answer, or its sync status.
\<close>

definition main_path :: "'w ipc_env \<Rightarrow> js \<Rightarrow> bool" where
  "main_path env p \<longleftrightarrow>
     p = Str (sd_data_dir (en_dirs env)) \<or> p = Str (sd_config_dir (en_dirs env))
   \<or> (\<exists>bs r. en_sidecar env ''list_books'' Undef = Inr (Arr bs) \<and> Obj r \<in> set bs \<and> p = get_prop ''path'' r)
   \<or> (\<exists>l ls r. en_sidecar env ''get_storage_stats'' Undef = Inr (Obj l) \<and> get_prop ''locations'' l = Arr ls
        \<and> Obj r \<in> set ls \<and> p = get_prop ''path'' r)
   \<or> (\<exists>l. en_sidecar env ''sync_status'' Undef = Inr (Obj l) \<and> p = get_prop ''folder'' l)"

lemma find_in_sound: "find_in i v = Inr (Obj r) \<Longrightarrow> \<exists>cs. v = Arr cs \<and> Obj r \<in> set cs \<and> get_prop ''id'' r = i"
  using find_by_id_sound by (auto simp: find_in_def split: js.splits)

lemma read_prop_Inr_nontrivial: "read_prop k v = Inr x \<Longrightarrow> x \<noteq> Undef \<Longrightarrow> \<exists>r. v = Obj r \<and> x = get_prop k r"
  by (cases v) auto

lemma locate_sound:
  assumes "locate env i = Inr (Obj r)"
  shows "main_path env (get_prop ''path'' r)"
proof -
  obtain lib v where l: "en_sidecar env ''get_storage_stats'' Undef = Inr lib" "read_prop ''locations'' lib = Inr v"
    "find_in i v = Inr (Obj r)"
    using assms by (auto simp: locate_def and_then_Inr_iff)
  obtain cs where cs: "v = Arr cs" "Obj r \<in> set cs" using find_in_sound[OF l(3)] by blast
  obtain q where "lib = Obj q" "get_prop ''locations'' q = Arr cs"
    using read_prop_Inr_nontrivial[OF l(2)] cs(1) by auto
  then show ?thesis using l(1) cs(2) unfolding main_path_def by blast
qed

text \<open>The renderer never supplies a path or a clipboard text other than the one it may: every folder opened and every
  file revealed is one of the two data roots or a path of the sidecar's own answer, and what reaches the clipboard is such a path or,
  on the text channel alone, the non-empty text within the byte bound that was sent.\<close>

theorem native_paths_from_main:
  assumes "c \<in> set (fst (snd (handle_message env st m)))"
  shows "case c of
      ShowInFolder p \<Rightarrow> main_path env p
    | OpenPath p \<Rightarrow> main_path env p
    | WriteClipboard p \<Rightarrow> main_path env p
        \<or> (ms_channel m = ChCopyText \<and> p = ms_arg m \<and> (\<exists>s. p = Str s \<and> s \<noteq> '''' \<and> en_byte_length env s \<le> 1048576))
    | SidecarCall name params \<Rightarrow> name \<in> {''list_books'', ''get_storage_stats'', ''sync_status''} \<and> params = Undef
        \<or> (ms_channel m = ChInvoke \<and> ms_arg m = Str name \<and> params = ms_params m
             \<and> validate_invoke_params (en_json_length env) name params (st_issued st) = ok)
    | OpenDialog k \<Rightarrow> ms_channel m = ChDialog \<and> ms_arg m = Str k"
proof -
  have d: "c \<in> set (fst (snd (dispatch env st m)))"
    using assms by (auto simp: handle_message_def split: sum.splits)
  have root: "main_path env (Str (root_path env r))" for r
    by (simp add: main_path_def root_path_def)
  have loc: "c \<in> set (fst (snd (with_location env st v act i))) \<Longrightarrow>
      c = SidecarCall ''get_storage_stats'' Undef \<or> (\<exists>p. c = act p \<and> main_path env p)" for v act i
    using locate_sound by (fastforce simp: with_location_def Let_def split: if_splits sum.splits js.splits)
  have pick: "c \<in> set (fst (snd (pick_one env st k n))) \<Longrightarrow> c = OpenDialog n" for k n
    by (auto simp: pick_one_def Let_def split: list.splits if_splits)
  show ?thesis
  proof (cases "ms_channel m")
    case ChInvoke
    then show ?thesis using d passes_iff_ok
      by (auto simp: dispatch_def handle_invoke_def ok_def split: js.splits sum.splits)
  next
    case ChDialog
    then show ?thesis using d pick
      by (fastforce simp: dispatch_def handle_dialog_def Let_def split: if_splits)
  next
    case ChReveal
    have "main_path env (get_prop ''path'' r)"
      if "and_then (en_sidecar env ''list_books'' Undef) (find_in i) = Inr (Obj r)" for i r
    proof -
      obtain v where v: "en_sidecar env ''list_books'' Undef = Inr v" "find_in i v = Inr (Obj r)"
        using \<open>and_then _ _ = _\<close> by (auto simp: and_then_Inr_iff)
      then show ?thesis using find_in_sound[OF v(2)] by (auto simp: main_path_def)
    qed
    then show ?thesis using ChReveal d
      by (fastforce simp: dispatch_def handle_reveal_def Let_def split: if_splits sum.splits js.splits)
  next
    case ChOpenSyncFolder
    have "main_path env f" if f: "and_then (en_sidecar env ''sync_status'' Undef) (read_prop ''folder'') = Inr f" "truthy f" for f
    proof -
      obtain v where v: "en_sidecar env ''sync_status'' Undef = Inr v" "read_prop ''folder'' v = Inr f"
        using f(1) by (auto simp: and_then_Inr_iff)
      then show ?thesis using read_prop_Inr_nontrivial[OF v(2)] f(2) by (cases "f = Undef") (auto simp: main_path_def)
    qed
    then show ?thesis using ChOpenSyncFolder d
      by (auto simp: dispatch_def handle_open_sync_folder_def Let_def split: if_splits sum.splits)
  next
    case ChCopyText
    then show ?thesis using d
      by (auto simp: dispatch_def handle_copy_text_def MAX_CLIPBOARD_TEXT_BYTES_def split: js.splits if_splits)
  next
    case ChClearCache
    then show ?thesis using d by (auto simp: dispatch_def handle_clear_cache_def split: prod.splits)
  next
    case ChOpenLibraryLocation
    then have "c = SidecarCall ''get_storage_stats'' Undef \<or> (\<exists>p. c = OpenPath p \<and> main_path env p)"
      using d by (intro loc) (simp add: dispatch_def)
    then show ?thesis by auto
  next
    case ChCopyLibraryLocationPath
    then have "c = SidecarCall ''get_storage_stats'' Undef \<or> (\<exists>p. c = WriteClipboard p \<and> main_path env p)"
      using d by (intro loc) (simp add: dispatch_def)
    then show ?thesis by auto
  qed (use d root in \<open>auto simp: dispatch_def handle_storage_report_def handle_open_data_folder_def
      handle_copy_data_path_def Let_def split: sum.splits if_splits\<close>)
qed

theorem native_paths_from_main_witness:
  "OpenPath (Str ''/c'') \<in> set (fst (snd (handle_message demo_env \<lparr>st_issued = no_issued, st_world = ()\<rparr>
      \<lparr>ms_sender = Some ''app://bundle/index.html'', ms_channel = ChOpenDataFolder, ms_arg = Str ''app-config'', ms_params = Undef\<rparr>)))
   \<and> main_path demo_env (Str ''/c'')"
proof -
  have "OpenPath (Str ''/c'') \<in> set (fst (snd (handle_message demo_env \<lparr>st_issued = no_issued, st_world = ()\<rparr>
      \<lparr>ms_sender = Some ''app://bundle/index.html'', ms_channel = ChOpenDataFolder, ms_arg = Str ''app-config'', ms_params = Undef\<rparr>)))"
    by (simp add: handle_message_def require_app_sender_def is_allowed_sender_url_def demo_env_def demo_url_def
        require_def ok_def dispatch_def handle_open_data_folder_def root_path_def Let_def)
  from native_paths_from_main[OF this] this show ?thesis by simp
qed

section \<open>Paths flow only from the dialogs\<close>

fun kind_name :: "issued_kind \<Rightarrow> string" where
  "kind_name KDirectory = ''directory''"
| "kind_name KSyncFolder = ''sync-folder''"
| "kind_name KBookFile = ''book-file''"
| "kind_name KBookFiles = ''book-files''"
| "kind_name KCoverImage = ''cover-image''"

text \<open>The user picked \<open>p\<close> in the dialog that this message opened for the application page.\<close>

definition picked_in :: "'w ipc_env \<times> message \<Rightarrow> issued_kind \<Rightarrow> string \<Rightarrow> bool" where
  "picked_in em k p =
     (case em of (env, m) \<Rightarrow> trusted_sender env m \<and> ms_channel m = ChDialog \<and> ms_arg m = Str (kind_name k)
        \<and> \<not> dr_canceled (en_dialog env (kind_name k)) \<and> p \<in> set (dr_paths (en_dialog env (kind_name k))))"

definition ipc_step :: "'w ipc_state \<Rightarrow> 'w ipc_env \<times> message \<Rightarrow> 'w ipc_state" where
  "ipc_step st em = (case em of (env, m) \<Rightarrow> fst (handle_message env st m))"

lemma has_issued_put: "has_issued (issue r (k', p')) k p \<longleftrightarrow> (k, p) = (k', p') \<or> has_issued r k p"
  by (rule dialogs.ask_put)

lemma has_issued_foldl:
  "has_issued (foldl (\<lambda>m p. issue m (k', p)) r ps) k p \<longleftrightarrow> (k = k' \<and> p \<in> set ps) \<or> has_issued r k p"
  by (induction ps arbitrary: r) (auto simp: has_issued_put)

lemma step_issues:
  assumes "has_issued (st_issued (ipc_step st em)) k p"
  shows "has_issued (st_issued st) k p \<or> picked_in em k p"
proof -
  obtain env m where em: "em = (env, m)" by (cases em)
  show ?thesis
  proof (cases "trusted_sender env m")
    case False
    then have "fst (handle_message env st m) = st"
      by (auto simp: trusted_sender_def handle_message_def passes_def split: sum.splits)
    then show ?thesis using assms em by (simp add: ipc_step_def)
  next
    case True
    then have h: "handle_message env st m = dispatch env st m"
      by (auto simp: trusted_sender_def handle_message_def passes_def split: sum.splits)
    have same: "st_issued (fst (dispatch env st m)) = st_issued st" if "ms_channel m \<noteq> ChDialog"
      using that by (cases "ms_channel m")
        (auto simp: dispatch_def handle_invoke_def handle_reveal_def handle_storage_report_def handle_open_data_folder_def
          with_location_def handle_open_sync_folder_def handle_copy_data_path_def handle_copy_text_def handle_clear_cache_def
          Let_def split: js.splits sum.splits prod.splits)
    have one: "has_issued (st_issued (fst (pick_one env st k' (kind_name k')))) k p \<Longrightarrow>
        has_issued (st_issued st) k p \<or> (k = k' \<and> \<not> dr_canceled (en_dialog env (kind_name k')) \<and> p \<in> set (dr_paths (en_dialog env (kind_name k'))))" for k'
      by (auto simp: pick_one_def Let_def has_issued_put split: list.splits if_splits)
    show ?thesis
    proof (cases "ms_channel m = ChDialog")
      case False
      then show ?thesis using same assms em h by (simp add: ipc_step_def)
    next
      case ch: True
      have "has_issued (st_issued (fst (handle_dialog env st (ms_arg m)))) k p"
        using assms em h ch by (simp add: ipc_step_def dispatch_def)
      then show ?thesis
        using one[of KDirectory] one[of KSyncFolder] one[of KBookFile] one[of KCoverImage] True ch em
        by (auto simp: handle_dialog_def picked_in_def has_issued_foldl Let_def split: if_splits)
    qed
  qed
qed

lemma run_issues:
  "has_issued (st_issued (run ipc_step st ems)) k p \<Longrightarrow> has_issued (st_issued st) k p \<or> (\<exists>em\<in>set ems. picked_in em k p)"
proof (induction ems arbitrary: st)
  case (Cons em ems)
  then show ?case using step_issues[of st em k p] by fastforce
qed simp



text \<open>
  The bridge and the main process agree: a message the preload lets through is never refused by the main process for the shape
  of its argument, so from the application page the three root and location channels only fail when the sidecar does.
\<close>

lemma preload_shapes_accepted:
  assumes "preload to_str call = Inr (ch, arg, params)"
  shows "(ch = ChReveal \<longrightarrow> is_valid_book_id arg)
    \<and> (ch = ChOpenDataFolder \<or> ch = ChCopyDataPath \<longrightarrow> is_storage_root_id arg)
    \<and> (ch = ChOpenLibraryLocation \<or> ch = ChCopyLibraryLocationPath \<longrightarrow> is_valid_library_location_id arg)
    \<and> (ch = ChDialog \<longrightarrow> (\<exists>k. arg = Str (kind_name k)))
    \<and> (ch = ChCopyText \<longrightarrow> (\<exists>s. arg = Str s \<and> s \<noteq> ''''))
    \<and> ch \<noteq> ChEvent"
proof -
  have k: "\<exists>k. ''directory'' = kind_name k" "\<exists>k. ''sync-folder'' = kind_name k" "\<exists>k. ''book-file'' = kind_name k"
    "\<exists>k. ''book-files'' = kind_name k" "\<exists>k. ''cover-image'' = kind_name k"
    by (metis kind_name.simps)+
  show ?thesis using assms by (cases call) (auto simp: k split: if_splits js.splits)
qed

end
