(* ===== verification/WindowPolicy.thy ===== *)
theory WindowPolicy
  imports Startup PathSchema
begin

text \<open>
  \<open>electron/main/windowSecurity.ts\<close>, \<open>electron/shared/linkPolicy.ts\<close>, \<open>appCsp.ts\<close> and the parts of
  \<open>electron/main/index.ts\<close> that use them: where the window may navigate, which links reach the system
  browser, the permission rule, the renderer's content security policy, and the \<open>app://\<close> protocol
  that serves the built renderer. \<open>new URL\<close>, percent decoding and the file system are parameters.
\<close>

section \<open>Renderer isolation\<close>

definition RENDERER_ISOLATION :: "(string \<times> bool) list" where
  "RENDERER_ISOLATION =
     [(''contextIsolation'', True), (''nodeIntegration'', False), (''sandbox'', True), (''webSecurity'', True)]"

fun show_bool :: "bool \<Rightarrow> string" where
  "show_bool True = ''true''"
| "show_bool False = ''false''"

text \<open>\<open>to_str\<close> is \<open>String(actual)\<close>; \<open>None\<close> stands for missing preferences.\<close>

definition isolation_violations :: "(js \<Rightarrow> string) \<Rightarrow> (string \<times> js) list option \<Rightarrow> string list" where
  "isolation_violations to_str prefs =
     concat (map (\<lambda>(flag, expected).
        let actual = (case prefs of None \<Rightarrow> Undef | Some r \<Rightarrow> get_prop flag r) in
        if actual \<noteq> Bool expected
        then [flag @ '' must be '' @ show_bool expected @ '' (got '' @ to_str actual @ '')''] else []) RENDERER_ISOLATION)"

definition assert_renderer_isolation :: "(js \<Rightarrow> string) \<Rightarrow> (string \<times> js) list option \<Rightarrow> unit outcome" where
  "assert_renderer_isolation to_str prefs =
     (let violations = isolation_violations to_str prefs in
      require (violations = []) (''renderer isolation violated: '' @ join_with '', '' violations))"

section \<open>Navigation\<close>

definition same_origin :: "(string \<Rightarrow> url option) \<Rightarrow> string \<Rightarrow> string option \<Rightarrow> bool" where
  "same_origin new_url origin dev_server_url =
     (case dev_server_url of
        None \<Rightarrow> False
      | Some d \<Rightarrow> (case new_url d of None \<Rightarrow> False | Some v \<Rightarrow> origin = url_origin v))"

definition is_allowed_app_navigation :: "(string \<Rightarrow> url option) \<Rightarrow> string \<Rightarrow> string option \<Rightarrow> bool" where
  "is_allowed_app_navigation new_url raw dev_server_url =
     (case new_url raw of
        None \<Rightarrow> False
      | Some u \<Rightarrow>
          if url_protocol u = ''app:''
          then url_host u = ''bundle''
               \<and> (url_pathname u = ''/'' \<or> url_pathname u = ''/index.html'' \<or> starts_with (url_pathname u) ''/assets/'')
          else same_origin new_url (url_origin u) dev_server_url)"

section \<open>Permissions\<close>

definition origin_of_request_url :: "(string \<Rightarrow> url option) \<Rightarrow> string \<Rightarrow> string" where
  "origin_of_request_url new_url raw =
     (case new_url raw of
        None \<Rightarrow> ''''
      | Some u \<Rightarrow>
          if url_protocol u = ''app:''
          then (if url_host u = ''bundle'' then APP_ORIGIN else ''app://'' @ url_host u)
          else url_origin u)"

definition is_permission_allowed :: "(string \<Rightarrow> url option) \<Rightarrow> string \<Rightarrow> string \<Rightarrow> string option \<Rightarrow> bool" where
  "is_permission_allowed new_url permission requesting_origin dev_server_url =
     (if permission \<noteq> ''fullscreen'' then False
      else if requesting_origin = APP_ORIGIN then True
      else same_origin new_url requesting_origin dev_server_url)"

text \<open>The two handlers of \<open>index.ts\<close>.\<close>

definition permission_request :: "(string \<Rightarrow> url option) \<Rightarrow> string option \<Rightarrow> string \<Rightarrow> string \<Rightarrow> bool" where
  "permission_request new_url dev_server_url permission requesting_url =
     is_permission_allowed new_url permission (origin_of_request_url new_url requesting_url) dev_server_url"

definition permission_check :: "(string \<Rightarrow> url option) \<Rightarrow> string option \<Rightarrow> string \<Rightarrow> string \<Rightarrow> bool" where
  "permission_check new_url dev_server_url permission requesting_origin =
     is_permission_allowed new_url permission requesting_origin dev_server_url"

section \<open>External links\<close>

definition MAX_EXTERNAL_URL_LENGTH :: nat where "MAX_EXTERNAL_URL_LENGTH = 2048"
definition ALLOWED_PROTOCOLS :: "string list" where "ALLOWED_PROTOCOLS = [''http:'', ''https:'']"

definition parse_external_http_url :: "(string \<Rightarrow> url option) \<Rightarrow> js \<Rightarrow> string option" where
  "parse_external_http_url new_url raw =
     (case raw of
        Str s \<Rightarrow>
          (let trimmed = trim s in
           if trimmed = '''' \<or> MAX_EXTERNAL_URL_LENGTH < length trimmed then None
           else if list_ex is_control trimmed then None
           else (case new_url trimmed of
                   None \<Rightarrow> None
                 | Some u \<Rightarrow>
                     if url_protocol u \<notin> set ALLOWED_PROTOCOLS then None
                     else if url_hostname u = '''' then None
                     else if url_username u \<noteq> '''' \<or> url_password u \<noteq> '''' then None
                     else Some (url_href u)))
      | _ \<Rightarrow> None)"

text \<open>What the window's event handlers do with a URL.\<close>

datatype window_action = OpenExternal string | PreventDefault | DenyWindow

definition open_external_if_valid :: "(string \<Rightarrow> url option) \<Rightarrow> string \<Rightarrow> window_action list" where
  "open_external_if_valid new_url raw =
     (case parse_external_http_url new_url (Str raw) of None \<Rightarrow> [] | Some validated \<Rightarrow> [OpenExternal validated])"

definition window_open_handler :: "(string \<Rightarrow> url option) \<Rightarrow> string \<Rightarrow> window_action list" where
  "window_open_handler new_url raw = open_external_if_valid new_url raw @ [DenyWindow]"

definition will_navigate :: "(string \<Rightarrow> url option) \<Rightarrow> string option \<Rightarrow> string \<Rightarrow> window_action list" where
  "will_navigate new_url dev_server_url raw =
     (if is_allowed_app_navigation new_url raw dev_server_url then []
      else PreventDefault # open_external_if_valid new_url raw)"

section \<open>The content security policy\<close>

datatype csp_variant = Production | Development

definition production_directives :: "string list" where
  "production_directives =
     [''default-src '' @ quoted ''none'',
      ''script-src '' @ quoted ''self'' @ '' '' @ quoted ''wasm-unsafe-eval'' @ '' blob:'',
      ''style-src '' @ quoted ''self'' @ '' tuxbooks: blob: '' @ quoted ''unsafe-inline'',
      ''img-src '' @ quoted ''self'' @ '' tuxbooks: data: blob:'',
      ''font-src '' @ quoted ''self'' @ '' tuxbooks: blob: data:'',
      ''connect-src '' @ quoted ''self'' @ '' tuxbooks:'',
      ''frame-src '' @ quoted ''self'' @ '' blob:'',
      ''worker-src '' @ quoted ''self'' @ '' blob:'',
      ''media-src '' @ quoted ''self'' @ '' tuxbooks: blob:'',
      ''object-src '' @ quoted ''none'',
      ''base-uri '' @ quoted ''self'' @ '' tuxbooks:'',
      ''form-action '' @ quoted ''none'',
      ''frame-ancestors '' @ quoted ''none'']"

definition development_directives :: "string list" where
  "development_directives =
     [''script-src '' @ quoted ''self'' @ '' '' @ quoted ''wasm-unsafe-eval'' @ '' blob: '' @ quoted ''unsafe-inline'',
      ''style-src '' @ quoted ''self'' @ '' tuxbooks: blob: '' @ quoted ''unsafe-inline'',
      ''connect-src '' @ quoted ''self'' @ '' tuxbooks: ws:'']"

text \<open>\<open>directive.split(" ")[0]\<close>.\<close>

definition directive_name :: "string \<Rightarrow> string" where
  "directive_name d = hd (split_on CHR '' '' d)"

definition app_ui_csp :: "csp_variant \<Rightarrow> string list" where
  "app_ui_csp variant =
     (case variant of
        Production \<Rightarrow> production_directives
      | Development \<Rightarrow>
          (let overridden = map directive_name development_directives in
           filter (\<lambda>d. directive_name d \<notin> set overridden) production_directives @ development_directives))"

definition app_ui_csp_text :: "csp_variant \<Rightarrow> string" where
  "app_ui_csp_text variant = join_with ''; '' (app_ui_csp variant)"
section \<open>The window and the application protocol\<close>

text \<open>\<open>path.join\<close> of any number of parts, \<open>path.dirname\<close> and \<open>path.extname\<close> (of a path without a trailing separator).\<close>

definition path_join_all :: "string list \<Rightarrow> string" where
  "path_join_all parts =
     (let kept = filter (\<lambda>s. s \<noteq> '''') parts in if kept = [] then ''.'' else normalize (join_with ''/'' kept))"

definition dirname :: "string \<Rightarrow> string" where
  "dirname p =
     (if p = '''' then ''.''
      else let before = dropWhile (\<lambda>c. c \<noteq> slash) (dropWhile (\<lambda>c. c = slash) (rev (tl p))) in
        if before = [] then (if is_absolute p then ''/'' else ''.'')
        else if is_absolute p \<and> length before = 1 then ''//''
        else hd p # rev (tl before))"

definition extname :: "string \<Rightarrow> string" where
  "extname p =
     (let base = after_last slash p; ext = after_last CHR ''.'' base;
          stem = take (length base - Suc (length ext)) base in
      if CHR ''.'' \<notin> set base \<or> stem = '''' \<or> base = ''..'' then '''' else CHR ''.'' # ext)"

record environment =
  ev_test_database :: "string option"
  ev_xdg_data_home :: "string option"
  ev_home :: string

definition nonempty :: "string option \<Rightarrow> bool" where
  "nonempty v = (case v of None \<Rightarrow> False | Some s \<Rightarrow> s \<noteq> '''')"

definition app_data_dir :: "environment \<Rightarrow> string" where
  "app_data_dir e =
     dirname
       (if nonempty (ev_test_database e) then the (ev_test_database e)
        else path_join_all
          [if nonempty (ev_xdg_data_home e) then the (ev_xdg_data_home e) else path_join (ev_home e) ''.local/share'',
           ''com.tuxbooks.app'', ''tuxbooks.db''])"

definition covers_dir :: "environment \<Rightarrow> string" where
  "covers_dir e = path_join (app_data_dir e) ''covers''"

definition app_mime_by_extension :: "(string \<times> string) list" where
  "app_mime_by_extension =
     [(''.html'', ''text/html''), (''.js'', ''text/javascript''), (''.mjs'', ''text/javascript''), (''.css'', ''text/css''),
      (''.json'', ''application/json''), (''.svg'', ''image/svg+xml''), (''.png'', ''image/png''), (''.jpg'', ''image/jpeg''),
      (''.jpeg'', ''image/jpeg''), (''.gif'', ''image/gif''), (''.webp'', ''image/webp''), (''.ico'', ''image/x-icon''),
      (''.woff'', ''font/woff''), (''.woff2'', ''font/woff2''), (''.ttf'', ''font/ttf''), (''.otf'', ''font/otf''),
      (''.wasm'', ''application/wasm''), (''.map'', ''application/json''), (''.txt'', ''text/plain'')]"

text \<open>The file system as the handler sees it: \<open>statSync\<close> and \<open>readFileSync\<close> throw with \<open>None\<close>.\<close>

record app_fs =
  af_exists :: "string \<Rightarrow> bool"
  af_is_directory :: "string \<Rightarrow> bool option"
  af_read :: "string \<Rightarrow> nat list option"

datatype app_response =
    AppNotFound
  | AppOk (app_file: string) (app_headers: "(string \<times> string) list") (app_body: "nat list")

definition app_file_for :: "app_fs \<Rightarrow> string \<Rightarrow> string \<Rightarrow> string \<Rightarrow> string option" where
  "app_file_for fs cwd dist_dir relative =
     (let resolved = resolve cwd [dist_dir, relative]; index = path_join dist_dir ''index.html'' in
      if relative = '''' \<or> (\<not> starts_with resolved (dist_dir @ ''/'') \<and> resolved \<noteq> dist_dir) then Some index
      else if \<not> af_exists fs resolved then Some index
      else (case af_is_directory fs resolved of
              None \<Rightarrow> None
            | Some is_dir \<Rightarrow> Some (if is_dir then index else resolved)))"

definition handle_app_request ::
    "(string \<Rightarrow> url option) \<Rightarrow> (string \<Rightarrow> string option) \<Rightarrow> app_fs \<Rightarrow> string \<Rightarrow> string \<Rightarrow> string \<Rightarrow> app_response" where
  "handle_app_request new_url decode fs cwd dist_dir raw =
     (case new_url raw of
        None \<Rightarrow> AppNotFound
      | Some u \<Rightarrow>
          if url_host u \<noteq> ''bundle'' then AppNotFound
          else (case decode (drop 1 (url_pathname u)) of
                  None \<Rightarrow> AppNotFound
                | Some relative \<Rightarrow>
                    (case app_file_for fs cwd dist_dir relative of
                       None \<Rightarrow> AppNotFound
                     | Some file \<Rightarrow>
                         (case af_read fs file of
                            None \<Rightarrow> AppNotFound
                          | Some bytes \<Rightarrow>
                              AppOk file
                                [(''content-type'', case map_of app_mime_by_extension (to_lower (extname file)) of
                                     None \<Rightarrow> octet_stream | Some m \<Rightarrow> m),
                                 (''content-length'', show_nat (length bytes)),
                                 (''content-security-policy'', app_ui_csp_text Production)] bytes))))"

text \<open>
  \<open>forward\<close>: an event goes to every window whose frame is alive; a send that throws is dropped. A
  window is given by whether it and its contents are destroyed and whether the send succeeds.
\<close>

record live_window =
  lw_id :: nat
  lw_destroyed :: bool
  lw_contents_destroyed :: bool
  lw_send_ok :: bool

definition forward :: "live_window list \<Rightarrow> string \<Rightarrow> js \<Rightarrow> (nat \<times> string \<times> js) list" where
  "forward windows name payload =
     concat (map (\<lambda>w.
        if lw_destroyed w \<or> lw_contents_destroyed w then []
        else if lw_send_ok w then [(lw_id w, name, payload)] else []) windows)"

section \<open>Only web links leave the window\<close>

text \<open>What the handlers rely on of \<open>new URL\<close>: an http(s) URL serialises with its scheme and an authority.\<close>

definition web_urls_serialise :: "(string \<Rightarrow> url option) \<Rightarrow> bool" where
  "web_urls_serialise new_url \<longleftrightarrow>
     (\<forall>s u. new_url s = Some u \<and> url_protocol u \<in> {''http:'', ''https:''} \<longrightarrow> starts_with (url_href u) (url_protocol u @ ''//''))"

text \<open>Whatever URL a page opens or navigates to, the system browser is only ever given an http or https address without
  user name or password, in its serialised form; a new window is always denied, and a navigation either proceeds inside the app (or
  the configured dev server) without touching the browser or is prevented.\<close>

theorem external_links_web_only:
  assumes "web_urls_serialise new_url"
  shows "(OpenExternal target \<in> set (window_open_handler new_url raw) \<union> set (will_navigate new_url dev raw) \<longrightarrow>
            (starts_with target ''http://'' \<or> starts_with target ''https://'')
          \<and> (\<exists>s u. new_url s = Some u \<and> target = url_href u \<and> url_username u = '''' \<and> url_password u = '''' \<and> url_hostname u \<noteq> ''''))
     \<and> DenyWindow \<in> set (window_open_handler new_url raw)
     \<and> (will_navigate new_url dev raw = [] \<longleftrightarrow> is_allowed_app_navigation new_url raw dev)
     \<and> (will_navigate new_url dev raw \<noteq> [] \<longrightarrow> hd (will_navigate new_url dev raw) = PreventDefault)"
proof -
  have p: "(starts_with t ''http://'' \<or> starts_with t ''https://'')
        \<and> (\<exists>s u. new_url s = Some u \<and> t = url_href u \<and> url_username u = '''' \<and> url_password u = '''' \<and> url_hostname u \<noteq> '''')"
    if t: "parse_external_http_url new_url v = Some t" for v t
  proof -
    obtain s u where u: "new_url s = Some u" "t = url_href u" "url_username u = ''''" "url_password u = ''''"
      "url_hostname u \<noteq> ''''" "url_protocol u \<in> {''http:'', ''https:''}"
      using t by (auto simp: parse_external_http_url_def ALLOWED_PROTOCOLS_def Let_def split: js.splits if_splits option.splits)
    then have "starts_with (url_href u) (url_protocol u @ ''//'')"
      using assms unfolding web_urls_serialise_def by blast
    then show ?thesis using u by auto
  qed
  have o: "OpenExternal t \<in> set (open_external_if_valid new_url r) \<Longrightarrow> parse_external_http_url new_url (Str r) = Some t" for t r
    by (auto simp: open_external_if_valid_def split: option.splits)
  show ?thesis
    using p o by (fastforce simp: window_open_handler_def will_navigate_def split: if_splits)
qed

definition demo_new_url :: "string \<Rightarrow> url option" where
  "demo_new_url s =
     (if s = ''https://example.org'' then
        Some \<lparr>url_protocol = ''https:'', url_host = ''example.org'', url_hostname = ''example.org'', url_pathname = ''/'',
          url_origin = ''https://example.org'', url_href = ''https://example.org/'', url_username = '''', url_password = '''', url_format = None\<rparr>
      else if s = ''app://bundle/index.html'' then
        Some \<lparr>url_protocol = ''app:'', url_host = ''bundle'', url_hostname = ''bundle'', url_pathname = ''/index.html'',
          url_origin = ''null'', url_href = s, url_username = '''', url_password = '''', url_format = None\<rparr>
      else None)"

lemma trim_example: "trim ''https://example.org'' = ''https://example.org''"
  by (rule trim_id) (simp_all add: is_space_def code_of_def)

theorem external_links_web_only_witness:
  "window_open_handler demo_new_url ''https://example.org'' = [OpenExternal ''https://example.org/'', DenyWindow]
   \<and> starts_with ''https://example.org/'' ''https://''"
proof -
  have ok: "web_urls_serialise demo_new_url"
    by (simp add: web_urls_serialise_def demo_new_url_def starts_with_def)
  have w: "window_open_handler demo_new_url ''https://example.org'' = [OpenExternal ''https://example.org/'', DenyWindow]"
    by (simp add: window_open_handler_def open_external_if_valid_def parse_external_http_url_def trim_example
        MAX_EXTERNAL_URL_LENGTH_def is_control_def code_of_def demo_new_url_def ALLOWED_PROTOCOLS_def Let_def)
  then show ?thesis
    using external_links_web_only[OF ok, of "''https://example.org/''" "''https://example.org''" None]
    by (simp add: starts_with_def)
qed

section \<open>One trust boundary\<close>

text \<open>What the rules rely on of \<open>URL.origin\<close>: it is never empty, and never an \<open>app:\<close> origin (a custom scheme serialises as \<open>null\<close>).\<close>

definition origins_opaque :: "(string \<Rightarrow> url option) \<Rightarrow> bool" where
  "origins_opaque new_url \<longleftrightarrow>
     (\<forall>s u. new_url s = Some u \<longrightarrow> url_origin u \<noteq> '''' \<and> \<not> starts_with (url_origin u) ''app://'')"

text \<open>The three rules draw one boundary: a page is granted fullscreen exactly when its messages pass the IPC sender check, every page
  the window may navigate to is such a page, no other permission is ever granted, and the request and the check handler agree on it.\<close>

theorem one_trust_boundary:
  assumes "origins_opaque new_url"
  shows "permission_request new_url dev ''fullscreen'' raw = is_allowed_sender_url new_url raw dev
     \<and> (is_allowed_app_navigation new_url raw dev \<longrightarrow> is_allowed_sender_url new_url raw dev)
     \<and> (permission \<noteq> ''fullscreen'' \<longrightarrow> \<not> permission_request new_url dev permission raw \<and> \<not> permission_check new_url dev permission origin)
     \<and> permission_check new_url dev permission (origin_of_request_url new_url raw) = permission_request new_url dev permission raw
     \<and> (dev = None \<longrightarrow> is_allowed_sender_url new_url raw dev
          = (\<exists>u. new_url raw = Some u \<and> url_protocol u = ''app:'' \<and> url_host u = ''bundle''))"
proof -
  have o: "url_origin v \<noteq> ''''" "url_origin v \<noteq> ''app://'' @ h" if "new_url d = Some v" for d v h
    using assms that unfolding origins_opaque_def by (metis starts_with_append)+
  have o2: "url_origin v \<noteq> APP_ORIGIN" if "new_url d = Some v" for d v
    using o(2)[OF that, of "''bundle''"] by (simp add: APP_ORIGIN_def)
  have "permission_request new_url dev ''fullscreen'' raw = is_allowed_sender_url new_url raw dev"
  proof (cases "new_url raw")
    case None
    then show ?thesis
      by (auto simp: permission_request_def is_permission_allowed_def origin_of_request_url_def is_allowed_sender_url_def
          same_origin_def APP_ORIGIN_def split: option.splits) (metis o(1))
  next
    case (Some u)
    then show ?thesis using o2[OF Some] o(2)
      by (auto simp: permission_request_def is_permission_allowed_def origin_of_request_url_def is_allowed_sender_url_def
          same_origin_def APP_ORIGIN_def split: option.splits) (metis append_Cons)+
  qed
  then show ?thesis
    by (auto simp: permission_request_def permission_check_def is_permission_allowed_def is_allowed_app_navigation_def
        is_allowed_sender_url_def same_origin_def split: option.splits if_splits)
qed

theorem one_trust_boundary_witness:
  "permission_request demo_new_url None ''fullscreen'' ''app://bundle/index.html''
   \<and> \<not> permission_request demo_new_url None ''media'' ''app://bundle/index.html''
   \<and> \<not> permission_request demo_new_url None ''fullscreen'' ''https://example.org''"
proof -
  have ok: "origins_opaque demo_new_url"
    by (simp add: origins_opaque_def demo_new_url_def starts_with_def)
  show ?thesis
    using one_trust_boundary[OF ok, of None "''app://bundle/index.html''" "''media''" "''''"]
      one_trust_boundary[OF ok, of None "''https://example.org''" "''media''" "''''"]
    by (simp add: demo_new_url_def)
qed

section \<open>The application protocol stays in the built bundle\<close>



text \<open>The directives of each variant: the development policy names every directive of the production policy exactly once.\<close>

theorem csp_variants:
  "distinct (map directive_name (app_ui_csp Production)) \<and> distinct (map directive_name (app_ui_csp Development))
   \<and> set (map directive_name (app_ui_csp Development)) = set (map directive_name (app_ui_csp Production))
   \<and> list_all (\<lambda>d. \<not> contains d (quoted ''unsafe-eval'')) (app_ui_csp Production @ app_ui_csp Development)
   \<and> filter (\<lambda>d. contains d (quoted ''unsafe-inline'')) (app_ui_csp Production)
       = [''style-src '' @ quoted ''self'' @ '' tuxbooks: blob: '' @ quoted ''unsafe-inline'']
   \<and> filter (\<lambda>d. d \<notin> set (app_ui_csp Production)) (app_ui_csp Development)
       = [''script-src '' @ quoted ''self'' @ '' '' @ quoted ''wasm-unsafe-eval'' @ '' blob: '' @ quoted ''unsafe-inline'',
          ''connect-src '' @ quoted ''self'' @ '' tuxbooks: ws:'']"
  by code_simp

end
