(* ===== verification/Appearance.thy ===== *)
theory Appearance
  imports IpcPolicy
begin

text \<open>
  \<open>frontend/src/lib/epub/appearance.ts\<close>, \<open>highlightPalette.ts\<close> and the pure part of \<open>theme.ts\<close>: the
  reading scales and how they reach the engine, the theme presets and their contrast, the variables
  the reader chrome takes from a preset, and the highlight inks. Scale values are exact rationals,
  luminances are reals (they are powers with exponent 2.4), and an alpha is a number of hundredths.
\<close>

section \<open>Scales\<close>

definition EPUB_FONT_SIZE_SCALE_PERCENT :: "rat list" where
  "EPUB_FONT_SIZE_SCALE_PERCENT =
     [75, 175/2, 100, 225/2, 275/2, 150, 325/2, 175, 200, 225, 250, 275, 300, 350, 400]"

definition EPUB_FONT_RATIO_RANGE :: "rat \<times> rat" where "EPUB_FONT_RATIO_RANGE = (7/10, 4)"
definition EPUB_DEFAULT_FONT_SIZE_PERCENT :: rat where "EPUB_DEFAULT_FONT_SIZE_PERCENT = 100"

definition epub_font_size_ratio :: "rat \<Rightarrow> rat" where
  "epub_font_size_ratio percent = percent / 100"

definition is_epub_font_size_step :: "rat \<Rightarrow> bool" where
  "is_epub_font_size_step v = (v \<in> set EPUB_FONT_SIZE_SCALE_PERCENT)"

text \<open>The loop keeps the nearest step so far and its distance; \<open>None\<close> is the initial infinity.\<close>

fun nearest_loop :: "rat \<Rightarrow> rat list \<Rightarrow> rat \<Rightarrow> rat option \<Rightarrow> rat" where
  "nearest_loop v [] nearest best = nearest"
| "nearest_loop v (step # steps) nearest best =
     (let distance = \<bar>v - step\<bar> in
      if best = None \<or> distance < the best then nearest_loop v steps step (Some distance)
      else nearest_loop v steps nearest best)"

definition nearest_epub_scale_step :: "rat list \<Rightarrow> rat \<Rightarrow> rat" where
  "nearest_epub_scale_step scale v = nearest_loop v scale (hd scale) None"

definition nearest_epub_font_size :: "rat \<Rightarrow> rat" where
  "nearest_epub_font_size = nearest_epub_scale_step EPUB_FONT_SIZE_SCALE_PERCENT"

definition EPUB_LINE_HEIGHT_SCALE :: "rat list" where
  "EPUB_LINE_HEIGHT_SCALE = [0, 1, 9/8, 5/4, 27/20, 3/2, 33/20, 7/4, 2]"

definition EPUB_DEFAULT_LINE_HEIGHT :: rat where "EPUB_DEFAULT_LINE_HEIGHT = 0"

definition epub_line_height_preference :: "rat \<Rightarrow> rat option" where
  "epub_line_height_preference step = (if step = 0 then None else Some step)"

definition nearest_epub_line_height :: "rat \<Rightarrow> rat" where
  "nearest_epub_line_height = nearest_epub_scale_step EPUB_LINE_HEIGHT_SCALE"

definition epub_spacing_preference :: "rat \<Rightarrow> rat option" where
  "epub_spacing_preference step = (if step = 0 then None else Some step)"

definition EPUB_WORD_SPACING_SCALE :: "rat list" where
  "EPUB_WORD_SPACING_SCALE =
     [0, 1/8, 1/4, 3/8, 1/2, 5/8, 3/4, 7/8, 1, 9/8, 5/4, 11/8, 3/2, 13/8, 7/4, 15/8, 2]"

definition nearest_epub_word_spacing :: "rat \<Rightarrow> rat" where
  "nearest_epub_word_spacing = nearest_epub_scale_step EPUB_WORD_SPACING_SCALE"

definition EPUB_LETTER_SPACING_SCALE :: "rat list" where
  "EPUB_LETTER_SPACING_SCALE = [0, 1/8, 1/4, 3/8, 1/2, 5/8, 3/4, 7/8, 1]"

definition nearest_epub_letter_spacing :: "rat \<Rightarrow> rat" where
  "nearest_epub_letter_spacing = nearest_epub_scale_step EPUB_LETTER_SPACING_SCALE"

definition EPUB_PARAGRAPH_SPACING_SCALE :: "rat list" where
  "EPUB_PARAGRAPH_SPACING_SCALE = [0, 1/4, 1/2, 3/4, 1, 5/4, 3/2, 7/4, 2, 9/4, 5/2, 11/4, 3]"

definition nearest_epub_paragraph_spacing :: "rat \<Rightarrow> rat" where
  "nearest_epub_paragraph_spacing = nearest_epub_scale_step EPUB_PARAGRAPH_SPACING_SCALE"

definition EPUB_PAGE_GUTTER_SCALE_PX :: "rat list" where
  "EPUB_PAGE_GUTTER_SCALE_PX = [0, 10, 20, 30, 40, 60]"

definition EPUB_DEFAULT_PAGE_GUTTER_PX :: rat where "EPUB_DEFAULT_PAGE_GUTTER_PX = 10"

definition nearest_epub_page_gutter :: "rat \<Rightarrow> rat" where
  "nearest_epub_page_gutter = nearest_epub_scale_step EPUB_PAGE_GUTTER_SCALE_PX"

section \<open>Fonts, alignment and columns\<close>

text \<open>
  \<open>EPUB_FONT_FAMILIES\<close>. A family is kept as its key; the lookup also finds the properties every object
  inherits, whose value is then not a string (\<open>None\<close> inside).
\<close>

definition dquote :: "string \<Rightarrow> string" where
  "dquote s = [CHR 0x22] @ s @ [CHR 0x22]"

definition squote :: "string \<Rightarrow> string" where
  "squote s = [CHR 0x27] @ s @ [CHR 0x27]"

definition EPUB_FONT_FAMILIES :: "(string \<times> string) list" where
  "EPUB_FONT_FAMILIES =
     [(''serif'', ''Georgia, '' @ squote ''Times New Roman'' @ '', serif''),
      (''sans'', ''var(--RS__sansTf)''),
      (''humanist'', ''var(--RS__humanistTf)''),
      (''old-style'', ''var(--RS__oldStyleTf)''),
      (''modern'', ''var(--RS__modernTf)''),
      (''duospace'', dquote ''IA Writer Duospace'' @ '', '' @ dquote ''SF Mono'' @ '', '' @ dquote ''Cascadia Code''
         @ '', Consolas, '' @ dquote ''DejaVu Sans Mono'' @ '', monospace''),
      (''readable'', dquote ''AccessibleDfA'' @ '', Verdana, Tahoma, '' @ dquote ''Comic Sans MS'' @ '', sans-serif'')]"

definition object_prototype_keys :: "string list" where
  "object_prototype_keys =
     [''constructor'', ''__proto__'', ''hasOwnProperty'', ''isPrototypeOf'', ''propertyIsEnumerable'', ''toLocaleString'',
      ''toString'', ''valueOf'', ''__defineGetter__'', ''__defineSetter__'', ''__lookupGetter__'', ''__lookupSetter__'']"

text \<open>\<open>k in EPUB_FONT_FAMILIES\<close>.\<close>

definition in_font_families :: "string \<Rightarrow> bool" where
  "in_font_families k = (k \<in> fst ` set EPUB_FONT_FAMILIES \<or> k \<in> set object_prototype_keys)"

definition epub_font_family_preference :: "string option \<Rightarrow> string option option" where
  "epub_font_family_preference family =
     (case family of None \<Rightarrow> None | Some k \<Rightarrow> Some (map_of EPUB_FONT_FAMILIES k))"

datatype text_alignment = AlignAuto | AlignLeft | AlignJustify | AlignRight | AlignStart

fun alignment_name :: "text_alignment \<Rightarrow> string" where
  "alignment_name AlignAuto = ''auto''"
| "alignment_name AlignLeft = ''left''"
| "alignment_name AlignJustify = ''justify''"
| "alignment_name AlignRight = ''right''"
| "alignment_name AlignStart = ''start''"

definition EPUB_TEXT_ALIGNMENTS :: "text_alignment list" where
  "EPUB_TEXT_ALIGNMENTS = [AlignAuto, AlignLeft, AlignJustify, AlignRight, AlignStart]"

definition EPUB_DEFAULT_TEXT_ALIGNMENT :: text_alignment where "EPUB_DEFAULT_TEXT_ALIGNMENT = AlignAuto"

definition epub_text_align_preference :: "text_alignment option \<Rightarrow> text_alignment option" where
  "epub_text_align_preference a = (if a = None \<or> a = Some AlignAuto then None else a)"

definition EPUB_COLUMN_COUNTS :: "int list" where "EPUB_COLUMN_COUNTS = [1, 2, 3, 4]"
definition EPUB_DEFAULT_COLUMN_COUNT :: int where "EPUB_DEFAULT_COLUMN_COUNT = 2"
definition EPUB_BOOK_MODE_COLUMN_COUNT :: int where "EPUB_BOOK_MODE_COLUMN_COUNT = 2"

definition is_epub_column_count :: "int \<Rightarrow> bool" where
  "is_epub_column_count v = (v \<in> set EPUB_COLUMN_COUNTS)"

text \<open>\<open>Math.round\<close> rounds halves up.\<close>

definition round_half_up :: "rat \<Rightarrow> int" where
  "round_half_up x = \<lfloor>x + 1/2\<rfloor>"

definition clamp_epub_column_count :: "rat \<Rightarrow> int" where
  "clamp_epub_column_count v = min 4 (max 1 (round_half_up v))"

datatype document_layout = FixedLayout | Reflowable | Scrolled

definition epub_column_count_preference :: "document_layout \<Rightarrow> rat \<Rightarrow> int option" where
  "epub_column_count_preference l columns = (if l = FixedLayout then None else Some (clamp_epub_column_count columns))"

section \<open>Themes\<close>

datatype epub_theme = ThDefault | ThLight | ThPaper | ThDark | ThContrast | ThBlue | ThMint

datatype reader_theme = Preset epub_theme | Invert

fun theme_name :: "epub_theme \<Rightarrow> string" where
  "theme_name ThDefault = ''default''"
| "theme_name ThLight = ''light''"
| "theme_name ThPaper = ''paper''"
| "theme_name ThDark = ''dark''"
| "theme_name ThContrast = ''contrast''"
| "theme_name ThBlue = ''blue-contrast''"
| "theme_name ThMint = ''mint-contrast''"

fun reader_theme_name :: "reader_theme \<Rightarrow> string" where
  "reader_theme_name (Preset t) = theme_name t"
| "reader_theme_name Invert = ''invert''"

definition epub_surface_theme :: "reader_theme \<Rightarrow> epub_theme" where
  "epub_surface_theme theme = (case theme of Invert \<Rightarrow> ThDark | Preset t \<Rightarrow> t)"

definition EPUB_DEFAULT_THEME :: epub_theme where "EPUB_DEFAULT_THEME = ThDefault"

record theme_colors =
  tc_background :: string
  tc_text :: string
  tc_link :: string
  tc_visited :: string
  tc_selection_background :: string
  tc_selection_text :: string

fun EPUB_THEME_LABELS :: "epub_theme \<Rightarrow> string" where
  "EPUB_THEME_LABELS ThDefault = ''Default''"
| "EPUB_THEME_LABELS ThLight = ''Light''"
| "EPUB_THEME_LABELS ThPaper = ''Paper''"
| "EPUB_THEME_LABELS ThDark = ''Dark''"
| "EPUB_THEME_LABELS ThContrast = ''High contrast''"
| "EPUB_THEME_LABELS ThBlue = ''Blue''"
| "EPUB_THEME_LABELS ThMint = ''Mint''"

datatype theme_family = LightFamily | DarkFamily

fun EPUB_THEME_COLOR_SCHEMES :: "epub_theme \<Rightarrow> theme_family" where
  "EPUB_THEME_COLOR_SCHEMES ThDefault = LightFamily"
| "EPUB_THEME_COLOR_SCHEMES ThLight = LightFamily"
| "EPUB_THEME_COLOR_SCHEMES ThPaper = LightFamily"
| "EPUB_THEME_COLOR_SCHEMES ThDark = DarkFamily"
| "EPUB_THEME_COLOR_SCHEMES ThContrast = DarkFamily"
| "EPUB_THEME_COLOR_SCHEMES ThBlue = DarkFamily"
| "EPUB_THEME_COLOR_SCHEMES ThMint = LightFamily"

definition palette :: "string \<Rightarrow> string \<Rightarrow> string \<Rightarrow> string \<Rightarrow> string \<Rightarrow> string \<Rightarrow> theme_colors" where
  "palette background text link visited selection_background selection_text =
     \<lparr>tc_background = background, tc_text = text, tc_link = link, tc_visited = visited,
      tc_selection_background = selection_background, tc_selection_text = selection_text\<rparr>"

text \<open>\<open>EPUB_THEME_COLORS\<close> with \<open>epubThemeColors\<close>: \<open>None\<close> for the default.\<close>

fun epub_theme_colors :: "epub_theme \<Rightarrow> theme_colors option" where
  "epub_theme_colors ThDefault = None"
| "epub_theme_colors ThLight = Some (palette ''#ffffff'' ''#1f2328'' ''#0b62c4'' ''#551a8b'' ''#86b6fe'' ''#1f2328'')"
| "epub_theme_colors ThPaper = Some (palette ''#f6f0e4'' ''#3a332a'' ''#7c5b2a'' ''#551a8b'' ''#86b6fe'' ''#3a332a'')"
| "epub_theme_colors ThDark = Some (palette ''#101013'' ''#e4e4e7'' ''#7ab7ff'' ''#c3b0f5'' ''#4a5f9e'' ''#ffffff'')"
| "epub_theme_colors ThContrast = Some (palette ''#000000'' ''#ffff00'' ''#66b2ff'' ''#c5a3e0'' ''#4a5f9e'' ''#ffffff'')"
| "epub_theme_colors ThBlue = Some (palette ''#181842'' ''#ffffff'' ''#7ab7ff'' ''#c5a3e0'' ''#4a5f9e'' ''#ffffff'')"
| "epub_theme_colors ThMint = Some (palette ''#c5e7cd'' ''#000000'' ''#0000ee'' ''#551a8b'' ''#86b6fe'' ''#000000'')"

fun EPUB_THEME_ORDER :: "epub_theme \<Rightarrow> int" where
  "EPUB_THEME_ORDER ThDefault = 0"
| "EPUB_THEME_ORDER ThLight = 1"
| "EPUB_THEME_ORDER ThDark = 2"
| "EPUB_THEME_ORDER ThPaper = 3"
| "EPUB_THEME_ORDER ThContrast = 4"
| "EPUB_THEME_ORDER ThBlue = 5"
| "EPUB_THEME_ORDER ThMint = 6"

text \<open>The default, then the keys of the palette in its order, sorted by the menu order.\<close>

definition EPUB_THEME_NAMES :: "epub_theme list" where
  "EPUB_THEME_NAMES =
     js_sort (\<lambda>a b. EPUB_THEME_ORDER a - EPUB_THEME_ORDER b \<le> 0)
       [ThDefault, ThLight, ThPaper, ThDark, ThContrast, ThBlue, ThMint]"

definition epub_theme_background :: "epub_theme \<Rightarrow> string option" where
  "epub_theme_background theme = map_option tc_background (epub_theme_colors theme)"

definition epub_theme_color_scheme :: "epub_theme \<Rightarrow> theme_family" where
  "epub_theme_color_scheme theme = EPUB_THEME_COLOR_SCHEMES theme"

section \<open>Colors and contrast\<close>

definition hex_digit :: "char \<Rightarrow> bool" where
  "hex_digit c = (is_digit c \<or> (97 \<le> code_of c \<and> code_of c \<le> 102) \<or> (65 \<le> code_of c \<and> code_of c \<le> 70))"

definition hex_digit_val :: "char \<Rightarrow> nat" where
  "hex_digit_val c =
     (if is_digit c then code_of c - 48 else if 97 \<le> code_of c then code_of c - 87 else code_of c - 55)"

text \<open>\<open>parseInt(s, 16)\<close> of the leading hexadecimal digits.\<close>

definition parse_hex :: "string \<Rightarrow> nat" where
  "parse_hex s = foldl (\<lambda>n c. 16 * n + hex_digit_val c) 0 (takeWhile hex_digit s)"

definition is_epub_hex_color :: "string \<Rightarrow> bool" where
  "is_epub_hex_color v = (length v = 7 \<and> hd v = CHR ''#'' \<and> list_all hex_digit (tl v))"

definition hex_channel :: "string \<Rightarrow> nat \<Rightarrow> nat" where
  "hex_channel hex offset = parse_hex (take 2 (drop offset hex))"

definition linear_channel :: "nat \<Rightarrow> real" where
  "linear_channel n =
     (let channel = real n / 255 in
      if channel \<le> 3928 / 100000 then channel / (1292 / 100) else ((channel + 55 / 1000) / (1055 / 1000)) powr (24 / 10))"

definition luminance :: "string \<Rightarrow> real" where
  "luminance hex =
     2126 / 10000 * linear_channel (hex_channel hex 1) + 7152 / 10000 * linear_channel (hex_channel hex 3)
       + 722 / 10000 * linear_channel (hex_channel hex 5)"

definition epub_contrast_ratio :: "string \<Rightarrow> string \<Rightarrow> real" where
  "epub_contrast_ratio foreground background =
     (let lf = luminance foreground; lb = luminance background in (max lf lb + 5 / 100) / (min lf lb + 5 / 100))"

definition epub_foreground_reference_background :: "epub_theme \<Rightarrow> string" where
  "epub_foreground_reference_background theme =
     (case epub_theme_background theme of None \<Rightarrow> ''#ffffff'' | Some b \<Rightarrow> b)"

definition EPUB_FOREGROUND_AA_RATIO :: real where "EPUB_FOREGROUND_AA_RATIO = 45 / 10"

definition epub_foreground_fits_theme :: "string option \<Rightarrow> epub_theme \<Rightarrow> bool" where
  "epub_foreground_fits_theme foreground theme =
     (case foreground of
        None \<Rightarrow> True
      | Some c \<Rightarrow> EPUB_FOREGROUND_AA_RATIO \<le> epub_contrast_ratio c (epub_foreground_reference_background theme))"

definition EPUB_FOREGROUND_SWATCHES :: "(string \<times> string) list" where
  "EPUB_FOREGROUND_SWATCHES =
     [(''#1f3a6e'', ''Navy''), (''#6b2737'', ''Maroon''), (''#1e5631'', ''Forest''),
      (''#f5efe0'', ''Parchment''), (''#b8d4c8'', ''Sage''), (''#e6c98a'', ''Amber'')]"

definition epub_foreground_preference :: "string option \<Rightarrow> string option" where
  "epub_foreground_preference foreground =
     (case foreground of None \<Rightarrow> None | Some c \<Rightarrow> if is_epub_hex_color c then Some (to_lower c) else None)"

text \<open>A number of hundredths as JavaScript prints it.\<close>

definition show_hundredths :: "nat \<Rightarrow> string" where
  "show_hundredths n =
     (if n mod 100 = 0 then show_nat (n div 100)
      else show_nat (n div 100) @ ''.'' @
        (if n mod 10 = 0 then show_nat (n mod 100 div 10)
         else if n mod 100 < 10 then ''0'' @ show_nat (n mod 100) else show_nat (n mod 100)))"

definition hex_with_alpha :: "string \<Rightarrow> nat \<Rightarrow> string option" where
  "hex_with_alpha hex alpha =
     (if \<not> is_epub_hex_color hex then None
      else Some (''rgba('' @ show_nat (hex_channel hex 1) @ '', '' @ show_nat (hex_channel hex 3) @ '', ''
                  @ show_nat (hex_channel hex 5) @ '', '' @ show_hundredths alpha @ '')''))"

definition reader_scrollbar_color :: "epub_theme \<Rightarrow> string option" where
  "reader_scrollbar_color theme =
     (case epub_theme_colors theme of
        None \<Rightarrow> None
      | Some colors \<Rightarrow>
          (case hex_with_alpha (tc_text colors) 40 of None \<Rightarrow> None | Some thumb \<Rightarrow> Some (thumb @ '' transparent'')))"
section \<open>The variables of the reader chrome\<close>

record semantic_inks =
  ik_destructive :: string
  ik_info :: string
  ik_warning :: string
  ik_success :: string

fun READER_SEMANTIC_INKS :: "theme_family \<Rightarrow> semantic_inks" where
  "READER_SEMANTIC_INKS LightFamily =
     \<lparr>ik_destructive = ''#b42318'', ik_info = ''#1d4ed8'', ik_warning = ''#b45309'', ik_success = ''#047857''\<rparr>"
| "READER_SEMANTIC_INKS DarkFamily =
     \<lparr>ik_destructive = ''#fca5a5'', ik_info = ''#93c5fd'', ik_warning = ''#fcd34d'', ik_success = ''#6ee7b7''\<rparr>"

text \<open>A variable's value; \<open>None\<close> is the \<open>undefined\<close> that the non-null assertions of the code rule out.\<close>

definition tint_color :: "string \<Rightarrow> nat \<Rightarrow> string option" where
  "tint_color text alpha = hex_with_alpha text alpha"

definition soft_color :: "string \<Rightarrow> nat \<Rightarrow> string option" where
  "soft_color color alpha = hex_with_alpha color alpha"

definition reader_control_variables :: "theme_colors \<Rightarrow> bool \<Rightarrow> string \<Rightarrow> (string \<times> string option) list" where
  "reader_control_variables colors dark destructive =
     (let tint = tint_color (tc_text colors) in
      [(''--destructive'', Some destructive),
       (''--destructive-border'', if dark then soft_color destructive 50 else Some destructive),
       (''--destructive-soft'', soft_color destructive (if dark then 20 else 10)),
       (''--destructive-soft-hover'', soft_color destructive (if dark then 30 else 20)),
       (''--destructive-ring'', soft_color destructive (if dark then 40 else 20)),
       (''--control'', if dark then tint 8 else Some ''transparent''),
       (''--control-hover'', tint (if dark then 12 else 6)),
       (''--control-disabled'', tint (if dark then 14 else 8)),
       (''--control-border'', tint (if dark then 25 else 18)),
       (''--ghost-hover'', tint (if dark then 10 else 6)),
       (''--tab-fg'', tint 60),
       (''--tab-active'', if dark then tint 12 else Some (tc_background colors)),
       (''--tab-active-border'', if dark then tint 20 else Some ''transparent'')])"

definition reader_status_variables :: "bool \<Rightarrow> (string \<times> string option) list" where
  "reader_status_variables dark =
     (let ink = READER_SEMANTIC_INKS (if dark then DarkFamily else LightFamily);
          soft = (\<lambda>color light_alpha dark_alpha. soft_color color (if dark then dark_alpha else light_alpha)) in
      [(''--status-info'', Some (ik_info ink)),
       (''--status-info-soft'', soft (ik_info ink) 10 18),
       (''--status-info-border'', soft (ik_info ink) 30 35),
       (''--status-warning'', Some (ik_warning ink)),
       (''--status-warning-soft'', soft (ik_warning ink) 10 18),
       (''--status-warning-border'', soft (ik_warning ink) 30 35),
       (''--status-success'', Some (ik_success ink)),
       (''--status-success-soft'', soft (ik_success ink) 10 18),
       (''--status-success-border'', soft (ik_success ink) 30 35),
       (''--status-destructive'', Some (ik_destructive ink)),
       (''--status-destructive-soft'', soft (ik_destructive ink) 10 20),
       (''--status-destructive-border'', soft_color (ik_destructive ink) 30)])"

definition reader_theme_variables :: "epub_theme \<Rightarrow> (string \<times> string option) list option" where
  "reader_theme_variables theme =
     (case epub_theme_colors theme of
        None \<Rightarrow> None
      | Some colors \<Rightarrow>
          (let dark = (epub_theme_color_scheme theme = DarkFamily);
               tint = tint_color (tc_text colors);
               ink = READER_SEMANTIC_INKS (if dark then DarkFamily else LightFamily);
               subtle = tint (if dark then 10 else 6) in
           Some
            ([(''--background'', Some (tc_background colors)),
              (''--foreground'', Some (tc_text colors)),
              (''--card'', Some (tc_background colors)),
              (''--card-foreground'', Some (tc_text colors)),
              (''--popover'', Some (tc_background colors)),
              (''--popover-foreground'', Some (tc_text colors)),
              (''--primary'', Some (tc_text colors)),
              (''--primary-foreground'', Some (tc_background colors)),
              (''--secondary'', subtle),
              (''--secondary-foreground'', Some (tc_text colors)),
              (''--muted'', subtle),
              (''--muted-foreground'', tint 60),
              (''--accent'', tint 10),
              (''--accent-foreground'', Some (tc_text colors)),
              (''--border'', tint 20),
              (''--input'', tint 25),
              (''--ring'', tint 40)]
             @ reader_control_variables colors dark (ik_destructive ink)
             @ reader_status_variables dark
             @ [(''--reader-chrome-muted'', tint 60),
                (''--reader-chrome-border'', tint 15),
                (''--reader-chrome-surface'', Some (tc_background colors)),
                (''--reader-chrome-card'', Some (tc_text colors)),
                (''--reader-progress-fill'', Some (tc_text colors)),
                (''--reader-progress-track'', tint 20)])))"

section \<open>Highlight inks\<close>

datatype highlight_color = Yellow | Green | Blue | Red | Purple

fun highlight_key :: "highlight_color \<Rightarrow> string" where
  "highlight_key Yellow = ''yellow''"
| "highlight_key Green = ''green''"
| "highlight_key Blue = ''blue''"
| "highlight_key Red = ''red''"
| "highlight_key Purple = ''purple''"

definition HIGHLIGHT_COLOR_KEYS :: "highlight_color list" where
  "HIGHLIGHT_COLOR_KEYS = [Yellow, Green, Blue, Red, Purple]"

definition DEFAULT_HIGHLIGHT_COLOR :: highlight_color where "DEFAULT_HIGHLIGHT_COLOR = Yellow"

text \<open>\<open>isHighlightColor\<close>, with the color it recognises.\<close>

definition highlight_color_of :: "string option \<Rightarrow> highlight_color option" where
  "highlight_color_of v =
     (case v of None \<Rightarrow> None | Some s \<Rightarrow> find (\<lambda>c. highlight_key c = s) HIGHLIGHT_COLOR_KEYS)"

definition reader_theme_family :: "reader_theme \<Rightarrow> theme_family" where
  "reader_theme_family theme = epub_theme_color_scheme (epub_surface_theme theme)"

record highlight_ink =
  hi_hex :: string
  hi_alpha :: nat

fun DEFAULT_INKS :: "theme_family \<Rightarrow> highlight_color \<Rightarrow> highlight_ink" where
  "DEFAULT_INKS LightFamily Yellow = \<lparr>hi_hex = ''#ffbd1a'', hi_alpha = 42\<rparr>"
| "DEFAULT_INKS LightFamily Green = \<lparr>hi_hex = ''#34bd7d'', hi_alpha = 34\<rparr>"
| "DEFAULT_INKS LightFamily Blue = \<lparr>hi_hex = ''#3a94f8'', hi_alpha = 28\<rparr>"
| "DEFAULT_INKS LightFamily Red = \<lparr>hi_hex = ''#ff635c'', hi_alpha = 30\<rparr>"
| "DEFAULT_INKS LightFamily Purple = \<lparr>hi_hex = ''#a06cfa'', hi_alpha = 28\<rparr>"
| "DEFAULT_INKS DarkFamily Yellow = \<lparr>hi_hex = ''#ffc107'', hi_alpha = 32\<rparr>"
| "DEFAULT_INKS DarkFamily Green = \<lparr>hi_hex = ''#4ade80'', hi_alpha = 26\<rparr>"
| "DEFAULT_INKS DarkFamily Blue = \<lparr>hi_hex = ''#60a5fa'', hi_alpha = 30\<rparr>"
| "DEFAULT_INKS DarkFamily Red = \<lparr>hi_hex = ''#fb7185'', hi_alpha = 30\<rparr>"
| "DEFAULT_INKS DarkFamily Purple = \<lparr>hi_hex = ''#c084fc'', hi_alpha = 32\<rparr>"

definition default_highlight_hex :: "highlight_color \<Rightarrow> theme_family \<Rightarrow> string" where
  "default_highlight_hex color family = hi_hex (DEFAULT_INKS family color)"

type_synonym override_set = "(highlight_color \<times> string) list"

record highlight_overrides =
  ho_light :: override_set
  ho_dark :: override_set

definition EMPTY_HIGHLIGHT_OVERRIDES :: highlight_overrides where
  "EMPTY_HIGHLIGHT_OVERRIDES = \<lparr>ho_light = [], ho_dark = []\<rparr>"

definition overrides_for :: "theme_family \<Rightarrow> highlight_overrides \<Rightarrow> override_set" where
  "overrides_for family ho = (case family of LightFamily \<Rightarrow> ho_light ho | DarkFamily \<Rightarrow> ho_dark ho)"

definition pick_overrides :: "js \<Rightarrow> override_set" where
  "pick_overrides v =
     (case v of
        Obj entries \<Rightarrow>
          concat (map (\<lambda>c. case get_prop (highlight_key c) entries of
              Str hex \<Rightarrow> if is_epub_hex_color hex then [(c, to_lower hex)] else []
            | _ \<Rightarrow> []) HIGHLIGHT_COLOR_KEYS)
      | _ \<Rightarrow> [])"

definition object_props :: "js \<Rightarrow> (string \<times> js) list" where
  "object_props v = (case v of Obj r \<Rightarrow> r | _ \<Rightarrow> [])"

definition sanitize_highlight_overrides :: "js \<Rightarrow> highlight_overrides" where
  "sanitize_highlight_overrides raw =
     (let source = object_props raw in
      \<lparr>ho_light = pick_overrides (get_prop ''light'' source), ho_dark = pick_overrides (get_prop ''dark'' source)\<rparr>)"

definition hex_to_rgb_triplet :: "string \<Rightarrow> string" where
  "hex_to_rgb_triplet hex =
     (let digits = drop 1 hex;
          full = (if length digits = 3 then concat (map (\<lambda>c. [c, c]) digits) else digits);
          int = parse_hex full in
      show_nat (int div 65536 mod 256) @ '', '' @ show_nat (int div 256 mod 256) @ '', '' @ show_nat (int mod 256))"

definition highlight_ink_for :: "string option \<Rightarrow> theme_family \<Rightarrow> highlight_overrides \<Rightarrow> highlight_ink" where
  "highlight_ink_for color family overrides =
     (let key = (case highlight_color_of color of Some c \<Rightarrow> c | None \<Rightarrow> DEFAULT_HIGHLIGHT_COLOR);
          ink = DEFAULT_INKS family key in
      \<lparr>hi_hex = (case map_of (overrides_for family overrides) key of Some h \<Rightarrow> h | None \<Rightarrow> hi_hex ink),
       hi_alpha = hi_alpha ink\<rparr>)"

definition highlight_css :: "string option \<Rightarrow> theme_family \<Rightarrow> highlight_overrides \<Rightarrow> string" where
  "highlight_css color family overrides =
     (let ink = highlight_ink_for color family overrides in
      ''rgba('' @ hex_to_rgb_triplet (hi_hex ink) @ '', '' @ show_hundredths (hi_alpha ink) @ '')'')"

section \<open>The application theme\<close>

datatype theme_preference = FollowSystem | AppLight | AppDark

fun preference_name :: "theme_preference \<Rightarrow> string" where
  "preference_name FollowSystem = ''system''"
| "preference_name AppLight = ''light''"
| "preference_name AppDark = ''dark''"

definition parse_stored_theme :: "string option \<Rightarrow> theme_preference" where
  "parse_stored_theme raw =
     (case find (\<lambda>p. Some (preference_name p) = raw) [FollowSystem, AppLight, AppDark] of
        Some p \<Rightarrow> p | None \<Rightarrow> FollowSystem)"

definition resolve_theme :: "theme_preference \<Rightarrow> bool \<Rightarrow> theme_family" where
  "resolve_theme preference system_dark =
     (case preference of
        FollowSystem \<Rightarrow> if system_dark then DarkFamily else LightFamily
      | AppLight \<Rightarrow> LightFamily
      | AppDark \<Rightarrow> DarkFamily)"

section \<open>Snapping to a scale\<close>


text \<open>The first of the nearest steps: everything before it is farther away, everything after it no nearer.\<close>

definition first_nearest :: "rat \<Rightarrow> rat list \<Rightarrow> rat \<Rightarrow> bool" where
  "first_nearest v xs r \<longleftrightarrow> (\<exists>pre post. xs = pre @ r # post
     \<and> (\<forall>s\<in>set pre. \<bar>v - r\<bar> < \<bar>v - s\<bar>) \<and> (\<forall>s\<in>set post. \<bar>v - r\<bar> \<le> \<bar>v - s\<bar>))"

lemma first_nearest_single: "first_nearest v [x] x"
  unfolding first_nearest_def by (intro exI[of _ "[]"]) simp

lemma first_nearest_le: "first_nearest v xs r \<Longrightarrow> s \<in> set xs \<Longrightarrow> \<bar>v - r\<bar> \<le> \<bar>v - s\<bar>"
proof -
  assume "first_nearest v xs r" "s \<in> set xs"
  then obtain pre post where p: "xs = pre @ r # post" "\<forall>s\<in>set pre. \<bar>v - r\<bar> < \<bar>v - s\<bar>" "\<forall>s\<in>set post. \<bar>v - r\<bar> \<le> \<bar>v - s\<bar>"
    and s: "s \<in> set xs"
    unfolding first_nearest_def by blast
  consider "s \<in> set pre" | "s = r" | "s \<in> set post" using s p(1) by auto
  then show "\<bar>v - r\<bar> \<le> \<bar>v - s\<bar>" using p(2,3) by cases (simp_all add: less_imp_le)
qed

lemma first_nearest_drop:
  assumes "first_nearest v (y # ys) r" and "\<bar>v - y\<bar> < \<bar>v - x\<bar>"
  shows "first_nearest v (x # y # ys) r"
proof -
  obtain pre post where p: "y # ys = pre @ r # post" "\<forall>s\<in>set pre. \<bar>v - r\<bar> < \<bar>v - s\<bar>" "\<forall>s\<in>set post. \<bar>v - r\<bar> \<le> \<bar>v - s\<bar>"
    using assms(1) unfolding first_nearest_def by blast
  have "\<bar>v - r\<bar> < \<bar>v - x\<bar>" using first_nearest_le[OF assms(1), of y] assms(2) by simp
  then show ?thesis unfolding first_nearest_def using p by (intro exI[of _ "x # pre"] exI[of _ post]) auto
qed

lemma first_nearest_keep:
  assumes "first_nearest v (x # ys) r" and "\<not> \<bar>v - y\<bar> < \<bar>v - x\<bar>"
  shows "first_nearest v (x # y # ys) r"
proof -
  obtain pre post where p: "x # ys = pre @ r # post" "\<forall>s\<in>set pre. \<bar>v - r\<bar> < \<bar>v - s\<bar>" "\<forall>s\<in>set post. \<bar>v - r\<bar> \<le> \<bar>v - s\<bar>"
    using assms(1) unfolding first_nearest_def by blast
  show ?thesis
  proof (cases pre)
    case Nil
    then show ?thesis unfolding first_nearest_def using p assms(2)
      by (intro exI[of _ "[]"] exI[of _ "y # ys"]) auto
  next
    case (Cons q qs)
    then have "\<bar>v - r\<bar> < \<bar>v - y\<bar>" using p assms(2) by auto
    then show ?thesis unfolding first_nearest_def using p Cons
      by (intro exI[of _ "x # y # qs"] exI[of _ post]) auto
  qed
qed

lemma nearest_loop_first: "first_nearest v (nearest # steps) (nearest_loop v steps nearest (Some \<bar>v - nearest\<bar>))"
proof (induction steps arbitrary: nearest)
  case (Cons step steps)
  show ?case
    using first_nearest_drop[OF Cons.IH[of step]] first_nearest_keep[OF Cons.IH[of nearest]]
    by (auto simp: Let_def)
qed (simp add: first_nearest_single)

lemma nearest_step_first: "scale \<noteq> [] \<Longrightarrow> first_nearest v scale (nearest_epub_scale_step scale v)"
  using nearest_loop_first by (cases scale) (simp_all add: nearest_epub_scale_step_def Let_def)

lemma nearest_step_mem: "scale \<noteq> [] \<Longrightarrow> nearest_epub_scale_step scale v \<in> set scale"
  using nearest_step_first[of scale v] unfolding first_nearest_def by (metis in_set_conv_decomp)

text \<open>Snapping any number to an ascending scale gives a step of the scale, none is nearer, a tie goes to the lower step, and a step is left as it is;
  every font size on its scale maps into the range the engine accepts.\<close>

theorem snap_nearest_lower:
  assumes "scale \<noteq> []" and "sorted_wrt (<) scale"
  shows "(let r = nearest_epub_scale_step scale v in
       r \<in> set scale \<and> (\<forall>s\<in>set scale. \<bar>v - r\<bar> < \<bar>v - s\<bar> \<or> \<bar>v - r\<bar> = \<bar>v - s\<bar> \<and> r \<le> s))
     \<and> (v \<in> set scale \<longrightarrow> nearest_epub_scale_step scale v = v)
     \<and> list_all (\<lambda>p. fst EPUB_FONT_RATIO_RANGE \<le> epub_font_size_ratio p \<and> epub_font_size_ratio p \<le> snd EPUB_FONT_RATIO_RANGE)
          EPUB_FONT_SIZE_SCALE_PERCENT"
proof -
  define r where "r = nearest_epub_scale_step scale v"
  obtain pre post where p: "scale = pre @ r # post" "\<forall>s\<in>set pre. \<bar>v - r\<bar> < \<bar>v - s\<bar>" "\<forall>s\<in>set post. \<bar>v - r\<bar> \<le> \<bar>v - s\<bar>"
    using nearest_step_first[OF assms(1), of v] unfolding first_nearest_def r_def by blast
  have "\<bar>v - r\<bar> < \<bar>v - s\<bar> \<or> \<bar>v - r\<bar> = \<bar>v - s\<bar> \<and> r \<le> s" if s: "s \<in> set scale" for s
  proof -
    consider "s \<in> set pre" | "s = r" | "s \<in> set post" using s p(1) by auto
    then show ?thesis
    proof cases
      case 3
      then have "r < s" using assms(2) p(1) by (auto simp: sorted_wrt_append)
      then show ?thesis using 3 p(3) by force
    qed (use p(2) in auto)
  qed
  moreover have "r = v" if "v \<in> set scale"
    using first_nearest_le[OF nearest_step_first[OF assms(1), of v] that] by (simp add: r_def)
  moreover have "r \<in> set scale" using p(1) by simp
  moreover have "list_all (\<lambda>p. fst EPUB_FONT_RATIO_RANGE \<le> epub_font_size_ratio p \<and> epub_font_size_ratio p \<le> snd EPUB_FONT_RATIO_RANGE)
          EPUB_FONT_SIZE_SCALE_PERCENT"
    by (simp add: EPUB_FONT_RATIO_RANGE_def EPUB_FONT_SIZE_SCALE_PERCENT_def epub_font_size_ratio_def)
  ultimately show ?thesis by (simp add: r_def[symmetric] Let_def)
qed

theorem snap_nearest_lower_witness:
  "nearest_epub_font_size 125 \<in> {225/2, 275/2} \<and> nearest_epub_font_size 100 = 100"
proof -
  have s: "EPUB_FONT_SIZE_SCALE_PERCENT \<noteq> []" "sorted_wrt (<) EPUB_FONT_SIZE_SCALE_PERCENT"
    by (simp_all add: EPUB_FONT_SIZE_SCALE_PERCENT_def)
  have m: "100 \<in> set EPUB_FONT_SIZE_SCALE_PERCENT" by (simp add: EPUB_FONT_SIZE_SCALE_PERCENT_def)
  have "nearest_epub_font_size 125 = 225/2"
    by (simp add: nearest_epub_font_size_def nearest_epub_scale_step_def EPUB_FONT_SIZE_SCALE_PERCENT_def)
  then show ?thesis
    using snap_nearest_lower[OF s, of 100] m by (simp add: nearest_epub_font_size_def Let_def)
qed

section \<open>Contrast\<close>

text \<open>
  Bounds, in 1024ths, of the linearised channel values that the presets, the swatches and the
  chrome inks use.
\<close>

definition linear_table :: "(nat \<times> nat \<times> nat \<times> nat \<times> nat) list" where
  "linear_table =
     [(0, 0, 0, 0, 0), (9, 0, 0, 2, 3), (11, 23, 24, 2, 5), (16, 28, 29, 4, 7), (19, 31, 32, 5, 8), (24, 36, 37, 7,
      12), (26, 38, 39, 8, 13), (30, 41, 42, 10, 16), (31, 42, 43, 11, 16), (35, 46, 47, 14, 20), (39, 50, 51, 17,
      24), (40, 51, 52, 18, 25), (42, 53, 54, 19, 28), (49, 59, 60, 26, 35), (51, 61, 62, 28, 38), (55, 65, 66, 33,
      44), (58, 68, 69, 37, 49), (66, 76, 77, 49, 63), (74, 83, 84, 61, 77), (83, 92, 93, 79, 97), (85, 94, 95, 83,
      102), (86, 95, 96, 85, 104), (91, 99, 100, 95, 115), (95, 103, 104, 105, 126), (98, 106, 107, 112, 134), (102,
      110, 111, 123, 146), (107, 115, 116, 138, 162), (110, 118, 119, 147, 172), (122, 129, 130, 184, 211), (124,
      131, 132, 191, 219), (134, 140, 141, 226, 255), (138, 144, 145, 243, 272), (139, 145, 146, 247, 277), (158,
      163, 164, 331, 363), (163, 168, 169, 357, 389), (176, 180, 181, 424, 457), (178, 182, 183, 436, 468), (180,
      184, 185, 448, 480), (182, 186, 187, 460, 493), (183, 187, 188, 466, 499), (184, 188, 189, 473, 505), (195,
      198, 199, 538, 569), (196, 199, 200, 545, 576), (197, 200, 201, 552, 583), (200, 203, 204, 573, 603), (201,
      204, 205, 580, 610), (205, 208, 209, 609, 638), (212, 215, 216, 661, 689), (224, 226, 227, 749, 774), (228,
      230, 231, 783, 806), (230, 232, 233, 800, 823), (231, 233, 234, 809, 831), (238, 239, 240, 862, 881), (239,
      240, 241, 871, 890), (240, 241, 242, 880, 899), (245, 246, 247, 926, 942), (246, 247, 248, 936, 951), (254,
      255, 256, 1014, 1024), (255, 256, 256, 1024, 1024)]"

text \<open>
  An entry: the channel, the bounds of its base in 256ths, and the bounds of its linear value in 1024ths. Between 0 and 1 a power
  with exponent 12/5 lies between those with exponents 5/2 and 7/3, which squares and cubes decide.
\<close>

definition linear_entry_ok :: "nat \<times> nat \<times> nat \<times> nat \<times> nat \<Rightarrow> bool" where
  "linear_entry_ok e = (case e of (n, al, ah, lo, hi) \<Rightarrow>
     if 10 < n
     then n \<le> 255 \<and> al * 53805 \<le> 256 * (200 * n + 2805) \<and> 256 * (200 * n + 2805) \<le> ah * 53805 \<and> 0 < al
          \<and> lo ^ 2 * 2 ^ 20 \<le> al ^ 5 \<and> ah ^ 7 \<le> hi ^ 3 * 2 ^ 26
     else lo * 329460 \<le> 102400 * n \<and> 102400 * n \<le> hi * 329460)"

lemma linear_table_ok: "list_all linear_entry_ok linear_table"
  by (simp add: linear_table_def linear_entry_ok_def)

lemma powr_5_2_bound:
  fixes x l :: real
  assumes "0 < x" "x \<le> 1" "0 \<le> l" "l\<^sup>2 \<le> x ^ 5"
  shows "l \<le> x powr (12 / 5)"
proof -
  have "(x powr (5 / 2))\<^sup>2 = x ^ 5" using assms(1) by (simp add: powr_power)
  then have "l\<^sup>2 \<le> (x powr (5 / 2))\<^sup>2" using assms(4) by simp
  then have "l \<le> x powr (5 / 2)" by (rule power2_le_imp_le) simp
  also have "\<dots> \<le> x powr (12 / 5)" by (rule powr_mono') (use assms in auto)
  finally show ?thesis .
qed

lemma powr_7_3_bound:
  fixes x h :: real
  assumes "0 < x" "x \<le> 1" "0 \<le> h" "x ^ 7 \<le> h ^ 3"
  shows "x powr (12 / 5) \<le> h"
proof -
  have "(x powr (7 / 3)) ^ 3 = x ^ 7" using assms(1) by (simp add: powr_power)
  then have "(x powr (7 / 3)) ^ 3 \<le> h ^ 3" using assms(4) by simp
  then have "x powr (7 / 3) \<le> h" using assms(3) by (simp add: power_mono_iff)
  moreover have "x powr (12 / 5) \<le> x powr (7 / 3)" by (rule powr_mono') (use assms in auto)
  ultimately show ?thesis by simp
qed

lemma linear_entry_sound:
  assumes "linear_entry_ok (n, al, ah, lo, hi)"
  shows "real lo / 1024 \<le> linear_channel n \<and> linear_channel n \<le> real hi / 1024"
proof (cases "10 < n")
  case True
  then have "11 \<le> real n" by simp
  then have big: "\<not> real n / 255 \<le> 3928 / 100000" by (simp add: field_simps)
  define x where "x = real (200 * n + 2805) / 53805"
  have ok: "n \<le> 255" "al * 53805 \<le> 256 * (200 * n + 2805)" "256 * (200 * n + 2805) \<le> ah * 53805" "0 < al"
    "lo ^ 2 * 2 ^ 20 \<le> al ^ 5" "ah ^ 7 \<le> hi ^ 3 * 2 ^ 26"
    using assms True by (simp_all only: linear_entry_ok_def prod.case if_True)
  have x: "0 < x" "x \<le> 1" using ok(1) by (simp_all add: x_def)
  have lin: "linear_channel n = x powr (12 / 5)"
    using big by (simp add: linear_channel_def x_def Let_def add_divide_distrib)
  have "real (al * 53805) \<le> real (256 * (200 * n + 2805))" "real (256 * (200 * n + 2805)) \<le> real (ah * 53805)"
    using ok(2,3) by (simp_all only: of_nat_le_iff)
  then have a: "real al / 256 \<le> x" "x \<le> real ah / 256" by (simp_all add: x_def field_simps)
  have "real (lo ^ 2 * 2 ^ 20) \<le> real (al ^ 5)" "real (ah ^ 7) \<le> real (hi ^ 3 * 2 ^ 26)"
    using ok(5,6) by (simp_all only: of_nat_le_iff)
  then have p: "(real lo / 1024)\<^sup>2 \<le> (real al / 256) ^ 5" "(real ah / 256) ^ 7 \<le> (real hi / 1024) ^ 3"
    by (simp_all add: power_divide field_simps)
  have "(real lo / 1024)\<^sup>2 \<le> x ^ 5" using order_trans[OF p(1) power_mono[OF a(1), of 5]] by simp
  moreover have "x ^ 7 \<le> (real hi / 1024) ^ 3" using order_trans[OF power_mono[OF a(2), of 7] p(2)] x(1) by simp
  ultimately show ?thesis unfolding lin using x by (intro conjI powr_5_2_bound powr_7_3_bound) simp_all
next
  case False
  then have small: "real n / 255 \<le> 3928 / 100000" by (simp add: field_simps)
  have "real (lo * 329460) \<le> real (102400 * n)" "real (102400 * n) \<le> real (hi * 329460)"
    using assms False by (simp_all only: linear_entry_ok_def prod.case if_False of_nat_le_iff)
  then show ?thesis using small by (simp add: linear_channel_def Let_def field_simps)
qed

definition channel_bounds :: "nat \<Rightarrow> (nat \<times> nat) option" where
  "channel_bounds n = (case map_of linear_table n of None \<Rightarrow> None | Some (al, ah, lo, hi) \<Rightarrow> Some (lo, hi))"

text \<open>Bounds of a color's luminance in units of 1/10240000, where the 0.05 of the ratio is 512000.\<close>

definition lum_bounds :: "string \<Rightarrow> (nat \<times> nat) option" where
  "lum_bounds hex =
     (case (channel_bounds (hex_channel hex 1), channel_bounds (hex_channel hex 3), channel_bounds (hex_channel hex 5)) of
        (Some (l1, h1), Some (l2, h2), Some (l3, h3)) \<Rightarrow>
          Some (2126 * l1 + 7152 * l2 + 722 * l3, 2126 * h1 + 7152 * h2 + 722 * h3)
      | _ \<Rightarrow> None)"

definition brighter_by_aa :: "string \<Rightarrow> string \<Rightarrow> bool" where
  "brighter_by_aa a b =
     (case (lum_bounds a, lum_bounds b) of
        (Some (la, _), Some (_, hb)) \<Rightarrow> 9 * (hb + 512000) \<le> 2 * (la + 512000)
      | _ \<Rightarrow> False)"

definition below_aa :: "string \<Rightarrow> string \<Rightarrow> bool" where
  "below_aa a b =
     (case (lum_bounds a, lum_bounds b) of
        (Some (la, ha), Some (lb, hb)) \<Rightarrow>
          2 * (ha + 512000) < 9 * (lb + 512000) \<and> 2 * (hb + 512000) < 9 * (la + 512000)
      | _ \<Rightarrow> False)"

lemma channel_bounds_sound:
  assumes "channel_bounds n = Some (lo, hi)"
  shows "real lo / 1024 \<le> linear_channel n" "linear_channel n \<le> real hi / 1024"
proof -
  obtain al ah where "(n, al, ah, lo, hi) \<in> set linear_table"
    using assms by (auto simp: channel_bounds_def dest!: map_of_SomeD split: option.splits prod.splits)
  then have "linear_entry_ok (n, al, ah, lo, hi)" using linear_table_ok by (auto simp: list_all_iff)
  from linear_entry_sound[OF this] show "real lo / 1024 \<le> linear_channel n" "linear_channel n \<le> real hi / 1024" by simp_all
qed

lemma lum_bounds_sound:
  assumes "lum_bounds hex = Some (lo, hi)"
  shows "real lo / 10240000 \<le> luminance hex \<and> luminance hex \<le> real hi / 10240000"
proof -
  obtain l1 h1 l2 h2 l3 h3 where b: "channel_bounds (hex_channel hex 1) = Some (l1, h1)"
    "channel_bounds (hex_channel hex 3) = Some (l2, h2)" "channel_bounds (hex_channel hex 5) = Some (l3, h3)"
    and r: "lo = 2126 * l1 + 7152 * l2 + 722 * l3" "hi = 2126 * h1 + 7152 * h2 + 722 * h3"
    using assms by (auto simp: lum_bounds_def split: option.splits)
  show ?thesis
    using channel_bounds_sound[OF b(1)] channel_bounds_sound[OF b(2)] channel_bounds_sound[OF b(3)]
    by (simp add: luminance_def r field_simps)
qed

lemma contrast_sym: "epub_contrast_ratio a b = epub_contrast_ratio b a"
  by (simp add: epub_contrast_ratio_def Let_def max.commute min.commute)

lemma brighter_by_aa_sound:
  assumes "brighter_by_aa a b"
  shows "9 / 2 \<le> epub_contrast_ratio a b"
proof -
  obtain la ha lb hb where a: "lum_bounds a = Some (la, ha)" and b: "lum_bounds b = Some (lb, hb)"
    and c: "9 * (hb + 512000) \<le> 2 * (la + 512000)"
    using assms by (auto simp: brighter_by_aa_def split: option.splits prod.splits)
  have A: "real la / 10240000 \<le> luminance a" and B: "luminance b \<le> real hb / 10240000" "real lb / 10240000 \<le> luminance b"
    using lum_bounds_sound[OF a] lum_bounds_sound[OF b] by simp_all
  have "real (9 * (hb + 512000)) \<le> real (2 * (la + 512000))" using c by (simp only: of_nat_le_iff)
  then have k: "9 / 2 * (luminance b + 1 / 20) \<le> luminance a + 1 / 20" using A B by (simp add: field_simps)
  have p: "0 < luminance b + 1 / 20" using B(2) by (smt (verit) divide_nonneg_nonneg of_nat_0_le_iff divide_pos_pos)
  then have "luminance b \<le> luminance a" using k by simp
  then have "epub_contrast_ratio a b = (luminance a + 1 / 20) / (luminance b + 1 / 20)"
    by (simp add: epub_contrast_ratio_def Let_def max_absorb1 min_absorb2)
  then show ?thesis using k p by (simp add: pos_le_divide_eq)
qed

lemma below_aa_sound:
  assumes "below_aa a b"
  shows "epub_contrast_ratio a b < 9 / 2"
proof -
  obtain la ha lb hb where a: "lum_bounds a = Some (la, ha)" and b: "lum_bounds b = Some (lb, hb)"
    and c: "2 * (ha + 512000) < 9 * (lb + 512000)" "2 * (hb + 512000) < 9 * (la + 512000)"
    using assms by (auto simp: below_aa_def split: option.splits prod.splits)
  note A = lum_bounds_sound[OF a] and B = lum_bounds_sound[OF b]
  have "real (2 * (ha + 512000)) < real (9 * (lb + 512000))" "real (2 * (hb + 512000)) < real (9 * (la + 512000))"
    using c by (simp_all only: of_nat_less_iff)
  then have k: "luminance a + 1 / 20 < 9 / 2 * (luminance b + 1 / 20)" "luminance b + 1 / 20 < 9 / 2 * (luminance a + 1 / 20)"
    using A B by (simp_all add: field_simps)
  have p: "0 < luminance a + 1 / 20" "0 < luminance b + 1 / 20"
    using A B by (smt (verit) divide_nonneg_nonneg of_nat_0_le_iff divide_pos_pos)+
  show ?thesis
    using k p by (cases "luminance a \<le> luminance b")
      (simp_all add: epub_contrast_ratio_def Let_def max_def min_def pos_divide_less_eq)
qed

definition aa_checked :: "string \<Rightarrow> string \<Rightarrow> bool" where
  "aa_checked a b = (brighter_by_aa a b \<or> brighter_by_aa b a)"

lemma aa_checked_sound: "aa_checked a b \<Longrightarrow> 9 / 2 \<le> epub_contrast_ratio a b"
  using brighter_by_aa_sound[of a b] brighter_by_aa_sound[of b a]
  unfolding aa_checked_def contrast_sym[of b a] by blast

definition palette_checked :: "theme_colors \<Rightarrow> bool" where
  "palette_checked c = (aa_checked (tc_text c) (tc_background c) \<and> aa_checked (tc_link c) (tc_background c)
     \<and> aa_checked (tc_visited c) (tc_background c) \<and> aa_checked (tc_selection_text c) (tc_selection_background c))"

lemma hex_digit_facts:
  "hex_digit CHR ''0''" "hex_digit_val CHR ''0'' = 0"
  "hex_digit CHR ''1''" "hex_digit_val CHR ''1'' = 1"
  "hex_digit CHR ''2''" "hex_digit_val CHR ''2'' = 2"
  "hex_digit CHR ''3''" "hex_digit_val CHR ''3'' = 3"
  "hex_digit CHR ''4''" "hex_digit_val CHR ''4'' = 4"
  "hex_digit CHR ''5''" "hex_digit_val CHR ''5'' = 5"
  "hex_digit CHR ''6''" "hex_digit_val CHR ''6'' = 6"
  "hex_digit CHR ''7''" "hex_digit_val CHR ''7'' = 7"
  "hex_digit CHR ''8''" "hex_digit_val CHR ''8'' = 8"
  "hex_digit CHR ''9''" "hex_digit_val CHR ''9'' = 9"
  "hex_digit CHR ''a''" "hex_digit_val CHR ''a'' = 10"
  "hex_digit CHR ''b''" "hex_digit_val CHR ''b'' = 11"
  "hex_digit CHR ''c''" "hex_digit_val CHR ''c'' = 12"
  "hex_digit CHR ''d''" "hex_digit_val CHR ''d'' = 13"
  "hex_digit CHR ''e''" "hex_digit_val CHR ''e'' = 14"
  "hex_digit CHR ''f''" "hex_digit_val CHR ''f'' = 15"
  by (simp_all add: hex_digit_def hex_digit_val_def is_digit_def code_of_def)

lemma lum_bounds_values:
  "lum_bounds ''#ffffff'' = Some (10240000, 10240000)"
  "lum_bounds ''#1f2328'' = Some (136510, 195106)"
  "lum_bounds ''#0b62c4'' = Some (1198766, 1384870)"
  "lum_bounds ''#551a8b'' = Some (412008, 509822)"
  "lum_bounds ''#86b6fe'' = Some (4502504, 4807394)"
  "lum_bounds ''#f6f0e4'' = Some (8849022, 9033406)"
  "lum_bounds ''#3a332a'' = Some (292636, 396166)"
  "lum_bounds ''#7c5b2a'' = Some (1099224, 1308290)"
  "lum_bounds ''#101013'' = Some (40722, 70722)"
  "lum_bounds ''#e4e4e7'' = Some (7848772, 8078050)"
  "lum_bounds ''#7ab7ff'' = Some (4463344, 4756762)"
  "lum_bounds ''#c3b0f5'' = Some (4844808, 5158282)"
  "lum_bounds ''#4a5f9e'' = Some (1119628, 1326940)"
  "lum_bounds ''#000000'' = Some (0, 0)"
  "lum_bounds ''#ffff00'' = Some (9500672, 9500672)"
  "lum_bounds ''#66b2ff'' = Some (4119098, 4396860)"
  "lum_bounds ''#c5a3e0'' = Some (4267594, 4580414)"
  "lum_bounds ''#181842'' = Some (100324, 156822)"
  "lum_bounds ''#c5e7cd'' = Some (7399218, 7643406)"
  "lum_bounds ''#0000ee'' = Some (622364, 636082)"
  "lum_bounds ''#1f3a6e'' = Some (394144, 508648)"
  "lum_bounds ''#6b2737'' = Some (438798, 547828)"
  "lum_bounds ''#1e5631'' = Some (647952, 803094)"
  "lum_bounds ''#f5efe0'' = Some (8738846, 8926800)"
  "lum_bounds ''#b8d4c8'' = Some (6146776, 6436724)"
  "lum_bounds ''#e6c98a'' = Some (6024406, 6308802)"
  "lum_bounds ''#b45309'' = Some (1518900, 1716390)"
  by (simp_all add: lum_bounds_def channel_bounds_def linear_table_def hex_channel_def parse_hex_def hex_digit_facts)


lemmas checked_defs = lum_bounds_values palette_checked_def aa_checked_def brighter_by_aa_def below_aa_def

lemma presets_checked: "epub_theme_colors t = Some c \<Longrightarrow> palette_checked c"
  by (cases t) (auto simp: checked_defs palette_def)

lemma swatches_checked:
  "list_all (\<lambda>c. list_all (\<lambda>t. aa_checked c (epub_foreground_reference_background t)) [ThDefault, ThLight, ThPaper, ThMint])
     (map fst (take 3 EPUB_FOREGROUND_SWATCHES))"
  "list_all (\<lambda>c. list_all (\<lambda>t. aa_checked c (epub_foreground_reference_background t)) [ThDark, ThContrast, ThBlue])
     (map fst (drop 3 EPUB_FOREGROUND_SWATCHES))"
  "list_all (\<lambda>c. below_aa c (epub_foreground_reference_background ThDark)) (map fst (take 3 EPUB_FOREGROUND_SWATCHES))"
  by (simp_all add: EPUB_FOREGROUND_SWATCHES_def epub_foreground_reference_background_def epub_theme_background_def
        checked_defs palette_def)

lemma foreground_fits_checked:
  "aa_checked c (epub_foreground_reference_background t) \<Longrightarrow> epub_foreground_fits_theme (Some c) t"
  "below_aa c (epub_foreground_reference_background t) \<Longrightarrow> \<not> epub_foreground_fits_theme (Some c) t"
  using aa_checked_sound[of c "epub_foreground_reference_background t"]
    below_aa_sound[of c "epub_foreground_reference_background t"]
  by (simp_all add: epub_foreground_fits_theme_def EPUB_FOREGROUND_AA_RATIO_def)

text \<open>Every preset is legible: text, links and visited links on its background and the selection pair all reach the AA
  ratio of 4.5, computed with the exact WCAG formula. Each curated swatch fits every theme of its own family, and none of the dark inks
  fits the Dark preset, so one swatch list cannot serve both.\<close>

theorem presets_meet_aa:
  "(case epub_theme_colors theme of
      None \<Rightarrow> theme = ThDefault
    | Some c \<Rightarrow> 4.5 \<le> epub_contrast_ratio (tc_text c) (tc_background c)
        \<and> 4.5 \<le> epub_contrast_ratio (tc_link c) (tc_background c)
        \<and> 4.5 \<le> epub_contrast_ratio (tc_visited c) (tc_background c)
        \<and> 4.5 \<le> epub_contrast_ratio (tc_selection_text c) (tc_selection_background c))
   \<and> list_all (\<lambda>c. list_all (epub_foreground_fits_theme (Some c)) [ThDefault, ThLight, ThPaper, ThMint])
       (map fst (take 3 EPUB_FOREGROUND_SWATCHES))
   \<and> list_all (\<lambda>c. list_all (epub_foreground_fits_theme (Some c)) [ThDark, ThContrast, ThBlue])
       (map fst (drop 3 EPUB_FOREGROUND_SWATCHES))
   \<and> list_all (\<lambda>c. \<not> epub_foreground_fits_theme (Some c) ThDark) (map fst (take 3 EPUB_FOREGROUND_SWATCHES))"
proof (intro conjI)
  show "case epub_theme_colors theme of None \<Rightarrow> theme = ThDefault
    | Some c \<Rightarrow> 4.5 \<le> epub_contrast_ratio (tc_text c) (tc_background c)
      \<and> 4.5 \<le> epub_contrast_ratio (tc_link c) (tc_background c)
      \<and> 4.5 \<le> epub_contrast_ratio (tc_visited c) (tc_background c)
      \<and> 4.5 \<le> epub_contrast_ratio (tc_selection_text c) (tc_selection_background c)"
  proof (cases "epub_theme_colors theme")
    case None
    then show ?thesis by (cases theme) auto
  next
    case (Some c)
    then show ?thesis using presets_checked[OF Some] aa_checked_sound by (simp add: palette_checked_def)
  qed
qed (use swatches_checked foreground_fits_checked in \<open>simp_all only: list_all_iff, blast+\<close>)


text \<open>The warning ink of the light family, which the reader chrome uses for every light preset, stays below AA on Mint.\<close>

lemma mint_warning_below_aa:
  "map_option (\<lambda>c. (epub_theme_color_scheme ThMint, epub_contrast_ratio (ik_warning (READER_SEMANTIC_INKS LightFamily)) (tc_background c) < 4.5))
     (epub_theme_colors ThMint) = Some (LightFamily, True)"
  using below_aa_sound[of "''#b45309''" "''#c5e7cd''"]
  by (simp add: below_aa_def lum_bounds_values palette_def epub_theme_color_scheme_def)

text \<open>Every variable of every preset has a value, so the non-null assertions of the code never meet \<open>undefined\<close>.\<close>

lemma theme_variables_defined:
  "reader_theme_variables theme = Some vs \<Longrightarrow> list_all (\<lambda>(name, v). v \<noteq> None) vs"
  by (cases theme) (auto simp: reader_theme_variables_def reader_control_variables_def reader_status_variables_def
      tint_color_def soft_color_def hex_with_alpha_def is_epub_hex_color_def hex_digit_facts palette_def Let_def)

end
