(* ===== verification/ReaderSettings.thy ===== *)
theory ReaderSettings
  imports Appearance
begin

text \<open>
  \<open>frontend/src/lib/readerSettings.ts\<close> and \<open>frontend/src/state/readerState.ts\<close>: the reader's appearance
  preferences, how a stored value is repaired, the cached store that the reader and the settings page share, and
  the rule that applies one change. The JSON printer and parser are parameters.
\<close>

section \<open>Preferences\<close>

datatype reader_layout = Paginated | Scrolling

fun layout_name :: "reader_layout \<Rightarrow> string" where
  "layout_name Paginated = ''paginated''"
| "layout_name Scrolling = ''scrolling''"

record reader_prefs =
  rp_font_size :: rat
  rp_line_height :: rat
  rp_font_family :: "string option"
  rp_column_count :: int
  rp_word_spacing :: rat
  rp_letter_spacing :: rat
  rp_paragraph_spacing :: rat
  rp_page_gutter :: rat
  rp_text_align :: text_alignment
  rp_foreground :: "string option"
  rp_highlight_overrides :: highlight_overrides
  rp_theme :: reader_theme
  rp_layout :: reader_layout
  rp_book_mode :: bool

definition DEFAULT_READER_PREFERENCES :: reader_prefs where
  "DEFAULT_READER_PREFERENCES =
     \<lparr>rp_font_size = EPUB_DEFAULT_FONT_SIZE_PERCENT, rp_line_height = EPUB_DEFAULT_LINE_HEIGHT, rp_font_family = None,
      rp_column_count = EPUB_DEFAULT_COLUMN_COUNT, rp_word_spacing = 0, rp_letter_spacing = 0, rp_paragraph_spacing = 0,
      rp_page_gutter = EPUB_DEFAULT_PAGE_GUTTER_PX, rp_text_align = EPUB_DEFAULT_TEXT_ALIGNMENT, rp_foreground = None,
      rp_highlight_overrides = EMPTY_HIGHLIGHT_OVERRIDES, rp_theme = Preset EPUB_DEFAULT_THEME, rp_layout = Paginated,
      rp_book_mode = False\<rparr>"

definition epub_book_mode_layout :: "reader_prefs \<Rightarrow> reader_layout" where
  "epub_book_mode_layout p = (if rp_book_mode p then Paginated else rp_layout p)"

definition epub_book_mode_column_count :: "reader_prefs \<Rightarrow> int" where
  "epub_book_mode_column_count p =
     (if rp_book_mode p then EPUB_BOOK_MODE_COLUMN_COUNT else clamp_epub_column_count (of_int (rp_column_count p)))"

definition auto_reader_theme :: "theme_family \<Rightarrow> reader_theme" where
  "auto_reader_theme resolved = (if resolved = DarkFamily then Preset ThDark else Preset EPUB_DEFAULT_THEME)"

section \<open>Repairing a stored value\<close>

record reader_settings =
  rs_preferences :: reader_prefs
  rs_theme_pinned :: bool

definition THEMES :: "reader_theme list" where "THEMES = map Preset EPUB_THEME_NAMES @ [Invert]"
definition LAYOUTS :: "reader_layout list" where "LAYOUTS = [Paginated, Scrolling]"

definition default_reader_settings :: reader_settings where
  "default_reader_settings = \<lparr>rs_preferences = DEFAULT_READER_PREFERENCES, rs_theme_pinned = False\<rparr>"

definition as_number :: "js \<Rightarrow> rat \<Rightarrow> rat" where
  "as_number v fallback = (case v of Num (Fin r) \<Rightarrow> r | _ \<Rightarrow> fallback)"

text \<open>\<open>choices.includes(v) ? v : fallback\<close> for choices that are strings.\<close>

definition pick_named :: "('a \<Rightarrow> string) \<Rightarrow> 'a list \<Rightarrow> js \<Rightarrow> 'a \<Rightarrow> 'a" where
  "pick_named name choices v fallback =
     (case v of
        Str s \<Rightarrow> (case find (\<lambda>c. name c = s) choices of Some c \<Rightarrow> c | None \<Rightarrow> fallback)
      | _ \<Rightarrow> fallback)"

definition stored_font_family :: "js \<Rightarrow> string option" where
  "stored_font_family v = (case v of Str s \<Rightarrow> if in_font_families s then Some s else None | _ \<Rightarrow> None)"

definition stored_foreground :: "js \<Rightarrow> string option" where
  "stored_foreground v = (case v of Str s \<Rightarrow> if is_epub_hex_color s then Some (to_lower s) else None | _ \<Rightarrow> None)"

definition sanitize_reader_preferences :: "js \<Rightarrow> reader_prefs" where
  "sanitize_reader_preferences raw =
     (let source = object_props raw;
          get = (\<lambda>k. get_prop k source);
          defaults = DEFAULT_READER_PREFERENCES in
      \<lparr>rp_font_size = nearest_epub_font_size (as_number (get ''epubFontSize'') (rp_font_size defaults)),
       rp_line_height = nearest_epub_line_height (as_number (get ''lineHeight'') (rp_line_height defaults)),
       rp_font_family = stored_font_family (get ''fontFamily''),
       rp_column_count = clamp_epub_column_count (as_number (get ''columnCount'') (of_int (rp_column_count defaults))),
       rp_word_spacing = nearest_epub_word_spacing (as_number (get ''wordSpacing'') (rp_word_spacing defaults)),
       rp_letter_spacing = nearest_epub_letter_spacing (as_number (get ''letterSpacing'') (rp_letter_spacing defaults)),
       rp_paragraph_spacing =
         nearest_epub_paragraph_spacing (as_number (get ''paragraphSpacing'') (rp_paragraph_spacing defaults)),
       rp_page_gutter = nearest_epub_page_gutter (as_number (get ''pageGutter'') (rp_page_gutter defaults)),
       rp_text_align = pick_named alignment_name EPUB_TEXT_ALIGNMENTS (get ''textAlign'') (rp_text_align defaults),
       rp_foreground = stored_foreground (get ''foreground''),
       rp_highlight_overrides = sanitize_highlight_overrides (get ''highlightOverrides''),
       rp_theme = pick_named reader_theme_name THEMES (get ''theme'') (rp_theme defaults),
       rp_layout = pick_named layout_name LAYOUTS (get ''layout'') (rp_layout defaults),
       rp_book_mode = (get ''bookMode'' = Bool True)\<rparr>)"

text \<open>What \<open>JSON.stringify\<close> sees: the settings as a plain value.\<close>

definition override_js :: "override_set \<Rightarrow> js" where
  "override_js os = Obj (map (\<lambda>(c, h). (highlight_key c, Str h)) os)"

definition option_js :: "string option \<Rightarrow> js" where
  "option_js v = (case v of None \<Rightarrow> Null | Some s \<Rightarrow> Str s)"

definition prefs_value :: "reader_prefs \<Rightarrow> js" where
  "prefs_value p =
     Obj [(''epubFontSize'', Num (Fin (rp_font_size p))),
          (''lineHeight'', Num (Fin (rp_line_height p))),
          (''fontFamily'', option_js (rp_font_family p)),
          (''columnCount'', Num (Fin (of_int (rp_column_count p)))),
          (''wordSpacing'', Num (Fin (rp_word_spacing p))),
          (''letterSpacing'', Num (Fin (rp_letter_spacing p))),
          (''paragraphSpacing'', Num (Fin (rp_paragraph_spacing p))),
          (''pageGutter'', Num (Fin (rp_page_gutter p))),
          (''textAlign'', Str (alignment_name (rp_text_align p))),
          (''foreground'', option_js (rp_foreground p)),
          (''highlightOverrides'',
             Obj [(''light'', override_js (ho_light (rp_highlight_overrides p))),
                  (''dark'', override_js (ho_dark (rp_highlight_overrides p)))]),
          (''theme'', Str (reader_theme_name (rp_theme p))),
          (''layout'', Str (layout_name (rp_layout p))),
          (''bookMode'', Bool (rp_book_mode p))]"

definition settings_value :: "reader_settings \<Rightarrow> js" where
  "settings_value s =
     Obj [(''preferences'', prefs_value (rs_preferences s)), (''themePinned'', Bool (rs_theme_pinned s))]"

definition parse_stored_settings :: "(string \<Rightarrow> js option) \<Rightarrow> string option \<Rightarrow> reader_settings" where
  "parse_stored_settings json_parse raw =
     (case raw of
        None \<Rightarrow> default_reader_settings
      | Some r \<Rightarrow>
          if r = [] then default_reader_settings
          else (case json_parse r of
                  None \<Rightarrow> default_reader_settings
                | Some v \<Rightarrow>
                    \<lparr>rs_preferences = sanitize_reader_preferences (get_prop ''preferences'' (object_props v)),
                     rs_theme_pinned = (get_prop ''themePinned'' (object_props v) = Bool True)\<rparr>))"


section \<open>The store\<close>

text \<open>
  The browser's storage is absent, or holds at most one text under the key. The module keeps the last text
  it parsed with its settings (\<open>None\<close> is \<open>undefined\<close>), the session's override, and its listeners, of which
  the model counts the notifications. A call into storage may throw.
\<close>

record settings_store =
  ss_storage :: "string option option"
  ss_cached_raw :: "string option option"
  ss_cached :: "reader_settings option"
  ss_session :: "reader_settings option"
  ss_listeners :: "int list"
  ss_notified :: "int list"

definition initial_settings_store :: "string option option \<Rightarrow> settings_store" where
  "initial_settings_store storage =
     \<lparr>ss_storage = storage, ss_cached_raw = None, ss_cached = None, ss_session = None, ss_listeners = [], ss_notified = []\<rparr>"

definition emit_settings :: "settings_store \<Rightarrow> settings_store" where
  "emit_settings st = st\<lparr>ss_notified := ss_notified st @ ss_listeners st\<rparr>"

text \<open>Listeners form a set; the function returned by subscribing is the removal.\<close>

definition subscribe_reader_settings :: "int \<Rightarrow> settings_store \<Rightarrow> settings_store" where
  "subscribe_reader_settings l st =
     (if l \<in> set (ss_listeners st) then st else st\<lparr>ss_listeners := ss_listeners st @ [l]\<rparr>)"

definition unsubscribe_reader_settings :: "int \<Rightarrow> settings_store \<Rightarrow> settings_store" where
  "unsubscribe_reader_settings l st = st\<lparr>ss_listeners := filter (\<lambda>x. x \<noteq> l) (ss_listeners st)\<rparr>"

definition read_reader_settings ::
  "(string \<Rightarrow> js option) \<Rightarrow> settings_store \<Rightarrow> settings_store \<times> reader_settings" where
  "read_reader_settings json_parse st =
     (case ss_session st of
        Some s \<Rightarrow> (st, s)
      | None \<Rightarrow>
          (case ss_storage st of
             None \<Rightarrow> (st, default_reader_settings)
           | Some raw \<Rightarrow>
               (case (ss_cached_raw st = Some raw, ss_cached st) of
                  (True, Some s) \<Rightarrow> (st, s)
                | _ \<Rightarrow>
                    (let s = parse_stored_settings json_parse raw in
                     (st\<lparr>ss_cached_raw := Some raw, ss_cached := Some s\<rparr>, s)))))"

definition write_reader_settings ::
  "(string \<Rightarrow> js option) \<Rightarrow> (js \<Rightarrow> string) \<Rightarrow> bool \<Rightarrow> reader_settings \<Rightarrow> settings_store \<Rightarrow> settings_store" where
  "write_reader_settings json_parse json_stringify set_works s st =
     (case ss_storage st of
        None \<Rightarrow> emit_settings (st\<lparr>ss_session := Some s\<rparr>)
      | Some _ \<Rightarrow>
          (let raw = json_stringify (settings_value s) in
           if set_works
           then emit_settings
             (st\<lparr>ss_storage := Some (Some raw), ss_session := None, ss_cached_raw := Some (Some raw),
                ss_cached := Some (parse_stored_settings json_parse (Some raw))\<rparr>)
           else emit_settings (st\<lparr>ss_session := Some s\<rparr>)))"

definition clear_reader_settings :: "bool \<Rightarrow> settings_store \<Rightarrow> settings_store" where
  "clear_reader_settings remove_works st =
     (let st = st\<lparr>ss_session := None\<rparr> in
      case ss_storage st of
        None \<Rightarrow> emit_settings st
      | Some _ \<Rightarrow>
          if remove_works
          then emit_settings
            (st\<lparr>ss_storage := Some None, ss_cached_raw := Some None, ss_cached := Some default_reader_settings\<rparr>)
          else st)"

section \<open>Applying one change\<close>

text \<open>\<open>Partial<ReaderPreferences>\<close>: \<open>None\<close> is an absent key.\<close>

record prefs_patch =
  pp_font_size :: "rat option"
  pp_line_height :: "rat option"
  pp_font_family :: "string option option"
  pp_column_count :: "int option"
  pp_word_spacing :: "rat option"
  pp_letter_spacing :: "rat option"
  pp_paragraph_spacing :: "rat option"
  pp_page_gutter :: "rat option"
  pp_text_align :: "text_alignment option"
  pp_foreground :: "string option option"
  pp_highlight_overrides :: "highlight_overrides option"
  pp_theme :: "reader_theme option"
  pp_layout :: "reader_layout option"
  pp_book_mode :: "bool option"

definition empty_patch :: prefs_patch where
  "empty_patch =
     \<lparr>pp_font_size = None, pp_line_height = None, pp_font_family = None, pp_column_count = None, pp_word_spacing = None,
      pp_letter_spacing = None, pp_paragraph_spacing = None, pp_page_gutter = None, pp_text_align = None,
      pp_foreground = None, pp_highlight_overrides = None, pp_theme = None, pp_layout = None, pp_book_mode = None\<rparr>"

definition or_else :: "'a option \<Rightarrow> 'a \<Rightarrow> 'a" where
  "or_else patched current = (case patched of Some v \<Rightarrow> v | None \<Rightarrow> current)"

definition merge_prefs :: "reader_prefs \<Rightarrow> prefs_patch \<Rightarrow> reader_prefs" where
  "merge_prefs p d =
     \<lparr>rp_font_size = or_else (pp_font_size d) (rp_font_size p),
      rp_line_height = or_else (pp_line_height d) (rp_line_height p),
      rp_font_family = or_else (pp_font_family d) (rp_font_family p),
      rp_column_count = or_else (pp_column_count d) (rp_column_count p),
      rp_word_spacing = or_else (pp_word_spacing d) (rp_word_spacing p),
      rp_letter_spacing = or_else (pp_letter_spacing d) (rp_letter_spacing p),
      rp_paragraph_spacing = or_else (pp_paragraph_spacing d) (rp_paragraph_spacing p),
      rp_page_gutter = or_else (pp_page_gutter d) (rp_page_gutter p),
      rp_text_align = or_else (pp_text_align d) (rp_text_align p),
      rp_foreground = or_else (pp_foreground d) (rp_foreground p),
      rp_highlight_overrides = or_else (pp_highlight_overrides d) (rp_highlight_overrides p),
      rp_theme = or_else (pp_theme d) (rp_theme p),
      rp_layout = or_else (pp_layout d) (rp_layout p),
      rp_book_mode = or_else (pp_book_mode d) (rp_book_mode p)\<rparr>"

definition effective_reader_theme :: "reader_settings \<Rightarrow> theme_family \<Rightarrow> reader_theme" where
  "effective_reader_theme s resolved =
     (if rs_theme_pinned s \<and> rp_theme (rs_preferences s) \<noteq> Preset ThDefault
      then rp_theme (rs_preferences s) else auto_reader_theme resolved)"

definition effective_reader_preferences :: "reader_settings \<Rightarrow> theme_family \<Rightarrow> reader_prefs" where
  "effective_reader_preferences s resolved = (rs_preferences s)\<lparr>rp_theme := effective_reader_theme s resolved\<rparr>"

definition apply_reader_settings_patch :: "reader_settings \<Rightarrow> prefs_patch \<Rightarrow> theme_family \<Rightarrow> reader_settings" where
  "apply_reader_settings_patch current d resolved =
     (let preferences = merge_prefs (rs_preferences current) d;
          nxt = \<lparr>rs_preferences = preferences,
                 rs_theme_pinned = (if pp_theme d \<noteq> None then True else rs_theme_pinned current)\<rparr>;
          current_effective = effective_reader_theme current resolved;
          next_effective = effective_reader_theme nxt resolved in
      if pp_theme d \<noteq> None \<and> next_effective \<noteq> current_effective
         \<and> \<not> epub_foreground_fits_theme (rp_foreground preferences) (epub_surface_theme next_effective)
      then nxt\<lparr>rs_preferences := preferences\<lparr>rp_foreground := None\<rparr>\<rparr>
      else nxt)"


section \<open>Well-formed preferences\<close>

definition lower_hex :: "string \<Rightarrow> bool" where
  "lower_hex s = (is_epub_hex_color s \<and> to_lower s = s)"

definition overrides_ok :: "override_set \<Rightarrow> bool" where
  "overrides_ok os =
     (os = concat (map (\<lambda>c. case map_of os c of None \<Rightarrow> [] | Some h \<Rightarrow> [(c, h)]) HIGHLIGHT_COLOR_KEYS)
        \<and> list_all (\<lambda>(c, h). lower_hex h) os)"

definition prefs_ok :: "reader_prefs \<Rightarrow> bool" where
  "prefs_ok p \<longleftrightarrow>
     rp_font_size p \<in> set EPUB_FONT_SIZE_SCALE_PERCENT \<and> rp_line_height p \<in> set EPUB_LINE_HEIGHT_SCALE
     \<and> rp_word_spacing p \<in> set EPUB_WORD_SPACING_SCALE \<and> rp_letter_spacing p \<in> set EPUB_LETTER_SPACING_SCALE
     \<and> rp_paragraph_spacing p \<in> set EPUB_PARAGRAPH_SPACING_SCALE \<and> rp_page_gutter p \<in> set EPUB_PAGE_GUTTER_SCALE_PX
     \<and> rp_column_count p \<in> set EPUB_COLUMN_COUNTS
     \<and> (case rp_font_family p of None \<Rightarrow> True | Some k \<Rightarrow> in_font_families k)
     \<and> (case rp_foreground p of None \<Rightarrow> True | Some c \<Rightarrow> lower_hex c)
     \<and> overrides_ok (ho_light (rp_highlight_overrides p)) \<and> overrides_ok (ho_dark (rp_highlight_overrides p))"

lemma lower_char_idem [simp]: "lower_char (lower_char c) = lower_char c"
proof (cases "lower_char c = c")
  case False
  then have "code_of c \<le> 222" by (auto simp: lower_char_def split: if_splits)
  then have "code_of (char_of (code_of c + 32)) = code_of c + 32" by (simp add: code_of_def)
  then show ?thesis using False by (auto simp: lower_char_def split: if_splits)
qed simp

lemma to_lower_idem [simp]: "to_lower (to_lower s) = to_lower s"
  by (simp add: to_lower_def)


lemma hex_digit_lower: "hex_digit c \<Longrightarrow> hex_digit (lower_char c)"
  by (auto simp: hex_digit_def is_digit_def lower_char_def code_of_def)

lemma lower_hex_to_lower: "is_epub_hex_color s \<Longrightarrow> lower_hex (to_lower s)"
proof -
  assume s: "is_epub_hex_color s"
  then obtain c cs where "s = c # cs" by (cases s) (auto simp: is_epub_hex_color_def)
  moreover have "lower_char CHR ''#'' = CHR ''#''" by (simp add: lower_char_def code_of_def)
  ultimately show ?thesis using s
    by (auto simp: lower_hex_def is_epub_hex_color_def to_lower_def list_all_iff hex_digit_lower)
qed

lemma nearest_step_fixed: "v \<in> set scale \<Longrightarrow> nearest_epub_scale_step scale v = v"
  using first_nearest_le[OF nearest_step_first[of scale v], of v] by force

lemma clamp_column_range: "clamp_epub_column_count v \<in> set EPUB_COLUMN_COUNTS"
  unfolding clamp_epub_column_count_def EPUB_COLUMN_COUNTS_def by (simp, linarith)

lemma clamp_column_fixed: "n \<in> set EPUB_COLUMN_COUNTS \<Longrightarrow> clamp_epub_column_count (of_int n) = n"
proof -
  assume n: "n \<in> set EPUB_COLUMN_COUNTS"
  have "round_half_up (of_int n) = n" unfolding round_half_up_def by (rule floor_unique) simp_all
  then show ?thesis using n by (auto simp: clamp_epub_column_count_def EPUB_COLUMN_COUNTS_def)
qed

lemmas scale_defs =
  EPUB_FONT_SIZE_SCALE_PERCENT_def EPUB_LINE_HEIGHT_SCALE_def EPUB_WORD_SPACING_SCALE_def EPUB_LETTER_SPACING_SCALE_def
  EPUB_PARAGRAPH_SPACING_SCALE_def EPUB_PAGE_GUTTER_SCALE_PX_def

lemmas nearest_defs =
  nearest_epub_font_size_def nearest_epub_line_height_def nearest_epub_word_spacing_def nearest_epub_letter_spacing_def
  nearest_epub_paragraph_spacing_def nearest_epub_page_gutter_def

lemma scales_not_empty [simp]:
  "EPUB_FONT_SIZE_SCALE_PERCENT \<noteq> []" "EPUB_LINE_HEIGHT_SCALE \<noteq> []" "EPUB_WORD_SPACING_SCALE \<noteq> []"
  "EPUB_LETTER_SPACING_SCALE \<noteq> []" "EPUB_PARAGRAPH_SPACING_SCALE \<noteq> []" "EPUB_PAGE_GUTTER_SCALE_PX \<noteq> []"
  by (simp_all add: scale_defs)

subsection \<open>The overrides of the highlight inks\<close>

definition slots_of :: "(highlight_color \<Rightarrow> string option) \<Rightarrow> highlight_color list \<Rightarrow> override_set" where
  "slots_of g ks = concat (map (\<lambda>c. case g c of None \<Rightarrow> [] | Some h \<Rightarrow> [(c, h)]) ks)"

lemma map_of_slots: "map_of (slots_of g ks) c = (if c \<in> set ks then g c else None)"
  by (induction ks) (auto simp: slots_of_def split: option.splits)

lemma all_keys [simp]: "c \<in> set HIGHLIGHT_COLOR_KEYS"
  by (cases c) (simp_all add: HIGHLIGHT_COLOR_KEYS_def)

lemma overrides_ok_slots:
  assumes "\<And>c h. g c = Some h \<Longrightarrow> lower_hex h"
  shows "overrides_ok (slots_of g HIGHLIGHT_COLOR_KEYS)"
proof -
  have "map_of (slots_of g HIGHLIGHT_COLOR_KEYS) = g" by (simp add: fun_eq_iff map_of_slots)
  moreover have "list_all (\<lambda>(c, h). lower_hex h) (slots_of g HIGHLIGHT_COLOR_KEYS)"
    using assms by (auto simp: slots_of_def list_all_iff split: option.splits)
  ultimately show ?thesis by (simp add: overrides_ok_def slots_of_def[symmetric])
qed

definition picked :: "js \<Rightarrow> highlight_color \<Rightarrow> string option" where
  "picked v c = (case get_prop (highlight_key c) (object_props v) of
       Str hex \<Rightarrow> if is_epub_hex_color hex then Some (to_lower hex) else None | _ \<Rightarrow> None)"

lemma pick_overrides_slots: "pick_overrides v = slots_of (picked v) HIGHLIGHT_COLOR_KEYS"
proof (cases v)
  case (Obj entries)
  have "(case get_prop (highlight_key c) entries of
              Str hex \<Rightarrow> if is_epub_hex_color hex then [(c, to_lower hex)] else [] | _ \<Rightarrow> [])
      = (case picked v c of None \<Rightarrow> [] | Some h \<Rightarrow> [(c, h)])" for c
    by (simp add: Obj picked_def object_props_def split: js.split)
  then show ?thesis by (simp add: Obj pick_overrides_def slots_of_def)
qed (simp_all add: pick_overrides_def slots_of_def picked_def object_props_def)

lemma pick_overrides_ok: "overrides_ok (pick_overrides v)"
  unfolding pick_overrides_slots
  by (rule overrides_ok_slots) (auto simp: picked_def lower_hex_to_lower split: js.splits if_splits)

lemma highlight_key_inj [simp]: "highlight_key c = highlight_key d \<longleftrightarrow> c = d"
  by (cases c; cases d) simp_all

lemma get_prop_override:
  "get_prop (highlight_key c) (map (\<lambda>(c, h). (highlight_key c, Str h)) os)
     = (case map_of os c of None \<Rightarrow> Undef | Some h \<Rightarrow> Str h)"
  by (induction os) (auto split: option.splits)

lemma pick_overrides_fixed: "overrides_ok os \<Longrightarrow> pick_overrides (override_js os) = os"
proof -
  assume ok: "overrides_ok os"
  have "picked (override_js os) c = map_of os c" for c
  proof (cases "map_of os c")
    case (Some h)
    then have "lower_hex h" using ok by (auto simp: overrides_ok_def list_all_iff dest: map_of_SomeD)
    then show ?thesis using Some by (simp add: picked_def override_js_def object_props_def get_prop_override lower_hex_def)
  qed (simp add: picked_def override_js_def object_props_def get_prop_override)
  then have "pick_overrides (override_js os) = slots_of (map_of os) HIGHLIGHT_COLOR_KEYS"
    by (simp add: pick_overrides_slots slots_of_def)
  then show ?thesis using ok by (simp add: overrides_ok_def slots_of_def)
qed


section \<open>Repaired values\<close>

lemma stored_family_ok: "case stored_font_family v of None \<Rightarrow> True | Some k \<Rightarrow> in_font_families k"
  by (auto simp: stored_font_family_def split: js.splits)

lemma stored_foreground_ok: "case stored_foreground v of None \<Rightarrow> True | Some c \<Rightarrow> lower_hex c"
  by (auto simp: stored_foreground_def lower_hex_to_lower split: js.splits)

lemma sanitize_ok: "prefs_ok (sanitize_reader_preferences raw)"
  unfolding prefs_ok_def sanitize_reader_preferences_def Let_def
  by (simp add: nearest_defs nearest_step_mem clamp_column_range pick_overrides_ok sanitize_highlight_overrides_def
      stored_family_ok stored_foreground_ok Let_def)

lemma default_ok: "prefs_ok DEFAULT_READER_PREFERENCES"
  by (simp add: prefs_ok_def DEFAULT_READER_PREFERENCES_def scale_defs EPUB_DEFAULT_FONT_SIZE_PERCENT_def
      EPUB_DEFAULT_LINE_HEIGHT_def EPUB_DEFAULT_PAGE_GUTTER_PX_def EPUB_DEFAULT_COLUMN_COUNT_def EPUB_COLUMN_COUNTS_def
      EMPTY_HIGHLIGHT_OVERRIDES_def overrides_ok_def)

lemma pick_named_fixed:
  assumes "c \<in> set choices" "\<And>d. d \<in> set choices \<Longrightarrow> name d = name c \<Longrightarrow> d = c"
  shows "pick_named name choices (Str (name c)) fallback = c"
proof -
  obtain d where d: "find (\<lambda>x. name x = name c) choices = Some d"
    using assms(1) by (metis (mono_tags) find_None_iff not_None_eq)
  then have "d = c" using assms(2) by (metis (mono_tags, lifting) find_Some_iff nth_mem)
  then show ?thesis using d by (simp add: pick_named_def)
qed

lemma named_choices_fixed:
  "pick_named alignment_name EPUB_TEXT_ALIGNMENTS (Str (alignment_name a)) d1 = a"
  "pick_named layout_name LAYOUTS (Str (layout_name l)) d2 = l"
  by (cases a; simp add: pick_named_def EPUB_TEXT_ALIGNMENTS_def) (cases l; simp add: pick_named_def LAYOUTS_def)

lemma theme_names_all: "set EPUB_THEME_NAMES = UNIV"
proof -
  have "t \<in> set EPUB_THEME_NAMES" for t by (cases t) (simp_all add: EPUB_THEME_NAMES_def)
  then show ?thesis by blast
qed

lemma reader_theme_name_inj: "reader_theme_name a = reader_theme_name b \<Longrightarrow> a = b"
proof -
  have t: "theme_name x = theme_name y \<Longrightarrow> x = y" for x y by (cases x; cases y) simp_all
  have i: "theme_name x \<noteq> ''invert''" for x by (cases x) simp_all
  show "reader_theme_name a = reader_theme_name b \<Longrightarrow> a = b"
    using t i i[symmetric] by (cases a; cases b) auto
qed

lemma theme_fixed: "pick_named reader_theme_name THEMES (Str (reader_theme_name t)) d = t"
proof (rule pick_named_fixed)
  show "t \<in> set THEMES" by (cases t) (simp_all add: THEMES_def theme_names_all)
qed (rule reader_theme_name_inj)

lemma sanitize_fixed: "prefs_ok p \<Longrightarrow> sanitize_reader_preferences (prefs_value p) = p"
  unfolding prefs_ok_def
  by (cases p) (auto simp: sanitize_reader_preferences_def prefs_value_def object_props_def as_number_def nearest_defs
      nearest_step_fixed clamp_column_fixed named_choices_fixed theme_fixed sanitize_highlight_overrides_def
      pick_overrides_fixed stored_font_family_def stored_foreground_def option_js_def lower_hex_def
      split: option.splits)


section \<open>The cached store against a plain one\<close>

datatype settings_op =
    Subscribe int
  | Unsubscribe int
  | ReadSettings
  | WriteSettings bool reader_settings
  | ClearSettings bool
  | OutsideWrite "string option"

fun settings_step ::
  "(string \<Rightarrow> js option) \<Rightarrow> (js \<Rightarrow> string) \<Rightarrow> settings_store \<Rightarrow> settings_op \<Rightarrow> settings_store" where
  "settings_step jp js st (Subscribe l) = subscribe_reader_settings l st"
| "settings_step jp js st (Unsubscribe l) = unsubscribe_reader_settings l st"
| "settings_step jp js st ReadSettings = fst (read_reader_settings jp st)"
| "settings_step jp js st (WriteSettings works s) = write_reader_settings jp js works s st"
| "settings_step jp js st (ClearSettings works) = clear_reader_settings works st"
| "settings_step jp js st (OutsideWrite raw) =
     (if ss_storage st = None then st else st\<lparr>ss_storage := Some raw\<rparr>)"

text \<open>The promise: a store without a cache, only the stored text and the session's override.\<close>

type_synonym plain_store = "string option option \<times> reader_settings option"

fun plain_step :: "(js \<Rightarrow> string) \<Rightarrow> plain_store \<Rightarrow> settings_op \<Rightarrow> plain_store" where
  "plain_step js (storage, session) (WriteSettings works s) =
     (if storage \<noteq> None \<and> works then (Some (Some (js (settings_value s))), None) else (storage, Some s))"
| "plain_step js (storage, session) (ClearSettings works) =
     (if storage \<noteq> None \<and> works then (Some None, None) else (storage, None))"
| "plain_step js (storage, session) (OutsideWrite raw) = (if storage = None then storage else Some raw, session)"
| "plain_step js p _ = p"

definition plain_read :: "(string \<Rightarrow> js option) \<Rightarrow> plain_store \<Rightarrow> reader_settings" where
  "plain_read jp p =
     (case p of
        (_, Some s) \<Rightarrow> s
      | (None, None) \<Rightarrow> default_reader_settings
      | (Some raw, None) \<Rightarrow> parse_stored_settings jp raw)"

definition plain_of :: "settings_store \<Rightarrow> plain_store" where
  "plain_of st = (ss_storage st, ss_session st)"

definition coherent :: "(string \<Rightarrow> js option) \<Rightarrow> settings_store \<Rightarrow> bool" where
  "coherent jp st =
     (case (ss_cached_raw st, ss_cached st) of
        (Some raw, Some s) \<Rightarrow> s = parse_stored_settings jp raw
      | _ \<Rightarrow> True)"

lemmas store_ops = subscribe_reader_settings_def unsubscribe_reader_settings_def write_reader_settings_def
  clear_reader_settings_def emit_settings_def Let_def

lemma read_plain: "coherent jp st \<Longrightarrow> snd (read_reader_settings jp st) = plain_read jp (plain_of st)"
  by (auto simp: coherent_def read_reader_settings_def plain_read_def plain_of_def Let_def
      split: option.splits bool.splits)

lemma read_keeps: "plain_of (fst (read_reader_settings jp st)) = plain_of st"
  by (auto simp: read_reader_settings_def plain_of_def Let_def split: option.splits bool.splits)

lemma read_coherent: "coherent jp st \<Longrightarrow> coherent jp (fst (read_reader_settings jp st))"
  by (auto simp: coherent_def read_reader_settings_def Let_def split: option.splits bool.splits)

lemma settings_step_coherent: "coherent jp st \<Longrightarrow> coherent jp (settings_step jp js st op)"
proof (cases op)
  case ReadSettings
  assume "coherent jp st"
  then show ?thesis using ReadSettings read_coherent by simp
next
  case (ClearSettings works)
  assume "coherent jp st"
  then show ?thesis using ClearSettings
    by (auto simp: coherent_def store_ops parse_stored_settings_def split: option.splits)
qed (auto simp: coherent_def store_ops split: option.splits)

interpretation settings: invariant_machine "settings_step jp js" "\<lambda>_. True" "coherent jp" for jp js
  by unfold_locales (rule settings_step_coherent)

lemma settings_step_plain: "plain_of (settings_step jp js st op) = plain_step js (plain_of st) op"
  by (cases op) (auto simp: store_ops plain_of_def read_keeps[unfolded plain_of_def] split: option.splits)

lemma settings_run_plain: "plain_of (run (settings_step jp js) st ops) = run (plain_step js) (plain_of st) ops"
  by (induction ops arbitrary: st) (simp_all add: settings_step_plain)

text \<open>C18. The cached snapshot of the reader settings is invisible: after any sequence of subscriptions, reads, writes and
  clears that succeed or throw, and changes of the stored text from outside, a read gives exactly what a store without a cache gives:
  the session's override if there is one, else the stored text repaired, else the defaults.\<close>

theorem settings_cache_refines:
  "(let st = run (settings_step jp js) (initial_settings_store storage) ops in
      snd (read_reader_settings jp st) = plain_read jp (run (plain_step js) (storage, None) ops)
      \<and> plain_of st = run (plain_step js) (storage, None) ops)"
proof -
  have i: "coherent jp (initial_settings_store storage)" "plain_of (initial_settings_store storage) = (storage, None)"
    by (simp_all add: coherent_def initial_settings_store_def plain_of_def)
  have "coherent jp (run (settings_step jp js) (initial_settings_store storage) ops)"
    using i(1) by (rule settings.run_keeps) (simp add: list_all_iff)
  then show ?thesis using read_plain settings_run_plain i(2) by (simp add: Let_def)
qed


section \<open>Round trip\<close>

lemma settings_value_parsed:
  assumes "prefs_ok (rs_preferences s)" "json_parse (json_stringify (settings_value s)) = Some (settings_value s)"
    "json_stringify (settings_value s) \<noteq> []"
  shows "parse_stored_settings json_parse (Some (json_stringify (settings_value s))) = s"
proof -
  have "object_props (settings_value s) =
      [(''preferences'', prefs_value (rs_preferences s)), (''themePinned'', Bool (rs_theme_pinned s))]"
    by (simp add: object_props_def settings_value_def)
  then show ?thesis using assms(2,3) sanitize_fixed[OF assms(1)] by (simp add: parse_stored_settings_def)
qed

lemma parsed_ok: "prefs_ok (rs_preferences (parse_stored_settings jp raw))"
  by (auto simp: parse_stored_settings_def default_reader_settings_def default_ok sanitize_ok split: option.splits)


definition demo_settings :: reader_settings where
  "demo_settings = \<lparr>rs_preferences = DEFAULT_READER_PREFERENCES\<lparr>rp_foreground := Some ''#b8d4c8'', rp_theme := Preset ThDark\<rparr>,
     rs_theme_pinned = True\<rparr>"

lemma demo_settings_ok: "prefs_ok (rs_preferences demo_settings)"
proof -
  have "lower_hex ''#b8d4c8''"
    by (simp add: lower_hex_def is_epub_hex_color_def hex_digit_facts to_lower_def lower_char_def code_of_def)
  then show ?thesis using default_ok by (simp add: prefs_ok_def demo_settings_def)
qed


section \<open>Picking a theme\<close>

lemma patch_theme: "effective_reader_theme (apply_reader_settings_patch s d r) r
    = effective_reader_theme \<lparr>rs_preferences = merge_prefs (rs_preferences s) d,
        rs_theme_pinned = (if pp_theme d \<noteq> None then True else rs_theme_pinned s)\<rparr> r"
proof -
  have "effective_reader_theme (b\<lparr>rs_preferences := (rs_preferences b)\<lparr>rp_foreground := c\<rparr>\<rparr>) r = effective_reader_theme b r" for b c
    by (simp add: effective_reader_theme_def)
  from this[where b = "\<lparr>rs_preferences = merge_prefs (rs_preferences s) d, rs_theme_pinned = p\<rparr>" for p]
  show ?thesis by (simp add: apply_reader_settings_patch_def Let_def)
qed

text \<open>One change of the appearance: a theme pick that changes what is painted never leaves a text color below the AA
  contrast on the new surface, and the color is dropped only in that case; every other field takes the patched value; a pick pins the
  theme, a change without one keeps the pin; and picking Default follows the application's theme.\<close>

theorem theme_pick_legible:
  "(let nxt = apply_reader_settings_patch s d r;
        painted = effective_reader_theme nxt r;
        wanted = merge_prefs (rs_preferences s) d in
      (pp_theme d = None \<or> painted = effective_reader_theme s r
         \<or> epub_foreground_fits_theme (rp_foreground (rs_preferences nxt)) (epub_surface_theme painted))
      \<and> (rp_foreground (rs_preferences nxt) = rp_foreground wanted
         \<or> rp_foreground (rs_preferences nxt) = None \<and> pp_theme d \<noteq> None
             \<and> \<not> epub_foreground_fits_theme (rp_foreground wanted) (epub_surface_theme painted))
      \<and> (rs_preferences nxt)\<lparr>rp_foreground := None\<rparr> = wanted\<lparr>rp_foreground := None\<rparr>
      \<and> rs_theme_pinned nxt = (rs_theme_pinned s \<or> pp_theme d \<noteq> None)
      \<and> (pp_theme d \<noteq> Some (Preset ThDefault) \<or> painted = auto_reader_theme r))"
proof -
  have n: "epub_foreground_fits_theme None t" for t by (simp add: epub_foreground_fits_theme_def)
  have d: "pp_theme d = Some (Preset ThDefault) \<Longrightarrow> rp_theme (merge_prefs (rs_preferences s) d) = Preset ThDefault"
    by (simp add: merge_prefs_def or_else_def)
  define base where "base = \<lparr>rs_preferences = merge_prefs (rs_preferences s) d,
    rs_theme_pinned = (if pp_theme d \<noteq> None then True else rs_theme_pinned s)\<rparr>"
  define painted where "painted = effective_reader_theme base r"
  have b: "rs_preferences base = merge_prefs (rs_preferences s) d" "rs_theme_pinned base = (rs_theme_pinned s \<or> pp_theme d \<noteq> None)"
    by (simp_all add: base_def)
  have a: "apply_reader_settings_patch s d r =
      (if pp_theme d \<noteq> None \<and> painted \<noteq> effective_reader_theme s r
          \<and> \<not> epub_foreground_fits_theme (rp_foreground (rs_preferences base)) (epub_surface_theme painted)
       then base\<lparr>rs_preferences := (rs_preferences base)\<lparr>rp_foreground := None\<rparr>\<rparr> else base)"
    by (simp add: apply_reader_settings_patch_def base_def painted_def Let_def)
  have p: "effective_reader_theme (apply_reader_settings_patch s d r) r = painted"
    by (simp only: patch_theme base_def painted_def)
  have q: "pp_theme d = Some (Preset ThDefault) \<Longrightarrow> painted = auto_reader_theme r"
    using d b(1) by (simp add: painted_def effective_reader_theme_def)
  show ?thesis unfolding Let_def p b(1)[symmetric] using n q b(2) by (auto simp: a)
qed

theorem theme_pick_legible_witness:
  "rp_foreground (rs_preferences (apply_reader_settings_patch
      (default_reader_settings\<lparr>rs_preferences := DEFAULT_READER_PREFERENCES\<lparr>rp_foreground := Some ''#1f3a6e''\<rparr>\<rparr>)
      (empty_patch\<lparr>pp_theme := Some (Preset ThDark)\<rparr>) LightFamily)) = None"
proof -
  have f: "\<not> epub_foreground_fits_theme (Some ''#1f3a6e'') ThDark"
    using foreground_fits_checked(2)[of "''#1f3a6e''" ThDark]
    by (simp add: below_aa_def lum_bounds_values epub_foreground_reference_background_def epub_theme_background_def palette_def)
  define s where "s = default_reader_settings\<lparr>rs_preferences := DEFAULT_READER_PREFERENCES\<lparr>rp_foreground := Some ''#1f3a6e''\<rparr>\<rparr>"
  define d where "d = empty_patch\<lparr>pp_theme := Some (Preset ThDark)\<rparr>"
  have d: "pp_theme d = Some (Preset ThDark)" "rp_foreground (merge_prefs (rs_preferences s) d) = Some ''#1f3a6e''"
    "rp_theme (merge_prefs (rs_preferences s) d) = Preset ThDark"
    by (simp_all add: d_def s_def empty_patch_def merge_prefs_def or_else_def)
  have e: "effective_reader_theme s LightFamily = Preset ThDefault"
    by (simp add: s_def effective_reader_theme_def default_reader_settings_def auto_reader_theme_def EPUB_DEFAULT_THEME_def)
  have p: "effective_reader_theme (apply_reader_settings_patch s d LightFamily) LightFamily = Preset ThDark"
    unfolding patch_theme by (simp add: effective_reader_theme_def d)
  have t: "epub_surface_theme (Preset ThDark) = ThDark" by (simp add: epub_surface_theme_def)
  have "rp_foreground (rs_preferences (apply_reader_settings_patch s d LightFamily)) = None"
    using theme_pick_legible[of s d LightFamily, unfolded Let_def p e d t] f by auto
  then show ?thesis by (simp add: s_def d_def)
qed

text \<open>A flip of the application's theme is not a patch: a dark ink picked while Default was painted light stays on the dark surface.\<close>

lemma app_flip_keeps_foreground:
  assumes "s = default_reader_settings\<lparr>rs_preferences := DEFAULT_READER_PREFERENCES\<lparr>rp_foreground := Some ''#1f3a6e''\<rparr>\<rparr>"
  shows "effective_reader_theme s DarkFamily = Preset ThDark
    \<and> rp_foreground (effective_reader_preferences s DarkFamily) = Some ''#1f3a6e''
    \<and> \<not> epub_foreground_fits_theme (Some ''#1f3a6e'') ThDark"
  using foreground_fits_checked(2)[of "''#1f3a6e''" ThDark] assms
  by (simp add: effective_reader_theme_def effective_reader_preferences_def default_reader_settings_def auto_reader_theme_def
      below_aa_def lum_bounds_values epub_foreground_reference_background_def epub_theme_background_def palette_def)

section \<open>The provider\<close>

definition set_position :: "rat \<Rightarrow> rat" where
  "set_position percentage = max 0 (min 100 percentage)"

definition set_preferences ::
  "(string \<Rightarrow> js option) \<Rightarrow> (js \<Rightarrow> string) \<Rightarrow> bool \<Rightarrow> prefs_patch \<Rightarrow> theme_family \<Rightarrow> settings_store \<Rightarrow> settings_store" where
  "set_preferences json_parse json_stringify works d global_theme st =
     (let (st, current) = read_reader_settings json_parse st in
      write_reader_settings json_parse json_stringify works (apply_reader_settings_patch current d global_theme) st)"

end
