(* ===== verification/PdfRange.thy ===== *)
theory PdfRange
  imports Protocol
begin

text \<open>
  \<open>frontend/src/lib/pdf/pdfRangeSource.ts\<close>: random access to a PDF over synchronous range requests, with a
  bounded cache of chunks. The fetcher is a parameter; the interface \<open>range_server\<close> says what an honest one
  answers, and the \<open>tuxbooks://\<close> handler of the theory \<open>Protocol\<close> is shown to be one. Sizes and positions
  stay below 2^53; the chunk size is positive.
\<close>

section \<open>The URL\<close>

text \<open>\<open>BOOK_URL.exec\<close>: the digits and the format of a book URL.\<close>

definition match_book_url :: "string \<Rightarrow> (string \<times> string) option" where
  "match_book_url url =
     (if \<not> starts_with url ''tuxbooks://book/'' then None
      else let rest = drop 16 url; digits = takeWhile is_digit rest; query = drop (length digits) rest in
        if digits = '''' then None
        else if query = ''?format=pdf'' then Some (digits, ''pdf'')
        else if query = ''?format=epub'' then Some (digits, ''epub'')
        else None)"

text \<open>\<open>String(Number(digits))\<close>: exact for the safe integers, a parameter above them.\<close>

definition number_text :: "(string \<Rightarrow> string) \<Rightarrow> string \<Rightarrow> string" where
  "number_text big digits =
     (if int (nat_of_digits digits) \<le> max_safe then show_nat (nat_of_digits digits) else big digits)"

definition canonical_book_url :: "(string \<Rightarrow> string) \<Rightarrow> string \<Rightarrow> string + string" where
  "canonical_book_url big url =
     (case match_book_url url of
        None \<Rightarrow> Inl (''refusing to read from '' @ url @ '': not a book URL'')
      | Some (digits, format) \<Rightarrow>
          Inr (''tuxbooks://book/'' @ number_text big digits @ ''?format=''
               @ (if format = ''epub'' then ''epub'' else ''pdf'')))"

section \<open>The source\<close>

record range_response =
  rr_status :: int
  rr_body :: "nat list"
  rr_headers :: "(string \<times> string) list"

type_synonym range_fetcher = "string \<Rightarrow> string \<Rightarrow> range_response"

definition RANGE_CHUNK_BYTES :: nat where "RANGE_CHUNK_BYTES = 1024 * 1024"
definition RANGE_MAX_CACHED_CHUNKS :: nat where "RANGE_MAX_CACHED_CHUNKS = 64"

text \<open>The chunk map in insertion order, the oldest first.\<close>

record range_source =
  src_size :: "nat option"
  src_chunks :: "(nat \<times> nat list) list"
  src_url :: string
  src_chunk_bytes :: nat
  src_max_chunks :: nat

definition new_range_source :: "(string \<Rightarrow> string) \<Rightarrow> string \<Rightarrow> nat \<Rightarrow> nat \<Rightarrow> string + range_source" where
  "new_range_source big url chunk_bytes max_chunks =
     (case canonical_book_url big url of
        Inl e \<Rightarrow> Inl e
      | Inr u \<Rightarrow> Inr \<lparr>src_size = None, src_chunks = [], src_url = u, src_chunk_bytes = chunk_bytes,
                   src_max_chunks = max_chunks\<rparr>)"

definition range_text :: "nat \<Rightarrow> nat \<Rightarrow> string" where
  "range_text s e = ''bytes='' @ show_nat s @ ''-'' @ show_nat e"

text \<open>The digits after the last slash, if the text ends in a slash and at least one digit.\<close>

definition content_range_total :: "string \<Rightarrow> nat option" where
  "content_range_total header =
     (let tot = after_last slash header in
      if slash \<in> set header \<and> tot \<noteq> '''' \<and> all_digits tot then Some (nat_of_digits tot) else None)"

text \<open>\<open>Map.set\<close>: a known key keeps its place, a new one goes to the end.\<close>

definition map_set :: "'k \<Rightarrow> 'v \<Rightarrow> ('k \<times> 'v) list \<Rightarrow> ('k \<times> 'v) list" where
  "map_set k v m = (if k \<in> fst ` set m then map (\<lambda>(k', v'). (k', if k' = k then v else v')) m else m @ [(k, v)])"

definition map_delete :: "'k \<Rightarrow> ('k \<times> 'v) list \<Rightarrow> ('k \<times> 'v) list" where
  "map_delete k m = filter (\<lambda>(k', _). k' \<noteq> k) m"

definition file_size :: "range_fetcher \<Rightarrow> range_source \<Rightarrow> range_source \<times> (string + nat)" where
  "file_size fetch s =
     (case src_size s of
        Some n \<Rightarrow> (s, Inr n)
      | None \<Rightarrow>
          (let r = fetch (src_url s) ''bytes=0-0'' in
           if rr_status r = 206 then
             (case content_range_total (case map_of (rr_headers r) ''content-range'' of Some h \<Rightarrow> h | None \<Rightarrow> '''') of
                None \<Rightarrow> (s, Inl ''range response missing content-range total'')
              | Some tot \<Rightarrow> (s\<lparr>src_size := Some tot\<rparr>, Inr tot))
           else if rr_status r = 200 then
             (let n = length (rr_body r);
                  s' = s\<lparr>src_size := Some n\<rparr> in
              (if 0 < n then s'\<lparr>src_chunks := map_set 0 (rr_body r) (src_chunks s')\<rparr> else s', Inr n))
           else (s, Inl (''failed to stat '' @ src_url s @ '': '' @ show_int (rr_status r)))))"

fun evict_chunks :: "nat \<Rightarrow> (nat \<times> nat list) list \<Rightarrow> (nat \<times> nat list) list" where
  "evict_chunks max_chunks [] = []"
| "evict_chunks max_chunks (oldest # rest) =
     (if max_chunks < length (oldest # rest) then evict_chunks max_chunks rest else oldest # rest)"

definition read_chunk :: "range_fetcher \<Rightarrow> range_source \<Rightarrow> nat \<Rightarrow> nat \<Rightarrow> range_source \<times> (string + nat list)" where
  "read_chunk fetch s i tot =
     (case map_of (src_chunks s) i of
        Some cached \<Rightarrow> (s\<lparr>src_chunks := map_set i cached (map_delete i (src_chunks s))\<rparr>, Inr cached)
      | None \<Rightarrow>
          (let start = i * src_chunk_bytes s;
               stop_at = min (start + src_chunk_bytes s) tot - 1;
               r = fetch (src_url s) (range_text start stop_at) in
           if rr_status r = 206 \<or> rr_status r = 200 then
             (let body = (if rr_status r = 206 then rr_body r else take (stop_at + 1 - start) (drop start (rr_body r))) in
              (s\<lparr>src_chunks := evict_chunks (src_max_chunks s) (map_set i body (src_chunks s))\<rparr>, Inr body))
           else (s, Inl (''failed to read '' @ src_url s @ ''@'' @ show_nat start @ ''-'' @ show_nat stop_at @ '': ''
                         @ show_int (rr_status r)))))"

text \<open>\<open>memory.set\<close> at a place: \<open>None\<close> is the \<open>RangeError\<close> of a copy that does not fit.\<close>

definition memory_set :: "nat list \<Rightarrow> nat list \<Rightarrow> nat \<Rightarrow> nat list option" where
  "memory_set memory bytes place =
     (if length memory < place + length bytes then None
      else Some (take place memory @ bytes @ drop (place + length bytes) memory))"

text \<open>The loop of \<open>read\<close> from a cursor; the result carries the source and the memory also when it throws.\<close>

function read_loop ::
  "range_fetcher \<Rightarrow> range_source \<Rightarrow> nat list \<Rightarrow> nat \<Rightarrow> nat \<Rightarrow> nat \<Rightarrow> nat \<Rightarrow> nat \<Rightarrow> range_source \<times> nat list \<times> string option" where
  "read_loop fetch s memory offset position cursor end_at tot =
     (if end_at \<le> cursor then (s, memory, None)
      else let i = cursor div src_chunk_bytes s in
        (case read_chunk fetch s i tot of
           (s', Inl e) \<Rightarrow> (s', memory, Some e)
         | (s', Inr chunk) \<Rightarrow>
             (let from = cursor - i * src_chunk_bytes s;
                  count = min (end_at - cursor) (length chunk - from) in
              if count = 0 then (s', memory, Some (''range read stalled at '' @ src_url s @ ''@'' @ show_nat cursor))
              else (case memory_set memory (take count (drop from chunk)) (offset + (cursor - position)) of
                      None \<Rightarrow> (s', memory, Some ''RangeError'')
                    | Some memory' \<Rightarrow> read_loop fetch s' memory' offset position (cursor + count) end_at tot))))"
  by pat_completeness auto
termination
  by (relation "measure (\<lambda>(fetch, s, memory, offset, position, cursor, end_at, tot). end_at - cursor)") auto

declare read_loop.simps [simp del]

definition read_range ::
  "range_fetcher \<Rightarrow> range_source \<Rightarrow> nat list \<Rightarrow> nat \<Rightarrow> nat \<Rightarrow> nat \<Rightarrow> range_source \<times> nat list \<times> (string + nat)" where
  "read_range fetch s memory offset len position =
     (case file_size fetch s of
        (s', Inl e) \<Rightarrow> (s', memory, Inl e)
      | (s', Inr tot) \<Rightarrow>
          if tot \<le> position then (s', memory, Inr 0)
          else let end_at = min (position + len) tot in
            (case read_loop fetch s' memory offset position position end_at tot of
               (s'', memory', Some e) \<Rightarrow> (s'', memory', Inl e)
             | (s'', memory', None) \<Rightarrow> (s'', memory', Inr (end_at - position))))"

definition close_source :: "range_source \<Rightarrow> range_source" where
  "close_source s = s\<lparr>src_chunks := []\<rparr>"


section \<open>The bound on the cache\<close>

definition source_bounded :: "range_source \<Rightarrow> bool" where
  "source_bounded s \<longleftrightarrow> length (src_chunks s) \<le> max 1 (src_max_chunks s) \<and> (src_size s = None \<longrightarrow> src_chunks s = [])"

lemma length_map_delete: "k \<in> fst ` set m \<Longrightarrow> length (map_delete k m) < length m"
  unfolding map_delete_def by (auto intro!: length_filter_less)

lemma not_in_map_delete [simp]: "k \<notin> fst ` set (map_delete k m)"
  by (auto simp: map_delete_def)

lemma evict_bound: "length (evict_chunks n m) \<le> max n 0 \<and> set (evict_chunks n m) \<subseteq> set m"
  by (induction m) auto

lemma evict_distinct: "distinct (map fst m) \<Longrightarrow> distinct (map fst (evict_chunks n m))"
  by (induction m) auto

lemma map_of_in_keys: "map_of m k = Some v \<Longrightarrow> k \<in> fst ` set m"
  by (induction m) (auto split: if_splits)

lemma read_chunk_bounded:
  assumes "source_bounded s" "src_size s \<noteq> None"
  shows "source_bounded (fst (read_chunk fetch s i tot)) \<and> src_size (fst (read_chunk fetch s i tot)) = src_size s
     \<and> src_max_chunks (fst (read_chunk fetch s i tot)) = src_max_chunks s"
proof (cases "map_of (src_chunks s) i")
  case None
  then show ?thesis
    using assms evict_bound[of "src_max_chunks s"]
    by (auto simp: read_chunk_def source_bounded_def Let_def le_max_iff_disj)
next
  case (Some cached)
  then show ?thesis
    using assms length_map_delete[OF map_of_in_keys[OF Some]]
    by (auto simp: read_chunk_def source_bounded_def map_set_def)
qed

lemma read_loop_bounded:
  "source_bounded s \<Longrightarrow> src_size s \<noteq> None \<Longrightarrow>
     source_bounded (fst (read_loop fetch s memory offset position cursor end_at tot))
     \<and> src_max_chunks (fst (read_loop fetch s memory offset position cursor end_at tot)) = src_max_chunks s"
proof (induction fetch s memory offset position cursor end_at tot rule: read_loop.induct)
  case (1 fetch s memory offset position cursor end_at tot)
  note b = read_chunk_bounded[OF 1(2,3), of fetch "cursor div src_chunk_bytes s" tot]
  show ?case
  proof (cases "end_at \<le> cursor")
    case True
    then show ?thesis using 1(2) by (subst (1 2) read_loop.simps) simp
  next
    case False
    obtain s' r where c: "read_chunk fetch s (cursor div src_chunk_bytes s) tot = (s', r)" by force
    then have b': "source_bounded s'" "src_size s' \<noteq> None" "src_max_chunks s' = src_max_chunks s" using b 1(3) by simp_all
    show ?thesis
      using 1(1)[OF False refl c[symmetric] _ refl refl] b' False c
      by (subst (1 2) read_loop.simps) (auto simp: Let_def split: sum.split option.split)
  qed
qed

lemma file_size_bounded:
  assumes "source_bounded s"
  shows "source_bounded (fst (file_size fetch s)) \<and> src_max_chunks (fst (file_size fetch s)) = src_max_chunks s
     \<and> (\<forall>n. snd (file_size fetch s) = Inr n \<longrightarrow> src_size (fst (file_size fetch s)) \<noteq> None)"
  using assms by (auto simp: file_size_def source_bounded_def Let_def map_set_def split: option.splits)

lemma read_range_bounded:
  assumes "source_bounded s"
  shows "source_bounded (fst (read_range fetch s memory offset len position))
     \<and> src_max_chunks (fst (read_range fetch s memory offset len position)) = src_max_chunks s"
proof -
  obtain s' r where f: "file_size fetch s = (s', r)" by force
  then have b: "source_bounded s'" "src_max_chunks s' = src_max_chunks s" "\<And>n. r = Inr n \<Longrightarrow> src_size s' \<noteq> None"
    using file_size_bounded[OF assms, of fetch] by simp_all
  show ?thesis
  proof (cases r)
    case (Inl e)
    then show ?thesis using f b by (simp add: read_range_def)
  next
    case (Inr n)
    let ?out = "read_loop fetch s' memory offset position position (min (position + len) n) n"
    obtain s2 m2 e2 where o: "?out = (s2, m2, e2)" by (metis prod_cases3)
    have "source_bounded s2 \<and> src_max_chunks s2 = src_max_chunks s'"
      using read_loop_bounded[OF b(1) b(3)[OF Inr], of fetch memory offset position position "min (position + len) n" n]
      by (simp add: o)
    then show ?thesis using f b(1,2) Inr o by (cases e2) (simp_all add: read_range_def Let_def)
  qed
qed


section \<open>Reads from an honest server\<close>

text \<open>The answer to \<open>bytes=a-b\<close> for a file: the slice with a total, or the whole file from a server that ignores ranges.\<close>

definition serves_range :: "nat list \<Rightarrow> nat \<Rightarrow> nat \<Rightarrow> range_response \<Rightarrow> bool" where
  "serves_range file a b r \<longleftrightarrow>
     rr_status r = 206 \<and> rr_body r = take (Suc b - a) (drop a file)
       \<and> (\<exists>h. map_of (rr_headers r) ''content-range'' = Some h \<and> content_range_total h = Some (length file))
     \<or> rr_status r = 200 \<and> rr_body r = file"

definition chunk_of :: "nat list \<Rightarrow> nat \<Rightarrow> nat \<times> nat list \<Rightarrow> bool" where
  "chunk_of file unit c \<longleftrightarrow> fst c * unit < length file \<and> snd c = take (length (snd c)) (drop (fst c * unit) file)
     \<and> min unit (length file - fst c * unit) \<le> length (snd c)"

definition source_holds :: "string \<Rightarrow> nat list \<Rightarrow> range_source \<Rightarrow> bool" where
  "source_holds url file s \<longleftrightarrow> src_url s = url \<and> 0 < src_chunk_bytes s \<and> src_size s \<in> {None, Some (length file)}
     \<and> list_all (chunk_of file (src_chunk_bytes s)) (src_chunks s)"

locale range_server =
  fixes fetch :: "'e \<Rightarrow> range_fetcher" and url_of :: "'e \<Rightarrow> string" and bytes_of :: "'e \<Rightarrow> nat list" and honest :: "'e \<Rightarrow> bool"
  assumes serves: "honest e \<Longrightarrow> a \<le> b \<Longrightarrow> b < length (bytes_of e) \<Longrightarrow>
    serves_range (bytes_of e) a b (fetch e (url_of e) (range_text a b))"
begin

lemma size_ok:
  assumes "honest e" "bytes_of e \<noteq> []" "source_holds (url_of e) (bytes_of e) s"
  shows "\<exists>s'. file_size (fetch e) s = (s', Inr (length (bytes_of e))) \<and> source_holds (url_of e) (bytes_of e) s'"
proof (cases "src_size s")
  case None
  have r: "range_text 0 0 = ''bytes=0-0''" by code_simp
  have v: "serves_range (bytes_of e) 0 0 (fetch e (src_url s) ''bytes=0-0'')"
    using serves[OF assms(1), of 0 0] assms(2,3) r by (simp add: source_holds_def)
  have c: "list_all (chunk_of (bytes_of e) (src_chunk_bytes s)) (map_set 0 (bytes_of e) (src_chunks s))"
    using assms(2,3) by (auto simp: source_holds_def map_set_def list_all_iff chunk_of_def)
  show ?thesis using None v c assms(2,3)
    by (auto simp: file_size_def serves_range_def source_holds_def Let_def)
qed (use assms in \<open>auto simp: file_size_def source_holds_def\<close>)

lemma chunk_ok:
  assumes "honest e" "source_holds (url_of e) (bytes_of e) s" "i * src_chunk_bytes s < length (bytes_of e)"
  shows "\<exists>s' b. read_chunk (fetch e) s i (length (bytes_of e)) = (s', Inr b) \<and> source_holds (url_of e) (bytes_of e) s'
     \<and> src_chunk_bytes s' = src_chunk_bytes s \<and> chunk_of (bytes_of e) (src_chunk_bytes s) (i, b)"
proof (cases "map_of (src_chunks s) i")
  case None
  let ?a = "i * src_chunk_bytes s" and ?b = "min (i * src_chunk_bytes s + src_chunk_bytes s) (length (bytes_of e)) - 1"
  have p: "0 < src_chunk_bytes s" using assms(2) by (simp add: source_holds_def)
  have ab: "?a \<le> ?b" "Suc ?b - ?a = min (src_chunk_bytes s) (length (bytes_of e) - ?a)" "?b < length (bytes_of e)"
    using p assms(3) by auto
  let ?body = "take (Suc ?b - ?a) (drop ?a (bytes_of e))"
  have c: "chunk_of (bytes_of e) (src_chunk_bytes s) (i, ?body)"
    using ab(2) assms(3) by (auto simp: chunk_of_def min_def)
  have "list_all (chunk_of (bytes_of e) (src_chunk_bytes s)) (evict_chunks n (map_set i ?body (src_chunks s)))" for n
  proof -
    have "list_all (chunk_of (bytes_of e) (src_chunk_bytes s)) (map_set i ?body (src_chunks s))"
      using c assms(2) by (auto simp: map_set_def source_holds_def list_all_iff)
    then show ?thesis using evict_bound[of n "map_set i ?body (src_chunks s)"] by (auto simp: list_all_iff)
  qed
  then show ?thesis
    using None c assms(2) serves[OF assms(1) ab(1)] ab(3)
    by (auto simp: read_chunk_def serves_range_def source_holds_def Let_def)
next
  case (Some b)
  then have c: "chunk_of (bytes_of e) (src_chunk_bytes s) (i, b)"
    using assms(2) by (auto simp: source_holds_def list_all_iff dest: map_of_SomeD)
  have "list_all (chunk_of (bytes_of e) (src_chunk_bytes s)) (map_set i b (map_delete i (src_chunks s)))"
    using c assms(2) by (auto simp: map_set_def map_delete_def source_holds_def list_all_iff)
  then show ?thesis using Some c assms(2) by (auto simp: read_chunk_def source_holds_def)
qed

lemma loop_ok:
  assumes "honest e"
  shows "source_holds (url_of e) (bytes_of e) s \<Longrightarrow> position \<le> cursor \<Longrightarrow> cursor \<le> end_at \<Longrightarrow> end_at \<le> length (bytes_of e) \<Longrightarrow>
    offset + (end_at - position) \<le> length memory \<Longrightarrow>
    \<exists>s'. read_loop (fetch e) s memory offset position cursor end_at (length (bytes_of e))
        = (s', take (offset + (cursor - position)) memory @ take (end_at - cursor) (drop cursor (bytes_of e))
               @ drop (offset + (end_at - position)) memory, None)
      \<and> source_holds (url_of e) (bytes_of e) s'"
proof (induction "end_at - cursor" arbitrary: s memory cursor rule: less_induct)
  case less
  let ?F = "bytes_of e"
  show ?case
  proof (cases "end_at \<le> cursor")
    case True
    then have "end_at = cursor" using less.prems by simp
    then show ?thesis using less.prems by (subst read_loop.simps) simp
  next
    case False
    define i where "i = cursor div src_chunk_bytes s"
    define from_at where "from_at = cursor - i * src_chunk_bytes s"
    define place where "place = offset + (cursor - position)"
    have pos: "0 < src_chunk_bytes s" using less.prems(1) by (simp add: source_holds_def)
    have i: "i * src_chunk_bytes s \<le> cursor" "from_at < src_chunk_bytes s" "from_at + i * src_chunk_bytes s = cursor"
      using pos by (simp_all add: i_def from_at_def minus_div_mult_eq_mod)
    have "i * src_chunk_bytes s < length ?F" using i(1) False less.prems(4) by simp
    from chunk_ok[OF assms less.prems(1) this] obtain s' b where
      c: "read_chunk (fetch e) s i (length ?F) = (s', Inr b)" and h: "source_holds (url_of e) ?F s'"
      and b: "chunk_of ?F (src_chunk_bytes s) (i, b)" by blast
    define count where "count = min (end_at - cursor) (length b - from_at)"
    have bt: "b = take (length b) (drop (i * src_chunk_bytes s) ?F)"
      "min (src_chunk_bytes s) (length ?F - i * src_chunk_bytes s) \<le> length b"
      using b by (simp_all add: chunk_of_def)
    have "from_at < length b" using bt(2) i False less.prems(4) by (auto simp: min_def split: if_splits)
    then have n: "0 < count" "count \<le> end_at - cursor" "count \<le> length b - from_at" using False by (simp_all add: count_def)
    have x: "take count (drop from_at b) = take count (drop cursor ?F)" (is "_ = ?X")
      using n(3) i(3) by (subst bt(1)) (simp add: drop_take min_def)
    have lx: "length ?X = count" using n(2) less.prems(3,4) by simp
    have fits: "place + count \<le> length memory" "place + count \<le> offset + (end_at - position)"
      "offset + (cursor + count - position) = place + count"
      using n(2) less.prems by (simp_all add: place_def)
    define memory' where "memory' = take place memory @ ?X @ drop (place + count) memory"
    have m: "memory_set memory ?X place = Some memory'" using fits(1) lx by (simp add: memory_set_def memory'_def)
    have lm: "length memory' = length memory" using fits(1) lx by (simp add: memory'_def)
    have step: "read_loop (fetch e) s memory offset position cursor end_at (length ?F)
        = read_loop (fetch e) s' memory' offset position (cursor + count) end_at (length ?F)"
      using False c n(1) m
      by (subst read_loop.simps) (simp add: Let_def i_def[symmetric] from_at_def[symmetric] count_def[symmetric] x place_def[symmetric])
    have le: "end_at - (cursor + count) < end_at - cursor" "position \<le> cursor + count" "cursor + count \<le> end_at"
      "offset + (end_at - position) \<le> length memory'"
      using n(1,2) False less.prems lm by simp_all
    from less.hyps[OF le(1) h le(2,3) less.prems(4) le(4)] obtain s2 where
      r: "read_loop (fetch e) s' memory' offset position (cursor + count) end_at (length ?F)
        = (s2, take (place + count) memory' @ take (end_at - (cursor + count)) (drop (cursor + count) ?F)
             @ drop (offset + (end_at - position)) memory', None)" "source_holds (url_of e) ?F s2"
      unfolding fits(3) by blast
    have t: "take (place + count) memory' = take place memory @ ?X" using fits(1) lx by (simp add: memory'_def)
    have d: "drop (offset + (end_at - position)) memory' = drop (offset + (end_at - position)) memory"
      using fits(1,2) lx by (simp add: memory'_def drop_drop)
    have "?X @ take (end_at - (cursor + count)) (drop (cursor + count) ?F) = take (end_at - cursor) (drop cursor ?F)"
      using n(2) by (metis add.commute diff_diff_left drop_drop le_add_diff_inverse take_add)
    then show ?thesis using step r t d by (simp add: place_def)
  qed
qed

lemma read_ok:
  assumes "honest e" "bytes_of e \<noteq> []" "source_holds (url_of e) (bytes_of e) s" "offset + len \<le> length memory"
  shows "\<exists>s'. read_range (fetch e) s memory offset len position =
      (let n = min len (length (bytes_of e) - position) in
       (s', take offset memory @ take n (drop position (bytes_of e)) @ drop (offset + n) memory, Inr n))
    \<and> source_holds (url_of e) (bytes_of e) s'"
proof -
  let ?F = "bytes_of e"
  obtain s1 where f: "file_size (fetch e) s = (s1, Inr (length ?F))" "source_holds (url_of e) ?F s1"
    using size_ok[OF assms(1-3)] by blast
  show ?thesis
  proof (cases "length ?F \<le> position")
    case True
    then show ?thesis using f by (auto simp: read_range_def)
  next
    case False
    let ?stop = "min (position + len) (length ?F)"
    have n: "?stop - position = min len (length ?F - position)" using False by simp
    have b: "offset + (?stop - position) \<le> length memory" using assms(4) by (auto simp: min_def)
    obtain s2 where "read_loop (fetch e) s1 memory offset position position ?stop (length ?F)
        = (s2, take offset memory @ take (?stop - position) (drop position ?F) @ drop (offset + (?stop - position)) memory, None)"
      "source_holds (url_of e) ?F s2"
      using loop_ok[OF assms(1) f(2), of position position ?stop offset memory] b False by auto
    then show ?thesis using f(1) False by (auto simp: read_range_def Let_def n[symmetric])
  qed
qed

end


section \<open>The protocol handler is such a server\<close>

text \<open>\<open>xhrRangeFetcher\<close> against the main process: of the headers it keeps \<open>content-range\<close>.\<close>

definition xhr_range_fetcher :: "platform \<Rightarrow> book_sources \<Rightarrow> range_fetcher" where
  "xhr_range_fetcher pf src url wanted =
     (let r = handle_protocol_request pf \<lparr>rq_url = url, rq_method = ''GET'', rq_range = Some wanted\<rparr> src in
      \<lparr>rr_status = r_status r,
       rr_body = (case r_body r of Bytes bs \<Rightarrow> bs | Text t \<Rightarrow> map code_of t),
       rr_headers = (case map_of (r_headers r) ''content-range'' of None \<Rightarrow> [] | Some h \<Rightarrow> [(''content-range'', h)])\<rparr>)"

record served_book =
  sb_platform :: platform
  sb_sources :: book_sources
  sb_id :: nat
  sb_bytes :: "nat list"
  sb_encode :: "nat list \<Rightarrow> string"

definition book_url :: "nat \<Rightarrow> string \<Rightarrow> string" where
  "book_url i format = ''tuxbooks://book/'' @ show_nat i @ ''?format='' @ format"

text \<open>The book is served: its sources slice the file, base64 decodes what they encode, and \<open>new URL\<close> reads the book URL.\<close>

definition book_served :: "served_book \<Rightarrow> bool" where
  "book_served e \<longleftrightarrow>
     slices_of (sb_bytes e) (sb_encode e) (sb_sources e) (int (sb_id e))
     \<and> (\<forall>n m. from_base64 (sb_platform e) (sb_encode e (take n (drop m (sb_bytes e)))) = take n (drop m (sb_bytes e)))
     \<and> int (length (sb_bytes e)) \<le> max_safe \<and> 0 < sb_id e \<and> int (sb_id e) \<le> max_safe
     \<and> (\<exists>u. new_url (sb_platform e) (book_url (sb_id e) ''pdf'') = Some u \<and> url_protocol u = ''tuxbooks:''
          \<and> url_host u = ''book'' \<and> url_pathname u = ''/'' @ show_nat (sb_id e))"

lemma show_int_nat [simp]: "show_int (int n) = show_nat n"
  by (simp add: show_int_def)

lemma digits_no_slash: "slash \<notin> set (show_nat n)"
proof
  assume "slash \<in> set (show_nat n)"
  then have "is_digit slash" using show_nat_digits[of n] by (auto simp: all_digits_def list_all_iff)
  moreover have "\<not> is_digit slash" by code_simp
  ultimately show False by simp
qed

lemma content_range_total_of: "content_range_total (a @ slash # show_nat n) = Some n"
  using digits_no_slash[of n] by (simp add: content_range_total_def after_last_append)

lemma range_text_parsed:
  "a \<le> b \<Longrightarrow> int b \<le> max_safe \<Longrightarrow> parse_range_header (Some (range_text a b)) = RangeOk (Some (int a)) (Some (int b))"
  using range_header_roundtrip[of "int a" "int b"] by (simp add: range_text_def)

lemma served_ranges:
  assumes ok: "book_served e" and ab: "a \<le> b" "b < length (sb_bytes e)"
  shows "serves_range (sb_bytes e) a b
    (xhr_range_fetcher (sb_platform e) (sb_sources e) (book_url (sb_id e) ''pdf'') (range_text a b))"
proof -
  let ?F = "sb_bytes e"
  obtain u where u: "new_url (sb_platform e) (book_url (sb_id e) ''pdf'') = Some u" "url_protocol u = ''tuxbooks:''"
    "url_host u = ''book''" "url_pathname u = ''/'' @ show_nat (sb_id e)"
    using ok by (auto simp: book_served_def)
  define rq where "rq = \<lparr>rq_url = book_url (sb_id e) ''pdf'', rq_method = ''GET'', rq_range = Some (range_text a b)\<rparr>"
  have i: "parse_book_id (show_nat (sb_id e)) = Some (int (sb_id e))"
    using book_id_roundtrip[of "int (sb_id e)"] ok by (simp add: book_served_def)
  have n: "index_of slash (show_nat (sb_id e)) = None" using digits_no_slash by (simp add: index_of_None)
  have b: "int b \<le> max_safe" using ok ab(2) by (auto simp: book_served_def)
  have "serve_book_bytes (sb_platform e) u rq (sb_sources e) (int (sb_id e)) =
      bytes_response (take (Suc b - a) (drop a ?F)) (book_source_mime (url_format u)) 206
        [(''content-range'', ''bytes '' @ show_nat a @ ''-'' @ show_nat b @ ''/'' @ show_nat (length ?F))]"
    using ranged_read[of ?F "sb_encode e" "sb_sources e" "int (sb_id e)" "sb_platform e" rq "Some (int a)" "Some (int b)" u]
      ok range_text_parsed[OF ab(1) b] ab
    by (simp add: book_served_def rq_def Let_def min_def)
  then have h: "handle_protocol_request (sb_platform e) rq (sb_sources e) =
      bytes_response (take (Suc b - a) (drop a ?F)) (book_source_mime (url_format u)) 206
        [(''content-range'', ''bytes '' @ show_nat a @ ''-'' @ show_nat b @ ''/'' @ show_nat (length ?F))]"
    using u i n by (simp add: handle_protocol_request_def serve_book_def rq_def)
  have t: "content_range_total (''bytes '' @ show_nat a @ ''-'' @ show_nat b @ ''/'' @ show_nat (length ?F)) = Some (length ?F)"
    using content_range_total_of[of "''bytes '' @ show_nat a @ ''-'' @ show_nat b" "length ?F"]
    by (simp only: append_assoc append.simps)
  show ?thesis
    unfolding xhr_range_fetcher_def rq_def[symmetric] h
    using t by (simp add: serves_range_def bytes_response_def)
qed

interpretation protocol_reads: range_server
  "\<lambda>e. xhr_range_fetcher (sb_platform e) (sb_sources e)" "\<lambda>e. book_url (sb_id e) ''pdf''" sb_bytes book_served
  by unfold_locales (rule served_ranges)


section \<open>Sessions of reads\<close>

datatype source_op = ReadAt "nat list" nat nat nat | CloseSource

fun source_step :: "range_fetcher \<Rightarrow> range_source \<Rightarrow> source_op \<Rightarrow> range_source" where
  "source_step fetch s (ReadAt memory offset len position) = fst (read_range fetch s memory offset len position)"
| "source_step fetch s CloseSource = close_source s"

fun op_fits :: "source_op \<Rightarrow> bool" where
  "op_fits (ReadAt memory offset len position) = (offset + len \<le> length memory)"
| "op_fits CloseSource = True"

interpretation bounded: invariant_machine "source_step fetch" "\<lambda>_. True"
  "\<lambda>s. source_bounded s \<and> src_max_chunks s = n" for fetch n
proof
  fix s op
  assume "source_bounded s \<and> src_max_chunks s = n"
  then show "source_bounded (source_step fetch s op) \<and> src_max_chunks (source_step fetch s op) = n"
    using read_range_bounded[of s fetch]
    by (cases op) (auto simp: close_source_def source_bounded_def)
qed

definition book_fetcher :: "served_book \<Rightarrow> range_fetcher" where
  "book_fetcher e = xhr_range_fetcher (sb_platform e) (sb_sources e)"

definition reading :: "served_book \<Rightarrow> range_source \<Rightarrow> bool" where
  "reading e s \<longleftrightarrow> book_served e \<and> sb_bytes e \<noteq> [] \<and> source_holds (book_url (sb_id e) ''pdf'') (sb_bytes e) s"

interpretation sessions: invariant_machine "source_step (book_fetcher e)" op_fits "reading e" for e
proof
  fix s op
  assume "reading e s" "op_fits op"
  then show "reading e (source_step (book_fetcher e) s op)"
  proof (cases op)
    case (ReadAt memory offset len position)
    then show ?thesis
      using \<open>reading e s\<close> \<open>op_fits op\<close> protocol_reads.read_ok[of e s offset len memory position]
      by (auto simp: reading_def book_fetcher_def Let_def)
  qed (auto simp: reading_def close_source_def source_holds_def)
qed

lemma book_url_canonical:
  assumes "int i \<le> max_safe" "f \<in> {''pdf'', ''epub''}"
  shows "canonical_book_url big (book_url i f) = Inr (book_url i f)"
proof -
  have q: "\<not> is_digit CHR ''?''" by code_simp
  have t: "takeWhile is_digit (show_nat i @ CHR ''?'' # r) = show_nat i" for r
    by (rule takeWhile_digits[OF show_nat_digits q])
  have "match_book_url (book_url i f) = Some (show_nat i, f)"
    using assms(2) t by (auto simp: match_book_url_def book_url_def starts_with_def Let_def)
  then show ?thesis using assms by (auto simp: canonical_book_url_def number_text_def book_url_def)
qed

text \<open>C22. A PDF read through the range source, the \<open>tuxbooks://\<close> handler and the sidecar is the file itself: after any
  session of reads and closes, a read copies exactly the bytes of the file at its position into the place asked for, touches no other byte of the memory, and
  returns their number, 0 at or past the end, for every chunk size and cache bound. Whatever the server answers, honest or not,
  the cache never holds more than its bound of chunks (or the single body of a server that ignores ranges).\<close>

theorem pdf_reads_are_the_file:
  assumes "book_served e" and "sb_bytes e \<noteq> []" and "0 < chunk_bytes"
    and "new_range_source big (book_url (sb_id e) ''pdf'') chunk_bytes max_chunks = Inr s"
    and "list_all op_fits ops" and "offset + len \<le> length memory"
  shows "(let s' = run (source_step (book_fetcher e)) s ops; n = min len (length (sb_bytes e) - position) in
       snd (read_range (book_fetcher e) s' memory offset len position)
         = (take offset memory @ take n (drop position (sb_bytes e)) @ drop (offset + n) memory, Inr n))
     \<and> length (src_chunks (run (source_step fetch) s any_ops)) \<le> max 1 max_chunks"
proof -
  have s: "s = \<lparr>src_size = None, src_chunks = [], src_url = book_url (sb_id e) ''pdf'', src_chunk_bytes = chunk_bytes,
      src_max_chunks = max_chunks\<rparr>"
    using assms(1,4) book_url_canonical[of "sb_id e" "''pdf''" big] by (auto simp: new_range_source_def book_served_def)
  have "reading e s" using assms(1-3) by (simp add: reading_def s source_holds_def)
  then have "reading e (run (source_step (book_fetcher e)) s ops)" using assms(5) by (rule sessions.run_keeps)
  then have r: "snd (read_range (book_fetcher e) (run (source_step (book_fetcher e)) s ops) memory offset len position)
      = (let n = min len (length (sb_bytes e) - position) in
          (take offset memory @ take n (drop position (sb_bytes e)) @ drop (offset + n) memory, Inr n))"
    using protocol_reads.read_ok[of e _ offset len memory position] assms(2,6)
    by (fastforce simp: reading_def book_fetcher_def Let_def)
  have "source_bounded s \<and> src_max_chunks s = max_chunks" by (simp add: s source_bounded_def)
  then have "source_bounded (run (source_step fetch) s any_ops) \<and> src_max_chunks (run (source_step fetch) s any_ops) = max_chunks"
    by (rule bounded.run_keeps) (simp add: list_all_iff)
  then have "length (src_chunks (run (source_step fetch) s any_ops)) \<le> max 1 max_chunks"
    unfolding source_bounded_def by (metis (full_types))
  then show ?thesis using r by (simp add: Let_def)
qed


definition demo_served :: served_book where
  "demo_served = \<lparr>sb_platform = demo_platform\<lparr>new_url := (\<lambda>_. Some \<lparr>url_protocol = ''tuxbooks:'', url_host = ''book'',
       url_hostname = ''book'', url_pathname = ''/1'', url_origin = ''null'', url_href = ''tuxbooks://book/1?format=pdf'',
       url_username = '''', url_password = '''', url_format = Some ''pdf''\<rparr>)\<rparr>,
     sb_sources = demo_book, sb_id = 1, sb_bytes = [7, 8, 9], sb_encode = map char_of\<rparr>"

lemma demo_book_served: "book_served demo_served"
proof -
  have s: "slices_of [7, 8, 9] (map char_of) demo_book 1"
    by (simp add: slices_of_def demo_book_def no_sources_def)
  have d: "from_base64 (sb_platform demo_served) (map char_of (take n (drop m [7, 8, 9 :: nat]))) = take n (drop m [7, 8, 9])" for n m
    by (auto simp: demo_platform_def demo_served_def o_def dest!: in_set_takeD in_set_dropD intro!: map_idI)
  have one: "show_nat 1 = ''1''" by code_simp
  show ?thesis using s d one by (simp add: book_served_def demo_served_def max_safe_def)
qed

theorem pdf_reads_are_the_file_witness:
  "snd (read_range (book_fetcher demo_served)
      (run (source_step (book_fetcher demo_served))
        \<lparr>src_size = None, src_chunks = [], src_url = ''tuxbooks://book/1?format=pdf'', src_chunk_bytes = 2, src_max_chunks = 1\<rparr>
        [ReadAt [0] 0 1 0, CloseSource]) [0, 0, 0, 0] 1 3 1)
   = ([0, 8, 9, 0], Inr 2)"
proof -
  have one: "show_nat 1 = ''1''" by code_simp
  have u: "book_url 1 ''pdf'' = ''tuxbooks://book/1?format=pdf''" using one by (simp add: book_url_def)
  have n: "new_range_source (\<lambda>s. s) (book_url 1 ''pdf'') 2 1 = Inr \<lparr>src_size = None, src_chunks = [],
      src_url = ''tuxbooks://book/1?format=pdf'', src_chunk_bytes = 2, src_max_chunks = 1\<rparr>"
    using book_url_canonical[of 1 "''pdf''" "\<lambda>s. s", unfolded u] by (simp add: new_range_source_def u[symmetric] max_safe_def)
  have b: "sb_id demo_served = 1" "sb_bytes demo_served = [7, 8, 9]" by (simp_all add: demo_served_def)
  show ?thesis
    using pdf_reads_are_the_file[OF demo_book_served, of 2 "\<lambda>s. s" 1 _ "[ReadAt [0] 0 1 0, CloseSource]" 1 3 "[0, 0, 0, 0]" 1] n
    by (simp add: b Let_def)
qed

end
