(* ===== verification/PdfTheme.thy ===== *)
theory PdfTheme
  imports Appearance "HOL-Library.Word"
begin

text \<open>
  \<open>frontend/src/lib/pdf/smartColors.ts\<close> and \<open>frontend/src/lib/pdf/theme.ts\<close>: the treatment of PDF pages under each reader theme, and the
  colors of the dark scheme as PDFium's 32-bit values. A color component is a rational between 0 and 1.
\<close>

unbundle bit_operations_syntax

section \<open>Colors\<close>

type_synonym rgb = "rat \<times> rat \<times> rat"

record smart_palette =
  sp_background :: rgb
  sp_text :: rgb

record fpdf_color_scheme =
  cs_path_fill :: "32 word"
  cs_path_stroke :: "32 word"
  cs_text_fill :: "32 word"
  cs_text_stroke :: "32 word"

definition FPDF_CONVERT_FILL_TO_STROKE :: int where "FPDF_CONVERT_FILL_TO_STROKE = 0x20"

definition clamp01 :: "rat \<Rightarrow> rat" where "clamp01 v = min 1 (max 0 v)"

definition channel :: "rat \<Rightarrow> int" where "channel v = round_half_up (clamp01 v * 255)"

definition rgb_to_argb :: "rgb \<Rightarrow> 32 word" where
  "rgb_to_argb rgb =
     (case rgb of (r, g, b) \<Rightarrow>
        push_bit 24 0xff OR push_bit 16 (word_of_int (channel r)) OR push_bit 8 (word_of_int (channel g)) OR word_of_int (channel b))"

definition color_scheme_from_palette :: "smart_palette \<Rightarrow> fpdf_color_scheme" where
  "color_scheme_from_palette colors =
     (let background = rgb_to_argb (sp_background colors); text = rgb_to_argb (sp_text colors) in
      \<lparr>cs_path_fill = background, cs_path_stroke = text, cs_text_fill = text, cs_text_stroke = background\<rparr>)"

definition hex_to_rgb01 :: "string \<Rightarrow> rgb option" where
  "hex_to_rgb01 hex =
     (if \<not> is_epub_hex_color hex then None
      else let v = (word_of_nat (parse_hex (drop 1 hex)) :: 32 word) in
        Some (of_int (uint (drop_bit 16 v AND 0xff)) / 255, of_int (uint (drop_bit 8 v AND 0xff)) / 255,
              of_int (uint (v AND 0xff)) / 255))"

section \<open>Treatments\<close>

record pdf_treatment =
  pt_filter :: "string option"
  pt_tint :: "string option"
  pt_smart :: "smart_palette option"
  pt_page_background :: "string option"

definition no_treatment :: pdf_treatment where
  "no_treatment = \<lparr>pt_filter = None, pt_tint = None, pt_smart = None, pt_page_background = None\<rparr>"

definition preset_colors :: "epub_theme \<Rightarrow> theme_colors" where
  "preset_colors t = the (epub_theme_colors t)"

definition SMART_DARK_PALETTE :: smart_palette where
  "SMART_DARK_PALETTE =
     \<lparr>sp_background = (case hex_to_rgb01 (tc_background (preset_colors ThDark)) of Some c \<Rightarrow> c | None \<Rightarrow> (63/1000, 63/1000, 75/1000)),
      sp_text = (case hex_to_rgb01 (tc_text (preset_colors ThDark)) of Some c \<Rightarrow> c | None \<Rightarrow> (894/1000, 894/1000, 906/1000))\<rparr>"

fun pdf_theme_treatment :: "reader_theme \<Rightarrow> pdf_treatment" where
  "pdf_theme_treatment (Preset ThDefault) = no_treatment"
| "pdf_theme_treatment (Preset ThLight) = no_treatment"
| "pdf_theme_treatment (Preset ThPaper) = no_treatment\<lparr>pt_tint := Some (tc_background (preset_colors ThPaper))\<rparr>"
| "pdf_theme_treatment (Preset ThDark) =
     no_treatment\<lparr>pt_smart := Some SMART_DARK_PALETTE, pt_page_background := Some (tc_background (preset_colors ThDark))\<rparr>"
| "pdf_theme_treatment Invert = no_treatment\<lparr>pt_filter := Some ''invert(1) hue-rotate(180deg)''\<rparr>"
| "pdf_theme_treatment (Preset ThContrast) = no_treatment\<lparr>pt_filter := Some ''grayscale(1) invert(1) contrast(1.4)''\<rparr>"
| "pdf_theme_treatment (Preset ThBlue) = no_treatment"
| "pdf_theme_treatment (Preset ThMint) = no_treatment"

definition PDF_THEME_CHOICES :: "reader_theme list" where
  "PDF_THEME_CHOICES = [Preset ThDefault, Preset ThLight, Preset ThPaper, Preset ThDark, Preset ThContrast, Invert]"

definition PDF_THEME_MENU_OPTIONS :: "(reader_theme \<times> string) list" where
  "PDF_THEME_MENU_OPTIONS =
     [(Preset ThDefault, ''Default''), (Preset ThLight, ''Light''), (Preset ThDark, ''Smart dark''), (Preset ThPaper, ''Paper''),
      (Invert, ''Invert''), (Preset ThContrast, ''High contrast'')]"

definition is_pdf_theme_choice :: "reader_theme \<Rightarrow> bool" where
  "is_pdf_theme_choice t = (t \<in> set PDF_THEME_CHOICES)"

section \<open>Colors survive the conversion\<close>

lemma channel_range: "0 \<le> channel v \<and> channel v \<le> 255"
proof -
  have "0 \<le> clamp01 v" "clamp01 v \<le> 1" by (auto simp: clamp01_def)
  then have "0 \<le> \<lfloor>clamp01 v * 255 + 1/2\<rfloor>" "\<lfloor>clamp01 v * 255 + 1/2\<rfloor> < 256" by (simp_all add: floor_less_iff)
  then show ?thesis by (simp add: channel_def round_half_up_def)
qed

lemma channel_of: "0 \<le> k \<Longrightarrow> k \<le> 255 \<Longrightarrow> channel (of_int k / 255) = k"
proof -
  assume k: "0 \<le> k" "k \<le> 255"
  then have "clamp01 (of_int k / 255) = of_int k / 255" by (simp add: clamp01_def)
  then have "channel (of_int k / 255) = \<lfloor>of_int k + 1/2 :: rat\<rfloor>" by (simp add: channel_def round_half_up_def)
  then show ?thesis by (simp add: floor_unique)
qed


lemma byte_mask: "(0xff :: 32 word) = mask 8"
  by (simp add: mask_eq_exp_minus_1)

lemma channel_byte: "word_of_int (channel (of_int (uint (w AND 0xff)) / 255)) = (w AND 0xff :: 32 word)"
proof -
  have "w AND 0xff \<le> (0xff :: 32 word)" by (simp add: word_and_le1)
  then have "uint (w AND 0xff) \<le> 255" by (simp add: word_le_def)
  then have "channel (of_int (uint (w AND 0xff)) / 255) = uint (w AND 0xff)" by (rule channel_of[OF uint_nonnegative])
  then show ?thesis by (simp only: word_of_int_uint)
qed

lemma argb_bytes:
  "rgb_to_argb (of_int (uint (drop_bit 16 v AND 0xff)) / 255, of_int (uint (drop_bit 8 v AND 0xff)) / 255, of_int (uint (v AND 0xff)) / 255)
     = push_bit 24 (mask 8) OR (v AND mask 24)"
  unfolding rgb_to_argb_def prod.case channel_byte unfolding byte_mask
proof (rule bit_word_eqI)
  fix n assume "n < LENGTH(32)"
  then show "bit (push_bit 24 (mask 8) OR push_bit 16 (drop_bit 16 v AND mask 8) OR push_bit 8 (drop_bit 8 v AND mask 8) OR v AND mask 8) n
      = bit (push_bit 24 (mask 8) OR v AND mask 24) n"
    by (cases "n < 8"; cases "n < 16"; cases "n < 24") (auto simp: bit_simps)
qed

lemma hex_digit_val_bound: "hex_digit c \<Longrightarrow> hex_digit_val c \<le> 15"
  by (auto simp: hex_digit_def hex_digit_val_def is_digit_def)

lemma parse_hex_bound: "list_all hex_digit s \<Longrightarrow> parse_hex s < 16 ^ length s"
proof (induction s rule: rev_induct)
  case (snoc c s)
  then have t: "takeWhile hex_digit (s @ [c]) = s @ [c]" "takeWhile hex_digit s = s"
    by (auto simp: list_all_iff intro: takeWhile_eq_all_conv[THEN iffD2])
  have "parse_hex (s @ [c]) = 16 * parse_hex s + hex_digit_val c" by (simp add: parse_hex_def t)
  moreover have "parse_hex s < 16 ^ length s" "hex_digit_val c \<le> 15" using snoc hex_digit_val_bound by simp_all
  ultimately show ?case by simp
qed (simp add: parse_hex_def)

lemma hex_argb:
  assumes "is_epub_hex_color hex"
  shows "map_option rgb_to_argb (hex_to_rgb01 hex) = Some (word_of_nat (0xff000000 + parse_hex (drop 1 hex)))"
proof -
  define n where "n = parse_hex (drop 1 hex)"
  have "list_all hex_digit (drop 1 hex)" "length (drop 1 hex) = 6" using assms by (simp_all add: is_epub_hex_color_def drop_Suc)
  then have n: "n < 2 ^ 24" using parse_hex_bound[of "drop 1 hex"] by (simp add: n_def)
  have m: "(word_of_nat n :: 32 word) AND mask 24 = word_of_nat n"
    using n by (simp add: take_bit_eq_mask[symmetric] take_bit_of_nat take_bit_nat_eq_self)
  have "push_bit 24 (mask 8) OR (word_of_nat n :: 32 word) = push_bit 24 (mask 8) + word_of_nat n"
  proof (rule disjunctive_add_eq_or[symmetric])
    have "push_bit 24 (mask 8) AND ((word_of_nat n :: 32 word) AND mask 24) = 0"
      by (rule bit_word_eqI) (auto simp: bit_simps)
    then show "push_bit 24 (mask 8) AND (word_of_nat n :: 32 word) = 0" by (simp only: m)
  qed
  moreover have "push_bit 24 (mask 8) = (0xff000000 :: 32 word)" by (simp add: mask_eq_exp_minus_1 push_bit_eq_mult)
  ultimately have "push_bit 24 (mask 8) OR (word_of_nat n AND mask 24) = (word_of_nat (0xff000000 + n) :: 32 word)"
    unfolding m by simp
  then show ?thesis
    using assms unfolding hex_to_rgb01_def Let_def n_def[symmetric]
    by (simp only: not_True_eq_False if_False option.map argb_bytes)
qed


lemma argb_of_hex:
  "is_epub_hex_color hex \<Longrightarrow> \<exists>c. hex_to_rgb01 hex = Some c \<and> rgb_to_argb c = word_of_nat (0xff000000 + parse_hex (drop 1 hex))"
  using hex_argb[of hex] by auto

lemma dark_hex:
  "is_epub_hex_color ''#101013'' \<and> parse_hex (drop 1 ''#101013'') = 0x101013"
  "is_epub_hex_color ''#e4e4e7'' \<and> parse_hex (drop 1 ''#e4e4e7'') = 0xe4e4e7"
  by (simp_all add: is_epub_hex_color_def parse_hex_def hex_digit_facts)

text \<open>Colors reach PDFium exactly: an accepted \<open>#rrggbb\<close> color, taken apart into components between 0 and 1 and packed again, is the opaque
  32-bit value with the same digits. So the dark scheme fills paths with the dark preset's background and text with its text color, the same
  background that the page placeholder shows, and strokes take the opposite end, so no stroke is the color of its own fill. Every theme with a treatment is one the menu offers.\<close>

theorem pdf_colors_exact:
  "(is_epub_hex_color hex \<longrightarrow>
      (\<exists>c. hex_to_rgb01 hex = Some c \<and> rgb_to_argb c = word_of_nat (0xff000000 + parse_hex (drop 1 hex))))
   \<and> color_scheme_from_palette SMART_DARK_PALETTE
      = \<lparr>cs_path_fill = 0xff101013, cs_path_stroke = 0xffe4e4e7, cs_text_fill = 0xffe4e4e7, cs_text_stroke = 0xff101013\<rparr>
   \<and> pt_page_background (pdf_theme_treatment (Preset ThDark)) = Some ''#101013''
   \<and> (pdf_theme_treatment t = no_treatment \<or> is_pdf_theme_choice t)"
proof -
  have p: "preset_colors ThDark = palette ''#101013'' ''#e4e4e7'' ''#7ab7ff'' ''#c3b0f5'' ''#4a5f9e'' ''#ffffff''"
    by (simp add: preset_colors_def)
  obtain b where b: "hex_to_rgb01 ''#101013'' = Some b" "rgb_to_argb b = word_of_nat (0xff000000 + 0x101013)"
    using argb_of_hex[of "''#101013''"] dark_hex(1) by metis
  obtain t where t: "hex_to_rgb01 ''#e4e4e7'' = Some t" "rgb_to_argb t = word_of_nat (0xff000000 + 0xe4e4e7)"
    using argb_of_hex[of "''#e4e4e7''"] dark_hex(2) by metis
  have s: "SMART_DARK_PALETTE = \<lparr>sp_background = b, sp_text = t\<rparr>"
    using b(1) t(1) by (simp add: SMART_DARK_PALETTE_def p palette_def)
  have c: "color_scheme_from_palette SMART_DARK_PALETTE
      = \<lparr>cs_path_fill = 0xff101013, cs_path_stroke = 0xffe4e4e7, cs_text_fill = 0xffe4e4e7, cs_text_stroke = 0xff101013\<rparr>"
    unfolding s using b(2) t(2) by (simp add: color_scheme_from_palette_def Let_def)
  have "pdf_theme_treatment t = no_treatment \<or> is_pdf_theme_choice t" for t
    by (cases t rule: pdf_theme_treatment.cases) (simp_all add: is_pdf_theme_choice_def PDF_THEME_CHOICES_def)
  then show ?thesis using argb_of_hex[of hex] c by (simp add: p palette_def)
qed

theorem pdf_colors_exact_witness: "\<exists>c. hex_to_rgb01 ''#e4e4e7'' = Some c \<and> rgb_to_argb c = 0xffe4e4e7"
  using pdf_colors_exact[of "''#e4e4e7''" Invert] dark_hex(2) by auto

end
