(* ===== verification/PdfWorker.thy ===== *)
theory PdfWorker
  imports Prelude
begin

text \<open>
  \<open>frontend/src/lib/pdf/pdfWorkerClient.ts\<close> and the main-thread side of \<open>pdfiumEngine.ts\<close>: the request plumbing of one
  PDF worker, the queue that keeps one raster in flight, and the prewarmed worker. A promise settles once, with the first outcome it is given; what
  the code logs or calls is recorded in the state. Times are milliseconds.
\<close>

section \<open>The client of one worker\<close>

datatype settlement = Resolved js | Failed string | RenderCancelled

record pending_request =
  pr_method :: string
  pr_started :: int
  pr_warned :: bool

record worker_diag =
  wd_phase :: string
  wd_method :: string
  wd_page :: "nat option"
  wd_ms :: "rat option"
  wd_heap_bytes :: nat
  wd_message :: "string option"

datatype client_log = WorkerDebug string | StallWarning nat string int string | WorkerGone string

definition WORKER_STALL_WARN_MS :: int where "WORKER_STALL_WARN_MS = 10000"
definition WORKER_STALL_POLL_MS :: int where "WORKER_STALL_POLL_MS = 5000"

text \<open>The maps and the set keep their insertion order. \<open>wc_cancelled\<close> holds the ids whose cancel was called.\<close>

record worker_client =
  wc_label :: string
  wc_next_id :: nat
  wc_pending :: "(nat \<times> pending_request) list"
  wc_listeners :: "nat list"
  wc_failed :: bool
  wc_watching :: bool
  wc_last_diag :: string
  wc_cancellable :: "nat set"
  wc_cancelled :: "nat set"
  wc_posted :: "(nat \<times> string) list"
  wc_settled :: "(nat \<times> settlement) list"
  wc_notified :: "nat list"
  wc_logged :: "client_log list"
  wc_terminated :: bool

definition new_worker_client :: "string \<Rightarrow> worker_client" where
  "new_worker_client label =
     \<lparr>wc_label = label, wc_next_id = 1, wc_pending = [], wc_listeners = [], wc_failed = False, wc_watching = True, wc_last_diag = '''',
      wc_cancellable = {}, wc_cancelled = {}, wc_posted = [], wc_settled = [], wc_notified = [], wc_logged = [], wc_terminated = False\<rparr>"

text \<open>Settling the promise of a request: only the first outcome counts.\<close>

definition settle_request :: "nat \<Rightarrow> settlement \<Rightarrow> worker_client \<Rightarrow> worker_client" where
  "settle_request i outcome c =
     (if i \<in> fst ` set (wc_settled c) then c else c\<lparr>wc_settled := wc_settled c @ [(i, outcome)]\<rparr>)"

text \<open>The callbacks of a cancellable request turn every outcome into the cancellation once cancel was called.\<close>

definition outcome_for :: "worker_client \<Rightarrow> nat \<Rightarrow> settlement \<Rightarrow> settlement" where
  "outcome_for c i outcome = (if i \<in> wc_cancelled c then RenderCancelled else outcome)"

definition drop_request :: "nat \<Rightarrow> worker_client \<Rightarrow> worker_client" where
  "drop_request i c = c\<lparr>wc_pending := filter (\<lambda>p. fst p \<noteq> i) (wc_pending c)\<rparr>"

definition send_request :: "int \<Rightarrow> string \<Rightarrow> worker_client \<Rightarrow> worker_client" where
  "send_request now method c =
     (let i = wc_next_id c in
      c\<lparr>wc_next_id := i + 1,
        wc_pending := wc_pending c @ [(i, \<lparr>pr_method = method, pr_started = now, pr_warned = False\<rparr>)],
        wc_posted := wc_posted c @ [(i, method)]\<rparr>)"

definition send_cancellable :: "int \<Rightarrow> string \<Rightarrow> worker_client \<Rightarrow> worker_client" where
  "send_cancellable now method c =
     (send_request now method c)\<lparr>wc_cancellable := insert (wc_next_id c) (wc_cancellable c)\<rparr>"

text \<open>The \<open>cancel\<close> function that a cancellable request returned.\<close>

definition cancel_request :: "nat \<Rightarrow> worker_client \<Rightarrow> worker_client" where
  "cancel_request i c =
     (if i \<notin> wc_cancellable c \<or> i \<in> wc_cancelled c then c
      else let c1 = c\<lparr>wc_cancelled := insert i (wc_cancelled c)\<rparr> in
        (case map_of (wc_pending c1) i of
           None \<Rightarrow> c1
         | Some _ \<Rightarrow> settle_request i RenderCancelled (drop_request i c1)))"

text \<open>\<open>(n / 1048576).toFixed(1)\<close>: tenths, halves up.\<close>

definition megabytes :: "nat \<Rightarrow> string" where
  "megabytes n = (let tenths = (n * 20 + 1048576) div 2097152 in show_nat (tenths div 10) @ ''.'' @ show_nat (tenths mod 10))"

definition diag_text :: "worker_diag \<Rightarrow> string" where
  "diag_text d =
     (let segments = List.map_filter (\<lambda>s. s)
        [Some (wd_method d),
         map_option (\<lambda>p. ''page='' @ show_nat p) (wd_page d),
         Some (wd_phase d),
         map_option (\<lambda>ms. show_int \<lfloor>ms + 1/2\<rfloor> @ ''ms'') (wd_ms d),
         Some (''heap='' @ megabytes (wd_heap_bytes d) @ ''MB''),
         wd_message d] in
      join_with '' '' segments)"

definition record_diag :: "worker_diag \<Rightarrow> worker_client \<Rightarrow> worker_client" where
  "record_diag d c = c\<lparr>wc_last_diag := diag_text d, wc_logged := wc_logged c @ [WorkerDebug (diag_text d)]\<rparr>"

record worker_response =
  wr_id :: nat
  wr_ok :: bool
  wr_result :: js
  wr_error :: "string option"

definition on_response :: "worker_response \<Rightarrow> worker_client \<Rightarrow> worker_client" where
  "on_response r c =
     (case map_of (wc_pending c) (wr_id r) of
        None \<Rightarrow> c
      | Some _ \<Rightarrow>
          (let outcome = (if wr_ok r then Resolved (wr_result r)
                else Failed (case wr_error r of Some e \<Rightarrow> e | None \<Rightarrow> wc_label c @ '' worker failure'')) in
           settle_request (wr_id r) (outcome_for c (wr_id r) outcome) (drop_request (wr_id r) c)))"

definition stop_stall_watch :: "worker_client \<Rightarrow> worker_client" where
  "stop_stall_watch c = c\<lparr>wc_watching := False\<rparr>"

definition failure_text :: "worker_client \<Rightarrow> string \<Rightarrow> string" where
  "failure_text c message = (if message = '''' then wc_label c @ '' worker failed to load'' else message)"

definition gone_text :: "worker_client \<Rightarrow> string \<Rightarrow> string" where
  "gone_text c failure =
     ''[pdf-engine] worker gone: '' @ failure @ (if wc_last_diag c = '''' then '''' else ''; last operation '' @ wc_last_diag c)"

definition on_worker_error :: "string \<Rightarrow> worker_client \<Rightarrow> worker_client" where
  "on_worker_error message c =
     (let pending = map fst (wc_pending c);
          c1 = (stop_stall_watch (c\<lparr>wc_pending := []\<rparr>))\<lparr>wc_failed := True\<rparr>;
          failure = failure_text c1 message;
          c2 = c1\<lparr>wc_logged := wc_logged c1 @ [WorkerGone (gone_text c1 failure)]\<rparr>;
          c3 = foldl (\<lambda>c i. settle_request i (outcome_for c i (Failed failure)) c) c2 pending in
      c3\<lparr>wc_listeners := [], wc_notified := wc_notified c3 @ wc_listeners c3\<rparr>)"

text \<open>The watchdog's tick.\<close>

definition stalled :: "int \<Rightarrow> nat \<times> pending_request \<Rightarrow> bool" where
  "stalled now p = (\<not> pr_warned (snd p) \<and> WORKER_STALL_WARN_MS \<le> now - pr_started (snd p))"

definition mark_stalled :: "int \<Rightarrow> nat \<times> pending_request \<Rightarrow> nat \<times> pending_request" where
  "mark_stalled now p = (if stalled now p then (fst p, (snd p)\<lparr>pr_warned := True\<rparr>) else p)"

definition report_stalls :: "int \<Rightarrow> worker_client \<Rightarrow> worker_client" where
  "report_stalls now c =
     c\<lparr>wc_pending := map (mark_stalled now) (wc_pending c),
       wc_logged := wc_logged c
         @ map (\<lambda>p. StallWarning (fst p) (pr_method (snd p)) (now - pr_started (snd p)) (wc_last_diag c))
             (filter (stalled now) (wc_pending c))\<rparr>"

definition on_failed :: "nat \<Rightarrow> worker_client \<Rightarrow> worker_client" where
  "on_failed l c =
     (if wc_failed c then c\<lparr>wc_notified := wc_notified c @ [l]\<rparr>
      else if l \<in> set (wc_listeners c) then c
      else c\<lparr>wc_listeners := wc_listeners c @ [l]\<rparr>)"

definition off_failed :: "nat \<Rightarrow> worker_client \<Rightarrow> worker_client" where
  "off_failed l c = c\<lparr>wc_listeners := filter (\<lambda>x. x \<noteq> l) (wc_listeners c)\<rparr>"

definition terminate :: "worker_client \<Rightarrow> worker_client" where
  "terminate c = (stop_stall_watch c)\<lparr>wc_terminated := True\<rparr>"


section \<open>Every request is accounted for\<close>

datatype client_event =
    Send int string
  | SendCancellable int string
  | Cancel nat
  | Answer worker_response
  | Diagnostic worker_diag
  | WorkerError string
  | StallTick int
  | Listen nat
  | Unlisten nat
  | Terminate

text \<open>A tick comes only while the interval runs.\<close>

fun client_step :: "worker_client \<Rightarrow> client_event \<Rightarrow> worker_client" where
  "client_step c (Send now m) = send_request now m c"
| "client_step c (SendCancellable now m) = send_cancellable now m c"
| "client_step c (Cancel i) = cancel_request i c"
| "client_step c (Answer r) = on_response r c"
| "client_step c (Diagnostic d) = record_diag d c"
| "client_step c (WorkerError e) = on_worker_error e c"
| "client_step c (StallTick now) = (if wc_watching c then report_stalls now c else c)"
| "client_step c (Listen l) = on_failed l c"
| "client_step c (Unlisten l) = off_failed l c"
| "client_step c Terminate = terminate c"

definition client_inv :: "worker_client \<Rightarrow> bool" where
  "client_inv c \<longleftrightarrow>
     0 < wc_next_id c \<and> map fst (wc_posted c) = [1..<wc_next_id c]
     \<and> distinct (map fst (wc_pending c)) \<and> distinct (map fst (wc_settled c))
     \<and> fst ` set (wc_pending c) \<inter> fst ` set (wc_settled c) = {}
     \<and> fst ` set (wc_pending c) \<union> fst ` set (wc_settled c) = {1..<wc_next_id c}
     \<and> wc_cancellable c \<subseteq> {1..<wc_next_id c} \<and> wc_cancelled c \<subseteq> wc_cancellable c
     \<and> fst ` set (wc_pending c) \<inter> wc_cancelled c = {}
     \<and> distinct (wc_listeners c) \<and> (wc_failed c \<longrightarrow> wc_listeners c = [])"

lemma settle_request_fields [simp]:
  "wc_next_id (settle_request i out c) = wc_next_id c" "wc_posted (settle_request i out c) = wc_posted c"
  "wc_pending (settle_request i out c) = wc_pending c" "wc_cancellable (settle_request i out c) = wc_cancellable c"
  "wc_cancelled (settle_request i out c) = wc_cancelled c" "wc_listeners (settle_request i out c) = wc_listeners c"
  "wc_failed (settle_request i out c) = wc_failed c" "wc_notified (settle_request i out c) = wc_notified c"
  "wc_logged (settle_request i out c) = wc_logged c" "wc_watching (settle_request i out c) = wc_watching c"
  by (simp_all add: settle_request_def)

lemma settle_pending:
  assumes "client_inv c" "i \<in> fst ` set (wc_pending c)"
  shows "client_inv (settle_request i out (drop_request i c))"
    "wc_settled (settle_request i out (drop_request i c)) = wc_settled c @ [(i, out)]"
proof -
  have n: "i \<notin> fst ` set (wc_settled c)" using assms by (auto simp: client_inv_def)
  then show s: "wc_settled (settle_request i out (drop_request i c)) = wc_settled c @ [(i, out)]"
    by (simp add: settle_request_def drop_request_def)
  have f: "fst ` {p. p \<in> set (wc_pending c) \<and> fst p \<noteq> i} = fst ` set (wc_pending c) - {i}" by auto
  have p: "wc_pending (settle_request i out (drop_request i c)) = filter (\<lambda>p. fst p \<noteq> i) (wc_pending c)"
    "fst ` set (filter (\<lambda>p. fst p \<noteq> i) (wc_pending c)) = fst ` set (wc_pending c) - {i}"
    by (simp_all add: drop_request_def f)
  have u: "insert i (fst ` set (wc_settled c)) \<union> (fst ` set (wc_pending c) - {i}) = {1..<wc_next_id c}"
    using assms by (auto simp: client_inv_def)
  show "client_inv (settle_request i out (drop_request i c))"
    unfolding client_inv_def p s
    using assms n u by (auto simp: client_inv_def drop_request_def distinct_map_filter)
qed

lemma fold_settle:
  assumes "\<And>i s. f (c\<lparr>wc_settled := s\<rparr>) i = f c i"
    and "distinct ids" "set ids \<inter> fst ` set (wc_settled c) = {}"
  shows "foldl (\<lambda>c i. settle_request i (f c i) c) c ids
      = c\<lparr>wc_settled := wc_settled c @ map (\<lambda>i. (i, f c i)) ids\<rparr>"
  using assms(2,3)
proof (induction ids rule: rev_induct)
  case (snoc i ids)
  then have "i \<notin> fst ` set (wc_settled c @ map (\<lambda>i. (i, f c i)) ids)" by auto
  then show ?case using snoc assms(1) by (simp add: settle_request_def)
qed simp

lemma worker_error_shape:
  assumes "client_inv c"
  shows "on_worker_error e c = c\<lparr>wc_pending := [], wc_watching := False, wc_failed := True, wc_listeners := [],
     wc_settled := wc_settled c @ map (\<lambda>i. (i, outcome_for c i (Failed (failure_text c e)))) (map fst (wc_pending c)),
     wc_logged := wc_logged c @ [WorkerGone (gone_text c (failure_text c e))],
     wc_notified := wc_notified c @ wc_listeners c\<rparr>"
proof -
  have d: "distinct (map fst (wc_pending c))" "set (map fst (wc_pending c)) \<inter> fst ` set (wc_settled c) = {}"
    using assms by (auto simp: client_inv_def)
  have o: "outcome_for (c\<lparr>wc_settled := s\<rparr>) i out = outcome_for c i out" for c s i out
    by (simp add: outcome_for_def)
  define F where "F = failure_text c e"
  have f: "failure_text (stop_stall_watch (c\<lparr>wc_pending := []\<rparr>)\<lparr>wc_failed := True\<rparr>) e = F"
    "gone_text (stop_stall_watch (c\<lparr>wc_pending := []\<rparr>)\<lparr>wc_failed := True\<rparr>) F = gone_text c F"
    by (simp_all add: F_def failure_text_def gone_text_def stop_stall_watch_def)
  note fold = fold_settle[where f = "\<lambda>c i. outcome_for c i (Failed F)" and ids = "map fst (wc_pending c)", OF o]
  define c2 where "c2 = (stop_stall_watch (c\<lparr>wc_pending := []\<rparr>))\<lparr>wc_failed := True,
    wc_logged := wc_logged c @ [WorkerGone (gone_text c F)]\<rparr>"
  have c2: "wc_settled c2 = wc_settled c" "outcome_for c2 = outcome_for c" "wc_listeners c2 = wc_listeners c"
    "wc_notified c2 = wc_notified c"
    by (simp_all add: c2_def stop_stall_watch_def outcome_for_def fun_eq_iff)
  have "on_worker_error e c = (let c3 = foldl (\<lambda>c i. settle_request i (outcome_for c i (Failed F)) c) c2 (map fst (wc_pending c)) in
      c3\<lparr>wc_listeners := [], wc_notified := wc_notified c3 @ wc_listeners c3\<rparr>)"
    unfolding on_worker_error_def Let_def f by (simp add: c2_def stop_stall_watch_def)
  also have "foldl (\<lambda>c i. settle_request i (outcome_for c i (Failed F)) c) c2 (map fst (wc_pending c))
      = c2\<lparr>wc_settled := wc_settled c @ map (\<lambda>i. (i, outcome_for c i (Failed F))) (map fst (wc_pending c))\<rparr>"
    using fold[of c2] d c2 by simp
  finally show ?thesis
    unfolding Let_def F_def[symmetric] by (simp add: c2(3,4)) (simp add: c2_def stop_stall_watch_def)
qed

lemma inv_cancelled:
  "client_inv c \<Longrightarrow> i \<notin> fst ` set (wc_pending c) \<Longrightarrow> i \<in> wc_cancellable c \<Longrightarrow> client_inv (c\<lparr>wc_cancelled := insert i (wc_cancelled c)\<rparr>)"
  by (simp add: client_inv_def)

lemma cancel_shape:
  assumes "client_inv c"
  shows "cancel_request i c =
    (if i \<notin> wc_cancellable c \<or> i \<in> wc_cancelled c then c
     else (if i \<in> fst ` set (wc_pending c) then settle_request i RenderCancelled (drop_request i c) else c)
       \<lparr>wc_cancelled := insert i (wc_cancelled c)\<rparr>)"
proof (cases "map_of (wc_pending c) i")
  case None
  then have "i \<notin> fst ` set (wc_pending c)" by (simp add: map_of_eq_None_iff)
  then show ?thesis unfolding cancel_request_def Let_def using None by simp
next
  case (Some p)
  then have "i \<in> fst ` set (wc_pending c)" by (metis domI dom_map_of_conv_image_fst)
  then show ?thesis using Some by (simp add: cancel_request_def Let_def settle_request_def drop_request_def)
qed

lemma client_step_inv: "client_inv c \<Longrightarrow> client_inv (client_step c ev)"
proof (cases ev)
  case (Cancel i)
  assume inv: "client_inv c"
  have c: "wc_cancelled (settle_request i RenderCancelled (drop_request i c)) = wc_cancelled c"
    "i \<notin> fst ` set (wc_pending (settle_request i RenderCancelled (drop_request i c)))"
    "wc_cancellable (settle_request i RenderCancelled (drop_request i c)) = wc_cancellable c"
    by (auto simp: drop_request_def)
  have "client_inv ((settle_request i RenderCancelled (drop_request i c))\<lparr>wc_cancelled := insert i (wc_cancelled c)\<rparr>)"
    if "i \<in> fst ` set (wc_pending c)" "i \<in> wc_cancellable c"
    using inv_cancelled[OF settle_pending(1)[OF inv that(1)] c(2)] that(2) c(1,3) by simp
  then show ?thesis unfolding Cancel client_step.simps cancel_shape[OF inv] using inv inv_cancelled[OF inv, of i] by auto
next
  case (Answer r)
  assume inv: "client_inv c"
  show ?thesis
  proof (cases "map_of (wc_pending c) (wr_id r)")
    case (Some p)
    then have i: "wr_id r \<in> fst ` set (wc_pending c)" by (metis domI dom_map_of_conv_image_fst)
    show ?thesis using Answer Some settle_pending(1)[OF inv i] by (simp add: on_response_def Let_def)
  qed (use inv Answer in \<open>simp add: on_response_def\<close>)
next
  case (WorkerError e)
  assume inv: "client_inv c"
  have m: "map fst (map (\<lambda>i. (i, g i)) ids) = ids" "fst ` set (map (\<lambda>i. (i, g i)) ids) = set ids" for g :: "nat \<Rightarrow> settlement" and ids
    by (simp_all add: o_def image_image)
  have s: "set (map fst (wc_pending c)) = fst ` set (wc_pending c)" by simp
  from inv show ?thesis unfolding WorkerError client_step.simps worker_error_shape[OF inv] client_inv_def
    by (simp add: m image_Un Int_commute del: map_map set_map list.set_map) (simp add: s Un_commute)
next
  case (Send now m)
  assume "client_inv c"
  then show ?thesis unfolding Send
    by (auto simp: client_inv_def send_request_def Let_def upt_Suc atLeastLessThanSuc)
next
  case (SendCancellable now m)
  assume "client_inv c"
  then show ?thesis unfolding SendCancellable
    by (auto simp: client_inv_def send_cancellable_def send_request_def Let_def upt_Suc atLeastLessThanSuc)
next
  case (StallTick now)
  assume "client_inv c"
  moreover have "fst (mark_stalled now p) = fst p" for p by (simp add: mark_stalled_def)
  ultimately show ?thesis unfolding StallTick
    by (simp add: client_inv_def report_stalls_def image_image o_def)
qed (auto simp: client_inv_def record_diag_def on_failed_def off_failed_def terminate_def stop_stall_watch_def)

interpretation client: invariant_machine client_step "\<lambda>_. True" client_inv
  by unfold_locales (rule client_step_inv)


lemma new_client_inv: "client_inv (new_worker_client label)"
  by (simp add: client_inv_def new_worker_client_def)

text \<open>What one step adds to the settlements.\<close>

definition settles :: "worker_client \<Rightarrow> client_event \<Rightarrow> (nat \<times> settlement) list" where
  "settles c ev =
     (case ev of
        Cancel i \<Rightarrow> if i \<in> wc_cancellable c \<and> i \<notin> wc_cancelled c \<and> i \<in> fst ` set (wc_pending c) then [(i, RenderCancelled)] else []
      | Answer r \<Rightarrow>
          if wr_id r \<in> fst ` set (wc_pending c)
          then [(wr_id r, if wr_ok r then Resolved (wr_result r)
                else Failed (case wr_error r of Some e \<Rightarrow> e | None \<Rightarrow> wc_label c @ '' worker failure''))] else []
      | WorkerError e \<Rightarrow> map (\<lambda>i. (i, Failed (failure_text c e))) (map fst (wc_pending c))
      | _ \<Rightarrow> [])"

lemma pending_not_cancelled: "client_inv c \<Longrightarrow> i \<in> fst ` set (wc_pending c) \<Longrightarrow> i \<notin> wc_cancelled c"
  by (auto simp: client_inv_def)

lemma step_settles:
  assumes "client_inv c"
  shows "wc_settled (client_step c ev) = wc_settled c @ settles c ev"
proof (cases ev)
  case (Cancel i)
  then show ?thesis
    using settle_pending(2)[OF assms, of i RenderCancelled] by (auto simp: cancel_shape[OF assms] settles_def)
next
  case (Answer r)
  show ?thesis
  proof (cases "map_of (wc_pending c) (wr_id r)")
    case None
    then have "wr_id r \<notin> fst ` set (wc_pending c)" by (simp add: map_of_eq_None_iff)
    then show ?thesis using None Answer by (simp add: on_response_def settles_def)
  next
    case (Some p)
    then have i: "wr_id r \<in> fst ` set (wc_pending c)" by (metis domI dom_map_of_conv_image_fst)
    have u: "outcome_for c (wr_id r) out = out" for out
      using pending_not_cancelled[OF assms i] by (simp add: outcome_for_def)
    have "client_step c ev = settle_request (wr_id r)
        (if wr_ok r then Resolved (wr_result r)
         else Failed (case wr_error r of Some e \<Rightarrow> e | None \<Rightarrow> wc_label c @ '' worker failure'')) (drop_request (wr_id r) c)"
      using Some Answer u by (simp only: client_step.simps on_response_def Let_def option.case)
    then show ?thesis unfolding settles_def Answer using settle_pending(2)[OF assms i] i by (simp only: client_event.case if_True)
  qed
next
  case (WorkerError e)
  have "outcome_for c i out = out" if "i \<in> fst ` set (wc_pending c)" for i out
    using pending_not_cancelled[OF assms that] by (simp add: outcome_for_def)
  then show ?thesis
    unfolding WorkerError client_step.simps worker_error_shape[OF assms] settles_def client_event.case
    by (auto intro!: map_cong)
next
  case (StallTick now)
  then show ?thesis by (simp add: settles_def report_stalls_def)
qed (auto simp: settles_def send_request_def send_cancellable_def Let_def record_diag_def on_failed_def off_failed_def
    terminate_def stop_stall_watch_def)

lemma settled_grows:
  "client_inv c \<Longrightarrow> \<exists>more. wc_settled (run client_step c evs) = wc_settled c @ more"
proof (induction evs arbitrary: c)
  case (Cons ev evs)
  then show ?case using step_settles[OF Cons.prems, of ev] Cons.IH[OF client_step_inv[OF Cons.prems], of ev] by auto
qed simp


lemma resolved_by_answer:
  "(i, Resolved v) \<in> set (wc_settled (run client_step (new_worker_client label) evs)) \<Longrightarrow>
     \<exists>r. Answer r \<in> set evs \<and> wr_id r = i \<and> wr_ok r \<and> wr_result r = v"
proof (induction evs rule: rev_induct)
  case Nil
  then show ?case by (simp add: new_worker_client_def)
next
  case (snoc ev evs)
  have inv: "client_inv (run client_step (new_worker_client label) evs)"
    by (rule client.run_keeps[OF new_client_inv]) (simp add: list_all_iff)
  show ?case
    using snoc step_settles[OF inv, of ev] by (auto simp: run_append settles_def split: client_event.splits if_splits)
qed

text \<open>C25. Every request of a worker client is accounted for, whatever the order of answers, cancels, crashes and
  terminations: the ids posted are 1, 2, 3 and so on, each is either still pending or settled exactly once and never
  both, and a request resolves only with the result that a successful answer carried under its own id.\<close>

theorem worker_requests_accounted:
  "(let c = run client_step (new_worker_client label) evs; ids = map fst (wc_posted c) in
      ids = [1..<Suc (length ids)]
      \<and> distinct (map fst (wc_settled c) @ map fst (wc_pending c))
      \<and> set (map fst (wc_settled c) @ map fst (wc_pending c)) = set ids
      \<and> (\<forall>(i, out)\<in>set (wc_settled c). \<forall>v. out = Resolved v \<longrightarrow>
           (\<exists>r. Answer r \<in> set evs \<and> wr_id r = i \<and> wr_ok r \<and> wr_result r = v)))"
proof -
  define c where "c = run client_step (new_worker_client label) evs"
  have inv: "client_inv c" unfolding c_def by (rule client.run_keeps[OF new_client_inv]) (simp add: list_all_iff)
  have n: "map fst (wc_posted c) = [1..<wc_next_id c]" "0 < wc_next_id c" using inv by (simp_all add: client_inv_def)
  then have "length (map fst (wc_posted c)) = wc_next_id c - 1" by (metis length_upt)
  then have "Suc (length (map fst (wc_posted c))) = wc_next_id c" using n(2) by simp
  moreover have "\<forall>(i, out)\<in>set (wc_settled c). \<forall>v. out = Resolved v \<longrightarrow>
      (\<exists>r. Answer r \<in> set evs \<and> wr_id r = i \<and> wr_ok r \<and> wr_result r = v)"
    using resolved_by_answer[of _ _ label evs] by (auto simp: c_def)
  ultimately show ?thesis
    unfolding Let_def c_def[symmetric] using inv n(1) by (auto simp: client_inv_def)
qed


theorem worker_requests_accounted_witness:
  "wc_settled (run client_step (new_worker_client ''PDFium'')
     [Send 0 ''open'', Answer \<lparr>wr_id = 1, wr_ok = True, wr_result = Bool True, wr_error = None\<rparr>]) = [(1, Resolved (Bool True))]"
  using worker_requests_accounted[of "''PDFium''"
     "[Send 0 ''open'', Answer \<lparr>wr_id = 1, wr_ok = True, wr_result = Bool True, wr_error = None\<rparr>]"]
  by (simp add: Let_def new_worker_client_def send_request_def on_response_def settle_request_def drop_request_def outcome_for_def)

section \<open>Cancellation and the death of the worker\<close>

lemma reach_inv: "client_inv (run client_step (new_worker_client label) evs)"
  by (rule client.run_keeps[OF new_client_inv]) (simp add: list_all_iff)

text \<open>A cancelled render never delivers: if \<open>cancel\<close> is called while the request is in flight, its promise is rejected as cancelled then and there,
  and no answer, crash or termination afterwards changes that or is taken for another request's.\<close>

theorem worker_cancel_final:
  assumes "c = run client_step (new_worker_client label) evs"
    and "i \<in> fst ` set (wc_pending c)" and "i \<in> wc_cancellable c"
  shows "map_of (wc_settled (run client_step c (Cancel i # rest2))) i = Some RenderCancelled
     \<and> i \<notin> fst ` set (wc_pending (run client_step c (Cancel i # rest2)))"
proof -
  have inv: "client_inv c" using reach_inv assms(1) by simp
  then have n: "i \<notin> wc_cancelled c" "i \<notin> fst ` set (wc_settled c)" using assms(2) by (auto simp: client_inv_def)
  let ?d = "client_step c (Cancel i)"
  have d: "client_inv ?d" using client_step_inv[OF inv] .
  have s: "wc_settled ?d = wc_settled c @ [(i, RenderCancelled)]" using step_settles[OF inv, of "Cancel i"] assms n by (simp add: settles_def)
  obtain rest where r: "wc_settled (run client_step ?d rest2) = wc_settled ?d @ rest" using settled_grows[OF d] by blast
  have m: "map_of (wc_settled (run client_step ?d rest2)) i = Some RenderCancelled"
    using r s n(2) by (simp add: map_add_Some_iff map_of_eq_None_iff)
  have "client_inv (run client_step ?d rest2)" using d by (rule client.run_keeps) (simp add: list_all_iff)
  moreover have "i \<in> fst ` set (wc_settled (run client_step ?d rest2))" using m by (metis domI dom_map_of_conv_image_fst)
  ultimately show ?thesis using m by (auto simp: client_inv_def)
qed

theorem worker_cancel_final_witness:
  "map_of (wc_settled (run client_step (run client_step (new_worker_client ''PDFium'') [SendCancellable 0 ''render''])
     [Cancel 1, Answer \<lparr>wr_id = 1, wr_ok = True, wr_result = Null, wr_error = None\<rparr>])) 1 = Some RenderCancelled"
proof -
  have p: "1 \<in> fst ` set (wc_pending (run client_step (new_worker_client ''PDFium'') [SendCancellable 0 ''render'']))"
    "1 \<in> wc_cancellable (run client_step (new_worker_client ''PDFium'') [SendCancellable 0 ''render''])"
    by (simp_all add: new_worker_client_def send_cancellable_def send_request_def Let_def)
  show ?thesis using worker_cancel_final[OF refl p] by blast
qed

definition stall_warnings :: "client_log list \<Rightarrow> client_log list" where
  "stall_warnings ls = filter (\<lambda>l. case l of StallWarning _ _ _ _ \<Rightarrow> True | _ \<Rightarrow> False) ls"

definition silent :: "client_event \<Rightarrow> bool" where
  "silent ev = (case ev of Answer _ \<Rightarrow> False | WorkerError _ \<Rightarrow> False | Cancel _ \<Rightarrow> False | _ \<Rightarrow> True)"

lemma silent_step:
  assumes "silent ev" "wc_failed c" "\<not> wc_watching c"
  shows "wc_failed (client_step c ev) \<and> \<not> wc_watching (client_step c ev)
    \<and> fst ` set (wc_pending c) \<subseteq> fst ` set (wc_pending (client_step c ev)) \<and> wc_settled (client_step c ev) = wc_settled c
    \<and> stall_warnings (wc_logged (client_step c ev))
      = stall_warnings (wc_logged c)"
  using assms
  by (cases ev) (auto simp: silent_def send_request_def send_cancellable_def Let_def record_diag_def on_failed_def off_failed_def
      terminate_def stop_stall_watch_def stall_warnings_def)

lemma silent_run:
  assumes "list_all silent evs" "wc_failed c" "\<not> wc_watching c"
  shows "fst ` set (wc_pending c) \<subseteq> fst ` set (wc_pending (run client_step c evs))
    \<and> wc_settled (run client_step c evs) = wc_settled c
    \<and> stall_warnings (wc_logged (run client_step c evs))
      = stall_warnings (wc_logged c)"
  using assms
proof (induction evs arbitrary: c)
  case (Cons ev evs)
  then have p: "silent ev" "list_all silent evs" by simp_all
  note a = silent_step[OF p(1) Cons.prems(2,3)]
  have b: "wc_failed (client_step c ev)" "\<not> wc_watching (client_step c ev)" using a by simp_all
  note h = Cons.IH[OF p(2) b]
  show ?case unfolding run.simps using a h by (metis (no_types) subset_trans)
qed simp

text \<open>C26. When the worker dies, every request in flight is rejected with the one failure and none is left, the stall watch stops, and the death listeners registered then
  are told once, in order, and forgotten; whoever registers later is told at once. But a request sent after the death is neither rejected nor watched: with
  the worker silent, it stays pending and unsettled for ever and no stall is ever reported.\<close>

theorem worker_death_settles:
  assumes "c = run client_step (new_worker_client label) evs" and "d = client_step c (WorkerError e)"
    and "list_all silent later"
  shows "wc_pending d = [] \<and> \<not> wc_watching d
     \<and> wc_settled d = wc_settled c @ map (\<lambda>i. (i, Failed (failure_text c e))) (map fst (wc_pending c))
     \<and> wc_notified d = wc_notified c @ wc_listeners c \<and> wc_listeners d = []
     \<and> wc_notified (client_step d (Listen l)) = wc_notified d @ [l] \<and> wc_listeners (client_step d (Listen l)) = []
     \<and> (let f = run client_step d (Send now m # later) in
          wc_next_id d \<in> fst ` set (wc_pending f) \<and> wc_next_id d \<notin> fst ` set (wc_settled f)
          \<and> stall_warnings (wc_logged f)
            = stall_warnings (wc_logged d))"
proof -
  have inv: "client_inv c" using reach_inv assms(1) by simp
  have d: "wc_pending d = []" "\<not> wc_watching d" "wc_failed d" "wc_listeners d = []" "wc_notified d = wc_notified c @ wc_listeners c"
    using worker_error_shape[OF inv, of e] by (simp_all add: assms(2))
  have s: "wc_settled d = wc_settled c @ map (\<lambda>i. (i, Failed (failure_text c e))) (map fst (wc_pending c))"
    using step_settles[OF inv, of "WorkerError e"] by (simp add: assms(2) settles_def)
  have dinv: "client_inv d" unfolding assms(2) by (rule client_step_inv[OF inv])
  then have n: "wc_next_id d \<notin> fst ` set (wc_settled d)" by (auto simp: client_inv_def)
  let ?g = "client_step d (Send now m)"
  have g: "wc_failed ?g" "\<not> wc_watching ?g" "wc_next_id d \<in> fst ` set (wc_pending ?g)" "wc_settled ?g = wc_settled d" "wc_logged ?g = wc_logged d"
    using d by (simp_all add: send_request_def Let_def)
  show ?thesis
    using d s n g silent_run[OF assms(3) g(1,2)] by (auto simp: on_failed_def Let_def)
qed

theorem worker_death_settles_witness:
  "fst ` set (wc_pending (run client_step (client_step (run client_step (new_worker_client ''PDFium'') [Listen 7]) (WorkerError ''gone''))
      [Send 5 ''pageSize'', StallTick 60000])) \<noteq> {}"
proof -
  have "list_all silent [StallTick 60000]" by (simp add: silent_def)
  from worker_death_settles[OF refl refl this, of "''PDFium''" "[Listen 7]" "''gone''" 0 5 "''pageSize''"]
  show ?thesis by (auto simp: Let_def)
qed

end
