(* ===== verification/PdfDocument.thy ===== *)
theory PdfDocument
  imports PdfWorker PdfTheme
begin

text \<open>
  \<open>PdfiumDocument\<close> of \<open>frontend/src/lib/pdf/pdfiumEngine.ts\<close> over the worker client of the theory \<open>PdfWorker\<close>: page sizes and text lines
  with their caches, the render queue, and closing; and the prewarmed worker of the same file. What the canvas does with a bitmap is a parameter. The microtask
  that starts the next queued render is an event of its own (\<open>Pump\<close>), and so is every message of the worker; the code that runs when a promise settles
  is part of the event that settles it.
\<close>

section \<open>Render requests\<close>

type_synonym page_clip = "rat \<times> rat \<times> rat \<times> rat"

record render_options =
  ro_canvas_width :: int
  ro_canvas_height :: int
  ro_viewport_width :: rat
  ro_smart_colors :: "smart_palette option"
  ro_region :: "page_clip option"

record render_params =
  rq_page :: nat
  rq_width :: int
  rq_height :: int
  rq_clip :: "page_clip option"
  rq_color_scheme :: "fpdf_color_scheme option"

definition get_viewport :: "rat \<times> rat \<Rightarrow> rat \<Rightarrow> rat \<times> rat" where
  "get_viewport dims scale = (fst dims * scale, snd dims * scale)"

definition render_request :: "nat \<Rightarrow> rat \<times> rat \<Rightarrow> render_options \<Rightarrow> render_params" where
  "render_request page dims options =
     (let clip = (case ro_region options of
            None \<Rightarrow> None
          | Some (x, y, w, h) \<Rightarrow>
              let units = (if 0 < fst dims \<and> 0 < ro_viewport_width options then fst dims / ro_viewport_width options else 1) in
              Some (x * units, y * units, w * units, h * units)) in
      \<lparr>rq_page = page, rq_width = max 1 (ro_canvas_width options), rq_height = max 1 (ro_canvas_height options), rq_clip = clip,
       rq_color_scheme = map_option color_scheme_from_palette (ro_smart_colors options)\<rparr>)"

section \<open>The document\<close>

datatype render_end = Drawn | RenderDropped | RenderError string

datatype canvas_outcome = Draws | DrawThrows string | NoContext

record pdf_document =
  doc_client :: worker_client
  doc_num_pages :: nat
  doc_sizes :: "(nat \<times> js) list"
  doc_size_requests :: "(nat \<times> nat) list"        \<comment> \<open>request, page\<close>
  doc_text :: "(nat \<times> nat) list"                 \<comment> \<open>page, request\<close>
  doc_queue :: "(nat \<times> render_params) list"
  doc_active :: "(nat \<times> nat) option"              \<comment> \<open>task, request\<close>
  doc_next_task :: nat
  doc_cancelled :: "nat set"
  doc_dispatched :: "nat list"
  doc_settled :: "(nat \<times> render_end) list"
  doc_open_bitmaps :: "nat set"
  doc_destroyed :: bool

definition new_pdf_document :: "worker_client \<Rightarrow> nat \<Rightarrow> pdf_document" where
  "new_pdf_document client pages =
     \<lparr>doc_client = client, doc_num_pages = pages, doc_sizes = [], doc_size_requests = [], doc_text = [], doc_queue = [], doc_active = None,
      doc_next_task = 0, doc_cancelled = {}, doc_dispatched = [], doc_settled = [], doc_open_bitmaps = {}, doc_destroyed = False\<rparr>"

text \<open>\<open>assertAlive\<close> guards every entry; on a closed document the call throws and changes nothing.\<close>

definition get_page :: "int \<Rightarrow> nat \<Rightarrow> pdf_document \<Rightarrow> pdf_document" where
  "get_page now page d =
     (if doc_destroyed d \<or> map_of (doc_sizes d) page \<noteq> None then d
      else d\<lparr>doc_client := send_request now ''pageSize'' (doc_client d),
             doc_size_requests := (wc_next_id (doc_client d), page) # doc_size_requests d\<rparr>)"

definition get_text_lines :: "int \<Rightarrow> nat \<Rightarrow> pdf_document \<Rightarrow> pdf_document" where
  "get_text_lines now page d =
     (if doc_destroyed d \<or> map_of (doc_text d) page \<noteq> None then d
      else d\<lparr>doc_client := send_request now ''text'' (doc_client d),
             doc_text := (page, wc_next_id (doc_client d)) # doc_text d\<rparr>)"

definition get_outline :: "int \<Rightarrow> pdf_document \<Rightarrow> pdf_document" where
  "get_outline now d = (if doc_destroyed d then d else d\<lparr>doc_client := send_request now ''outline'' (doc_client d)\<rparr>)"

definition render_page :: "nat \<Rightarrow> rat \<times> rat \<Rightarrow> render_options \<Rightarrow> pdf_document \<Rightarrow> pdf_document" where
  "render_page page dims options d =
     (if doc_destroyed d then d
      else d\<lparr>doc_queue := doc_queue d @ [(doc_next_task d, render_request page dims options)],
             doc_next_task := doc_next_task d + 1\<rparr>)"

definition cancel_render :: "nat \<Rightarrow> pdf_document \<Rightarrow> pdf_document" where
  "cancel_render t d = d\<lparr>doc_cancelled := insert t (doc_cancelled d)\<rparr>"

text \<open>The start of \<open>run\<close>, once the previous attempt has settled.\<close>

definition pump :: "int \<Rightarrow> pdf_document \<Rightarrow> pdf_document" where
  "pump now d =
     (case (doc_active d, doc_queue d) of
        (None, (t, params) # rest) \<Rightarrow>
          if t \<in> doc_cancelled d
          then d\<lparr>doc_queue := rest, doc_settled := doc_settled d @ [(t, RenderDropped)]\<rparr>
          else d\<lparr>doc_queue := rest, doc_active := Some (t, wc_next_id (doc_client d)),
                 doc_client := send_cancellable now ''render'' (doc_client d), doc_dispatched := doc_dispatched d @ [t]\<rparr>
      | _ \<Rightarrow> d)"

text \<open>The rest of \<open>run\<close>, after \<open>await handle.result\<close>. The bitmap is closed on every path but the missing context.\<close>

definition finish_render :: "(nat \<Rightarrow> canvas_outcome) \<Rightarrow> nat \<Rightarrow> settlement \<Rightarrow> pdf_document \<Rightarrow> pdf_document" where
  "finish_render canvas t outcome d =
     (let done = (\<lambda>r. (d\<lparr>doc_active := None, doc_settled := doc_settled d @ [(t, r)]\<rparr>)) in
      case outcome of
        Failed e \<Rightarrow> done (RenderError e)
      | RenderCancelled \<Rightarrow> done RenderDropped
      | Resolved _ \<Rightarrow>
          if t \<in> doc_cancelled d then done RenderDropped
          else (case canvas t of
                  NoContext \<Rightarrow> (done (RenderError ''Canvas 2D context is unavailable''))\<lparr>doc_open_bitmaps := insert t (doc_open_bitmaps d)\<rparr>
                | DrawThrows e \<Rightarrow> done (RenderError e)
                | Draws \<Rightarrow> done Drawn))"

text \<open>A settled promise of the client reaches its waiting code: a page size is cached, a failed text extraction is forgotten.\<close>

definition deliver_data :: "pdf_document \<Rightarrow> nat \<Rightarrow> settlement \<Rightarrow> pdf_document" where
  "deliver_data d i outcome =
     (case outcome of
        Resolved v \<Rightarrow>
          (case map_of (doc_size_requests d) i of
             Some page \<Rightarrow> d\<lparr>doc_sizes := (page, v) # doc_sizes d\<rparr>
           | None \<Rightarrow> d)
      | _ \<Rightarrow> d\<lparr>doc_text := filter (\<lambda>(p, r). r \<noteq> i) (doc_text d)\<rparr>)"

definition deliver :: "(nat \<Rightarrow> canvas_outcome) \<Rightarrow> pdf_document \<Rightarrow> nat \<times> settlement \<Rightarrow> pdf_document" where
  "deliver canvas d s =
     (case doc_active d of
        Some (t, r) \<Rightarrow> if r = fst s then finish_render canvas t (snd s) d else deliver_data d (fst s) (snd s)
      | None \<Rightarrow> deliver_data d (fst s) (snd s))"

definition worker_event :: "(nat \<Rightarrow> canvas_outcome) \<Rightarrow> client_event \<Rightarrow> pdf_document \<Rightarrow> pdf_document" where
  "worker_event canvas ev d =
     (let client = client_step (doc_client d) ev;
          fresh = drop (length (wc_settled (doc_client d))) (wc_settled client) in
      foldl (deliver canvas) (d\<lparr>doc_client := client\<rparr>) fresh)"

definition destroy_document :: "pdf_document \<Rightarrow> pdf_document" where
  "destroy_document d =
     (if doc_destroyed d then d
      else d\<lparr>doc_destroyed := True, doc_sizes := [], doc_text := [], doc_client := terminate (doc_client d)\<rparr>)"


section \<open>One raster in flight, in order\<close>

datatype doc_event =
    GetPage int nat
  | GetText int nat
  | GetOutline int
  | RenderPage nat "rat \<times> rat" render_options
  | CancelRender nat
  | Pump int
  | Worker client_event
  | DestroyDocument

fun doc_step :: "(nat \<Rightarrow> canvas_outcome) \<Rightarrow> pdf_document \<Rightarrow> doc_event \<Rightarrow> pdf_document" where
  "doc_step canvas d (GetPage now page) = get_page now page d"
| "doc_step canvas d (GetText now page) = get_text_lines now page d"
| "doc_step canvas d (GetOutline now) = get_outline now d"
| "doc_step canvas d (RenderPage page dims options) = render_page page dims options d"
| "doc_step canvas d (CancelRender t) = cancel_render t d"
| "doc_step canvas d (Pump now) = pump now d"
| "doc_step canvas d (Worker ev) = worker_event canvas ev d"
| "doc_step canvas d DestroyDocument = destroy_document d"

text \<open>What the worker and the browser send; requests come only from the document.\<close>

fun from_worker :: "doc_event \<Rightarrow> bool" where
  "from_worker (Worker (Send _ _)) = False"
| "from_worker (Worker (SendCancellable _ _)) = False"
| "from_worker (Worker (Cancel _)) = False"
| "from_worker (Worker Terminate) = False"
| "from_worker _ = True"

definition active_task :: "pdf_document \<Rightarrow> nat list" where
  "active_task d = (case doc_active d of None \<Rightarrow> [] | Some (t, i) \<Rightarrow> [t])"

definition active_request :: "pdf_document \<Rightarrow> nat list" where
  "active_request d = (case doc_active d of None \<Rightarrow> [] | Some (t, i) \<Rightarrow> [i])"

definition renders_in_flight :: "worker_client \<Rightarrow> nat list" where
  "renders_in_flight c = map fst (filter (\<lambda>p. pr_method (snd p) = ''render'') (wc_pending c))"

definition doc_inv :: "pdf_document \<Rightarrow> bool" where
  "doc_inv d \<longleftrightarrow> client_inv (doc_client d)
     \<and> map fst (doc_settled d) @ active_task d @ map fst (doc_queue d) = [0..<doc_next_task d]
     \<and> renders_in_flight (doc_client d) = active_request d"

lemma send_inv: "client_inv c \<Longrightarrow> client_inv (send_request now m c)"
  using client_step_inv[of c "Send now m"] by simp

lemma send_cancellable_inv: "client_inv c \<Longrightarrow> client_inv (send_cancellable now m c)"
  using client_step_inv[of c "SendCancellable now m"] by simp

lemma renders_send:
  "renders_in_flight (send_request now m c) = renders_in_flight c @ (if m = ''render'' then [wc_next_id c] else [])"
  "renders_in_flight (send_cancellable now m c) = renders_in_flight c @ (if m = ''render'' then [wc_next_id c] else [])"
  by (simp_all add: renders_in_flight_def send_request_def send_cancellable_def Let_def)

lemma mark_stalled_keeps [simp]: "fst (mark_stalled now p) = fst p" "pr_method (snd (mark_stalled now p)) = pr_method (snd p)"
  by (simp_all add: mark_stalled_def)

lemma renders_stalls: "renders_in_flight (report_stalls now c) = renders_in_flight c"
  by (simp add: renders_in_flight_def report_stalls_def filter_map o_def)

lemma deliver_data_keeps [simp]:
  "doc_client (deliver_data d i out) = doc_client d" "doc_active (deliver_data d i out) = doc_active d"
  "doc_settled (deliver_data d i out) = doc_settled d" "doc_queue (deliver_data d i out) = doc_queue d"
  "doc_next_task (deliver_data d i out) = doc_next_task d" "doc_dispatched (deliver_data d i out) = doc_dispatched d"
  "doc_cancelled (deliver_data d i out) = doc_cancelled d" "doc_destroyed (deliver_data d i out) = doc_destroyed d"
  by (simp_all add: deliver_data_def split: settlement.split option.split)

lemma finish_render_keeps [simp]:
  "doc_client (finish_render canvas t out d) = doc_client d" "doc_active (finish_render canvas t out d) = None"
  "doc_queue (finish_render canvas t out d) = doc_queue d" "doc_next_task (finish_render canvas t out d) = doc_next_task d"
  "doc_dispatched (finish_render canvas t out d) = doc_dispatched d" "doc_cancelled (finish_render canvas t out d) = doc_cancelled d"
  "map fst (doc_settled (finish_render canvas t out d)) = map fst (doc_settled d) @ [t]"
  "doc_destroyed (finish_render canvas t out d) = doc_destroyed d"
  by (simp_all add: finish_render_def Let_def split: settlement.split canvas_outcome.split)

text \<open>A batch of settlements with distinct ids: it ends the active render exactly if that is among them.\<close>

lemma deliver_batch:
  "distinct (map fst ss) \<Longrightarrow>
    (let d' = foldl (deliver canvas) d ss; hit = (case doc_active d of None \<Rightarrow> False | Some (t, i) \<Rightarrow> i \<in> fst ` set ss) in
     doc_client d' = doc_client d \<and> doc_queue d' = doc_queue d \<and> doc_next_task d' = doc_next_task d
     \<and> doc_dispatched d' = doc_dispatched d \<and> doc_cancelled d' = doc_cancelled d \<and> doc_destroyed d' = doc_destroyed d
     \<and> doc_active d' = (if hit then None else doc_active d)
     \<and> map fst (doc_settled d') = map fst (doc_settled d) @ (if hit then active_task d else []))"
proof (induction ss arbitrary: d)
  case (Cons s ss)
  obtain i out where s: "s = (i, out)" by force
  have n: "i \<notin> fst ` set ss" using Cons.prems s by simp
  show ?case
  proof (cases "\<exists>t. doc_active d = Some (t, i)")
    case True
    then obtain t where t: "doc_active d = Some (t, i)" by blast
    then have e: "deliver canvas d (i, out) = finish_render canvas t out d" by (simp add: deliver_def)
    have "doc_active (finish_render canvas t out d) = None" by simp
    then show ?thesis
      using Cons.IH[of "finish_render canvas t out d"] Cons.prems s t n by (simp add: e Let_def active_task_def)
  next
    case False
    then have e: "deliver canvas d (i, out) = deliver_data d i out"
      by (auto simp: deliver_def split: option.splits)
    have a: "active_task (deliver_data d i out) = active_task d" by (simp add: active_task_def)
    show ?thesis using Cons.IH[of "deliver_data d i out"] Cons.prems s False
      by (cases "doc_active d") (auto simp: e a Let_def)
  qed
qed (simp split: option.split)


lemma fresh_settlements:
  assumes "client_inv c"
  shows "drop (length (wc_settled c)) (wc_settled (client_step c ev)) = settles c ev"
  using step_settles[OF assms, of ev] by simp

lemma settles_distinct: "client_inv c \<Longrightarrow> distinct (map fst (settles c ev))"
proof -
  assume "client_inv c"
  then have "distinct (map fst (wc_pending c))" by (simp add: client_inv_def)
  then show ?thesis by (cases ev) (simp_all add: settles_def o_def)
qed

lemma renders_after:
  assumes "client_inv c" "from_worker (Worker ev)"
  shows "renders_in_flight (client_step c ev) = filter (\<lambda>i. i \<notin> fst ` set (settles c ev)) (renders_in_flight c)"
proof (cases ev)
  case (Answer r)
  have f: "filter (\<lambda>i. i \<noteq> k) (renders_in_flight c) = map fst (filter (\<lambda>p. pr_method (snd p) = ''render'') (filter (\<lambda>p. fst p \<noteq> k) (wc_pending c)))" for k
    by (simp add: renders_in_flight_def filter_map o_def conj_commute)
  show ?thesis
  proof (cases "map_of (wc_pending c) (wr_id r)")
    case None
    then have "wr_id r \<notin> fst ` set (wc_pending c)" by (simp add: map_of_eq_None_iff)
    then show ?thesis using None Answer by (simp add: on_response_def settles_def)
  next
    case (Some p)
    then have i: "wr_id r \<in> fst ` set (wc_pending c)" by (metis domI dom_map_of_conv_image_fst)
    then have "fst ` set (settles c ev) = {wr_id r}" by (simp add: settles_def Answer)
    moreover have "renders_in_flight (client_step c ev) = filter (\<lambda>i. i \<noteq> wr_id r) (renders_in_flight c)"
      unfolding f using Some Answer by (simp add: on_response_def Let_def renders_in_flight_def drop_request_def)
    ultimately show ?thesis by simp
  qed
next
  case (WorkerError e)
  have "\<forall>i\<in>set (renders_in_flight c). i \<in> fst ` set (wc_pending c)" by (auto simp: renders_in_flight_def)
  then have "filter (\<lambda>i. i \<notin> fst ` set (settles c ev)) (renders_in_flight c) = []"
    by (auto simp: settles_def WorkerError filter_empty_conv image_image)
  moreover have "renders_in_flight (client_step c ev) = []"
    using worker_error_shape[OF assms(1), of e] by (simp add: WorkerError renders_in_flight_def)
  ultimately show ?thesis by simp
next
  case (StallTick now)
  then show ?thesis by (simp add: settles_def renders_stalls)
qed (use assms(2) in \<open>simp_all add: settles_def renders_in_flight_def record_diag_def on_failed_def off_failed_def\<close>)

lemma worker_event_inv:
  assumes "doc_inv d" "from_worker (Worker ev)"
  shows "doc_inv (worker_event canvas ev d)"
proof -
  have c: "client_inv (doc_client d)" using assms(1) by (simp add: doc_inv_def)
  let ?d = "d\<lparr>doc_client := client_step (doc_client d) ev\<rparr>"
  have w: "worker_event canvas ev d = foldl (deliver canvas) ?d (settles (doc_client d) ev)"
    by (simp add: worker_event_def Let_def fresh_settlements[OF c])
  note b = deliver_batch[OF settles_distinct[OF c], of canvas ?d ev, unfolded Let_def]
  show ?thesis
    unfolding doc_inv_def w
    using b assms(1) client_step_inv[OF c, of ev] renders_after[OF c assms(2)]
    by (cases "doc_active d") (auto simp: doc_inv_def active_task_def active_request_def split: prod.splits)
qed

lemma doc_step_inv: "doc_inv d \<Longrightarrow> from_worker ev \<Longrightarrow> doc_inv (doc_step canvas d ev)"
proof (cases ev)
  case (Worker cev)
  assume "doc_inv d" "from_worker ev"
  then show ?thesis using worker_event_inv Worker by simp
next
  case (Pump now)
  assume inv: "doc_inv d"
  show ?thesis
  proof (cases "doc_active d = None \<and> doc_queue d \<noteq> []")
    case True
    then obtain t params rest where q: "doc_queue d = (t, params) # rest" by (metis list.exhaust surj_pair)
    show ?thesis using inv True q send_cancellable_inv renders_send(2)
      by (simp add: Pump pump_def doc_inv_def active_task_def active_request_def)
  qed (use inv in \<open>auto simp: Pump pump_def split: option.splits list.splits\<close>)
next
  case DestroyDocument
  assume "doc_inv d"
  then show ?thesis using client_step_inv[of "doc_client d" Terminate]
    by (auto simp: DestroyDocument destroy_document_def doc_inv_def active_task_def active_request_def renders_in_flight_def
        terminate_def stop_stall_watch_def)
qed (auto simp: get_page_def get_text_lines_def get_outline_def render_page_def cancel_render_def doc_inv_def active_task_def
    active_request_def send_inv renders_send)

interpretation document: invariant_machine "doc_step canvas" from_worker doc_inv for canvas
  by unfold_locales (rule doc_step_inv)


text \<open>A document on a fresh client, or on one that has served other requests but no render.\<close>

lemma new_document_inv: "client_inv c \<Longrightarrow> renders_in_flight c = [] \<Longrightarrow> doc_inv (new_pdf_document c n)"
  by (simp add: doc_inv_def new_pdf_document_def active_task_def active_request_def)

text \<open>C23. A PDF document rasters one page at a time, in the order asked: in any interleaving of page, text, outline and render calls, cancels,
  worker answers and deaths, and closing, at most one render request is with the worker, the finished renders are exactly the oldest ones, each finished once, in
  order, followed by the one in flight and the queue, and the worker client underneath keeps its own books straight.\<close>

theorem render_queue_serial:
  assumes "client_inv c" and "renders_in_flight c = []" and "list_all from_worker evs"
  shows "(let d = run (doc_step canvas) (new_pdf_document c n) evs in
      length (renders_in_flight (doc_client d)) \<le> 1
      \<and> map fst (doc_settled d) @ active_task d @ map fst (doc_queue d) = [0..<doc_next_task d]
      \<and> (renders_in_flight (doc_client d) = [] \<longleftrightarrow> active_task d = [])
      \<and> client_inv (doc_client d))"
proof -
  have "doc_inv (run (doc_step canvas) (new_pdf_document c n) evs)"
    using new_document_inv[OF assms(1,2)] assms(3) by (rule document.run_keeps)
  then show ?thesis by (auto simp: doc_inv_def Let_def active_task_def active_request_def split: option.split)
qed

definition demo_options :: render_options where
  "demo_options = \<lparr>ro_canvas_width = 8, ro_canvas_height = 9, ro_viewport_width = 8, ro_smart_colors = None, ro_region = None\<rparr>"

theorem render_queue_serial_witness:
  "length (renders_in_flight (doc_client (run (doc_step (\<lambda>_. Draws)) (new_pdf_document (new_worker_client ''PDFium'') 3)
     [RenderPage 1 (8, 9) demo_options, RenderPage 2 (8, 9) demo_options, Pump 0, Pump 1]))) \<le> 1"
proof -
  have r: "renders_in_flight (new_worker_client ''PDFium'') = []" by (simp add: renders_in_flight_def new_worker_client_def)
  have e: "list_all from_worker [RenderPage 1 (8, 9) demo_options, RenderPage 2 (8, 9) demo_options, Pump 0, Pump 1]" by simp
  show ?thesis using render_queue_serial[OF new_client_inv r e] unfolding Let_def by blast
qed

section \<open>Cancelled in the queue\<close>

definition dropped_in_queue :: "nat \<Rightarrow> pdf_document \<Rightarrow> bool" where
  "dropped_in_queue t d \<longleftrightarrow> t \<in> doc_cancelled d \<and> t \<notin> set (doc_dispatched d) \<and> t \<notin> set (active_task d)
     \<and> (\<forall>r. (t, r) \<in> set (doc_settled d) \<longrightarrow> r = RenderDropped)"

lemma finish_other:
  "t' \<noteq> t \<Longrightarrow> (t, r) \<in> set (doc_settled (finish_render canvas t' out d)) \<Longrightarrow> (t, r) \<in> set (doc_settled d)"
  by (auto simp: finish_render_def Let_def split: settlement.splits canvas_outcome.splits if_splits)

lemma deliver_dropped: "dropped_in_queue t d \<Longrightarrow> dropped_in_queue t (deliver canvas d s)"
proof (cases "doc_active d")
  case (Some tr)
  obtain t' r where tr: "tr = (t', r)" by force
  assume d: "dropped_in_queue t d"
  then have "t' \<noteq> t" using Some tr by (auto simp: dropped_in_queue_def active_task_def)
  then show ?thesis using d Some tr finish_other[of t' t _ canvas "snd s" d]
    by (auto simp: deliver_def dropped_in_queue_def active_task_def)
qed (auto simp: deliver_def dropped_in_queue_def active_task_def)

lemma batch_dropped: "dropped_in_queue t d \<Longrightarrow> dropped_in_queue t (foldl (deliver canvas) d ss)"
  by (induction ss arbitrary: d) (simp_all add: deliver_dropped)

lemma step_dropped: "dropped_in_queue t d \<Longrightarrow> dropped_in_queue t (doc_step canvas d ev)"
proof (cases ev)
  case (Worker cev)
  assume "dropped_in_queue t d"
  then have "dropped_in_queue t (d\<lparr>doc_client := client_step (doc_client d) cev\<rparr>)" by (simp add: dropped_in_queue_def active_task_def)
  then show ?thesis using Worker batch_dropped by (simp add: worker_event_def Let_def)
next
  case (Pump now)
  assume "dropped_in_queue t d"
  then show ?thesis
    by (auto simp: Pump pump_def dropped_in_queue_def active_task_def split: option.splits list.splits)
qed (auto simp: get_page_def get_text_lines_def get_outline_def render_page_def cancel_render_def destroy_document_def
    dropped_in_queue_def active_task_def)

lemma run_dropped: "dropped_in_queue t d \<Longrightarrow> dropped_in_queue t (run (doc_step canvas) d evs)"
  by (induction evs arbitrary: d) (simp_all add: step_dropped)

text \<open>What has been sent to the worker has settled or is in flight.\<close>

definition dispatched_ok :: "pdf_document \<Rightarrow> bool" where
  "dispatched_ok d \<longleftrightarrow> set (doc_dispatched d) \<subseteq> fst ` set (doc_settled d) \<union> set (active_task d)"

lemma new_dispatched: "dispatched_ok (new_pdf_document c n)"
  by (simp add: dispatched_ok_def new_pdf_document_def)

lemma deliver_dispatched: "dispatched_ok d \<Longrightarrow> dispatched_ok (deliver canvas d s)"
proof (cases "doc_active d")
  case (Some tr)
  obtain t r where tr: "tr = (t, r)" by force
  have f: "fst ` set (doc_settled (finish_render canvas t out d)) = insert t (fst ` set (doc_settled d))" for out
    using arg_cong[OF finish_render_keeps(7)[of canvas t out d], of set] by (simp only: set_map set_append list.set Un_insert_right Un_empty_right)
  assume "dispatched_ok d"
  then show ?thesis using Some tr f by (auto simp: deliver_def dispatched_ok_def active_task_def)
qed (auto simp: deliver_def dispatched_ok_def active_task_def)

lemma batch_dispatched: "dispatched_ok d \<Longrightarrow> dispatched_ok (foldl (deliver canvas) d ss)"
  by (induction ss arbitrary: d) (simp_all add: deliver_dispatched)

lemma step_dispatched: "dispatched_ok d \<Longrightarrow> dispatched_ok (doc_step canvas d ev)"
proof (cases ev)
  case (Worker cev)
  assume "dispatched_ok d"
  then have "dispatched_ok (d\<lparr>doc_client := client_step (doc_client d) cev\<rparr>)" by (simp add: dispatched_ok_def active_task_def)
  then show ?thesis using Worker batch_dispatched by (simp add: worker_event_def Let_def)
next
  case (Pump now)
  assume "dispatched_ok d"
  then show ?thesis
    by (auto simp: Pump pump_def dispatched_ok_def active_task_def split: option.splits list.splits)
qed (auto simp: get_page_def get_text_lines_def get_outline_def render_page_def cancel_render_def destroy_document_def
    dispatched_ok_def active_task_def)

lemma run_dispatched: "dispatched_ok d \<Longrightarrow> dispatched_ok (run (doc_step canvas) d evs)"
  by (induction evs arbitrary: d) (simp_all add: step_dispatched)

lemma waiting_is_dropped:
  assumes "doc_inv d" "dispatched_ok d" "(t, params) \<in> set (doc_queue d)" "t \<in> doc_cancelled d"
  shows "dropped_in_queue t d"
proof -
  have "distinct (map fst (doc_settled d) @ active_task d @ map fst (doc_queue d))"
    using assms(1) by (simp add: doc_inv_def)
  moreover have "t \<in> fst ` set (doc_queue d)" using assms(3) by force
  ultimately have "t \<notin> fst ` set (doc_settled d)" "t \<notin> set (active_task d)" by auto
  then show ?thesis using assms(2,4) by (auto simp: dropped_in_queue_def dispatched_ok_def image_iff)
qed

lemma waiting_numbered: "doc_inv d \<Longrightarrow> (t, params) \<in> set (doc_queue d) \<Longrightarrow> t \<in> {0..<doc_next_task d}"
proof -
  assume "doc_inv d" and w: "(t, params) \<in> set (doc_queue d)"
  then have "set (map fst (doc_settled d) @ active_task d @ map fst (doc_queue d)) = {0..<doc_next_task d}"
    by (simp only: doc_inv_def set_upt)
  then show ?thesis using w by (auto simp: set_eq_iff) force
qed

section \<open>The queue drains\<close>

text \<open>The next event when the worker keeps answering: the answer to the render in flight, or the start of the next.\<close>

definition next_event :: "(nat \<Rightarrow> worker_response) \<Rightarrow> pdf_document \<Rightarrow> doc_event" where
  "next_event answer d =
     (case doc_active d of Some (t, i) \<Rightarrow> Worker (Answer ((answer i)\<lparr>wr_id := i\<rparr>)) | None \<Rightarrow> Pump 0)"

fun drain :: "(nat \<Rightarrow> canvas_outcome) \<Rightarrow> (nat \<Rightarrow> worker_response) \<Rightarrow> nat \<Rightarrow> pdf_document \<Rightarrow> pdf_document" where
  "drain canvas answer 0 d = d"
| "drain canvas answer (Suc n) d = drain canvas answer n (doc_step canvas d (next_event answer d))"

definition outstanding :: "pdf_document \<Rightarrow> nat" where
  "outstanding d = 2 * length (doc_queue d) + length (active_task d)"

lemma drain_step:
  assumes "doc_inv d"
  shows "outstanding (doc_step canvas d (next_event answer d)) \<le> outstanding d - 1
    \<and> doc_inv (doc_step canvas d (next_event answer d)) \<and> doc_next_task (doc_step canvas d (next_event answer d)) = doc_next_task d"
proof (cases "doc_active d")
  case None
  then have n: "next_event answer d = Pump 0" by (simp add: next_event_def)
  have i: "doc_inv (doc_step canvas d (Pump 0))" using doc_step_inv[OF assms, of "Pump 0" canvas] by simp
  show ?thesis
    unfolding n using i None by (cases "doc_queue d") (auto simp: pump_def outstanding_def active_task_def)
next
  case (Some ti)
  obtain t i where ti: "ti = (t, i)" by force
  let ?r = "(answer i)\<lparr>wr_id := i\<rparr>"
  have n: "next_event answer d = Worker (Answer ?r)" using Some ti by (simp add: next_event_def)
  have c: "client_inv (doc_client d)" and p: "i \<in> fst ` set (wc_pending (doc_client d))"
    using assms Some ti by (auto simp: doc_inv_def active_request_def renders_in_flight_def Cons_eq_map_conv filter_eq_Cons_iff)
  have s: "map fst (settles (doc_client d) (Answer ?r)) = [i]" using p by (simp add: settles_def)
  let ?d = "d\<lparr>doc_client := client_step (doc_client d) (Answer ?r)\<rparr>"
  have w: "doc_step canvas d (Worker (Answer ?r)) = foldl (deliver canvas) ?d (settles (doc_client d) (Answer ?r))"
    by (simp add: worker_event_def Let_def fresh_settlements[OF c] del: client_step.simps)
  have hit: "i \<in> fst ` set (settles (doc_client d) (Answer ?r))" using s by (metis list.set_intros(1) list.set_map)
  have "doc_inv (doc_step canvas d (Worker (Answer ?r)))" using doc_step_inv[OF assms, of "Worker (Answer ?r)" canvas] by simp
  then show ?thesis
    unfolding n using deliver_batch[OF settles_distinct[OF c], of canvas ?d "Answer ?r", unfolded Let_def] Some ti hit
    unfolding w by (auto simp: outstanding_def active_task_def)
qed

lemma drain_outstanding:
  "doc_inv d \<Longrightarrow> outstanding (drain canvas answer n d) \<le> outstanding d - n \<and> doc_inv (drain canvas answer n d)
     \<and> doc_next_task (drain canvas answer n d) = doc_next_task d"
proof (induction n arbitrary: d)
  case (Suc n)
  let ?d = "doc_step canvas d (next_event answer d)"
  note step = drain_step[OF Suc.prems, of canvas answer]
  then have "doc_inv ?d" by blast
  from Suc.IH[OF this] step
  have "outstanding (drain canvas answer n ?d) \<le> outstanding ?d - n" "outstanding ?d \<le> outstanding d - 1"
    "doc_inv (drain canvas answer n ?d)" "doc_next_task (drain canvas answer n ?d) = doc_next_task d" by auto
  then show ?case by simp
qed simp

lemma drain_dropped: "dropped_in_queue t d \<Longrightarrow> dropped_in_queue t (drain canvas answer n d)"
  by (induction n arbitrary: d) (simp_all add: step_dropped del: doc_step.simps)

text \<open>C24. The render queue drains: whatever has happened to the document, once nothing new is asked and the worker answers (with a bitmap, an error or a
  stale reply) each request in flight, after two steps for each waiting render and one for the render in flight nothing waits, nothing is in flight, and every
  render ever asked has settled exactly once, in the order asked; a render cancelled while it waited is reported as cancelled and never reaches the
  worker.\<close>

theorem render_queue_drains:
  assumes "client_inv c" and "renders_in_flight c = []" and "list_all from_worker evs"
    and d: "d = run (doc_step canvas) (new_pdf_document c n) evs" and e: "e = drain canvas answer (outstanding d) d"
  shows "doc_queue e = [] \<and> doc_active e = None \<and> renders_in_flight (doc_client e) = []
    \<and> map fst (doc_settled e) = [0..<doc_next_task d]
    \<and> (\<forall>t params. (t, params) \<in> set (doc_queue d) \<and> t \<in> doc_cancelled d \<longrightarrow>
         (t, RenderDropped) \<in> set (doc_settled e) \<and> t \<notin> set (doc_dispatched e))"
proof -
  have i: "doc_inv d" unfolding d using new_document_inv[OF assms(1,2)] assms(3) by (rule document.run_keeps)
  have fin: "outstanding e = 0" "doc_inv e" "doc_next_task e = doc_next_task d"
    using drain_outstanding[OF i, of canvas answer "outstanding d"] e by auto
  have q: "doc_queue e = []" "doc_active e = None"
    using fin(1) by (auto simp: outstanding_def active_task_def split: option.splits)
  have s: "map fst (doc_settled e) = [0..<doc_next_task d]"
    using fin q by (simp add: doc_inv_def active_task_def)
  have "(t, RenderDropped) \<in> set (doc_settled e) \<and> t \<notin> set (doc_dispatched e)"
    if w: "(t, params) \<in> set (doc_queue d)" "t \<in> doc_cancelled d" for t params
  proof -
    have "dispatched_ok d" unfolding d
      using new_document_inv[OF assms(1,2)] assms(3) run_dispatched new_dispatched by blast
    then have "dropped_in_queue t d" using waiting_is_dropped[OF i] w by blast
    then have "dropped_in_queue t e" unfolding e by (rule drain_dropped)
    moreover have "t \<in> set (map fst (doc_settled e))"
      using waiting_numbered[OF i w(1)] s by simp
    ultimately show ?thesis by (auto simp: dropped_in_queue_def)
  qed
  then show ?thesis using q s fin(2) by (auto simp: doc_inv_def active_request_def)
qed

theorem render_queue_drains_witness:
  "map fst (doc_settled (drain (\<lambda>_. Draws) (\<lambda>i. \<lparr>wr_id = i, wr_ok = True, wr_result = Null, wr_error = None\<rparr>) 4
     (run (doc_step (\<lambda>_. Draws)) (new_pdf_document (new_worker_client ''PDFium'') 3)
       [RenderPage 1 (8, 9) demo_options, RenderPage 2 (8, 9) demo_options, CancelRender 1]))) = [0, 1]"
proof -
  let ?evs = "[RenderPage 1 (8, 9) demo_options, RenderPage 2 (8, 9) demo_options, CancelRender 1]"
  let ?d = "run (doc_step (\<lambda>_. Draws)) (new_pdf_document (new_worker_client ''PDFium'') 3) ?evs"
  have r: "renders_in_flight (new_worker_client ''PDFium'') = []" by (simp add: renders_in_flight_def new_worker_client_def)
  have e: "list_all from_worker ?evs" by simp
  have "outstanding ?d = 4" "doc_next_task ?d = 2"
    by (simp_all add: outstanding_def active_task_def render_page_def cancel_render_def new_pdf_document_def)
  then show ?thesis
    using render_queue_drains[OF new_client_inv r e refl refl,
        where canvas = "\<lambda>_. Draws" and n = 3 and answer = "\<lambda>i. \<lparr>wr_id = i, wr_ok = True, wr_result = Null, wr_error = None\<rparr>"]
    by (simp only: upt_conv_Cons) (simp add: upt_rec)
qed


lemma missing_context_leaks_bitmap:
  "t \<notin> doc_cancelled d \<Longrightarrow> canvas t = NoContext \<Longrightarrow> t \<in> doc_open_bitmaps (finish_render canvas t (Resolved v) d)"
  by (simp add: finish_render_def)

section \<open>The prewarmed worker\<close>

text \<open>The module keeps one idle client and the promise of its prewarm request; clients are numbered as they are created. An open takes the idle client or
  creates one, and owns it until it fails or the document is closed.\<close>

record prewarm_state =
  pw_idle :: "nat option"
  pw_promise :: "nat option"
  pw_next_client :: nat
  pw_opening :: "nat list"
  pw_documents :: "nat list"
  pw_terminated :: "nat list"

definition no_prewarm :: prewarm_state where
  "no_prewarm = \<lparr>pw_idle = None, pw_promise = None, pw_next_client = 0, pw_opening = [], pw_documents = [], pw_terminated = []\<rparr>"

definition prewarm_engine :: "bool \<Rightarrow> prewarm_state \<Rightarrow> prewarm_state" where
  "prewarm_engine has_worker s =
     (if pw_promise s \<noteq> None \<or> \<not> has_worker then s
      else s\<lparr>pw_idle := Some (pw_next_client s), pw_promise := Some (pw_next_client s), pw_next_client := pw_next_client s + 1\<rparr>)"

definition prewarm_rejected :: "nat \<Rightarrow> prewarm_state \<Rightarrow> prewarm_state" where
  "prewarm_rejected client s =
     (if pw_idle s = Some client
      then s\<lparr>pw_terminated := pw_terminated s @ [client], pw_idle := None, pw_promise := None\<rparr>
      else s)"

definition cancel_prewarm :: "prewarm_state \<Rightarrow> prewarm_state" where
  "cancel_prewarm s =
     (case pw_idle s of
        Some client \<Rightarrow> s\<lparr>pw_terminated := pw_terminated s @ [client], pw_idle := None, pw_promise := None\<rparr>
      | None \<Rightarrow> s\<lparr>pw_promise := None\<rparr>)"

definition take_prewarmed :: "prewarm_state \<Rightarrow> nat option \<times> prewarm_state" where
  "take_prewarmed s = (pw_idle s, s\<lparr>pw_idle := None, pw_promise := None\<rparr>)"

definition open_document :: "prewarm_state \<Rightarrow> nat \<times> prewarm_state" where
  "open_document s =
     (case take_prewarmed s of
        (Some client, s') \<Rightarrow> (client, s'\<lparr>pw_opening := pw_opening s' @ [client]\<rparr>)
      | (None, s') \<Rightarrow> (pw_next_client s', s'\<lparr>pw_opening := pw_opening s' @ [pw_next_client s'], pw_next_client := pw_next_client s' + 1\<rparr>))"

definition open_settled :: "nat \<Rightarrow> bool \<Rightarrow> prewarm_state \<Rightarrow> prewarm_state" where
  "open_settled client loaded s =
     (if client \<in> set (pw_opening s)
      then (if loaded then s\<lparr>pw_opening := remove1 client (pw_opening s), pw_documents := pw_documents s @ [client]\<rparr>
            else s\<lparr>pw_opening := remove1 client (pw_opening s), pw_terminated := pw_terminated s @ [client]\<rparr>)
      else s)"

definition close_document :: "nat \<Rightarrow> prewarm_state \<Rightarrow> prewarm_state" where
  "close_document client s =
     (if client \<in> set (pw_documents s)
      then s\<lparr>pw_documents := remove1 client (pw_documents s), pw_terminated := pw_terminated s @ [client]\<rparr>
      else s)"

datatype prewarm_event = Prewarm bool | PrewarmRejected nat | CancelPrewarm | OpenPdf | OpenSettled nat bool | ClosePdf nat

fun prewarm_step :: "prewarm_state \<Rightarrow> prewarm_event \<Rightarrow> prewarm_state" where
  "prewarm_step s (Prewarm has_worker) = prewarm_engine has_worker s"
| "prewarm_step s (PrewarmRejected client) = prewarm_rejected client s"
| "prewarm_step s CancelPrewarm = cancel_prewarm s"
| "prewarm_step s OpenPdf = snd (open_document s)"
| "prewarm_step s (OpenSettled client loaded) = open_settled client loaded s"
| "prewarm_step s (ClosePdf client) = close_document client s"

definition clients_of :: "prewarm_state \<Rightarrow> nat multiset" where
  "clients_of s = (case pw_idle s of None \<Rightarrow> {#} | Some c \<Rightarrow> {#c#}) + mset (pw_opening s) + mset (pw_documents s) + mset (pw_terminated s)"

definition prewarm_inv :: "prewarm_state \<Rightarrow> bool" where
  "prewarm_inv s \<longleftrightarrow> pw_promise s = pw_idle s \<and> clients_of s = mset [0..<pw_next_client s]"

lemma settled_moves: "clients_of (open_settled client loaded s) = clients_of s"
  by (cases "client \<in> set (pw_opening s)") (auto simp: open_settled_def clients_of_def dest!: split_list split: option.split)

lemma closed_moves: "clients_of (close_document client s) = clients_of s"
  by (cases "client \<in> set (pw_documents s)") (auto simp: close_document_def clients_of_def dest!: split_list split: option.split)
lemma mset_up_to_Suc: "mset_set {0..<Suc n} = add_mset n (mset_set {0..<n})"
  by (simp add: atLeast0_lessThan_Suc)

lemma prewarm_step_inv: "prewarm_inv s \<Longrightarrow> prewarm_inv (prewarm_step s ev)"
proof (cases ev)
  case (OpenSettled client loaded)
  assume "prewarm_inv s"
  then show ?thesis using settled_moves[of client loaded s] by (simp add: OpenSettled prewarm_inv_def open_settled_def)
next
  case (ClosePdf client)
  assume "prewarm_inv s"
  then show ?thesis using closed_moves[of client s] by (simp add: ClosePdf prewarm_inv_def close_document_def)
qed (auto simp: prewarm_engine_def prewarm_rejected_def cancel_prewarm_def open_document_def take_prewarmed_def prewarm_inv_def
    clients_of_def ac_simps mset_up_to_Suc split: option.splits)
interpretation prewarm: invariant_machine prewarm_step "\<lambda>_. True" prewarm_inv
  by unfold_locales (rule prewarm_step_inv)

text \<open>No PDF worker is leaked, shared or terminated twice: whatever sequence of prewarms, failed prewarms, cancels, opens, failed opens and closes, each
  worker ever created is in exactly one place: idle, held by one pending open, held by one open document, or terminated. In particular a prewarm that
  fails after its worker was taken by an open leaves that open's worker running.\<close>

theorem prewarm_workers_accounted:
  "(let s = run prewarm_step no_prewarm evs in
     clients_of s = mset [0..<pw_next_client s]
     \<and> distinct (pw_opening s @ pw_documents s @ pw_terminated s)
     \<and> pw_promise s = pw_idle s
     \<and> (\<forall>c \<in> set (pw_opening s) \<union> set (pw_documents s). prewarm_rejected c s = s \<and> c \<notin> set (pw_terminated (cancel_prewarm s))))"
proof -
  have start: "prewarm_inv no_prewarm" by (simp add: prewarm_inv_def no_prewarm_def clients_of_def)
  define s where "s = run prewarm_step no_prewarm evs"
  have i: "prewarm_inv s"
    unfolding s_def by (rule prewarm.run_keeps[OF start]) (simp add: list_all_iff)
  have "mset (pw_opening s @ pw_documents s @ pw_terminated s @ (case pw_idle s of None \<Rightarrow> [] | Some c \<Rightarrow> [c])) = mset [0..<pw_next_client s]"
    using i by (simp add: prewarm_inv_def clients_of_def ac_simps split: option.splits)
  then have d: "distinct (pw_opening s @ pw_documents s @ pw_terminated s @ (case pw_idle s of None \<Rightarrow> [] | Some c \<Rightarrow> [c]))"
    using mset_eq_imp_distinct_iff[of _ "[0..<pw_next_client s]"] distinct_upt by blast
  then have n: "prewarm_rejected c s = s \<and> c \<notin> set (pw_terminated (cancel_prewarm s))"
    if "c \<in> set (pw_opening s) \<union> set (pw_documents s)" for c
    using that by (auto simp: prewarm_rejected_def cancel_prewarm_def split: option.splits)
  have p: "distinct (pw_opening s @ pw_documents s @ pw_terminated s)" using d by auto
  show ?thesis using i p n unfolding s_def[symmetric] Let_def prewarm_inv_def by blast
qed

theorem prewarm_workers_accounted_witness:
  "prewarm_rejected 0 (run prewarm_step no_prewarm [Prewarm True, OpenPdf]) = run prewarm_step no_prewarm [Prewarm True, OpenPdf]"
proof -
  have "0 \<in> set (pw_opening (run prewarm_step no_prewarm [Prewarm True, OpenPdf]))"
    by (simp add: prewarm_engine_def open_document_def take_prewarmed_def no_prewarm_def)
  then show ?thesis using prewarm_workers_accounted[of "[Prewarm True, OpenPdf]"] unfolding Let_def by blast
qed

end
