(* ===== verification/PdfCore.thy ===== *)
theory PdfCore
  imports PdfTheme PdfRange Complex_Main "HOL-Library.Multiset"
begin

text \<open>
  \<open>frontend/src/lib/pdf/pdfiumCore.ts\<close>, the PDFium operations inside the worker, with the outline and search helpers \<open>pdfOutline.ts\<close> and \<open>pdfSearch.ts\<close>. What PDFium
  and the WASM allocator answer is a parameter of each operation. The text of a page is a list of code points. Coordinates are rationals.
\<close>

section \<open>Bitmap sizes\<close>

definition MAX_RENDER_BITMAP_PIXELS :: int where "MAX_RENDER_BITMAP_PIXELS = 33554432"

definition clamp_bitmap_size :: "int \<Rightarrow> int \<Rightarrow> int \<times> int" where
  "clamp_bitmap_size width height =
     (let pixels = width * height in
      if \<not> (pixels > MAX_RENDER_BITMAP_PIXELS) then (width, height)
      else let factor = sqrt (of_int MAX_RENDER_BITMAP_PIXELS / of_int pixels) in
        (max 1 \<lfloor>of_int width * factor\<rfloor>, max 1 \<lfloor>of_int height * factor\<rfloor>))"

lemma scaled_area:
  assumes "0 < w" "0 < h" "MAX_RENDER_BITMAP_PIXELS < w * h"
  defines "f \<equiv> sqrt (of_int MAX_RENDER_BITMAP_PIXELS / of_int (w * h))"
  shows "0 < f" "f < 1" "(of_int w * f) * (of_int h * f) = of_int MAX_RENDER_BITMAP_PIXELS"
    "f * f = of_int MAX_RENDER_BITMAP_PIXELS / of_int (w * h)"
proof -
  let ?q = "of_int MAX_RENDER_BITMAP_PIXELS / of_int (w * h) :: real"
  have p: "(33554432::real) < of_int (w * h)" using assms(3) unfolding MAX_RENDER_BITMAP_PIXELS_def by linarith
  then have q: "0 < ?q" "?q < 1" by (simp_all add: MAX_RENDER_BITMAP_PIXELS_def divide_less_eq del: of_int_mult)
  then show "0 < f" "f < 1" by (simp_all add: f_def)
  show ff: "f * f = ?q" by (simp only: f_def real_sqrt_mult_self abs_of_pos[OF q(1)])
  have "(of_int w * f) * (of_int h * f) = of_int (w * h) * (f * f)" by (simp add: algebra_simps)
  then have "(of_int w * f) * (of_int h * f) = of_int (w * h) * ?q" unfolding ff .
  then show "(of_int w * f) * (of_int h * f) = of_int MAX_RENDER_BITMAP_PIXELS" using assms(1,2) by simp
qed

lemma clamp_fits:
  assumes "0 < w" and "0 < h" and "w \<le> h * MAX_RENDER_BITMAP_PIXELS" and "h \<le> w * MAX_RENDER_BITMAP_PIXELS"
  shows "(case clamp_bitmap_size w h of (w', h') \<Rightarrow>
      0 < w' \<and> 0 < h' \<and> w' \<le> w \<and> h' \<le> h \<and> w' * h' \<le> MAX_RENDER_BITMAP_PIXELS \<and> clamp_bitmap_size w' h' = (w', h'))"
proof (cases "MAX_RENDER_BITMAP_PIXELS < w * h")
  case False
  then show ?thesis using assms(1,2) by (simp add: clamp_bitmap_size_def)
next
  case True
  define f where "f = sqrt (of_int MAX_RENDER_BITMAP_PIXELS / of_int (w * h))"
  note area = scaled_area[OF assms(1,2) True, folded f_def]
  have side: "1 \<le> of_int x * f" if x: "0 < x" "0 < y" "x * y = w * h" "y \<le> x * MAX_RENDER_BITMAP_PIXELS" for x y :: int
  proof -
    have "(1::real) \<le> of_int x * of_int x * (of_int MAX_RENDER_BITMAP_PIXELS / of_int (x * y))"
    proof -
      have "x * y \<le> x * (x * MAX_RENDER_BITMAP_PIXELS)" by (rule mult_left_mono) (use x in auto)
      then have "x * y \<le> x * x * MAX_RENDER_BITMAP_PIXELS" by (simp only: mult.assoc)
      then have "real_of_int (x * y) \<le> of_int (x * x * MAX_RENDER_BITMAP_PIXELS)" by (rule of_int_le_iff[THEN iffD2])
      then show ?thesis using x(1,2) by (simp add: field_simps)
    qed
    also have "\<dots> = (of_int x * f) * (of_int x * f)"
    proof -
      have "f * f = of_int MAX_RENDER_BITMAP_PIXELS / of_int (x * y)"
        unfolding x(3) by (rule area(4))
      then have "of_int x * of_int x * (of_int MAX_RENDER_BITMAP_PIXELS / of_int (x * y)) = of_int x * of_int x * (f * f)" by (simp only:)
      then show ?thesis by (simp only: mult_ac)
    qed
    finally have "1\<^sup>2 \<le> (of_int x * f)\<^sup>2" by (simp add: power2_eq_square)
    then show ?thesis by (rule power2_le_imp_le) (use area(1) x(1) in simp)
  qed
  have sides: "1 \<le> of_int w * f" "1 \<le> of_int h * f" using side[of w h] side[of h w] assms by (simp_all add: mult.commute)
  let ?w = "\<lfloor>of_int w * f\<rfloor>" and ?h = "\<lfloor>of_int h * f\<rfloor>"
  have pos: "1 \<le> ?w" "1 \<le> ?h" using sides by (simp_all add: le_floor_iff)
  have less: "of_int x * f \<le> of_int x" if "0 < x" for x :: int
    using mult_left_mono[of f 1 "of_int x"] area(2) that by simp
  have small: "?w \<le> w" "?h \<le> h" using less[OF assms(1)] less[OF assms(2)] by linarith+
  have "real_of_int (?w * ?h) \<le> (of_int w * f) * (of_int h * f)"
    unfolding of_int_mult using pos by (intro mult_mono) (simp_all add: order_trans[of 0 1])
  then have fits: "?w * ?h \<le> MAX_RENDER_BITMAP_PIXELS" unfolding area(3) by linarith
  have c: "clamp_bitmap_size w h = (?w, ?h)"
    using True pos by (simp add: clamp_bitmap_size_def f_def Let_def)
  show ?thesis unfolding c using pos small fits by (simp add: clamp_bitmap_size_def)
qed

text \<open>A clamped bitmap fits the ceiling, is no larger than asked, has at least one pixel, and clamping it again changes nothing, as long as neither side is scaled
  below one pixel. A side that is (one of a bitmap more than \<open>2^25\<close> times as long as it is wide) is put back to one pixel, and then the ceiling is passed.\<close>

theorem clamped_bitmap_fits:
  assumes "0 < w" and "0 < h" and "w \<le> h * MAX_RENDER_BITMAP_PIXELS" and "h \<le> w * MAX_RENDER_BITMAP_PIXELS"
  shows "(case clamp_bitmap_size w h of (w', h') \<Rightarrow>
      0 < w' \<and> 0 < h' \<and> w' \<le> w \<and> h' \<le> h \<and> w' * h' \<le> MAX_RENDER_BITMAP_PIXELS \<and> clamp_bitmap_size w' h' = (w', h'))"
  using assms by (rule clamp_fits)

theorem clamped_bitmap_fits_witness:
  "case clamp_bitmap_size 10000 20000 of (w, h) \<Rightarrow> w * h \<le> MAX_RENDER_BITMAP_PIXELS"
  using clamped_bitmap_fits[of 10000 20000] by (auto simp: MAX_RENDER_BITMAP_PIXELS_def split: prod.splits)


lemma thin_bitmap_exceeds: "case clamp_bitmap_size (2 ^ 30) 1 of (w, h) \<Rightarrow> MAX_RENDER_BITMAP_PIXELS < w * h"
proof -
  have "1 / 6 \<le> sqrt (1 / 32)" by (rule real_le_rsqrt) (simp add: power2_eq_square)
  then have "33554433 \<le> \<lfloor>1073741824 * sqrt (1 / 32)\<rfloor>" by linarith
  then show ?thesis
    by (simp add: clamp_bitmap_size_def MAX_RENDER_BITMAP_PIXELS_def Let_def)
qed

section \<open>Text lines\<close>

type_synonym codes = "nat list"

definition is_space_code :: "nat \<Rightarrow> bool" where
  "is_space_code c = (c \<in> {9, 10, 11, 12, 13, 32, 160, 5760, 8232, 8233, 8239, 8287, 12288, 65279} \<or> 8192 \<le> c \<and> c \<le> 8202)"

text \<open>\<open>replace(/\s+/g, " ")\<close> and \<open>trim\<close>.\<close>

fun collapse_spaces :: "codes \<Rightarrow> codes" where
  "collapse_spaces [] = []"
| "collapse_spaces (c # s) =
     (if is_space_code c then 32 # collapse_spaces (dropWhile is_space_code s) else c # collapse_spaces s)"

definition trim_codes :: "codes \<Rightarrow> codes" where
  "trim_codes s = rev (dropWhile is_space_code (rev (dropWhile is_space_code s)))"

record page_char =
  pc_unicode :: nat
  pc_box :: "(rat \<times> rat \<times> rat \<times> rat) option"    \<comment> \<open>left, upper, right, lower; \<open>None\<close> when PDFium has none\<close>
  pc_baseline :: rat
  pc_font_size :: rat

record line_builder =
  lb_codes :: codes
  lb_x :: rat
  lb_right :: rat
  lb_top :: rat
  lb_bottom :: rat
  lb_baseline :: rat
  lb_size :: rat

record engine_text_line =
  el_text :: codes
  el_x :: rat
  el_y :: rat
  el_w :: rat
  el_h :: rat
  el_size :: rat

definition new_line :: "page_char \<Rightarrow> rat \<times> rat \<times> rat \<times> rat \<Rightarrow> rat \<Rightarrow> line_builder" where
  "new_line c box font_size =
     (case box of (left, upper, right, lower) \<Rightarrow>
        \<lparr>lb_codes = [], lb_x = left, lb_right = right, lb_top = upper, lb_bottom = lower, lb_baseline = pc_baseline c, lb_size = font_size\<rparr>)"

definition extend_line :: "page_char \<Rightarrow> rat \<times> rat \<times> rat \<times> rat \<Rightarrow> rat \<Rightarrow> line_builder \<Rightarrow> line_builder" where
  "extend_line c box font_size line =
     (case box of (left, upper, right, lower) \<Rightarrow>
        let gap = pc_unicode c \<noteq> 32 \<and> \<not> (lb_codes line \<noteq> [] \<and> last (lb_codes line) = 32)
              \<and> left - lb_right line > max 1 (lb_size line * (1 / 5)) in
        line\<lparr>lb_codes := (if gap then lb_codes line @ [32] else lb_codes line),
          lb_x := min (lb_x line) left, lb_right := max (lb_right line) right, lb_top := max (lb_top line) upper,
          lb_bottom := min (lb_bottom line) lower, lb_size := max (lb_size line) font_size\<rparr>)"

definition push_code :: "nat \<Rightarrow> line_builder \<Rightarrow> line_builder" where
  "push_code c line = line\<lparr>lb_codes := lb_codes line @ [c]\<rparr>"

text \<open>The characters that carry text: no controls, and a box with an area.\<close>

definition visible_box :: "page_char \<Rightarrow> (rat \<times> rat \<times> rat \<times> rat) option" where
  "visible_box c =
     (if pc_unicode c < 32 then None
      else case pc_box c of
        None \<Rightarrow> None
      | Some (left, upper, right, lower) \<Rightarrow> if \<not> right > left \<or> \<not> upper > lower then None else Some (left, upper, right, lower))"

definition font_size_of :: "page_char \<Rightarrow> rat \<times> rat \<times> rat \<times> rat \<Rightarrow> rat" where
  "font_size_of c box = (if pc_font_size c \<noteq> 0 then pc_font_size c else case box of (left, upper, right, lower) \<Rightarrow> upper - lower)"

definition line_step :: "line_builder list \<Rightarrow> page_char \<Rightarrow> line_builder list" where
  "line_step lines c =
     (case visible_box c of
        None \<Rightarrow> lines
      | Some box \<Rightarrow>
          let font_size = font_size_of c box in
          if lines = [] \<or> \<bar>pc_baseline c - lb_baseline (last lines)\<bar> > max 2 (max (lb_size (last lines)) font_size * (2 / 5))
          then lines @ [push_code (pc_unicode c) (new_line c box font_size)]
          else butlast lines @ [push_code (pc_unicode c) (extend_line c box font_size (last lines))])"

definition finish_line :: "rat \<Rightarrow> line_builder \<Rightarrow> engine_text_line" where
  "finish_line height line =
     \<lparr>el_text = trim_codes (collapse_spaces (lb_codes line)), el_x = lb_x line, el_y = height - lb_top line,
      el_w = lb_right line - lb_x line, el_h = lb_top line - lb_bottom line, el_size = lb_size line\<rparr>"

definition group_lines :: "rat \<Rightarrow> page_char list \<Rightarrow> engine_text_line list" where
  "group_lines height chars =
     filter (\<lambda>l. el_text l \<noteq> [] \<and> 0 < el_w l \<and> 0 < el_h l) (map (finish_line height) (foldl line_step [] chars))"

text \<open>The invariant of the walk: every line has an area, its letters are those of the characters so far in order, and every character's box lies in a line's.\<close>

definition letters :: "codes \<Rightarrow> codes" where
  "letters s = filter (\<lambda>c. \<not> is_space_code c) s"

definition visible_codes :: "page_char list \<Rightarrow> codes" where
  "visible_codes chars = map pc_unicode (filter (\<lambda>c. \<not> Option.is_none (visible_box c)) chars)"

definition covers :: "line_builder \<Rightarrow> rat \<times> rat \<times> rat \<times> rat \<Rightarrow> bool" where
  "covers l box \<longleftrightarrow> (case box of (left, upper, right, lower) \<Rightarrow>
     lb_x l \<le> left \<and> right \<le> lb_right l \<and> upper \<le> lb_top l \<and> lb_bottom l \<le> lower)"

definition lines_ok :: "page_char list \<Rightarrow> line_builder list \<Rightarrow> bool" where
  "lines_ok chars lines \<longleftrightarrow>
     (\<forall>l\<in>set lines. lb_x l < lb_right l \<and> lb_bottom l < lb_top l)
     \<and> letters (concat (map lb_codes lines)) = letters (visible_codes chars)
     \<and> (\<forall>c\<in>set chars. \<forall>box. visible_box c = Some box \<longrightarrow> (\<exists>l\<in>set lines. covers l box \<and> pc_unicode c \<in> set (lb_codes l)))"

lemma space_code [simp]: "is_space_code 32"
  by (simp add: is_space_code_def)

lemma letters_simps [simp]: "letters [] = []" "letters (a @ b) = letters a @ letters b"
  "letters (c # s) = (if is_space_code c then letters s else c # letters s)"
  by (simp_all add: letters_def)

lemma visible_box_area: "visible_box c = Some (left, upper, right, lower) \<Longrightarrow> left < right \<and> lower < upper"
  by (auto simp: visible_box_def split: if_splits option.splits)

lemma covers_extend: "covers l box \<Longrightarrow> covers (push_code x (extend_line c b f l)) box"
  by (auto simp: covers_def push_code_def extend_line_def Let_def split: prod.splits)

lemma covers_own:
  "covers (push_code x (extend_line c box f l)) box" "covers (push_code x (new_line c box f)) box"
  by (auto simp: covers_def push_code_def extend_line_def new_line_def Let_def split: prod.splits)

lemma extend_codes:
  "\<exists>gap. (gap = [] \<or> gap = [32]) \<and> lb_codes (push_code x (extend_line c box f l)) = lb_codes l @ gap @ [x]"
  by (cases box) (auto simp: push_code_def extend_line_def Let_def)

lemma line_step_ok:
  assumes "lines_ok chars lines"
  shows "lines_ok (chars @ [c]) (line_step lines c)"
proof (cases "visible_box c")
  case None
  then show ?thesis using assms by (simp add: lines_ok_def line_step_def visible_codes_def)
next
  case (Some box)
  obtain left upper right lower where b: "box = (left, upper, right, lower)" by (metis surj_pair)
  have area: "left < right" "lower < upper" using visible_box_area[of c] Some b by blast+
  let ?f = "font_size_of c box"
  let ?fresh = "push_code (pc_unicode c) (new_line c box ?f)"
  let ?more = "push_code (pc_unicode c) (extend_line c box ?f (last lines))"
  have codes: "visible_codes (chars @ [c]) = visible_codes chars @ [pc_unicode c]" using Some by (simp add: visible_codes_def)
  have "line_step lines c = lines @ [?fresh] \<or> lines \<noteq> [] \<and> line_step lines c = butlast lines @ [?more]"
    unfolding line_step_def Some option.case Let_def by (simp split: if_split)
  then consider (new) "line_step lines c = lines @ [?fresh]" | (old) "lines \<noteq> []" "line_step lines c = butlast lines @ [?more]"
    by blast
  then show ?thesis
  proof cases
    case new
    have "lb_codes ?fresh = [pc_unicode c]" by (simp add: push_code_def new_line_def b)
    moreover have "lb_x ?fresh < lb_right ?fresh" "lb_bottom ?fresh < lb_top ?fresh"
      using area by (simp_all add: push_code_def new_line_def b)
    ultimately show ?thesis
      using assms covers_own(2)[of "pc_unicode c" c box ?f] Some codes unfolding new lines_ok_def by fastforce
  next
    case old
    obtain gap where gap: "gap = [] \<or> gap = [32]" "lb_codes ?more = lb_codes (last lines) @ gap @ [pc_unicode c]"
      using extend_codes[of "pc_unicode c" c box ?f "last lines"] by blast
    have split: "lines = butlast lines @ [last lines]" using old(1) by simp
    have pos: "lb_x (last lines) < lb_right (last lines)" "lb_bottom (last lines) < lb_top (last lines)"
      using assms old(1) by (simp_all add: lines_ok_def)
    have "lb_x ?more < lb_right ?more" "lb_bottom ?more < lb_top ?more"
      using pos by (auto simp: push_code_def extend_line_def b Let_def)
    then have areas: "\<forall>l\<in>set (butlast lines @ [?more]). lb_x l < lb_right l \<and> lb_bottom l < lb_top l"
      using assms by (auto simp: lines_ok_def dest: in_set_butlastD)
    have "letters (concat (map lb_codes lines)) = letters (concat (map lb_codes (butlast lines))) @ letters (lb_codes (last lines))"
      by (subst split) simp
    then have l: "letters (concat (map lb_codes (butlast lines @ [?more]))) = letters (visible_codes (chars @ [c]))"
      using assms gap codes by (auto simp: lines_ok_def)
    have cov: "\<exists>l\<in>set (butlast lines @ [?more]). covers l box' \<and> pc_unicode c' \<in> set (lb_codes l)"
      if h: "c' \<in> set (chars @ [c])" "visible_box c' = Some box'" for c' box'
    proof (cases "c' = c")
      case True
      then show ?thesis using h(2) Some covers_own(1)[of "pc_unicode c" c box ?f "last lines"] gap(2) by simp
    next
      case False
      then have "c' \<in> set chars" using h(1) by simp
      then obtain l where "l \<in> set lines" "covers l box'" "pc_unicode c' \<in> set (lb_codes l)"
        using assms h(2) unfolding lines_ok_def by blast
      moreover from this have "l \<in> set (butlast lines) \<or> l = last lines" using split by (metis Un_iff empty_iff insert_iff list.set set_append)
      ultimately show ?thesis using covers_extend[of "last lines" box' "pc_unicode c" c box ?f] gap(2) by auto
    qed
    show ?thesis unfolding old(2) lines_ok_def using areas l cov by blast
  qed
qed


lemma lines_grouped: "lines_ok chars (foldl line_step [] chars)"
proof (induction chars rule: rev_induct)
  case (snoc c chars)
  then show ?case using line_step_ok by simp
qed (simp add: lines_ok_def visible_codes_def)

lemma letters_dropWhile: "letters (dropWhile is_space_code s) = letters s"
  by (induction s) auto

lemma letters_collapse: "letters (collapse_spaces s) = letters s"
  by (induction s rule: collapse_spaces.induct) (auto simp: letters_dropWhile)

lemma letters_rev: "letters (rev s) = rev (letters s)"
  by (simp add: letters_def rev_filter)

lemma letters_finished: "letters (trim_codes (collapse_spaces s)) = letters s"
  by (simp add: trim_codes_def letters_rev letters_dropWhile letters_collapse)

lemma letters_filtered:
  assumes "\<forall>l\<in>set lines. lb_x l < lb_right l \<and> lb_bottom l < lb_top l"
  shows "letters (concat (map el_text (filter (\<lambda>l. el_text l \<noteq> [] \<and> 0 < el_w l \<and> 0 < el_h l) (map (finish_line h) lines))))
    = letters (concat (map lb_codes lines))"
proof -
  have "trim_codes (collapse_spaces s) = [] \<Longrightarrow> letters s = []" for s using letters_finished[of s] by simp
  then show ?thesis using assms by (induction lines) (auto simp: finish_line_def letters_finished)
qed

text \<open>C31. The text layer loses no letter: for any characters PDFium reports, the lines contain exactly the letters of the visible characters, in PDFium's order; every
  line has text and a positive width and height; and the box of every visible character that is not a space lies inside one of the lines that are returned.\<close>

theorem text_lines_complete:
  "letters (concat (map el_text (group_lines height chars))) = letters (visible_codes chars)
   \<and> (\<forall>l\<in>set (group_lines height chars). el_text l \<noteq> [] \<and> 0 < el_w l \<and> 0 < el_h l)
   \<and> (\<forall>c\<in>set chars. \<forall>left upper right lower. visible_box c = Some (left, upper, right, lower) \<and> \<not> is_space_code (pc_unicode c) \<longrightarrow>
        (\<exists>l\<in>set (group_lines height chars). pc_unicode c \<in> set (el_text l) \<and> el_x l \<le> left \<and> right \<le> el_x l + el_w l
           \<and> el_y l \<le> height - upper \<and> height - lower \<le> el_y l + el_h l))"
proof (intro conjI ballI allI impI)
  let ?lines = "foldl line_step [] chars"
  have ok: "lines_ok chars ?lines" by (rule lines_grouped)
  then have areas: "\<forall>l\<in>set ?lines. lb_x l < lb_right l \<and> lb_bottom l < lb_top l" by (simp add: lines_ok_def)
  show "letters (concat (map el_text (group_lines height chars))) = letters (visible_codes chars)"
    using letters_filtered[OF areas, of height] ok by (simp add: group_lines_def lines_ok_def)
  fix c left upper right lower
  assume c: "c \<in> set chars" and v: "visible_box c = Some (left, upper, right, lower) \<and> \<not> is_space_code (pc_unicode c)"
  then obtain l where l: "l \<in> set ?lines" "covers l (left, upper, right, lower)" "pc_unicode c \<in> set (lb_codes l)"
    using ok unfolding lines_ok_def by blast
  have kept: "pc_unicode c \<in> set (trim_codes (collapse_spaces (lb_codes l)))"
  proof -
    have "pc_unicode c \<in> set (letters (lb_codes l))" using l(3) v by (simp add: letters_def)
    then have "pc_unicode c \<in> set (letters (trim_codes (collapse_spaces (lb_codes l))))" by (simp add: letters_finished)
    then show ?thesis by (simp add: letters_def)
  qed
  have "finish_line height l \<in> set (group_lines height chars)"
    using l(1) areas kept by (auto simp: group_lines_def finish_line_def)
  moreover have "pc_unicode c \<in> set (el_text (finish_line height l)) \<and> el_x (finish_line height l) \<le> left
      \<and> right \<le> el_x (finish_line height l) + el_w (finish_line height l) \<and> el_y (finish_line height l) \<le> height - upper
      \<and> height - lower \<le> el_y (finish_line height l) + el_h (finish_line height l)"
    using l(2) kept by (simp add: finish_line_def covers_def)
  ultimately show "\<exists>l\<in>set (group_lines height chars). pc_unicode c \<in> set (el_text l) \<and> el_x l \<le> left \<and> right \<le> el_x l + el_w l
           \<and> el_y l \<le> height - upper \<and> height - lower \<le> el_y l + el_h l" by blast
qed (auto simp: group_lines_def)


theorem text_lines_complete_witness:
  "\<exists>l\<in>set (group_lines 100 [\<lparr>pc_unicode = 65, pc_box = Some (10, 30, 16, 20), pc_baseline = 22, pc_font_size = 9\<rparr>]).
     65 \<in> set (el_text l) \<and> el_x l \<le> 10 \<and> el_y l \<le> 70"
proof -
  let ?c = "\<lparr>pc_unicode = 65, pc_box = Some (10, 30, 16, 20), pc_baseline = 22, pc_font_size = 9\<rparr> :: page_char"
  have v: "visible_box ?c = Some (10, 30, 16, 20) \<and> \<not> is_space_code (pc_unicode ?c)"
    by (simp add: visible_box_def is_space_code_def)
  from text_lines_complete[of 100 "[?c]"] have "\<forall>c\<in>set [?c]. \<forall>left upper right lower.
      visible_box c = Some (left, upper, right, lower) \<and> \<not> is_space_code (pc_unicode c) \<longrightarrow>
        (\<exists>l\<in>set (group_lines 100 [?c]). pc_unicode c \<in> set (el_text l) \<and> el_x l \<le> left \<and> right \<le> el_x l + el_w l
           \<and> el_y l \<le> 100 - upper \<and> 100 - lower \<le> el_y l + el_h l)" by (rule conjunct2[THEN conjunct2])
  then have "\<exists>l\<in>set (group_lines 100 [?c]). pc_unicode ?c \<in> set (el_text l) \<and> el_x l \<le> 10 \<and> 16 \<le> el_x l + el_w l
           \<and> el_y l \<le> 100 - 30 \<and> 100 - 20 \<le> el_y l + el_h l" using v by (metis list.set_intros(1))
  then show ?thesis by fastforce
qed

section \<open>The outline\<close>

text \<open>Bookmarks are handles, \<open>0\<close> for none; what PDFium says of them is a parameter.\<close>

record bookmark_tree =
  bm_first_child :: "nat \<Rightarrow> nat"
  bm_next_sibling :: "nat \<Rightarrow> nat"
  bm_title :: "nat \<Rightarrow> string"
  bm_dest :: "nat \<Rightarrow> nat"
  bm_action :: "nat \<Rightarrow> nat"
  bm_action_dest :: "nat \<Rightarrow> nat"
  bm_dest_page :: "nat \<Rightarrow> int"

datatype raw_outline = RawOutline string "int option" "raw_outline list"

definition bookmark_page :: "bookmark_tree \<Rightarrow> nat \<Rightarrow> int option" where
  "bookmark_page bm node =
     (let dest = (if bm_dest bm node \<noteq> 0 then bm_dest bm node
        else if bm_action bm node \<noteq> 0 then bm_action_dest bm (bm_action bm node) else 0) in
      if dest = 0 then None else if 0 \<le> bm_dest_page bm dest then Some (bm_dest_page bm dest) else None)"

partial_function (option) walk_bookmarks :: "bookmark_tree \<Rightarrow> nat \<Rightarrow> raw_outline list option" where
  "walk_bookmarks bm node =
     (if node = 0 then Some []
      else Option.bind (if bm_first_child bm node \<noteq> 0 then walk_bookmarks bm (bm_first_child bm node) else Some [])
        (\<lambda>kids. Option.bind (walk_bookmarks bm (bm_next_sibling bm node))
          (\<lambda>rest. Some (RawOutline (bm_title bm node) (bookmark_page bm node) kids # rest))))"

text \<open>\<open>outline\<close>: \<open>null\<close> for a document without bookmarks.\<close>

definition engine_outline :: "bookmark_tree \<Rightarrow> raw_outline list option option" where
  "engine_outline bm =
     (if bm_first_child bm 0 = 0 then Some None else map_option Some (walk_bookmarks bm (bm_first_child bm 0)))"

text \<open>The handles from a bookmark on represent a forest; a document whose links run in a circle represents none.\<close>

fun represents :: "bookmark_tree \<Rightarrow> nat \<Rightarrow> raw_outline list \<Rightarrow> bool" where
  "represents bm node [] \<longleftrightarrow> node = 0"
| "represents bm node (RawOutline title page kids # rest) \<longleftrightarrow>
     node \<noteq> 0 \<and> bm_title bm node = title \<and> bookmark_page bm node = page
       \<and> represents bm (bm_first_child bm node) kids \<and> represents bm (bm_next_sibling bm node) rest"

lemma walk_represents: "represents bm node forest \<Longrightarrow> walk_bookmarks bm node = Some forest"
proof (induction bm node forest rule: represents.induct)
  case (1 bm node)
  then show ?case by (simp add: walk_bookmarks.simps)
next
  case (2 bm node title page kids rest)
  have "walk_bookmarks bm (bm_first_child bm node) = Some kids" "walk_bookmarks bm (bm_next_sibling bm node) = Some rest"
    using 2 by simp_all
  moreover have "bm_first_child bm node = 0 \<Longrightarrow> kids = []" using calculation(1) by (simp add: walk_bookmarks.simps[of bm 0])
  ultimately show ?case using "2.prems" by (subst walk_bookmarks.simps) auto
qed

section \<open>The outline as the reader shows it\<close>

datatype outline_item = OutlineItem (oi_title: string) (oi_page: "jnum option") (oi_items: "outline_item list")

definition next_page :: "jnum \<Rightarrow> jnum option" where
  "next_page n = (case n of Fin q \<Rightarrow> if 0 \<le> q then Some (Fin (q + 1)) else None | PosInf \<Rightarrow> Some PosInf | _ \<Rightarrow> None)"

lemma get_prop_size_le: "size (get_prop k entries) \<le> size_list (size_prod (\<lambda>x. 0) size) entries"
  by (induction entries) auto

text \<open>\<open>normalizePdfOutline\<close> on whatever the worker sends: what is not an array is an empty outline, an entry that is no object is skipped.\<close>

function normalize_pdf_outline :: "js \<Rightarrow> outline_item list" where
  "normalize_pdf_outline (Arr []) = []"
| "normalize_pdf_outline (Arr (e # es)) =
     (case e of
        Obj entries \<Rightarrow>
          [OutlineItem (case get_prop ''title'' entries of Str t \<Rightarrow> t | _ \<Rightarrow> []) (case get_prop ''page'' entries of Num n \<Rightarrow> next_page n | _ \<Rightarrow> None)
             (normalize_pdf_outline (get_prop ''items'' entries))]
      | Arr xs \<Rightarrow> [OutlineItem [] None []]
      | _ \<Rightarrow> []) @ normalize_pdf_outline (Arr es)"
| "normalize_pdf_outline Undef = []" | "normalize_pdf_outline Null = []" | "normalize_pdf_outline (Bool b) = []"
| "normalize_pdf_outline (Num n) = []" | "normalize_pdf_outline (Str s) = []" | "normalize_pdf_outline (Obj fs) = []"
  by pat_completeness auto
termination by (relation "measure size") (auto simp: le_imp_less_Suc le_SucI trans_le_add1 get_prop_size_le)


text \<open>What crosses from the worker: the raw tree as plain objects, \<open>null\<close> for none.\<close>

fun raw_js :: "raw_outline \<Rightarrow> js" where
  "raw_js (RawOutline title page kids) =
     Obj [(''title'', Str title), (''page'', case page of None \<Rightarrow> Null | Some p \<Rightarrow> Num (Fin (of_int p))), (''items'', Arr (map raw_js kids))]"

definition outline_js :: "raw_outline list option \<Rightarrow> js" where
  "outline_js raw = (case raw of None \<Rightarrow> Null | Some items \<Rightarrow> Arr (map raw_js items))"

fun shown :: "raw_outline \<Rightarrow> outline_item" where
  "shown (RawOutline title page kids) = OutlineItem title (map_option (\<lambda>p. Fin (of_int p + 1)) page) (map shown kids)"

fun pages_count :: "raw_outline \<Rightarrow> bool" where
  "pages_count (RawOutline title page kids) \<longleftrightarrow> (case page of None \<Rightarrow> True | Some p \<Rightarrow> 0 \<le> p) \<and> (\<forall>k\<in>set kids. pages_count k)"

lemma represented_pages: "represents bm node forest \<Longrightarrow> \<forall>r\<in>set forest. pages_count r"
  by (induction bm node forest rule: represents.induct) (auto simp: bookmark_page_def Let_def split: if_splits)

lemma normalize_shown: "pages_count r \<Longrightarrow> normalize_pdf_outline (Arr (raw_js r # rest)) = shown r # normalize_pdf_outline (Arr rest)"
proof (induction r arbitrary: rest)
  case (RawOutline title page kids)
  have "normalize_pdf_outline (Arr (map raw_js ks)) = map shown ks" if "set ks \<subseteq> set kids" for ks
    using that RawOutline by (induction ks) auto
  then show ?case using RawOutline.prems by (auto simp: next_page_def split: option.splits)
qed

lemma normalize_all: "\<forall>r\<in>set forest. pages_count r \<Longrightarrow> normalize_pdf_outline (Arr (map raw_js forest)) = map shown forest"
  by (induction forest) (simp_all add: normalize_shown del: normalize_pdf_outline.simps(2))

text \<open>C32. A document whose bookmarks form a tree has its outline walked to the end, and the reader shows that tree: the same titles in the same nesting and order, every
  internal destination one page higher than PDFium numbers it, everything else without a page. (A document whose sibling links run in a circle is walked for ever.)\<close>

theorem outline_is_the_tree:
  assumes "represents bm (bm_first_child bm 0) forest"
  shows "map_option (\<lambda>raw. normalize_pdf_outline (outline_js raw)) (engine_outline bm) = Some (map shown forest)"
proof (cases "bm_first_child bm 0 = 0")
  case True
  then have "forest = []" using assms by (cases "(bm, bm_first_child bm 0, forest)" rule: represents.cases) auto
  then show ?thesis using True by (simp add: engine_outline_def outline_js_def)
next
  case False
  then show ?thesis using normalize_all[OF represented_pages[OF assms]] walk_represents[OF assms]
    by (simp add: engine_outline_def outline_js_def)
qed


theorem outline_is_the_tree_witness:
  "map_option (\<lambda>raw. normalize_pdf_outline (outline_js raw))
     (engine_outline \<lparr>bm_first_child = (\<lambda>n. if n = 0 then 1 else if n = 1 then 2 else 0), bm_next_sibling = (\<lambda>n. if n = 1 then 3 else 0),
        bm_title = (\<lambda>n. if n = 1 then ''One'' else if n = 2 then ''One A'' else ''Web''), bm_dest = (\<lambda>n. if n = 1 then 8 else 0),
        bm_action = (\<lambda>n. if n = 2 then 9 else 0), bm_action_dest = (\<lambda>a. if a = 9 then 8 else 0), bm_dest_page = (\<lambda>d. 4)\<rparr>)
   = Some [OutlineItem ''One'' (Some (Fin 5)) [OutlineItem ''One A'' (Some (Fin 5)) []], OutlineItem ''Web'' None []]"
  by (subst outline_is_the_tree[where forest = "[RawOutline ''One'' (Some 4) [RawOutline ''One A'' (Some 4) []], RawOutline ''Web'' None []]"])
    (simp_all add: bookmark_page_def Let_def)

end
