(* ===== verification/PdfEngine.thy ===== *)
theory PdfEngine
  imports PdfCore PdfLayout
begin

text \<open>
  The class \<open>PdfiumEngine\<close> of \<open>frontend/src/lib/pdf/pdfiumCore.ts\<close> as a machine over the calls it makes of the PDFium module: what each operation
  allocates, opens, passes on and releases on every path. The module's answers are a parameter: they may depend on everything called before, and \<open>0\<close> is
  how PDFium and the allocator say no.
\<close>

section \<open>The calls\<close>

type_synonym clip = "rat \<times> rat \<times> rat \<times> rat"

datatype pdfium_call =
    Malloc int
  | Free nat
  | Poke nat "rat list"                   \<comment> \<open>the fields written into a structure\<close>
  | CopyIn nat int
  | AddFunction
  | RemoveFunction nat
  | LoadMemDocument nat int
  | LoadCustomDocument nat
  | GetLastError
  | GetPageCount nat
  | CloseDocument nat
  | DestroyLibrary
  | GetPageSize nat int nat
  | LoadPage nat int
  | ClosePage nat
  | TextLoadPage nat
  | TextClosePage nat
  | ReadChars nat nat nat
  | GetTitle nat nat int
  | ReadTitle nat
  | BitmapCreate int int
  | BitmapDestroy nat
  | FillRect nat int int int
  | RenderPageBitmap nat nat int int
  | RenderWithMatrix nat nat nat nat
  | RenderWithColorScheme nat nat int int int int nat nat
  | RenderContinue nat nat
  | RenderClose nat
  | GetBuffer nat
  | GetStride nat

type_synonym history = "(pdfium_call \<times> nat) list"

record pdfium =
  pd_answer :: "history \<Rightarrow> pdfium_call \<Rightarrow> nat"
  pd_page_size :: "nat \<Rightarrow> int \<Rightarrow> rat \<times> rat"
  pd_chars :: "nat \<Rightarrow> page_char list"
  pd_title :: "history \<Rightarrow> nat \<Rightarrow> string"
  pd_heap :: "history \<Rightarrow> nat \<Rightarrow> nat"

record engine =
  en_doc :: "nat option"
  en_memory_pointer :: "nat option"
  en_file_access :: "(nat \<times> nat) option"
  en_calls :: history

definition new_engine :: engine where
  "new_engine = \<lparr>en_doc = None, en_memory_pointer = None, en_file_access = None, en_calls = []\<rparr>"

definition ask :: "pdfium \<Rightarrow> pdfium_call \<Rightarrow> engine \<Rightarrow> nat \<times> engine" where
  "ask pd c e = (let a = pd_answer pd (en_calls e) c in (a, e\<lparr>en_calls := en_calls e @ [(c, a)]\<rparr>))"

definition tell :: "pdfium \<Rightarrow> pdfium_call \<Rightarrow> engine \<Rightarrow> engine" where
  "tell pd c e = snd (ask pd c e)"

section \<open>Opening and closing\<close>

definition free_file_access :: "pdfium \<Rightarrow> engine \<Rightarrow> engine" where
  "free_file_access pd e =
     (case en_file_access e of
        None \<Rightarrow> e
      | Some (pointer, get_block) \<Rightarrow> (tell pd (Free pointer) (tell pd (RemoveFunction get_block) e))\<lparr>en_file_access := None\<rparr>)"

definition close_document :: "pdfium \<Rightarrow> engine \<Rightarrow> engine" where
  "close_document pd e =
     (let e1 = (case en_doc e of Some d \<Rightarrow> (tell pd (CloseDocument d) e)\<lparr>en_doc := None\<rparr> | None \<Rightarrow> e);
          e2 = (case en_memory_pointer e1 of Some p \<Rightarrow> (tell pd (Free p) e1)\<lparr>en_memory_pointer := None\<rparr> | None \<Rightarrow> e1) in
      free_file_access pd e2)"

definition destroy :: "pdfium \<Rightarrow> engine \<Rightarrow> engine" where
  "destroy pd e = tell pd DestroyLibrary (close_document pd e)"

definition open_bytes :: "pdfium \<Rightarrow> int \<Rightarrow> engine \<Rightarrow> nat outcome \<times> engine" where
  "open_bytes pd n e0 =
     (let e = close_document pd e0; (pointer, e) = ask pd (Malloc n) e in
      if pointer = 0 then (Inl ''PDFium: out of memory for document bytes'', e)
      else
        let e = (tell pd (CopyIn pointer n) e)\<lparr>en_memory_pointer := Some pointer\<rparr>;
            (doc, e) = ask pd (LoadMemDocument pointer n) e in
        if doc = 0 then
          let e = (tell pd (Free pointer) e)\<lparr>en_memory_pointer := None\<rparr>; (code, e) = ask pd GetLastError e in
          (Inl (''PDFium: failed to open document (error '' @ show_nat code @ '')''), e)
        else let (pages, e) = ask pd (GetPageCount doc) (e\<lparr>en_doc := Some doc\<rparr>) in (Inr pages, e))"

text \<open>The length of the file is given; a range source that cannot tell it throws before anything is allocated.\<close>

definition open_range :: "pdfium \<Rightarrow> nat outcome \<Rightarrow> engine \<Rightarrow> nat outcome \<times> engine" where
  "open_range pd known e0 =
     (let e = close_document pd e0 in
      case known of
        Inl m \<Rightarrow> (Inl m, e)
      | Inr n \<Rightarrow>
          let (get_block, e) = ask pd AddFunction e; (pointer, e) = ask pd (Malloc 12) e;
              e = (tell pd (Poke pointer [of_nat n, of_nat get_block, 0]) e)\<lparr>en_file_access := Some (pointer, get_block)\<rparr>;
              (doc, e) = ask pd (LoadCustomDocument pointer) e in
          if doc = 0 then
            let e = free_file_access pd e; (code, e) = ask pd GetLastError e in
            (Inl (''PDFium: failed to open document (error '' @ show_nat code @ '')''), e)
          else let (pages, e) = ask pd (GetPageCount doc) (e\<lparr>en_doc := Some doc\<rparr>) in (Inr pages, e))"

definition require_doc :: "engine \<Rightarrow> nat outcome" where
  "require_doc e = (case en_doc e of None \<Rightarrow> Inl ''PDFium: no document open'' | Some d \<Rightarrow> Inr d)"

section \<open>Pages and text\<close>

definition page_size :: "pdfium \<Rightarrow> int \<Rightarrow> engine \<Rightarrow> (rat \<times> rat) option outcome \<times> engine" where
  "page_size pd index e =
     (case require_doc e of
        Inl m \<Rightarrow> (Inl m, e)
      | Inr doc \<Rightarrow>
          let (out, e) = ask pd (Malloc 8) e; (found, e) = ask pd (GetPageSize doc index out) e in
          (Inr (if found = 0 then None else Some (pd_page_size pd doc index)), tell pd (Free out) e))"

definition text_lines :: "pdfium \<Rightarrow> int \<Rightarrow> engine \<Rightarrow> engine_text_line list outcome \<times> engine" where
  "text_lines pd index e =
     (case page_size pd index e of
        (Inl m, e) \<Rightarrow> (Inl m, e)
      | (Inr None, e) \<Rightarrow> (Inr [], e)
      | (Inr (Some (_, height)), e) \<Rightarrow>
          (case require_doc e of
             Inl m \<Rightarrow> (Inl m, e)
           | Inr doc \<Rightarrow>
               let (page, e) = ask pd (LoadPage doc index) e in
               if page = 0 then (Inr [], e)
               else
                 let (text_page, e) = ask pd (TextLoadPage page) e in
                 if text_page = 0 then (Inr [], tell pd (ClosePage page) e)
                 else
                   let (box, e) = ask pd (Malloc 16) e; (origin, e) = ask pd (Malloc 16) e;
                       e = tell pd (ReadChars text_page box origin) e in
                   (Inr (group_lines height (pd_chars pd text_page)),
                    tell pd (ClosePage page) (tell pd (TextClosePage text_page) (tell pd (Free origin) (tell pd (Free box) e))))))"

definition bookmark_title :: "pdfium \<Rightarrow> nat \<Rightarrow> engine \<Rightarrow> string \<times> engine" where
  "bookmark_title pd node e =
     (let (needed, e) = ask pd (GetTitle node 0 0) e in
      if needed = 0 then ([], e)
      else
        let (buffer, e) = ask pd (Malloc (of_nat needed)) e in
        if buffer = 0 then ([], e)
        else
          let (written, e) = ask pd (GetTitle node buffer (of_nat needed)) e in
          (if written = 0 then [] else pd_title pd (en_calls e) buffer, tell pd (Free buffer) e))"


section \<open>Rendering\<close>

definition FPDF_RENDER_TOBECONTINUED :: nat where "FPDF_RENDER_TOBECONTINUED = 1"
definition FPDF_RENDER_FAILED :: nat where "FPDF_RENDER_FAILED = 3"
definition PAUSE_STRUCT_BYTES :: int where "PAUSE_STRUCT_BYTES = 12"
definition COLOR_SCHEME_BYTES :: int where "COLOR_SCHEME_BYTES = 16"

text \<open>Where a page goes under a color scheme: the start and size of the whole page's box, in pixels of the bitmap.\<close>

definition scheme_box :: "clip \<Rightarrow> int \<Rightarrow> int \<Rightarrow> rat \<times> rat \<Rightarrow> int \<times> int \<times> int \<times> int" where
  "scheme_box clip width height dims =
     (case clip of (left, upper, clip_width, clip_height) \<Rightarrow>
        let scale_x = of_int width / clip_width; scale_y = of_int height / clip_height in
        (- math_round (left * scale_x), - math_round (upper * scale_y),
         max 1 (math_round (fst dims * scale_x)), max 1 (math_round (snd dims * scale_y))))"

definition empty_clip :: "clip \<Rightarrow> bool" where
  "empty_clip clip = (case clip of (left, upper, w, h) \<Rightarrow> \<not> w > 0 \<or> \<not> h > 0)"

definition scheme_placement ::
  "pdfium \<Rightarrow> int \<Rightarrow> clip option \<Rightarrow> int \<Rightarrow> int \<Rightarrow> engine \<Rightarrow> (int \<times> int \<times> int \<times> int) outcome \<times> engine" where
  "scheme_placement pd index clip width height e =
     (case clip of
        None \<Rightarrow> (Inr (0, 0, width, height), e)
      | Some c \<Rightarrow>
          if empty_clip c then (Inl ''PDFium: colour-scheme region needs a positive size'', e)
          else (case page_size pd index e of
              (Inl m, e) \<Rightarrow> (Inl m, e)
            | (Inr None, e) \<Rightarrow> (Inl (''PDFium: page '' @ show_int index @ '' has no size''), e)
            | (Inr (Some dims), e) \<Rightarrow> (Inr (scheme_box c width height dims), e)))"

partial_function (option) continue_render :: "pdfium \<Rightarrow> nat \<Rightarrow> nat \<Rightarrow> nat \<Rightarrow> engine \<Rightarrow> (nat \<times> engine) option" where
  "continue_render pd page pause status e =
     (if status = FPDF_RENDER_TOBECONTINUED
      then (case ask pd (RenderContinue page pause) e of (status, e) \<Rightarrow> continue_render pd page pause status e)
      else Some (status, e))"

definition scheme_words :: "fpdf_color_scheme \<Rightarrow> rat list" where
  "scheme_words s = map (\<lambda>w. of_int (uint w)) [cs_path_fill s, cs_path_stroke s, cs_text_fill s, cs_text_stroke s]"

text \<open>The structures of the progressive render, the render itself and what its \<open>finally\<close> releases.\<close>

definition run_scheme ::
  "pdfium \<Rightarrow> nat \<Rightarrow> nat \<Rightarrow> int \<times> int \<times> int \<times> int \<Rightarrow> fpdf_color_scheme \<Rightarrow> engine \<Rightarrow> (unit outcome \<times> engine) option" where
  "run_scheme pd bitmap page place colors e =
     (case place of (start_x, start_y, size_x, size_y) \<Rightarrow>
        let (scheme, e) = ask pd (Malloc COLOR_SCHEME_BYTES) e; (pause, e) = ask pd (Malloc PAUSE_STRUCT_BYTES) e in
        if scheme = 0 \<or> pause = 0 then
          let e = (if scheme \<noteq> 0 then tell pd (Free scheme) e else e); e = (if pause \<noteq> 0 then tell pd (Free pause) e else e) in
          Some (Inl ''PDFium: out of memory for the colour-scheme render'', e)
        else
          let e = tell pd (Poke scheme (scheme_words colors)) e; (need_pause, e) = ask pd AddFunction e;
              e = tell pd (Poke pause [1, of_nat need_pause, 0]) e;
              (status, e) = ask pd (RenderWithColorScheme bitmap page start_x start_y size_x size_y scheme pause) e in
          map_option
            (\<lambda>(status, e). (if status = FPDF_RENDER_FAILED then Inl ''PDFium: colour-scheme render failed'' else Inr (),
               tell pd (Free pause) (tell pd (Free scheme) (tell pd (RemoveFunction need_pause) (tell pd (RenderClose page) e)))))
            (continue_render pd page pause status e))"

definition render_color_scheme ::
  "pdfium \<Rightarrow> nat \<Rightarrow> nat \<Rightarrow> int \<Rightarrow> clip option \<Rightarrow> int \<Rightarrow> int \<Rightarrow> fpdf_color_scheme \<Rightarrow> engine \<Rightarrow> (unit outcome \<times> engine) option" where
  "render_color_scheme pd bitmap page index clip width height colors e =
     (case scheme_placement pd index clip width height e of
        (Inl m, e) \<Rightarrow> Some (Inl m, e)
      | (Inr place, e) \<Rightarrow> run_scheme pd bitmap page place colors e)"

text \<open>The matrix that maps the region to the bitmap, and the clip rectangle of the bitmap itself.\<close>

definition region_matrix :: "clip \<Rightarrow> int \<Rightarrow> int \<Rightarrow> rat list" where
  "region_matrix clip width height =
     (case clip of (left, upper, clip_width, clip_height) \<Rightarrow>
        let scale_x = of_int width / clip_width; scale_y = of_int height / clip_height in
        [scale_x, 0, 0, scale_y, - left * scale_x, - upper * scale_y])"

definition render_page_region :: "pdfium \<Rightarrow> nat \<Rightarrow> nat \<Rightarrow> clip \<Rightarrow> int \<Rightarrow> int \<Rightarrow> engine \<Rightarrow> unit outcome \<times> engine" where
  "render_page_region pd bitmap page clip width height e =
     (if empty_clip clip then (Inl ''PDFium: region render needs a positive size'', e)
      else
        let (matrix, e) = ask pd (Malloc 24) e; (rect, e) = ask pd (Malloc 16) e in
        if matrix = 0 \<or> rect = 0 then
          let e = (if matrix \<noteq> 0 then tell pd (Free matrix) e else e); e = (if rect \<noteq> 0 then tell pd (Free rect) e else e) in
          (Inl ''PDFium: out of memory for the region transform'', e)
        else
          let e = tell pd (Poke matrix (region_matrix clip width height)) e;
              e = tell pd (Poke rect [0, 0, of_int width, of_int height]) e;
              e = tell pd (RenderWithMatrix bitmap page matrix rect) e in
          (Inr (), tell pd (Free rect) (tell pd (Free matrix) e)))"


text \<open>The copy of a bitmap into a packed array, writing by index as the loops do. A heap byte beyond the end reads as \<open>0\<close>.\<close>

definition copy_pixel :: "(nat \<Rightarrow> nat) \<Rightarrow> nat \<Rightarrow> nat \<Rightarrow> nat list \<Rightarrow> nat list" where
  "copy_pixel heap src target rgba =
     rgba[target := heap (src + 2), target + 1 := heap (src + 1), target + 2 := heap src, target + 3 := heap (src + 3)]"

fun copy_row :: "(nat \<Rightarrow> nat) \<Rightarrow> nat \<Rightarrow> nat \<Rightarrow> nat \<Rightarrow> nat list \<Rightarrow> nat list" where
  "copy_row heap src target 0 rgba = rgba"
| "copy_row heap src target (Suc n) rgba = copy_row heap (src + 4) (target + 4) n (copy_pixel heap src target rgba)"

fun copy_rows :: "(nat \<Rightarrow> nat) \<Rightarrow> nat \<Rightarrow> nat \<Rightarrow> nat \<Rightarrow> nat \<Rightarrow> nat \<Rightarrow> nat list \<Rightarrow> nat list" where
  "copy_rows heap buffer stride width y 0 rgba = rgba"
| "copy_rows heap buffer stride width y (Suc n) rgba =
     copy_rows heap buffer stride width (Suc y) n (copy_row heap (buffer + y * stride) (y * width * 4) width rgba)"

definition packed_rgba :: "(nat \<Rightarrow> nat) \<Rightarrow> nat \<Rightarrow> nat \<Rightarrow> nat \<Rightarrow> nat \<Rightarrow> nat list" where
  "packed_rgba heap buffer stride width height = copy_rows heap buffer stride width 0 height (replicate (width * height * 4) 0)"

definition copy_bgra_to_rgba :: "pdfium \<Rightarrow> nat \<Rightarrow> int \<Rightarrow> int \<Rightarrow> engine \<Rightarrow> nat list \<times> engine" where
  "copy_bgra_to_rgba pd bitmap width height e =
     (let (buffer, e) = ask pd (GetBuffer bitmap) e; (stride, e) = ask pd (GetStride bitmap) e in
      (packed_rgba (pd_heap pd (en_calls e)) buffer stride (nat width) (nat height), e))"

text \<open>What is drawn, by the color scheme, by the region, or the whole page.\<close>

definition draw ::
  "pdfium \<Rightarrow> nat \<Rightarrow> nat \<Rightarrow> int \<Rightarrow> clip option \<Rightarrow> int \<Rightarrow> int \<Rightarrow> fpdf_color_scheme option \<Rightarrow> engine \<Rightarrow> (unit outcome \<times> engine) option" where
  "draw pd bitmap page index clip width height colors e =
     (case colors of
        Some s \<Rightarrow> render_color_scheme pd bitmap page index clip width height s e
      | None \<Rightarrow>
          (case clip of
             Some c \<Rightarrow> Some (render_page_region pd bitmap page c width height e)
           | None \<Rightarrow> Some (Inr (), tell pd (RenderPageBitmap bitmap page width height) e)))"

definition background :: "fpdf_color_scheme option \<Rightarrow> int" where
  "background colors = (case colors of Some s \<Rightarrow> uint (cs_path_fill s) | None \<Rightarrow> 0xffffffff)"

definition render_rgba ::
  "pdfium \<Rightarrow> int \<Rightarrow> int \<Rightarrow> int \<Rightarrow> clip option \<Rightarrow> fpdf_color_scheme option \<Rightarrow> engine \<Rightarrow> (nat list outcome \<times> engine) option" where
  "render_rgba pd index asked_width asked_height clip colors e =
     (case require_doc e of
        Inl m \<Rightarrow> Some (Inl m, e)
      | Inr doc \<Rightarrow>
          let (page, e) = ask pd (LoadPage doc index) e in
          if page = 0 then Some (Inl (''PDFium: FPDF_LoadPage('' @ show_int index @ '') failed''), e)
          else
            let (width, height) = clamp_bitmap_size asked_width asked_height; (bitmap, e) = ask pd (BitmapCreate width height) e in
            if bitmap = 0 then Some (Inl ''PDFium: FPDFBitmap_Create failed'', tell pd (ClosePage page) e)
            else
              let e = tell pd (FillRect bitmap width height (background colors)) e in
              map_option
                (\<lambda>(drawn, e).
                   let (r, e) = (case drawn of Inl m \<Rightarrow> (Inl m, e)
                       | Inr _ \<Rightarrow> (case copy_bgra_to_rgba pd bitmap width height e of (rgba, e) \<Rightarrow> (Inr rgba, e))) in
                   (r, tell pd (ClosePage page) (tell pd (BitmapDestroy bitmap) e)))
                (draw pd bitmap page index clip width height colors e))"

section \<open>Sessions\<close>

datatype engine_event =
    OpenBytes int
  | OpenRange "nat outcome"
  | PageSize int
  | TextLines int
  | BookmarkTitle nat
  | RenderRgba int int int "clip option" "fpdf_color_scheme option"
  | Close

definition engine_step :: "pdfium \<Rightarrow> engine \<Rightarrow> engine_event \<Rightarrow> engine option" where
  "engine_step pd e ev =
     (case ev of
        OpenBytes n \<Rightarrow> Some (snd (open_bytes pd n e))
      | OpenRange known \<Rightarrow> Some (snd (open_range pd known e))
      | PageSize i \<Rightarrow> Some (snd (page_size pd i e))
      | TextLines i \<Rightarrow> Some (snd (text_lines pd i e))
      | BookmarkTitle n \<Rightarrow> Some (snd (bookmark_title pd n e))
      | RenderRgba i w h clip colors \<Rightarrow> map_option snd (render_rgba pd i w h clip colors e)
      | Close \<Rightarrow> Some (close_document pd e))"

fun session :: "pdfium \<Rightarrow> engine_event list \<Rightarrow> engine \<Rightarrow> engine option" where
  "session pd [] e = Some e"
| "session pd (ev # evs) e = Option.bind (engine_step pd e ev) (session pd evs)"


section \<open>What is held\<close>

text \<open>The ledger of a history: what was acquired and not yet released, and whether every release was of something held and every handle passed on was live. A null
  pointer is nothing: freeing it does nothing.\<close>

datatype resource = Block nat | Callback nat | Document nat | Page nat | TextPage nat | Bitmap nat

definition block :: "nat \<Rightarrow> resource multiset" where
  "block p = (if p = 0 then {#} else {#Block p#})"

fun acquired :: "pdfium_call \<Rightarrow> nat \<Rightarrow> resource multiset" where
  "acquired (Malloc n) a = block a"
| "acquired AddFunction a = {#Callback a#}"
| "acquired (LoadMemDocument p n) a = (if a = 0 then {#} else {#Document a#})"
| "acquired (LoadCustomDocument p) a = (if a = 0 then {#} else {#Document a#})"
| "acquired (LoadPage d i) a = (if a = 0 then {#} else {#Page a#})"
| "acquired (TextLoadPage p) a = (if a = 0 then {#} else {#TextPage a#})"
| "acquired (BitmapCreate w h) a = (if a = 0 then {#} else {#Bitmap a#})"
| "acquired _ a = {#}"

fun released :: "pdfium_call \<Rightarrow> resource multiset" where
  "released (Free p) = block p"
| "released (RemoveFunction f) = {#Callback f#}"
| "released (CloseDocument d) = {#Document d#}"
| "released (ClosePage p) = {#Page p#}"
| "released (TextClosePage t) = {#TextPage t#}"
| "released (BitmapDestroy b) = {#Bitmap b#}"
| "released _ = {#}"

fun used :: "pdfium_call \<Rightarrow> resource set" where
  "used (Poke p vs) = set_mset (block p)"
| "used (CopyIn p n) = set_mset (block p)"
| "used (LoadMemDocument p n) = set_mset (block p)"
| "used (LoadCustomDocument p) = set_mset (block p)"
| "used (GetPageCount d) = {Document d}"
| "used (GetPageSize d i out) = {Document d} \<union> set_mset (block out)"
| "used (LoadPage d i) = {Document d}"
| "used (TextLoadPage p) = {Page p}"
| "used (ReadChars t box origin) = {TextPage t} \<union> set_mset (block box) \<union> set_mset (block origin)"
| "used (GetTitle node buffer n) = set_mset (block buffer)"
| "used (FillRect b w h c) = {Bitmap b}"
| "used (RenderPageBitmap b p w h) = {Bitmap b, Page p}"
| "used (RenderWithMatrix b p matrix rect) = {Bitmap b, Page p} \<union> set_mset (block matrix) \<union> set_mset (block rect)"
| "used (RenderWithColorScheme b p x y w h scheme pause) = {Bitmap b, Page p} \<union> set_mset (block scheme) \<union> set_mset (block pause)"
| "used (RenderContinue p pause) = {Page p} \<union> set_mset (block pause)"
| "used (RenderClose p) = {Page p}"
| "used (GetBuffer b) = {Bitmap b}"
| "used (GetStride b) = {Bitmap b}"
| "used _ = {}"

definition ledger_step :: "resource multiset \<times> bool \<Rightarrow> pdfium_call \<times> nat \<Rightarrow> resource multiset \<times> bool" where
  "ledger_step h ca = (fst h - released (fst ca) + acquired (fst ca) (snd ca),
     snd h \<and> released (fst ca) \<subseteq># fst h \<and> used (fst ca) \<subseteq> set_mset (fst h))"

definition ledger :: "history \<Rightarrow> resource multiset \<times> bool" where
  "ledger calls = foldl ledger_step ({#}, True) calls"

definition holds :: "engine \<Rightarrow> resource multiset \<Rightarrow> bool" where
  "holds e h \<longleftrightarrow> ledger (en_calls e) = (h, True)"

text \<open>What the engine's fields stand for.\<close>

definition owned :: "engine \<Rightarrow> resource multiset" where
  "owned e =
     (case en_doc e of None \<Rightarrow> {#} | Some d \<Rightarrow> {#Document d#})
     + (case en_memory_pointer e of None \<Rightarrow> {#} | Some p \<Rightarrow> block p)
     + (case en_file_access e of None \<Rightarrow> {#} | Some (p, f) \<Rightarrow> {#Callback f#} + block p)"

named_theorems ledger_simps

lemma ask_fields [ledger_simps]:
  "en_doc (snd (ask pd c e)) = en_doc e" "en_memory_pointer (snd (ask pd c e)) = en_memory_pointer e"
  "en_file_access (snd (ask pd c e)) = en_file_access e"
  "en_doc (tell pd c e) = en_doc e" "en_memory_pointer (tell pd c e) = en_memory_pointer e"
  "en_file_access (tell pd c e) = en_file_access e"
  by (simp_all add: ask_def tell_def Let_def)

lemma holds_ask:
  assumes "holds e h" "released c \<subseteq># h" "used c \<subseteq> set_mset h" "ask pd c e = (a, e')"
  shows "holds e' (h - released c + acquired c a)"
  using assms by (auto simp: holds_def ask_def ledger_def ledger_step_def Let_def)

lemma holds_tell:
  assumes "holds e h" "released c \<subseteq># h" "used c \<subseteq> set_mset h" "\<And>a. acquired c a = {#}"
  shows "holds (tell pd c e) (h - released c)"
  using holds_ask[OF assms(1-3), of pd] by (simp add: tell_def assms(4) split: prod.split) (metis assms(4) add.right_neutral prod.collapse)

lemma holds_fields [ledger_simps]:
  "holds (e\<lparr>en_doc := d\<rparr>) h = holds e h" "holds (e\<lparr>en_memory_pointer := m\<rparr>) h = holds e h"
  "holds (e\<lparr>en_file_access := f\<rparr>) h = holds e h"
  by (simp_all add: holds_def)

lemma block_simps [simp]: "p \<noteq> 0 \<Longrightarrow> block p = {#Block p#}" "block 0 = {#}"
  by (simp_all add: block_def)

lemma new_engine_holds: "holds new_engine {#}" "owned new_engine = {#}"
  by (simp_all add: holds_def new_engine_def ledger_def owned_def)


lemma ledger_ask [ledger_simps]: "ledger (en_calls (snd (ask pd c e))) = ledger_step (ledger (en_calls e)) (c, fst (ask pd c e))"
  by (simp add: ask_def ledger_def Let_def)

lemma ledger_tell [ledger_simps]: "ledger (en_calls (tell pd c e)) = ledger_step (ledger (en_calls e)) (c, fst (ask pd c e))"
  by (simp add: tell_def ledger_ask)

lemma below_top [ledger_simps]: "{#x#} \<subseteq># add_mset y (add_mset x h)" "{#x#} \<subseteq># add_mset y (add_mset z (add_mset x h))"
  by simp_all

lemma drop_below [ledger_simps]: "add_mset y (add_mset x h) - {#x#} = add_mset y h"
  by (metis add_mset_commute add_mset_diff_bothsides diff_empty)

lemmas run_ledger = Let_def split_beta ledger_simps ledger_step_def block_def

lemma page_size_holds:
  assumes "holds e h" and "set_mset (owned e) \<subseteq> set_mset h"
  shows "holds (snd (page_size pd i e)) h"
  using assms by (auto simp: page_size_def require_doc_def holds_def owned_def run_ledger split: option.split)

lemma page_size_fields [ledger_simps]: "en_doc (snd (page_size pd i e)) = en_doc e" "en_memory_pointer (snd (page_size pd i e)) = en_memory_pointer e"
  "en_file_access (snd (page_size pd i e)) = en_file_access e"
  by (simp_all add: page_size_def require_doc_def run_ledger split: option.split sum.split)


lemma owned_same: "en_doc e' = en_doc e \<Longrightarrow> en_memory_pointer e' = en_memory_pointer e \<Longrightarrow> en_file_access e' = en_file_access e \<Longrightarrow> owned e' = owned e"
  by (simp add: owned_def)

lemma drop_third [ledger_simps]: "add_mset z (add_mset y (add_mset x h)) - {#x#} = add_mset z (add_mset y h)"
  by (metis add_mset_commute add_mset_diff_bothsides diff_empty)

lemma text_lines_holds:
  assumes "holds e h" and "set_mset (owned e) \<subseteq> set_mset h"
  shows "holds (snd (text_lines pd i e)) h" and "owned (snd (text_lines pd i e)) = owned e"
proof -
  obtain r e1 where p: "page_size pd i e = (r, e1)" by (metis surj_pair)
  have e1: "holds e1 h" "en_doc e1 = en_doc e" "en_memory_pointer e1 = en_memory_pointer e" "en_file_access e1 = en_file_access e"
    using page_size_holds[OF assms, of pd i] page_size_fields[of pd i e] by (simp_all add: p)
  have o1: "owned e1 = owned e" by (rule owned_same[OF e1(2-4)])
  show "holds (snd (text_lines pd i e)) h"
    using e1(1) assms(2) unfolding o1[symmetric]
    by (auto simp: text_lines_def p require_doc_def holds_def owned_def run_ledger split: option.split sum.split)
  show "owned (snd (text_lines pd i e)) = owned e"
    by (rule owned_same) (auto simp: text_lines_def p e1 require_doc_def run_ledger split: option.split sum.split)
qed

lemma bookmark_title_holds:
  assumes "holds e h"
  shows "holds (snd (bookmark_title pd n e)) h" and "owned (snd (bookmark_title pd n e)) = owned e"
proof -
  show "holds (snd (bookmark_title pd n e)) h"
    using assms by (auto simp: bookmark_title_def holds_def run_ledger)
  show "owned (snd (bookmark_title pd n e)) = owned e"
    by (rule owned_same) (auto simp: bookmark_title_def run_ledger)
qed

lemma close_document_holds:
  assumes "holds e (owned e)"
  shows "holds (close_document pd e) {#}" and "owned (close_document pd e) = {#}"
    and "en_doc (close_document pd e) = None" "en_memory_pointer (close_document pd e) = None" "en_file_access (close_document pd e) = None"
  using assms
  by (auto simp: close_document_def free_file_access_def holds_def owned_def run_ledger split: option.split prod.split)

lemma open_bytes_holds:
  assumes "holds e (owned e)"
  shows "holds (snd (open_bytes pd n e)) (owned (snd (open_bytes pd n e)))"
  using close_document_holds[OF assms, of pd]
  by (auto simp: open_bytes_def holds_def owned_def run_ledger split: option.split)

lemma open_range_holds:
  assumes "holds e (owned e)"
  shows "holds (snd (open_range pd known e)) (owned (snd (open_range pd known e)))"
  using close_document_holds[OF assms, of pd]
  by (auto simp: open_range_def free_file_access_def holds_def owned_def run_ledger split: option.split sum.split)


lemma continue_render_holds:
  "continue_render pd page pause status e = Some r \<Longrightarrow> holds e h \<longrightarrow> Page page \<in># h \<longrightarrow> set_mset (block pause) \<subseteq> set_mset h
     \<longrightarrow> holds (snd r) h \<and> owned (snd r) = owned e"
proof (induction rule: continue_render.raw_induct[rotated, consumes 1, case_names step])
  case (step continue pd page pause status e r)
  show ?case
  proof (cases "status = FPDF_RENDER_TOBECONTINUED")
    case True
    obtain a e1 where a: "ask pd (RenderContinue page pause) e = (a, e1)" by (metis surj_pair)
    have c: "continue pd page pause a e1 = Some r" using step.hyps a True by simp
    have h1: "holds e h \<longrightarrow> Page page \<in># h \<longrightarrow> set_mset (block pause) \<subseteq> set_mset h \<longrightarrow> holds e1 h"
      using holds_ask[OF _ _ _ a, of h] by simp
    have "owned e1 = owned e" using ask_fields(1-3)[of pd "RenderContinue page pause" e] a by (intro owned_same) simp_all
    then show ?thesis using step.IH[OF c] h1 by simp
  next
    case False
    then show ?thesis using step.hyps by auto
  qed
qed


lemma run_scheme_holds:
  assumes "run_scheme pd bitmap page place colors e = Some r" and "holds e h" "Page page \<in># h" "Bitmap bitmap \<in># h"
  shows "holds (snd r) h \<and> owned (snd r) = owned e"
proof -
  obtain x y w v where place: "place = (x, y, w, v)" by (metis surj_pair)
  obtain scheme e1 where 1: "ask pd (Malloc COLOR_SCHEME_BYTES) e = (scheme, e1)" by (metis surj_pair)
  obtain pause e2 where 2: "ask pd (Malloc PAUSE_STRUCT_BYTES) e1 = (pause, e2)" by (metis surj_pair)
  have h2: "holds e2 (h + block scheme + block pause)"
    using holds_ask[OF holds_ask[OF assms(2) _ _ 1] _ _ 2] by simp
  have o2: "owned e2 = owned e"
    using ask_fields(1-3)[of pd "Malloc COLOR_SCHEME_BYTES" e] ask_fields(1-3)[of pd "Malloc PAUSE_STRUCT_BYTES" e1] 1 2
    by (intro owned_same) simp_all
  show ?thesis
  proof (cases "scheme = 0 \<or> pause = 0")
    case True
    then have r: "r = (Inl ''PDFium: out of memory for the colour-scheme render'',
        (if pause \<noteq> 0 then tell pd (Free pause) (if scheme \<noteq> 0 then tell pd (Free scheme) e2 else e2)
         else if scheme \<noteq> 0 then tell pd (Free scheme) e2 else e2))"
      using assms(1) by (auto simp: run_scheme_def place 1 2 Let_def)
    have "owned (snd r) = owned e2" by (rule owned_same) (auto simp: r ledger_simps)
    then show ?thesis using h2 True o2 by (auto simp: r holds_def run_ledger)
  next
    case False
    let ?e3 = "tell pd (Poke scheme (scheme_words colors)) e2"
    obtain f e4 where 4: "ask pd AddFunction ?e3 = (f, e4)" by (metis surj_pair)
    let ?e5 = "tell pd (Poke pause [1, of_nat f, 0]) e4"
    obtain s e6 where 6: "ask pd (RenderWithColorScheme bitmap page x y w v scheme pause) ?e5 = (s, e6)" by (metis surj_pair)
    from assms(1) False obtain t e7 where 7: "continue_render pd page pause s e6 = Some (t, e7)"
      and r: "snd r = tell pd (Free pause) (tell pd (Free scheme) (tell pd (RemoveFunction f) (tell pd (RenderClose page) e7)))"
      by (auto simp: run_scheme_def place 1 2 4 6 Let_def split: prod.splits)
    let ?h = "add_mset (Callback f) (h + block scheme + block pause)"
    have h3: "holds ?e3 (h + block scheme + block pause)"
      using holds_tell[OF h2, of "Poke scheme (scheme_words colors)" pd] False by simp
    have h4: "holds e4 ?h" using holds_ask[OF h3 _ _ 4] by simp
    have h5: "holds ?e5 ?h" using holds_tell[OF h4, of "Poke pause [1, of_nat f, 0]" pd] False by simp
    have h6: "holds e6 ?h" using holds_ask[OF h5 _ _ 6] assms(3,4) False by simp
    have o6: "owned e6 = owned e2"
      using ask_fields[of pd AddFunction ?e3] ask_fields[of pd "RenderWithColorScheme bitmap page x y w v scheme pause" ?e5] 4 6
      by (intro owned_same) (simp_all add: ledger_simps)
    have 8: "holds e7 ?h" "owned e7 = owned e6"
      using continue_render_holds[OF 7, of ?h] h6 assms(3) False by simp_all
    have "owned (snd r) = owned e7" by (rule owned_same) (simp_all add: r ledger_simps)
    then show ?thesis using 8 o6 o2 False assms(3) by (simp add: r holds_def run_ledger)
  qed
qed


lemma region_holds:
  assumes "holds e h" "Page page \<in># h" "Bitmap bitmap \<in># h"
  shows "holds (snd (render_page_region pd bitmap page c w v e)) h \<and> owned (snd (render_page_region pd bitmap page c w v e)) = owned e"
proof
  show "holds (snd (render_page_region pd bitmap page c w v e)) h"
    using assms by (auto simp: render_page_region_def holds_def run_ledger)
  show "owned (snd (render_page_region pd bitmap page c w v e)) = owned e"
    by (rule owned_same) (auto simp: render_page_region_def run_ledger)
qed

lemma placement_holds:
  assumes "holds e h" "set_mset (owned e) \<subseteq> set_mset h"
  shows "holds (snd (scheme_placement pd i clip w v e)) h \<and> owned (snd (scheme_placement pd i clip w v e)) = owned e"
proof -
  have "snd (scheme_placement pd i clip w v e) = e \<or> snd (scheme_placement pd i clip w v e) = snd (page_size pd i e)"
    by (auto simp: scheme_placement_def split: option.splits prod.splits sum.splits)
  moreover have "owned (snd (page_size pd i e)) = owned e" by (rule owned_same) (simp_all add: page_size_fields)
  ultimately show ?thesis using page_size_holds[OF assms, of pd i] assms(1) by auto
qed

lemma draw_holds:
  assumes "draw pd bitmap page i clip w v colors e = Some r" and "holds e h" "set_mset (owned e) \<subseteq> set_mset h"
    and "Page page \<in># h" "Bitmap bitmap \<in># h"
  shows "holds (snd r) h \<and> owned (snd r) = owned e"
proof (cases colors)
  case (Some s)
  obtain p e1 where p: "scheme_placement pd i clip w v e = (p, e1)" by (metis surj_pair)
  have e1: "holds e1 h" "owned e1 = owned e" using placement_holds[OF assms(2,3), of pd i clip w v] p by simp_all
  show ?thesis
  proof (cases p)
    case (Inl m)
    then show ?thesis using assms(1) e1 by (auto simp: draw_def Some render_color_scheme_def p)
  next
    case (Inr place)
    then have "run_scheme pd bitmap page place s e1 = Some r" using assms(1) by (simp add: draw_def Some render_color_scheme_def p)
    then show ?thesis using run_scheme_holds[OF _ e1(1) assms(4,5)] e1(2) by metis
  qed
next
  case None
  show ?thesis
  proof (cases clip)
    case None': None
    have "holds (tell pd (RenderPageBitmap bitmap page w v) e) h"
      using holds_tell[OF assms(2), of "RenderPageBitmap bitmap page w v" pd] assms(4,5) by simp
    moreover have "owned (tell pd (RenderPageBitmap bitmap page w v) e) = owned e" by (rule owned_same) (simp_all add: ledger_simps)
    ultimately show ?thesis using assms(1) None None' by (auto simp: draw_def)
  next
    case (Some c)
    then show ?thesis using assms(1) None region_holds[OF assms(2,4,5), of pd c w v] by (auto simp: draw_def)
  qed
qed

lemma copy_holds:
  assumes "holds e h" "Bitmap bitmap \<in># h"
  shows "holds (snd (copy_bgra_to_rgba pd bitmap w v e)) h \<and> owned (snd (copy_bgra_to_rgba pd bitmap w v e)) = owned e"
proof
  show "holds (snd (copy_bgra_to_rgba pd bitmap w v e)) h"
    using assms by (auto simp: copy_bgra_to_rgba_def holds_def run_ledger)
  show "owned (snd (copy_bgra_to_rgba pd bitmap w v e)) = owned e"
    by (rule owned_same) (auto simp: copy_bgra_to_rgba_def run_ledger)
qed

text \<open>From the filled bitmap on: whatever was drawn, bitmap and page are given back.\<close>

lemma drawn_holds:
  assumes "draw pd bitmap page i clip w v colors e = Some (drawn, e')" and "holds e (add_mset (Bitmap bitmap) (add_mset (Page page) (owned e)))"
    and "e'' = (case drawn of Inl m \<Rightarrow> e' | Inr _ \<Rightarrow> snd (copy_bgra_to_rgba pd bitmap w v e'))"
    and "r = tell pd (ClosePage page) (tell pd (BitmapDestroy bitmap) e'')"
  shows "holds r (owned e) \<and> owned r = owned e"
proof -
  let ?k = "add_mset (Bitmap bitmap) (add_mset (Page page) (owned e))"
  have 1: "holds e' ?k" "owned e' = owned e" using draw_holds[OF assms(1), of ?k] assms(2) by auto
  have 2: "holds e'' ?k" "owned e'' = owned e" using copy_holds[OF 1(1), of bitmap pd w v] 1 by (simp_all add: assms(3) split: sum.split)
  have 3: "holds (tell pd (BitmapDestroy bitmap) e'') (add_mset (Page page) (owned e))"
    using holds_tell[OF 2(1), of "BitmapDestroy bitmap" pd] by simp
  have "owned r = owned e''" by (rule owned_same) (simp_all add: assms(4) ledger_simps)
  then show ?thesis using holds_tell[OF 3, of "ClosePage page" pd] 2(2) by (simp add: assms(4))
qed

lemma render_holds:
  assumes "render_rgba pd i w v clip colors e = Some r" and "holds e (owned e)"
  shows "holds (snd r) (owned (snd r)) \<and> owned (snd r) = owned e"
proof (cases "en_doc e")
  case None
  then show ?thesis using assms by (auto simp: render_rgba_def require_doc_def)
next
  case (Some d)
  have d: "Document d \<in># owned e" using Some by (simp add: owned_def)
  obtain page e1 where 1: "ask pd (LoadPage d i) e = (page, e1)" by (metis surj_pair)
  have o1: "owned e1 = owned e" using ask_fields(1-3)[of pd "LoadPage d i" e] 1 by (intro owned_same) simp_all
  have h1: "holds e1 (owned e + acquired (LoadPage d i) page)" using holds_ask[OF assms(2) _ _ 1] d by simp
  show ?thesis
  proof (cases "page = 0")
    case True
    then show ?thesis using assms(1) h1 o1 Some by (auto simp: render_rgba_def require_doc_def 1)
  next
    case False
    let ?h = "add_mset (Page page) (owned e)"
    have h1: "holds e1 ?h" using h1 False by simp
    obtain cw ch where c: "clamp_bitmap_size w v = (cw, ch)" by (metis surj_pair)
    obtain bitmap e2 where 2: "ask pd (BitmapCreate cw ch) e1 = (bitmap, e2)" by (metis surj_pair)
    have o2: "owned e2 = owned e" using ask_fields(1-3)[of pd "BitmapCreate cw ch" e1] 2 o1 by (metis owned_same snd_conv)
    have h2: "holds e2 (?h + acquired (BitmapCreate cw ch) bitmap)" using holds_ask[OF h1 _ _ 2] by simp
    show ?thesis
    proof (cases "bitmap = 0")
      case True
      have o: "owned (tell pd (ClosePage page) e2) = owned e2" by (rule owned_same) (simp_all add: ledger_simps)
      have "r = (Inl ''PDFium: FPDFBitmap_Create failed'', tell pd (ClosePage page) e2)"
        using assms(1) Some False True by (simp add: render_rgba_def require_doc_def 1 c 2)
      then show ?thesis using holds_tell[OF h2, of "ClosePage page" pd] True o o2 by simp
    next
      case bitmap: False
      let ?e3 = "tell pd (FillRect bitmap cw ch (background colors)) e2"
      have o3: "owned ?e3 = owned e" unfolding o2[symmetric] by (rule owned_same) (simp_all add: ledger_simps)
      have h3: "holds ?e3 (add_mset (Bitmap bitmap) (add_mset (Page page) (owned ?e3)))"
        using holds_tell[OF h2, of "FillRect bitmap cw ch (background colors)" pd] bitmap o3 by simp
      obtain drawn e4 where 4: "draw pd bitmap page i clip cw ch colors ?e3 = Some (drawn, e4)"
        using assms(1) Some False bitmap by (auto simp: render_rgba_def require_doc_def 1 c 2)
      have "snd r = tell pd (ClosePage page) (tell pd (BitmapDestroy bitmap)
          (case drawn of Inl m \<Rightarrow> e4 | Inr _ \<Rightarrow> snd (copy_bgra_to_rgba pd bitmap cw ch e4)))"
        using assms(1) Some False bitmap 4 by (cases drawn) (auto simp: render_rgba_def require_doc_def 1 c 2 split_beta)
      then show ?thesis using drawn_holds[OF 4 h3 refl] o3 by metis
    qed
  qed
qed


section \<open>Nothing leaks\<close>

definition continues :: "history \<Rightarrow> nat" where
  "continues h = length (filter (\<lambda>ca. case fst ca of RenderContinue p q \<Rightarrow> True | _ \<Rightarrow> False) h)"

text \<open>PDFium's progressive renders end: after some number of continuations none asks for another.\<close>

definition renders_end :: "nat \<Rightarrow> pdfium \<Rightarrow> bool" where
  "renders_end n pd \<longleftrightarrow>
     (\<forall>h page pause. n \<le> continues h \<longrightarrow> pd_answer pd h (RenderContinue page pause) \<noteq> FPDF_RENDER_TOBECONTINUED)"

lemma continue_render_returns:
  assumes "renders_end n pd"
  shows "\<exists>r. continue_render pd page pause status e = Some r"
proof (induction "Suc n - continues (en_calls e)" arbitrary: status e rule: less_induct)
  case less
  obtain a e1 where a: "ask pd (RenderContinue page pause) e = (a, e1)" by (metis surj_pair)
  then have c: "continues (en_calls e1) = Suc (continues (en_calls e))" by (auto simp: ask_def Let_def continues_def)
  show ?case
  proof (cases "continues (en_calls e) \<le> n")
    case True
    then have "\<exists>r. continue_render pd page pause a e1 = Some r" using less[of e1 a] c by simp
    then show ?thesis using a by (subst continue_render.simps) simp
  next
    case False
    then have "a \<noteq> FPDF_RENDER_TOBECONTINUED" using assms a by (auto simp: renders_end_def ask_def Let_def)
    then have "continue_render pd page pause a e1 = Some (a, e1)" by (simp add: continue_render.simps)
    then show ?thesis using a by (subst continue_render.simps) simp
  qed
qed

lemma draw_returns:
  assumes "renders_end n pd"
  shows "\<exists>r. draw pd bitmap page i clip w v colors e = Some r"
proof -
  have s: "\<exists>r. run_scheme pd bitmap page place s e = Some r" for place s e
    using continue_render_returns[OF assms] by (auto simp: run_scheme_def Let_def split_beta split: prod.split)
  show ?thesis using s by (auto simp: draw_def render_color_scheme_def split: option.splits prod.splits sum.splits)
qed

lemma render_returns:
  assumes "renders_end n pd"
  shows "\<exists>r. render_rgba pd i w v clip colors e = Some r"
  using draw_returns[OF assms] by (auto simp: render_rgba_def Let_def split_beta split: sum.splits)

lemma engine_step_returns: "renders_end n pd \<Longrightarrow> \<exists>e'. engine_step pd e ev = Some e'"
proof (cases ev)
  case (RenderRgba i w v clip colors)
  assume "renders_end n pd"
  then obtain r where "render_rgba pd i w v clip colors e = Some r" using render_returns by blast
  then show ?thesis by (simp add: engine_step_def RenderRgba)
qed (simp_all add: engine_step_def)

lemma engine_step_holds: "engine_step pd e ev = Some e' \<Longrightarrow> holds e (owned e) \<Longrightarrow> holds e' (owned e')"
  using page_size_holds[of e "owned e"] text_lines_holds[of e "owned e"] bookmark_title_holds[of e "owned e"] open_bytes_holds[of e]
    open_range_holds[of e] close_document_holds(1,2)[of e] render_holds[of pd _ _ _ _ _ e] owned_same[OF page_size_fields]
  by (cases ev) (auto simp: engine_step_def, metis)

lemma session_holds:
  assumes "renders_end n pd" "holds e (owned e)"
  shows "\<exists>e'. session pd evs e = Some e' \<and> holds e' (owned e')"
  using assms(2)
proof (induction evs arbitrary: e)
  case (Cons ev evs)
  then show ?case using engine_step_returns[OF assms(1), of e ev] engine_step_holds[of pd e ev] by fastforce
qed simp


definition demo_pdfium :: pdfium where
  "demo_pdfium = \<lparr>pd_answer = (\<lambda>h c. case c of RenderContinue p q \<Rightarrow> (if continues h < 2 then 1 else 2)
       | RenderWithColorScheme b p x y w v s q \<Rightarrow> 1 | _ \<Rightarrow> Suc (length h)),
     pd_page_size = (\<lambda>d i. (612, 792)), pd_chars = (\<lambda>t. []), pd_title = (\<lambda>h b. []), pd_heap = (\<lambda>h p. p)\<rparr>"



text \<open>\<open>openRange\<close> does not look at what the allocator said: with a full heap it writes the file access to address 0 and hands PDFium a null structure.\<close>

lemma range_open_ignores_full_heap:
  assumes "\<And>h n. pd_answer pd h (Malloc n) = 0"
  shows "\<exists>f. (Poke 0 [100, of_nat f, 0]) \<in> fst ` set (en_calls (snd (open_range pd (Inr 100) new_engine)))
    \<and> LoadCustomDocument 0 \<in> fst ` set (en_calls (snd (open_range pd (Inr 100) new_engine)))"
  using assms
  by (auto simp: open_range_def close_document_def free_file_access_def new_engine_def ask_def tell_def Let_def)

section \<open>The pixels\<close>

definition swapped :: "nat \<Rightarrow> nat" where
  "swapped k = (if k = 0 then 2 else if k = 2 then 0 else k)"

lemma copy_pixel_nth:
  assumes "target + 4 \<le> length rgba"
  shows "length (copy_pixel heap src target rgba) = length rgba"
    and "copy_pixel heap src target rgba ! i =
      (if target \<le> i \<and> i < target + 4 then heap (src + swapped (i - target)) else rgba ! i)"
proof -
  show "length (copy_pixel heap src target rgba) = length rgba" by (simp add: copy_pixel_def)
  have "target \<le> i \<and> i < target + 4 \<longleftrightarrow> i = target \<or> i = target + 1 \<or> i = target + 2 \<or> i = target + 3" by auto
  then show "copy_pixel heap src target rgba ! i =
      (if target \<le> i \<and> i < target + 4 then heap (src + swapped (i - target)) else rgba ! i)"
    using assms by (auto simp: copy_pixel_def swapped_def nth_list_update)
qed

lemma copy_row_length: "target + 4 * n \<le> length rgba \<Longrightarrow> length (copy_row heap src target n rgba) = length rgba"
  by (induction n arbitrary: src target rgba) (auto simp: copy_pixel_nth(1))

lemma copy_row_before:
  "target + 4 * n \<le> length rgba \<Longrightarrow> i < target \<Longrightarrow> copy_row heap src target n rgba ! i = rgba ! i"
  by (induction n arbitrary: src target rgba) (auto simp: copy_pixel_nth)

lemma copy_row_nth:
  assumes "target + 4 * n \<le> length rgba" "x < n" "k < 4"
  shows "copy_row heap src target n rgba ! (target + 4 * x + k) = heap (src + 4 * x + swapped k)"
  using assms
proof (induction n arbitrary: src target rgba x)
  case (Suc n)
  let ?p = "copy_pixel heap src target rgba"
  note p = copy_pixel_nth[of target rgba heap src]
  have r: "target + 4 + 4 * n \<le> length ?p" using Suc.prems p(1) by simp
  show ?case
  proof (cases x)
    case 0
    then show ?thesis using copy_row_before[OF r, of "target + k"] p(2)[of "target + k"] Suc.prems by simp
  next
    case (Suc y)
    have e: "target + 4 * x + k = target + 4 + 4 * y + k" "src + 4 * x = src + 4 + 4 * y" using Suc by simp_all
    show ?thesis unfolding e copy_row.simps using Suc.IH[OF r, of y "src + 4"] Suc.prems Suc by simp
  qed
qed simp

lemma copy_rows_length: "(y + n) * width * 4 \<le> length rgba \<Longrightarrow> length (copy_rows heap buffer stride width y n rgba) = length rgba"
proof (induction n arbitrary: y rgba)
  case (Suc n)
  then have "y * width * 4 + 4 * width \<le> length rgba" by (simp add: algebra_simps)
  then show ?case using Suc by (simp add: copy_row_length)
qed simp

lemma copy_rows_before:
  "(y + n) * width * 4 \<le> length rgba \<Longrightarrow> i < y * width * 4 \<Longrightarrow> copy_rows heap buffer stride width y n rgba ! i = rgba ! i"
proof (induction n arbitrary: y rgba)
  case (Suc n)
  then have "y * width * 4 + 4 * width \<le> length rgba" by (simp add: algebra_simps)
  then show ?case using Suc by (simp add: copy_row_length copy_row_before)
qed simp

lemma copy_rows_nth:
  assumes "(y + n) * width * 4 \<le> length rgba" "y \<le> v" "v < y + n" "x < width" "k < 4"
  shows "copy_rows heap buffer stride width y n rgba ! (v * width * 4 + 4 * x + k) = heap (buffer + v * stride + 4 * x + swapped k)"
  using assms
proof (induction n arbitrary: y rgba)
  case (Suc n)
  let ?r = "copy_row heap (buffer + y * stride) (y * width * 4) width rgba"
  have fits: "y * width * 4 + 4 * width \<le> length rgba" using Suc.prems by (simp add: algebra_simps)
  have r: "(Suc y + n) * width * 4 \<le> length ?r" using Suc.prems copy_row_length[OF fits] by simp
  show ?case
  proof (cases "v = y")
    case True
    have "y * width * 4 + 4 * x + k < Suc y * width * 4" using Suc.prems by simp
    then show ?thesis using copy_rows_before[OF r] copy_row_nth[OF fits Suc.prems(4,5)] True by simp
  next
    case False
    then show ?thesis using Suc.IH[OF r] Suc.prems by simp
  qed
qed simp

lemma packed_length: "length (packed_rgba heap buffer stride width height) = width * height * 4"
  by (simp add: packed_rgba_def copy_rows_length mult.commute)

text \<open>The packed pixels are PDFium's: of a bitmap with any row stride, the array has four bytes for each pixel, row after row without gaps, and pixel \<open>(x, y)\<close> has
  the bitmap's red, green, blue and alpha, which PDFium stores as blue, green, red and alpha.\<close>

theorem packed_pixels_exact:
  "length (packed_rgba heap buffer stride width height) = width * height * 4
   \<and> (\<forall>x < width. \<forall>y < height. \<forall>k < 4.
        packed_rgba heap buffer stride width height ! (4 * (y * width + x) + k) = heap (buffer + y * stride + 4 * x + [2, 1, 0, 3] ! k))"
proof (intro conjI allI impI)
  have fits: "(0 + height) * width * 4 \<le> length (replicate (width * height * 4) (0::nat))" by (simp add: mult.commute)
  show "length (packed_rgba heap buffer stride width height) = width * height * 4"
    unfolding packed_rgba_def copy_rows_length[OF fits] by simp
  fix x y k :: nat assume b: "x < width" "y < height" "k < 4"
  have e: "4 * (y * width + x) + k = y * width * 4 + 4 * x + k" by simp
  have s: "[2, 1, 0, 3] ! k = swapped k" using b(3) by (auto simp: swapped_def less_Suc_eq numeral_eq_Suc)
  show "packed_rgba heap buffer stride width height ! (4 * (y * width + x) + k) = heap (buffer + y * stride + 4 * x + [2, 1, 0, 3] ! k)"
    unfolding packed_rgba_def e s by (rule copy_rows_nth[OF fits]) (use b in auto)
qed

theorem packed_pixels_exact_witness:
  "packed_rgba (\<lambda>p. p) 100 16 2 2 ! (4 * (1 * 2 + 1) + 0) = 122"
proof -
  have "\<forall>x < 2. \<forall>y < 2. \<forall>k < 4. packed_rgba (\<lambda>p. p) 100 16 2 2 ! (4 * (y * 2 + x) + k) = 100 + y * 16 + 4 * x + [2, 1, 0, 3] ! k"
    by (rule conjunct2[OF packed_pixels_exact])
  then have "packed_rgba (\<lambda>p. p) 100 16 2 2 ! (4 * (1 * 2 + 1) + 0) = 100 + 1 * 16 + 4 * 1 + [2, 1, 0, 3] ! 0"
    by (metis one_less_numeral_iff semiring_norm(76) zero_less_numeral)
  then show ?thesis by simp
qed

section \<open>Where a region lands\<close>

lemma math_round_near: "\<bar>of_int (math_round x) - x\<bar> \<le> 1 / 2"
  unfolding math_round_def by linarith

lemma placed_near:
  assumes "0 < p" "0 \<le> x" "x \<le> p" "1 / 2 \<le> p * s"
  shows "\<bar>(of_int (- math_round (l * s)) + x * (of_int (max 1 (math_round (p * s))) / p)) - (s * x + - l * s)\<bar> \<le> 1"
proof -
  have m: "1 \<le> math_round (p * s)" using assms(4) unfolding math_round_def by linarith
  have r: "\<bar>of_int (math_round (p * s)) - p * s\<bar> \<le> 1 / 2" by (rule math_round_near)
  have f: "0 \<le> x / p" "x / p \<le> 1" using assms(1-3) by simp_all
  have "x * (of_int (math_round (p * s)) / p) - s * x = x / p * (of_int (math_round (p * s)) - p * s)"
    using assms(1) by (simp add: field_simps)
  moreover have "\<bar>x / p * (of_int (math_round (p * s)) - p * s)\<bar> \<le> 1 * (1 / 2)"
    unfolding abs_mult using f r by (intro mult_mono) auto
  ultimately have a: "\<bar>x * (of_int (math_round (p * s)) / p) - s * x\<bar> \<le> 1 / 2" by simp
  have "(of_int (- math_round (l * s)) + x * (of_int (max 1 (math_round (p * s))) / p)) - (s * x + - l * s)
      = (x * (of_int (math_round (p * s)) / p) - s * x) - (of_int (math_round (l * s)) - l * s)"
    using m by (simp add: max_def)
  also have "\<bar>\<dots>\<bar> \<le> 1 / 2 + 1 / 2"
    by (rule order_trans[OF abs_triangle_ineq4 add_mono[OF a math_round_near]])
  finally show ?thesis by simp
qed
text \<open>C34. A region looks the same under the dark scheme: the color-scheme render, which can only be told a box for the whole page in whole pixels, puts every point of
  the page within one pixel, in each direction, of where the matrix of the plain render puts it, for every region and every bitmap in which the page is at
  least half a pixel wide and high.\<close>

theorem dark_region_aligned:
  assumes "\<not> empty_clip clip" and "0 < fst dims" "0 < snd dims"
    and "1 / 2 \<le> fst dims * region_matrix clip w h ! 0" and "1 / 2 \<le> snd dims * region_matrix clip w h ! 3"
    and "0 \<le> x" "x \<le> fst dims" "0 \<le> y" "y \<le> snd dims"
  shows "(case scheme_box clip w h dims of (start_x, start_y, size_x, size_y) \<Rightarrow>
    \<bar>(of_int start_x + x * (of_int size_x / fst dims)) - (region_matrix clip w h ! 0 * x + region_matrix clip w h ! 4)\<bar> \<le> 1
    \<and> \<bar>(of_int start_y + y * (of_int size_y / snd dims)) - (region_matrix clip w h ! 3 * y + region_matrix clip w h ! 5)\<bar> \<le> 1)"
proof -
  obtain left upper cw ch where clip: "clip = (left, upper, cw, ch)" by (metis surj_pair)
  show ?thesis
    using placed_near[of "fst dims" x "of_int w / cw" left] placed_near[of "snd dims" y "of_int h / ch" upper] assms
    by (simp add: clip scheme_box_def region_matrix_def Let_def)
qed

theorem dark_region_aligned_witness:
  "case scheme_box (100, 50, 300, 200) 450 300 (612, 792) of (start_x, start_y, size_x, size_y) \<Rightarrow>
    \<bar>(of_int start_x + 200 * (of_int size_x / 612)) - (region_matrix (100, 50, 300, 200) 450 300 ! 0 * 200 + region_matrix (100, 50, 300, 200) 450 300 ! 4)\<bar> \<le> (1::rat)"
proof -
  have "\<not> empty_clip (100, 50, 300, 200)" by (simp add: empty_clip_def)
  from dark_region_aligned[OF this, of "(612, 792)" 450 300 200 100] show ?thesis
    by (auto simp: region_matrix_def Let_def split: prod.splits)
qed

end
