(* ===== verification/PdfHost.thy ===== *)
theory PdfHost
  imports PdfEngine
begin

text \<open>
  \<open>frontend/src/lib/pdf/pdfiumWorker.ts\<close>: the message handler of the worker, over the engine of \<open>PdfEngine\<close>, with the origin test of \<open>pdfWorkerOrigin.ts\<close>; and the
  geometry of the text layer of \<open>pdfEngine.ts\<close>. Loading the PDFium module takes time, so a request that needs it waits; each load gives a module of its own.
\<close>

section \<open>Requests\<close>

datatype open_source = FromBytes int | FromBook "nat outcome" | FromNowhere

datatype request =
    Prewarm
  | Open open_source
  | PageSizeOf int
  | TextOf int
  | OutlineOf
  | Render int int int "clip option" "fpdf_color_scheme option"
  | UnknownMethod string

datatype answer =
    Ready
  | PageCount nat
  | SizeIs "rat \<times> rat"
  | LinesAre "engine_text_line list"
  | OutlineIs "raw_outline list option"
  | Rendered int int "nat list"

datatype phase = Begin | End | Failed

record host =
  ho_engine :: "nat option"                     \<comment> \<open>which load's module is in use\<close>
  ho_engines :: "nat \<Rightarrow> engine"
  ho_loads :: "(nat \<times> nat \<times> request) list"     \<comment> \<open>load, request id, request\<close>
  ho_next_load :: nat
  ho_replies :: "(nat \<times> answer outcome) list"
  ho_diags :: "(phase \<times> nat) list"

record modules =
  mo_pdfium :: "nat \<Rightarrow> pdfium"
  mo_bookmarks :: "nat \<Rightarrow> bookmark_tree"

definition new_host :: host where
  "new_host = \<lparr>ho_engine = None, ho_engines = (\<lambda>k. new_engine), ho_loads = [], ho_next_load = 0, ho_replies = [], ho_diags = []\<rparr>"

definition is_trusted_worker_origin :: "string \<Rightarrow> string \<Rightarrow> bool" where
  "is_trusted_worker_origin sender_origin worker_origin \<longleftrightarrow> sender_origin = [] \<or> sender_origin = worker_origin"

section \<open>The methods\<close>

text \<open>\<open>open\<close> on a loaded module.\<close>

definition open_on :: "pdfium \<Rightarrow> open_source \<Rightarrow> engine \<Rightarrow> answer outcome \<times> engine" where
  "open_on pd source e =
     (case source of
        FromBook known \<Rightarrow> (case open_range pd known e of (r, e) \<Rightarrow> (map_sum id PageCount r, e))
      | FromNowhere \<Rightarrow> (Inl ''open requires data or bookUrl'', e)
      | FromBytes n \<Rightarrow> (case open_bytes pd n e of (r, e) \<Rightarrow> (map_sum id PageCount r, e)))"

text \<open>\<open>ImageData\<close> refuses pixels that do not fill its size.\<close>

definition image_data :: "int \<Rightarrow> int \<Rightarrow> nat list \<Rightarrow> answer outcome" where
  "image_data width height rgba =
     (if int (length rgba) = width * height * 4 then Inr (Rendered width height rgba) else Inl ''InvalidStateError'')"

definition render_on :: "pdfium \<Rightarrow> int \<Rightarrow> int \<Rightarrow> int \<Rightarrow> clip option \<Rightarrow> fpdf_color_scheme option \<Rightarrow> engine \<Rightarrow> (answer outcome \<times> engine) option" where
  "render_on pd page width height clip colors e =
     (case clamp_bitmap_size width height of (w, h) \<Rightarrow>
        map_option (\<lambda>(r, e). (and_then r (image_data w h), e)) (render_rgba pd (page - 1) w h clip colors e))"

text \<open>A request on the module in use; \<open>None\<close> when it never returns.\<close>

definition serve_on :: "pdfium \<Rightarrow> bookmark_tree \<Rightarrow> request \<Rightarrow> engine \<Rightarrow> (answer outcome \<times> engine) option" where
  "serve_on pd bm r e =
     (case r of
        Prewarm \<Rightarrow> Some (Inr Ready, e)
      | Open source \<Rightarrow> Some (open_on pd source e)
      | PageSizeOf page \<Rightarrow>
          (case page_size pd (page - 1) e of
             (Inl m, e) \<Rightarrow> Some (Inl m, e)
           | (Inr None, e) \<Rightarrow> Some (Inl (''page '' @ show_int page @ '' has no size''), e)
           | (Inr (Some s), e) \<Rightarrow> Some (Inr (SizeIs s), e))
      | TextOf page \<Rightarrow> (case text_lines pd (page - 1) e of (r, e) \<Rightarrow> Some (map_sum id LinesAre r, e))
      | OutlineOf \<Rightarrow>
          (case require_doc e of
             Inl m \<Rightarrow> Some (Inl m, e)
           | Inr d \<Rightarrow> map_option (\<lambda>items. (Inr (OutlineIs items), e)) (engine_outline bm))
      | Render page width height clip colors \<Rightarrow> render_on pd page width height clip colors e
      | UnknownMethod m \<Rightarrow> Some (Inl (''unknown method '' @ m), e))"

fun needs_engine :: "request \<Rightarrow> bool" where
  "needs_engine (UnknownMethod m) = False"
| "needs_engine r = True"

fun loads_engine :: "request \<Rightarrow> bool" where
  "loads_engine Prewarm = True"
| "loads_engine (Open s) = True"
| "loads_engine r = False"

definition settle :: "nat \<Rightarrow> answer outcome \<Rightarrow> host \<Rightarrow> host" where
  "settle i r h = h\<lparr>ho_replies := ho_replies h @ [(i, r)],
     ho_diags := ho_diags h @ [(case r of Inl m \<Rightarrow> Failed | Inr a \<Rightarrow> End, i)]\<rparr>"

definition run_on :: "modules \<Rightarrow> nat \<Rightarrow> nat \<Rightarrow> request \<Rightarrow> host \<Rightarrow> host option" where
  "run_on mods k i r h =
     map_option (\<lambda>(a, e). settle i a (h\<lparr>ho_engines := (ho_engines h)(k := e)\<rparr>))
       (serve_on (mo_pdfium mods k) (mo_bookmarks mods k) r (ho_engines h k))"

text \<open>\<open>onmessage\<close> and \<open>ensureEngine\<close>.\<close>

definition on_message :: "modules \<Rightarrow> string \<Rightarrow> string \<Rightarrow> nat \<Rightarrow> request \<Rightarrow> host \<Rightarrow> host option" where
  "on_message mods own origin i r h0 =
     (if \<not> is_trusted_worker_origin origin own then Some h0
      else
        let h = h0\<lparr>ho_diags := ho_diags h0 @ [(Begin, i)]\<rparr> in
        case ho_engine h of
          Some k \<Rightarrow> run_on mods k i r h
        | None \<Rightarrow>
            if loads_engine r then Some (h\<lparr>ho_loads := ho_loads h @ [(ho_next_load h, i, r)], ho_next_load := Suc (ho_next_load h)\<rparr>)
            else if needs_engine r then Some (settle i (Inl ''no document open'') h)
            else run_on mods 0 i r h)"

text \<open>A load ends: the module becomes the one in use, whatever was in use before, and the request that waited for it goes on.\<close>

definition on_loaded :: "modules \<Rightarrow> nat \<Rightarrow> string option \<Rightarrow> host \<Rightarrow> host option" where
  "on_loaded mods k failure h =
     (case find (\<lambda>l. fst l = k) (ho_loads h) of
        None \<Rightarrow> Some h
      | Some (_, i, r) \<Rightarrow>
          let h1 = h\<lparr>ho_loads := filter (\<lambda>l. fst l \<noteq> k) (ho_loads h)\<rparr> in
          case failure of
            Some m \<Rightarrow> Some (settle i (Inl m) h1)
          | None \<Rightarrow> run_on mods k i r (h1\<lparr>ho_engine := Some k\<rparr>))"

datatype host_event = Message string nat request | Loaded nat "string option"

definition host_step :: "modules \<Rightarrow> string \<Rightarrow> host \<Rightarrow> host_event \<Rightarrow> host option" where
  "host_step mods own h ev =
     (case ev of Message origin i r \<Rightarrow> on_message mods own origin i r h | Loaded k failure \<Rightarrow> on_loaded mods k failure h)"

fun host_run :: "modules \<Rightarrow> string \<Rightarrow> host \<Rightarrow> host_event list \<Rightarrow> host option" where
  "host_run mods own h [] = Some h"
| "host_run mods own h (ev # evs) = Option.bind (host_step mods own h ev) (\<lambda>h'. host_run mods own h' evs)"


section \<open>Every request is answered once\<close>

fun received :: "string \<Rightarrow> host_event \<Rightarrow> nat list" where
  "received own (Message origin i r) = (if is_trusted_worker_origin origin own then [i] else [])"
| "received own (Loaded k failure) = []"

definition outcome_phase :: "nat \<times> answer outcome \<Rightarrow> phase \<times> nat" where
  "outcome_phase ir = (case snd ir of Inl m \<Rightarrow> Failed | Inr a \<Rightarrow> End, fst ir)"

definition accounted :: "host \<Rightarrow> nat list \<Rightarrow> bool" where
  "accounted h ids \<longleftrightarrow>
     mset (map fst (ho_replies h)) + mset (map (\<lambda>l. fst (snd l)) (ho_loads h)) = mset ids
     \<and> map snd (filter (\<lambda>d. fst d = Begin) (ho_diags h)) = ids
     \<and> filter (\<lambda>d. fst d \<noteq> Begin) (ho_diags h) = map outcome_phase (ho_replies h)
     \<and> distinct (map fst (ho_loads h)) \<and> (\<forall>l\<in>set (ho_loads h). fst l < ho_next_load h)"

lemma run_on_fields:
  assumes "run_on mods k i r h = Some h'"
  shows "\<exists>a. ho_replies h' = ho_replies h @ [(i, a)] \<and> ho_diags h' = ho_diags h @ [outcome_phase (i, a)]
    \<and> ho_loads h' = ho_loads h \<and> ho_next_load h' = ho_next_load h"
  using assms by (auto simp: run_on_def settle_def outcome_phase_def)

lemma outcome_not_begin [simp]: "fst (outcome_phase ir) \<noteq> Begin"
  by (simp add: outcome_phase_def split: sum.split)

lemma find_mset:
  assumes "distinct (map fst ls)" "find (\<lambda>l. fst l = k) ls = Some (j, x, r)"
  shows "mset (map (\<lambda>l. fst (snd l)) ls) = add_mset x (mset (map (\<lambda>l. fst (snd l)) (filter (\<lambda>l. fst l \<noteq> k) ls)))"
  using assms
proof (induction ls)
  case (Cons l ls)
  then show ?case
  proof (cases "fst l = k")
    case True
    have "fst l \<notin> fst ` set ls" using Cons.prems(1) by simp
    then have "\<forall>x\<in>set ls. fst x \<noteq> k" using True by (metis image_eqI)
    then have "filter (\<lambda>l. fst l \<noteq> k) ls = ls" by (rule filter_True)
    then show ?thesis using True Cons.prems by simp
  qed simp
qed simp

lemma host_step_accounted:
  assumes "accounted h ids" "host_step mods own h ev = Some h'"
  shows "accounted h' (ids @ received own ev)"
proof (cases ev)
  case (Message origin i r)
  show ?thesis
  proof (cases "is_trusted_worker_origin origin own")
    case False
    then show ?thesis using assms Message by (simp add: host_step_def on_message_def)
  next
    case True
    let ?h = "h\<lparr>ho_diags := ho_diags h @ [(Begin, i)]\<rparr>"
    have step: "on_message mods own origin i r h = Some h'" using assms(2) Message by (simp add: host_step_def)
    consider (a) k where "run_on mods k i r ?h = Some h'"
      | (b) "h' = ?h\<lparr>ho_loads := ho_loads h @ [(ho_next_load h, i, r)], ho_next_load := Suc (ho_next_load h)\<rparr>"
      | (c) "h' = settle i (Inl ''no document open'') ?h"
    proof (cases "\<exists>k. run_on mods k i r ?h = Some h'")
      case False
      then have none: "ho_engine h = None" using step True by (cases "ho_engine h") (auto simp: on_message_def Let_def)
      show ?thesis
      proof (cases "loads_engine r")
        case True
        then show ?thesis using step \<open>is_trusted_worker_origin origin own\<close> none by (intro b) (simp add: on_message_def Let_def)
      next
        case no: False
        have "needs_engine r"
        proof (rule ccontr)
          assume "\<not> needs_engine r"
          then have "run_on mods 0 i r ?h = Some h'" using no step True none by (simp add: on_message_def Let_def)
          then show False using False by blast
        qed
        then show ?thesis using step True none no by (intro c) (simp add: on_message_def Let_def)
      qed
    qed (use a in blast)
    then show ?thesis
    proof cases
      case (a k)
      from run_on_fields[OF this] obtain x where "ho_replies h' = ho_replies h @ [(i, x)]" "ho_diags h' = ho_diags h @ [(Begin, i), outcome_phase (i, x)]"
        "ho_loads h' = ho_loads h" "ho_next_load h' = ho_next_load h" by auto
      then show ?thesis using assms(1) Message True by (simp add: accounted_def)
    next
      case b
      then show ?thesis using assms(1) Message True by (auto simp: accounted_def)
    next
      case c
      then show ?thesis using assms(1) Message True by (auto simp: accounted_def settle_def outcome_phase_def)
    qed
  qed
next
  case (Loaded k failure)
  show ?thesis
  proof (cases "find (\<lambda>l. fst l = k) (ho_loads h)")
    case None
    then show ?thesis using assms Loaded by (simp add: host_step_def on_loaded_def)
  next
    case (Some l)
    obtain j i r where l: "l = (j, i, r)" by (metis surj_pair)
    let ?ls = "filter (\<lambda>l. fst l \<noteq> k) (ho_loads h)"
    have m: "mset (map (\<lambda>l. fst (snd l)) (ho_loads h)) = add_mset i (mset (map (\<lambda>l. fst (snd l)) ?ls))"
      by (rule find_mset[OF _ Some[unfolded l]]) (use assms(1) in \<open>simp add: accounted_def\<close>)
    have d: "distinct (map fst ?ls)" "\<forall>l\<in>set ?ls. fst l < ho_next_load h"
      using assms(1) by (auto simp: accounted_def distinct_map_filter)
    have "\<exists>a. ho_replies h' = ho_replies h @ [(i, a)] \<and> ho_diags h' = ho_diags h @ [outcome_phase (i, a)]
        \<and> ho_loads h' = ?ls \<and> ho_next_load h' = ho_next_load h"
    proof (cases failure)
      case None
      then have "run_on mods k i r (h\<lparr>ho_loads := ?ls, ho_engine := Some k\<rparr>) = Some h'"
        using assms(2) Loaded Some l by (simp add: host_step_def on_loaded_def Let_def)
      from run_on_fields[OF this] show ?thesis by simp
    next
      case (Some m)
      then show ?thesis using assms(2) Loaded \<open>find _ _ = _\<close> l
        by (auto simp: host_step_def on_loaded_def Let_def settle_def outcome_phase_def)
    qed
    then obtain a where "ho_replies h' = ho_replies h @ [(i, a)]" "ho_diags h' = ho_diags h @ [outcome_phase (i, a)]"
      "ho_loads h' = ?ls" "ho_next_load h' = ho_next_load h" by blast
    then show ?thesis using assms(1) m d Loaded by (simp add: accounted_def)
  qed
qed

lemma host_run_accounted:
  "accounted h ids \<Longrightarrow> host_run mods own h evs = Some h' \<Longrightarrow> accounted h' (ids @ concat (map (received own) evs))"
proof (induction evs arbitrary: h ids)
  case (Cons ev evs)
  then obtain h1 where "host_step mods own h ev = Some h1" "host_run mods own h1 evs = Some h'" by (auto split: option.splits bind_splits)
  then show ?case using Cons.IH host_step_accounted[OF Cons.prems(1)] by fastforce
qed simp


definition demo_modules :: modules where
  "demo_modules = \<lparr>mo_pdfium = (\<lambda>k. demo_pdfium),
     mo_bookmarks = (\<lambda>k. \<lparr>bm_first_child = (\<lambda>n. 0), bm_next_sibling = (\<lambda>n. 0), bm_title = (\<lambda>n. []), bm_dest = (\<lambda>n. 0), bm_action = (\<lambda>n. 0),
        bm_action_dest = (\<lambda>a. 0), bm_dest_page = (\<lambda>d. 0)\<rparr>)\<rparr>"

definition race :: "host_event list" where
  "race = [Message [] 1 Prewarm, Message [] 2 (Open (FromBytes 100)), Loaded 1 None, Message [] 3 OutlineOf, Loaded 0 None, Message [] 4 OutlineOf]"

text \<open>The module of an earlier load that comes late takes the place of the one that has the document: the next request finds none.\<close>

lemma late_load_loses_document:
  "\<exists>h. host_run demo_modules ''app://bundle'' new_host race = Some h \<and> ho_replies h = [(2, Inr (PageCount 4)), (3, Inr (OutlineIs None)), (1, Inr Ready), (4, Inl ''PDFium: no document open'')]"
  by (simp add: race_def demo_modules_def demo_pdfium_def new_host_def host_step_def on_message_def is_trusted_worker_origin_def on_loaded_def
      run_on_def serve_on_def open_on_def open_bytes_def close_document_def free_file_access_def ask_def tell_def new_engine_def settle_def
      require_doc_def engine_outline_def Let_def)



section \<open>The pixels fill the image\<close>

lemma render_rgba_length:
  assumes "render_rgba pd i w v clip colors e = Some (Inr rgba, e')" and "clamp_bitmap_size w v = (cw, ch)"
  shows "length rgba = nat cw * nat ch * 4"
  using assms
  by (auto simp: render_rgba_def copy_bgra_to_rgba_def packed_length Let_def split_beta split: sum.splits if_splits)
    (metis old.unit.exhaust sum.exhaust)

text \<open>A raster that PDFium makes always becomes an image: the worker clamps the size and the engine clamps it again, and as long as neither side is scaled below one pixel
  the pixels the engine returns fill exactly the image of the size the worker reports, so that the reply is the engine's own answer, success or error.\<close>

theorem raster_fills_image:
  assumes "0 < w" "0 < v" "w \<le> v * MAX_RENDER_BITMAP_PIXELS" "v \<le> w * MAX_RENDER_BITMAP_PIXELS" and "clamp_bitmap_size w v = (cw, ch)"
  shows "render_on pd page w v clip colors e = map_option (\<lambda>(r, e). (map_sum id (Rendered cw ch) r, e)) (render_rgba pd (page - 1) cw ch clip colors e)"
proof -
  have c: "clamp_bitmap_size cw ch = (cw, ch)" "0 < cw" "0 < ch" using clamp_fits[OF assms(1-4)] assms(5) by simp_all
  have "and_then r (image_data cw ch) = map_sum id (Rendered cw ch) r" if "render_rgba pd (page - 1) cw ch clip colors e = Some (r, e')" for r e'
    using that render_rgba_length[OF _ c(1)] c(2,3) by (cases r) (auto simp: image_data_def outcome_simps)
  then show ?thesis by (cases "render_rgba pd (page - 1) cw ch clip colors e") (auto simp: render_on_def assms(5))
qed

theorem raster_fills_image_witness:
  "map_option fst (render_on demo_pdfium 1 2 3 None None new_engine) = Some (Inl ''PDFium: no document open'')"
proof -
  have c: "clamp_bitmap_size 2 3 = (2, 3)" by (simp add: clamp_bitmap_size_def MAX_RENDER_BITMAP_PIXELS_def)
  have "render_on demo_pdfium 1 2 3 None None new_engine
      = map_option (\<lambda>(r, e). (map_sum id (Rendered 2 3) r, e)) (render_rgba demo_pdfium (1 - 1) 2 3 None None new_engine)"
    by (rule raster_fills_image[OF _ _ _ _ c]) (simp_all add: MAX_RENDER_BITMAP_PIXELS_def)
  then show ?thesis by (simp add: render_rgba_def require_doc_def new_engine_def)
qed

section \<open>The text layer\<close>

text \<open>The distance to the nearest other line top that is more than half a unit away, or the line's own height.\<close>

definition line_gaps :: "engine_text_line list \<Rightarrow> nat \<Rightarrow> rat list" where
  "line_gaps ls i = filter (\<lambda>d. d > 1/2) (map (\<lambda>j. \<bar>el_y (ls ! j) - el_y (ls ! i)\<bar>) (filter (\<lambda>j. j \<noteq> i) [0..<length ls]))"

definition line_pitch :: "engine_text_line list \<Rightarrow> nat \<Rightarrow> rat" where
  "line_pitch ls i = (case line_gaps ls i of [] \<Rightarrow> el_h (ls ! i) | d # ds \<Rightarrow> foldl min d ds)"

record span_box =
  sb_left :: rat
  sb_top :: rat
  sb_height :: rat
  sb_font :: rat
  sb_line_height :: rat

definition box_height :: "rat \<Rightarrow> engine_text_line \<Rightarrow> rat" where
  "box_height scale l = max (el_h l) 1 * scale"

definition span_box :: "engine_text_line list \<Rightarrow> rat \<Rightarrow> nat \<Rightarrow> span_box" where
  "span_box ls scale i =
     (let l = ls ! i; box = box_height scale l; band = min box (line_pitch ls i * scale) in
      \<lparr>sb_left = el_x l * scale, sb_top = el_y l * scale + (box - band) / 2, sb_height = box, sb_font = min box (band * (7 / 10)),
        sb_line_height = band\<rparr>)"

definition letter_spacing :: "rat \<Rightarrow> engine_text_line \<Rightarrow> rat \<Rightarrow> rat option" where
  "letter_spacing scale l natural =
     (if natural < 1 then None else Some ((max (el_w l) 1 * scale - natural) / of_nat (max (length (el_text l)) 1)))"

lemma foldl_min_le: "foldl min d ds \<le> (x::rat) \<longleftrightarrow> d \<le> x \<or> (\<exists>y\<in>set ds. y \<le> x)"
  by (induction ds arbitrary: d) (auto simp: min_le_iff_disj)

lemma pitch_le:
  assumes "i < length ls" "j < length ls" "1/2 < \<bar>el_y (ls ! j) - el_y (ls ! i)\<bar>"
  shows "line_pitch ls i \<le> \<bar>el_y (ls ! j) - el_y (ls ! i)\<bar>"
proof -
  have "\<bar>el_y (ls ! j) - el_y (ls ! i)\<bar> \<in> set (line_gaps ls i)" using assms by (auto simp: line_gaps_def)
  then show ?thesis by (cases "line_gaps ls i") (auto simp: line_pitch_def foldl_min_le)
qed

text \<open>Selection bands of different lines do not overlap: of two lines of the same height whose tops are more than half a unit apart, the band of the upper one ends
  where the band of the lower one begins or before, each band is centred in its line's box, and the font fits in the band.\<close>

theorem selection_bands_disjoint:
  assumes "0 < scale" and "i < length ls" "j < length ls" and "el_h (ls ! i) = el_h (ls ! j)" and "1/2 < el_y (ls ! j) - el_y (ls ! i)"
  shows "sb_top (span_box ls scale i) + sb_line_height (span_box ls scale i) \<le> sb_top (span_box ls scale j)
    \<and> sb_top (span_box ls scale i) + sb_line_height (span_box ls scale i) / 2 = (el_y (ls ! i) + max (el_h (ls ! i)) 1 / 2) * scale
    \<and> sb_font (span_box ls scale i) \<le> sb_height (span_box ls scale i)"
proof -
  let ?d = "el_y (ls ! j) - el_y (ls ! i)"
  have p: "line_pitch ls i \<le> ?d" "line_pitch ls j \<le> ?d"
    using pitch_le[of i ls j] pitch_le[of j ls i] assms by (simp_all add: abs_minus_commute)
  then have s: "line_pitch ls i * scale \<le> ?d * scale" "line_pitch ls j * scale \<le> ?d * scale"
    using assms(1) by (simp_all add: mult_right_mono)
  have b: "box_height scale (ls ! i) = box_height scale (ls ! j)" using assms(4) by (simp add: box_height_def)
  have "sb_line_height (span_box ls scale i) \<le> ?d * scale" "sb_line_height (span_box ls scale j) \<le> ?d * scale"
    using s by (auto simp: span_box_def Let_def min_le_iff_disj)
  then have "el_y (ls ! i) * scale + (sb_line_height (span_box ls scale i) + sb_line_height (span_box ls scale j)) / 2 \<le> el_y (ls ! j) * scale"
    by (simp add: left_diff_distrib field_simps)
  then show ?thesis using b by (auto simp: span_box_def box_height_def Let_def field_simps)
qed


theorem selection_bands_disjoint_witness:
  "sb_top (span_box [\<lparr>el_text = [65], el_x = 0, el_y = 10, el_w = 40, el_h = 14, el_size = 12\<rparr>,
       \<lparr>el_text = [66], el_x = 0, el_y = 20, el_w = 40, el_h = 14, el_size = 12\<rparr>] 2 0)
     + sb_line_height (span_box [\<lparr>el_text = [65], el_x = 0, el_y = 10, el_w = 40, el_h = 14, el_size = 12\<rparr>,
       \<lparr>el_text = [66], el_x = 0, el_y = 20, el_w = 40, el_h = 14, el_size = 12\<rparr>] 2 0)
   \<le> sb_top (span_box [\<lparr>el_text = [65], el_x = 0, el_y = 10, el_w = 40, el_h = 14, el_size = 12\<rparr>,
       \<lparr>el_text = [66], el_x = 0, el_y = 20, el_w = 40, el_h = 14, el_size = 12\<rparr>] 2 1)"
  by (rule selection_bands_disjoint[THEN conjunct1]) simp_all

end
