(* ===== verification/Dom.thy ===== *)
theory Dom
  imports Prelude
begin

text \<open>
  Parsed documents as the EPUB code sees them: a document is the list of its child nodes, a node is an element with its attributes and children, a text
  node, or anything else (comment, doctype, processing instruction). A node is named by its path of child indices from the document, so the parent of a node and its
  place among its siblings are computed. An attribute keeps its qualified and its local name (\<open>xlink:href\<close> and \<open>href\<close>).
\<close>

datatype attribute = Attribute (attr_name: string) (attr_local: string) (attr_value: string)

datatype dnode =
    Element (tag_name: string) (node_attributes: "attribute list") (element_kids: "dnode list")
  | TextNode string
  | OtherNode

type_synonym document = "dnode list"
type_synonym node_path = "nat list"

fun is_element :: "dnode \<Rightarrow> bool" where
  "is_element (Element t as ks) = True"
| "is_element n = False"

fun is_text_node :: "dnode \<Rightarrow> bool" where
  "is_text_node (TextNode s) = True"
| "is_text_node n = False"

fun child_nodes :: "dnode \<Rightarrow> dnode list" where
  "child_nodes (Element t as ks) = ks"
| "child_nodes n = []"

fun text_content :: "dnode \<Rightarrow> string" where
  "text_content (Element t as ks) = concat (map text_content ks)"
| "text_content (TextNode s) = s"
| "text_content OtherNode = []"

definition text_of :: "dnode list \<Rightarrow> string" where
  "text_of ns = concat (map text_content ns)"

definition get_attribute :: "string \<Rightarrow> dnode \<Rightarrow> string option" where
  "get_attribute name n =
     (case n of Element t as ks \<Rightarrow> map_option attr_value (find (\<lambda>a. attr_name a = name) as) | _ \<Rightarrow> None)"

fun node_at :: "dnode list \<Rightarrow> node_path \<Rightarrow> dnode option" where
  "node_at ns [] = None"
| "node_at ns (i # p) =
     (if i < length ns then (if p = [] then Some (ns ! i) else node_at (child_nodes (ns ! i)) p) else None)"

text \<open>The children of the node at a path; the empty path is the document itself.\<close>

definition children_at :: "document \<Rightarrow> node_path \<Rightarrow> dnode list" where
  "children_at doc p = (if p = [] then doc else case node_at doc p of Some n \<Rightarrow> child_nodes n | None \<Rightarrow> [])"

text \<open>The text from the start of the document to the end of the node at a path: the string of a range whose end \<open>selectNode\<close> has set and whose start is
  the document's.\<close>

fun text_through :: "dnode list \<Rightarrow> node_path \<Rightarrow> string" where
  "text_through ns [] = []"
| "text_through ns (i # p) =
     (if i < length ns then text_of (take i ns) @ (if p = [] then text_content (ns ! i) else text_through (child_nodes (ns ! i)) p) else [])"

text \<open>The text that stands before it.\<close>

fun text_preceding :: "dnode list \<Rightarrow> node_path \<Rightarrow> string" where
  "text_preceding ns [] = []"
| "text_preceding ns (i # p) =
     (if i < length ns then text_of (take i ns) @ (if p = [] then [] else text_preceding (child_nodes (ns ! i)) p) else [])"

lemma node_at_Some: "node_at ns p = Some n \<Longrightarrow> p \<noteq> []"
  by (cases p) auto

lemma node_at_snoc:
  "node_at ns (p @ [i]) = (let ks = children_at ns p in if i < length ks then Some (ks ! i) else None)"
proof (induction p arbitrary: ns)
  case (Cons j p)
  show ?case
  proof (cases "p = []")
    case False
    then show ?thesis using Cons.IH[of "child_nodes (ns ! j)"] by (simp add: children_at_def Let_def)
  qed (simp add: children_at_def Let_def)
qed (simp add: children_at_def Let_def)

lemma node_at_append: "q \<noteq> [] \<Longrightarrow> node_at ns (p @ q) = node_at (children_at ns p) q"
proof (induction p arbitrary: ns)
  case (Cons j p)
  show ?case
  proof (cases "j < length ns")
    case True
    then show ?thesis using Cons.IH[of "child_nodes (ns ! j)"] Cons.prems by (simp add: children_at_def)
  next
    case False
    then show ?thesis using Cons.prems by (cases q) (simp_all add: children_at_def)
  qed
qed (simp add: children_at_def)

lemma element_of_children: "child_nodes n \<noteq> [] \<Longrightarrow> is_element n"
  by (cases n) auto

lemma children_at_element:
  "children_at ns (p @ [i]) \<noteq> [] \<Longrightarrow> i < length (children_at ns p) \<and> is_element (children_at ns p ! i)"
  by (auto simp: children_at_def[of ns "p @ [i]"] node_at_snoc Let_def intro: element_of_children split: if_splits option.splits)

lemma children_at_snoc: "node_at ns (p @ [i]) = Some n \<Longrightarrow> children_at ns (p @ [i]) = child_nodes n"
  by (simp add: children_at_def)

lemma text_of_simps [simp]: "text_of [] = []" "text_of (n # ns) = text_content n @ text_of ns"
  "text_of (ms @ ns) = text_of ms @ text_of ns"
  by (simp_all add: text_of_def)

lemma text_content_kids: "text_of (child_nodes n) = (if is_element n then text_content n else [])"
  by (cases n) (simp_all add: text_of_def)

text \<open>What a range through a node spells is what stands before the node and the node's own text, and it is a prefix of the document's.\<close>

lemma text_through_split:
  "node_at ns p = Some n \<Longrightarrow> text_through ns p = text_preceding ns p @ text_content n"
  by (induction ns p rule: node_at.induct) (auto split: if_splits)

lemma text_through_prefix: "prefix (text_through ns p) (text_of ns)"
proof (induction ns p rule: text_through.induct)
  case (2 ns i p)
  show ?case
  proof (cases "i < length ns")
    case True
    have s: "text_of ns = text_of (take i ns) @ text_content (ns ! i) @ text_of (drop (Suc i) ns)"
      using id_take_nth_drop[OF True] by (metis text_of_simps(2,3))
    have p: "prefix (text_through (child_nodes (ns ! i)) p) (text_content (ns ! i))" if "p \<noteq> []"
    proof -
      have "prefix (text_of (child_nodes (ns ! i))) (text_content (ns ! i))" by (simp add: text_content_kids)
      then show ?thesis using 2[OF True that] prefix_order.trans by blast
    qed
    show ?thesis unfolding s using True p by (auto simp: prefix_prefix)
  qed simp
qed simp

end
