(* ===== verification/ProgressMigration.thy ===== *)
theory ProgressMigration
  imports Dom
begin

text \<open>
  \<open>frontend/src/lib/epub/progressMigration.ts\<close>: reading positions stored by the previous engine, converted to locators of the current one and checked against
  the chapters. Chapters come from a parameter, as in the code; the serialized locator is kept as a record (its JSON text is not modelled). A stored percentage is a
  rational; the non-finite numbers, which the code treats as absent, are \<open>None\<close>.
\<close>

section \<open>Parsing\<close>

record cfi_step =
  cs_value :: nat
  cs_is_text :: bool
  cs_offset :: "nat option"

record foliate_cfi =
  fc_spine :: nat
  fc_steps :: "cfi_step list"

definition safe_nat :: "nat \<Rightarrow> bool" where
  "safe_nat n = (int n \<le> max_safe)"

definition make_step :: "nat \<Rightarrow> nat option \<Rightarrow> cfi_step" where
  "make_step v off = \<lparr>cs_value = v, cs_is_text = (v mod 2 = 1), cs_offset = off\<rparr>"

lemma tail_shorter [termination_simp]: "dropWhile P s = c # r \<Longrightarrow> length r < length s"
  using length_dropWhile_le[of P s] by simp

lemma offset_shorter [termination_simp]: "dropWhile P s = c # r \<Longrightarrow> length (dropWhile Q r) < Suc (length s)"
  using length_dropWhile_le[of P s] length_dropWhile_le[of Q r] by simp

fun parse_steps :: "string \<Rightarrow> cfi_step list option" where
  "parse_steps [] = Some []"
| "parse_steps (c # s) =
     (if c = CHR ''['' then (case index_of (CHR '']'') s of None \<Rightarrow> None | Some i \<Rightarrow> parse_steps (drop (Suc i) s))
      else if c \<noteq> CHR ''/'' then Some []
      else
        let digits = takeWhile is_digit s; v = nat_of_digits digits in
        if digits = [] then None
        else if \<not> safe_nat v \<or> v < 1 then None
        else (case dropWhile is_digit s of
            [] \<Rightarrow> Some [make_step v None]
          | d # r \<Rightarrow>
              if d = CHR '':'' then
                (let offset = takeWhile is_digit r in
                 if offset = [] then None
                 else if \<not> safe_nat (nat_of_digits offset) then None
                 else map_option ((#) (make_step v (Some (nat_of_digits offset)))) (parse_steps (dropWhile is_digit r)))
              else map_option ((#) (make_step v None)) (parse_steps (dropWhile is_digit s))))"

definition parse_foliate_cfi :: "string \<Rightarrow> foliate_cfi option" where
  "parse_foliate_cfi cfi =
     (let t = trim cfi; open_mark = ''epubcfi('' in
      if \<not> (starts_with t open_mark \<and> length open_mark < length t \<and> last t = CHR '')'') then None
      else
        let body = butlast (drop (length open_mark) t) in
        if CHR 0x0A \<in> set body \<or> CHR 0x0D \<in> set body then None
        else case index_of (CHR ''!'') body of
          None \<Rightarrow> None
        | Some bang \<Rightarrow>
            (case parse_steps (take bang body) of
               None \<Rightarrow> None
             | Some [] \<Rightarrow> None
             | Some spine_steps \<Rightarrow>
                 let item = last spine_steps in
                 if cs_is_text item \<or> cs_offset item \<noteq> None then None
                 else if cs_value item < 2 \<or> cs_value item mod 2 \<noteq> 0 then None
                 else
                   (case parse_steps (hd (split_on (CHR '','') (drop (Suc bang) body))) of
                      None \<Rightarrow> None
                    | Some steps \<Rightarrow> Some \<lparr>fc_spine = cs_value item div 2 - 1, fc_steps = steps\<rparr>)))"

section \<open>Rows, sources and targets\<close>

record foliate_row =
  fr_cfi :: "string option"
  fr_chapter_href :: "string option"
  fr_percent :: "rat option"

record progress_source =
  ps_spine :: "string list"
  ps_read_chapter :: "nat \<Rightarrow> document option"

record locator_text =
  lt_highlight :: string
  lt_before :: "string option"
  lt_after :: "string option"

record serialized_locator =
  sl_href :: string
  sl_fragments :: "string list option"
  sl_css_selector :: "string option"
  sl_progression :: "rat option"
  sl_text :: "locator_text option"

datatype locator_tier = Exact | Cfi | Spine | SpineProgression

datatype restore_target = AtLocator locator_tier serialized_locator | AtPercentage rat | AtBeginning

definition QUOTE_SPAN :: nat where "QUOTE_SPAN = 64"
definition QUOTE_CONTEXT :: nat where "QUOTE_CONTEXT = 40"

definition slice :: "nat \<Rightarrow> nat \<Rightarrow> 'a list \<Rightarrow> 'a list" where
  "slice i j xs = take (j - i) (drop i xs)"

definition bare_locator :: "string \<Rightarrow> serialized_locator" where
  "bare_locator href = \<lparr>sl_href = href, sl_fragments = None, sl_css_selector = None, sl_progression = None, sl_text = None\<rparr>"

definition clamp01 :: "rat \<Rightarrow> rat" where
  "clamp01 x = min (max x 0) 1"

section \<open>Resolving the steps in a chapter\<close>

definition element_indices :: "dnode list \<Rightarrow> nat list" where
  "element_indices ks = filter (\<lambda>i. is_element (ks ! i)) [0..<length ks]"

definition resolve_step :: "document \<Rightarrow> node_path \<Rightarrow> cfi_step \<Rightarrow> node_path option" where
  "resolve_step doc p step =
     (let kids = children_at doc p; elements = element_indices kids in
      if kids = [] then None
      else if cs_is_text step then
        (let index = (cs_value step - 1) div 2 in
         if length kids \<le> index
         then (if index < length elements then Some (p @ [elements ! index]) else None)
         else Some (p @ [index]))
      else
        (let index = cs_value step div 2 - 1 in
         if index < length elements then Some (p @ [elements ! index])
         else if length kids \<le> index then None
         else Some (p @ [index])))"

fun resolve_from :: "document \<Rightarrow> node_path \<Rightarrow> cfi_step list \<Rightarrow> node_path option" where
  "resolve_from doc p [] = Some p"
| "resolve_from doc p (s # ss) = (case resolve_step doc p s of None \<Rightarrow> None | Some q \<Rightarrow> resolve_from doc q ss)"

definition resolve_node :: "document \<Rightarrow> cfi_step list \<Rightarrow> node_path option" where
  "resolve_node doc steps = resolve_from doc [] steps"

definition resolve_element :: "document \<Rightarrow> cfi_step list \<Rightarrow> node_path option" where
  "resolve_element doc steps =
     (let element_steps = (if steps \<noteq> [] \<and> cs_is_text (last steps) then butlast steps else steps) in
      if element_steps = [] then None
      else case resolve_node doc element_steps of
        None \<Rightarrow> None
      | Some p \<Rightarrow> (case node_at doc p of Some n \<Rightarrow> if is_element n then Some p else None | None \<Rightarrow> None))"

section \<open>Locators\<close>

definition item_progression :: "document \<Rightarrow> node_path \<Rightarrow> rat" where
  "item_progression doc p =
     (let total_text = length (text_of doc) in
      if total_text = 0 then 0 else clamp01 (of_nat (length (text_through doc p)) / of_nat total_text))"

definition text_before :: "document \<Rightarrow> node_path \<Rightarrow> nat \<Rightarrow> string" where
  "text_before doc p max_chars =
     (let text = trim (text_through doc p) in drop (length text - max_chars) text)"

definition nth_of_type :: "dnode list \<Rightarrow> nat \<Rightarrow> nat" where
  "nth_of_type kids i = length (filter (\<lambda>n. is_element n \<and> tag_name n = tag_name (kids ! i)) (take (Suc i) kids))"

text \<open>The walk up from an element: each element below the root contributes its position among the siblings of its name, the root its bare name.\<close>

fun path_segments :: "document \<Rightarrow> node_path \<Rightarrow> nat list \<Rightarrow> (string \<times> nat option) list" where
  "path_segments doc p [] = []"
| "path_segments doc p (i # rest) =
     (let kids = children_at doc p; n = kids ! i in
      (tag_name n, if p = [] then None else Some (nth_of_type kids i)) # path_segments doc (p @ [i]) rest)"

definition segment_text :: "string \<times> nat option \<Rightarrow> string" where
  "segment_text s = (case s of (tag, None) \<Rightarrow> tag | (tag, Some k) \<Rightarrow> tag @ '':nth-of-type('' @ show_nat k @ '')'')"

definition css_path :: "document \<Rightarrow> node_path \<Rightarrow> string option" where
  "css_path doc p =
     (let segments = path_segments doc [] p in
      if segments = [] then None else Some ('':root > '' @ join_with '' > '' (map segment_text segments)))"

definition locate_element :: "node_path option \<Rightarrow> string \<Rightarrow> document \<Rightarrow> serialized_locator option" where
  "locate_element element href doc =
     (case element of
        None \<Rightarrow> None
      | Some p \<Rightarrow>
          (case node_at doc p of
             None \<Rightarrow> None
           | Some n \<Rightarrow>
               (case get_attribute ''id'' n of
                  Some (c # cs) \<Rightarrow> Some ((bare_locator href)\<lparr>sl_fragments := Some [c # cs]\<rparr>)
                | _ \<Rightarrow>
                    (let text = trim (text_content n) in
                     if 0 < length text
                     then Some ((bare_locator href)\<lparr>sl_text := Some
                        \<lparr>lt_highlight = take QUOTE_SPAN text, lt_before = Some (text_before doc p QUOTE_CONTEXT), lt_after = None\<rparr>\<rparr>)
                     else (case css_path doc p of
                             Some selector \<Rightarrow> Some ((bare_locator href)\<lparr>sl_css_selector := Some selector\<rparr>)
                           | None \<Rightarrow> None)))))"


section \<open>The tiers\<close>

definition strip_leading :: "string \<Rightarrow> string" where
  "strip_leading href =
     (if starts_with href ''./'' then drop 2 href else if starts_with href ''/'' then drop 1 href else href)"

fun find_index :: "('a \<Rightarrow> bool) \<Rightarrow> 'a list \<Rightarrow> nat option" where
  "find_index P [] = None"
| "find_index P (x # xs) = (if P x then Some 0 else map_option Suc (find_index P xs))"

definition match_spine_href :: "string \<Rightarrow> string list \<Rightarrow> nat option" where
  "match_spine_href href spine =
     (let needle = strip_leading href in
      case find_index (\<lambda>s. s = needle) spine of
        Some i \<Rightarrow> Some i
      | None \<Rightarrow> find_index (\<lambda>s. ends_with s (''/'' @ needle)) spine)"

definition spine_href :: "progress_source \<Rightarrow> nat \<Rightarrow> string option" where
  "spine_href source i = (if i < length (ps_spine source) then Some (ps_spine source ! i) else None)"

definition convert_exact :: "foliate_cfi \<Rightarrow> progress_source \<Rightarrow> serialized_locator option" where
  "convert_exact cfi source =
     (case ps_read_chapter source (fc_spine cfi) of
        None \<Rightarrow> None
      | Some doc \<Rightarrow>
          if fc_steps cfi = [] \<or> \<not> cs_is_text (last (fc_steps cfi)) then None
          else (case resolve_node doc (fc_steps cfi) of
             None \<Rightarrow> None
           | Some p \<Rightarrow>
               (case node_at doc p of
                  Some (TextNode text) \<Rightarrow>
                    (let offset = min (case cs_offset (last (fc_steps cfi)) of Some k \<Rightarrow> k | None \<Rightarrow> 0) (length text);
                         highlight = trim (slice offset (offset + QUOTE_SPAN) text) in
                     if highlight = [] then None
                     else (case spine_href source (fc_spine cfi) of
                        None \<Rightarrow> None
                      | Some href \<Rightarrow> Some ((bare_locator href)
                          \<lparr>sl_progression := Some (item_progression doc p),
                           sl_text := Some \<lparr>lt_highlight = highlight,
                             lt_before = Some (trim (slice (offset - QUOTE_CONTEXT) offset text)),
                             lt_after = Some (trim (slice (offset + QUOTE_SPAN) (offset + QUOTE_SPAN + QUOTE_CONTEXT) text))\<rparr>\<rparr>)))
                | _ \<Rightarrow> None)))"

definition convert_cfi_structure :: "foliate_cfi \<Rightarrow> progress_source \<Rightarrow> serialized_locator option" where
  "convert_cfi_structure cfi source =
     (case ps_read_chapter source (fc_spine cfi) of
        None \<Rightarrow> None
      | Some doc \<Rightarrow>
          (case spine_href source (fc_spine cfi) of
             None \<Rightarrow> None
           | Some href \<Rightarrow> locate_element (resolve_element doc (fc_steps cfi)) href doc))"

definition convert_spine_element :: "foliate_cfi option \<Rightarrow> nat option \<Rightarrow> progress_source \<Rightarrow> serialized_locator option" where
  "convert_spine_element cfi href_index source =
     (case (case href_index of Some i \<Rightarrow> Some i | None \<Rightarrow> map_option fc_spine cfi) of
        None \<Rightarrow> None
      | Some i \<Rightarrow>
          if length (ps_spine source) \<le> i then None
          else (case (ps_read_chapter source i, cfi) of
             (Some doc, Some c) \<Rightarrow> locate_element (resolve_element doc (fc_steps c)) (ps_spine source ! i) doc
           | _ \<Rightarrow> None))"

definition convert_spine_progression :: "nat option \<Rightarrow> rat option \<Rightarrow> string list \<Rightarrow> serialized_locator option" where
  "convert_spine_progression index percent spine =
     (case index of
        None \<Rightarrow> None
      | Some i \<Rightarrow>
          if length spine \<le> i then None
          else Some ((bare_locator (spine ! i))\<lparr>sl_progression := Some
            (case percent of Some q \<Rightarrow> clamp01 (q / 100 * of_nat (length spine) - of_nat i) | None \<Rightarrow> 0)\<rparr>))"

definition present :: "string option \<Rightarrow> string option" where
  "present s = (case s of Some t \<Rightarrow> if trim t = [] then None else Some t | None \<Rightarrow> None)"

fun first_some :: "'a option list \<Rightarrow> 'a option" where
  "first_some [] = None"
| "first_some (None # xs) = first_some xs"
| "first_some (Some x # xs) = Some x"

definition convert_foliate_row :: "foliate_row \<Rightarrow> progress_source \<Rightarrow> restore_target" where
  "convert_foliate_row row source =
     (let cfi = present (fr_cfi row);
          chapter_href = present (fr_chapter_href row);
          parsed = (case cfi of Some s \<Rightarrow> parse_foliate_cfi s | None \<Rightarrow> None);
          href_index = (case chapter_href of Some h \<Rightarrow> match_spine_href h (ps_spine source) | None \<Rightarrow> None);
          tiers =
            (case parsed of
               Some c \<Rightarrow> [map_option (AtLocator Exact) (convert_exact c source),
                          map_option (AtLocator Cfi) (convert_cfi_structure c source)]
             | None \<Rightarrow> [])
            @ (if parsed \<noteq> None \<or> href_index \<noteq> None
               then [map_option (AtLocator Spine) (convert_spine_element parsed href_index source),
                     map_option (AtLocator SpineProgression)
                       (convert_spine_progression (case parsed of Some c \<Rightarrow> Some (fc_spine c) | None \<Rightarrow> href_index)
                          (fr_percent row) (ps_spine source))]
               else []) in
      case first_some tiers of
        Some target \<Rightarrow> target
      | None \<Rightarrow>
          if cfi = None \<and> chapter_href = None
          then AtPercentage (case fr_percent row of Some q \<Rightarrow> clamp01 (q / 100) | None \<Rightarrow> 0)
          else AtBeginning)"

section \<open>Converted positions are valid\<close>

definition locator_fits :: "progress_source \<Rightarrow> serialized_locator \<Rightarrow> bool" where
  "locator_fits source l \<longleftrightarrow> sl_href l \<in> set (ps_spine source)
     \<and> (\<forall>q. sl_progression l = Some q \<longrightarrow> 0 \<le> q \<and> q \<le> 1)
     \<and> (\<forall>t. sl_text l = Some t \<longrightarrow> lt_highlight t \<noteq> [] \<and> length (lt_highlight t) \<le> 64)
     \<and> (\<forall>fs. sl_fragments l = Some fs \<longrightarrow> (\<exists>i doc p n f. ps_read_chapter source i = Some doc \<and> node_at doc p = Some n
            \<and> get_attribute ''id'' n = Some f \<and> fs = [f]))"

lemma clamp01_range: "0 \<le> clamp01 x \<and> clamp01 x \<le> 1"
  by (simp add: clamp01_def)

lemma trim_length: "length (trim s) \<le> length s"
  unfolding trim_def by (metis length_dropWhile_le length_rev order_trans)

lemma trim_slice_length [simp]: "length (trim (slice k (k + n) t)) \<le> n" "length (trim (slice 0 n t)) \<le> n"
  using trim_length[of "slice k (k + n) t"] trim_length[of "slice 0 n t"] by (simp_all add: slice_def)

lemma item_progression_range: "0 \<le> item_progression doc p \<and> item_progression doc p \<le> 1"
  by (simp add: item_progression_def clamp01_range Let_def)

lemma exact_fits: "convert_exact c source = Some l \<Longrightarrow> locator_fits source l"
  by (auto simp: convert_exact_def Let_def QUOTE_SPAN_def spine_href_def bare_locator_def locator_fits_def item_progression_range
      split: option.splits if_splits dnode.splits)

lemma locate_fits:
  assumes "locate_element e href doc = Some l" "href \<in> set (ps_spine source)" "ps_read_chapter source i = Some doc"
  shows "locator_fits source l"
  using assms
  by (fastforce simp: locate_element_def Let_def QUOTE_SPAN_def bare_locator_def locator_fits_def
      split: option.splits list.splits if_splits)

lemma structure_fits: "convert_cfi_structure c source = Some l \<Longrightarrow> locator_fits source l"
  using locate_fits by (auto simp: convert_cfi_structure_def spine_href_def split: option.splits if_splits)

lemma spine_element_fits: "convert_spine_element c i source = Some l \<Longrightarrow> locator_fits source l"
  using locate_fits by (auto simp: convert_spine_element_def split: option.splits if_splits)

lemma progression_fits:
  "convert_spine_progression i q (ps_spine source) = Some l \<Longrightarrow> locator_fits source l"
  by (auto simp: convert_spine_progression_def bare_locator_def locator_fits_def clamp01_range split: option.splits if_splits)

lemma first_some_in: "first_some xs = Some x \<Longrightarrow> Some x \<in> set xs"
  by (induction xs rule: first_some.induct) auto

lemma Some_eq_map: "(Some x = map_option f y) = (\<exists>z. y = Some z \<and> x = f z)"
  by (cases y) auto


definition demo_source :: progress_source where
  "demo_source = \<lparr>ps_spine = [''O/c1.xhtml'', ''O/c2.xhtml'', ''O/c3.xhtml''], ps_read_chapter = (\<lambda>i. None)\<rparr>"

definition demo_row :: foliate_row where
  "demo_row = \<lparr>fr_cfi = None, fr_chapter_href = Some ''c3.xhtml'', fr_percent = Some 75\<rparr>"

lemma demo_row_converted:
  "convert_foliate_row demo_row demo_source = AtLocator SpineProgression ((bare_locator ''O/c3.xhtml'')\<lparr>sl_progression := Some (1 / 4)\<rparr>)"
proof -
  have "match_spine_href ''c3.xhtml'' [''O/c1.xhtml'', ''O/c2.xhtml'', ''O/c3.xhtml''] = Some 2" by code_simp
  moreover have "trim ''c3.xhtml'' = ''c3.xhtml''" by code_simp
  moreover have "clamp01 (75 / 100 * 3 - 2) = 1 / 4" by code_simp
  ultimately show ?thesis
    by (simp add: convert_foliate_row_def demo_row_def demo_source_def present_def convert_spine_element_def convert_spine_progression_def
        numeral_2_eq_2)
qed


section \<open>CFIs read back\<close>

type_synonym asserted_step = "cfi_step \<times> string option"

definition print_step :: "asserted_step \<Rightarrow> string" where
  "print_step sa =
     ''/'' @ show_nat (cs_value (fst sa)) @ (case cs_offset (fst sa) of Some k \<Rightarrow> '':'' @ show_nat k | None \<Rightarrow> [])
     @ (case snd sa of Some a \<Rightarrow> ''['' @ a @ '']'' | None \<Rightarrow> [])"

definition print_cfi :: "nat \<Rightarrow> asserted_step list \<Rightarrow> string \<Rightarrow> string" where
  "print_cfi spine steps range_tail =
     ''epubcfi(/6/'' @ show_nat (2 * (spine + 1)) @ ''!'' @ concat (map print_step steps) @ range_tail @ '')''"

definition step_ok :: "asserted_step \<Rightarrow> bool" where
  "step_ok sa \<longleftrightarrow> fst sa = make_step (cs_value (fst sa)) (cs_offset (fst sa)) \<and> 1 \<le> cs_value (fst sa) \<and> safe_nat (cs_value (fst sa))
     \<and> (case cs_offset (fst sa) of Some k \<Rightarrow> safe_nat k | None \<Rightarrow> True)
     \<and> (case snd sa of Some a \<Rightarrow> set a \<inter> {CHR '']'', CHR '','', CHR 0x0A, CHR 0x0D} = {} | None \<Rightarrow> True)"

lemma digits_span:
  assumes "all_digits a" "x = [] \<or> \<not> is_digit (hd x)"
  shows "takeWhile is_digit (a @ x) = a" "dropWhile is_digit (a @ x) = x"
  using assms by (induction a) (auto simp: all_digits_def takeWhile_eq_Nil_iff dropWhile_eq_self_iff)

lemma marks [simp]: "\<not> is_digit (CHR ''/'')" "\<not> is_digit (CHR ''['')" "\<not> is_digit (CHR '':'')" "\<not> is_digit (CHR ''!'')"
  "\<not> is_digit (CHR '','')" "\<not> is_digit (CHR '')'')" "\<not> is_digit (CHR '']'')" "\<not> is_digit (CHR 0x0A)" "\<not> is_digit (CHR 0x0D)"
  by (simp_all add: is_digit_def code_of_def)

lemma index_of_here: "x \<notin> set a \<Longrightarrow> index_of x (a @ x # r) = Some (length a)"
  unfolding index_of_def by (induction a) auto

declare parse_steps.simps(2) [simp del]

lemma parse_assertion: "CHR '']'' \<notin> set a \<Longrightarrow> parse_steps (''['' @ a @ '']'' @ r) = parse_steps r"
  by (simp add: index_of_here parse_steps.simps(2))

lemma parse_slash:
  "parse_steps (CHR ''/'' # s) =
     (let v = nat_of_digits (takeWhile is_digit s) in
      if takeWhile is_digit s = [] then None
      else if \<not> safe_nat v \<or> v < 1 then None
      else (case dropWhile is_digit s of
          [] \<Rightarrow> Some [make_step v None]
        | d # r \<Rightarrow>
            if d = CHR '':''
            then (if takeWhile is_digit r = [] then None
                  else if \<not> safe_nat (nat_of_digits (takeWhile is_digit r)) then None
                  else map_option ((#) (make_step v (Some (nat_of_digits (takeWhile is_digit r))))) (parse_steps (dropWhile is_digit r)))
            else map_option ((#) (make_step v None)) (parse_steps (dropWhile is_digit s))))"
  unfolding parse_steps.simps(2) Let_def by simp

lemma parse_slash_known:
  assumes "takeWhile is_digit s = show_nat v" "dropWhile is_digit s = x" "1 \<le> v" "safe_nat v"
  shows "parse_steps (CHR ''/'' # s) =
     (case x of
        [] \<Rightarrow> Some [make_step v None]
      | d # r \<Rightarrow>
          if d = CHR '':''
          then (if takeWhile is_digit r = [] then None
                else if \<not> safe_nat (nat_of_digits (takeWhile is_digit r)) then None
                else map_option ((#) (make_step v (Some (nat_of_digits (takeWhile is_digit r))))) (parse_steps (dropWhile is_digit r)))
          else map_option ((#) (make_step v None)) (parse_steps x))"
  unfolding parse_slash assms(1,2) Let_def nat_of_digits_show using assms(3,4) by (simp del: show_nat.simps)

lemma parse_step_digits:
  assumes "1 \<le> v" "safe_nat v" "r = [] \<or> hd r = CHR ''/'' \<or> hd r = CHR ''[''"
  shows "parse_steps (''/'' @ show_nat v @ r) = map_option ((#) (make_step v None)) (parse_steps r)"
proof -
  have r: "r = [] \<or> \<not> is_digit (hd r)" "r \<noteq> [] \<Longrightarrow> hd r \<noteq> CHR '':''" using assms(3) by auto
  show ?thesis
    using parse_slash_known[OF digits_span[OF show_nat_digits r(1)] assms(1,2)] r(2) by (cases r) simp_all
qed

lemma parse_step_offset:
  assumes "1 \<le> v" "safe_nat v" "safe_nat k" "r = [] \<or> hd r = CHR ''/'' \<or> hd r = CHR ''[''"
  shows "parse_steps (''/'' @ show_nat v @ '':'' @ show_nat k @ r) = map_option ((#) (make_step v (Some k))) (parse_steps r)"
proof -
  have r: "r = [] \<or> \<not> is_digit (hd r)" using assms(4) by auto
  have s: "takeWhile is_digit (show_nat v @ '':'' @ x) = show_nat v" "dropWhile is_digit (show_nat v @ '':'' @ x) = '':'' @ x" for x
    by (rule digits_span; simp)+
  show ?thesis
    using assms(1-3) s[of "show_nat k @ r"] digits_span[OF show_nat_digits r, of k]
    by (simp add: parse_slash Let_def del: show_nat.simps)
qed

lemma parse_printed: "\<forall>sa\<in>set steps. step_ok sa \<Longrightarrow> parse_steps (concat (map print_step steps)) = Some (map fst steps)"
proof (induction steps)
  case (Cons sa steps)
  obtain s a where sa: "sa = (s, a)" by force
  let ?r = "concat (map print_step steps)"
  let ?a = "case a of Some t \<Rightarrow> ''['' @ t @ '']'' | None \<Rightarrow> []"
  have ok: "step_ok (s, a)" using Cons.prems sa by simp
  have b: "?r = [] \<or> hd ?r = CHR ''/''" by (cases steps) (simp_all add: print_step_def)
  then have h: "?a @ ?r = [] \<or> hd (?a @ ?r) = CHR ''/'' \<or> hd (?a @ ?r) = CHR ''[''" by (auto split: option.split)
  have tail: "parse_steps (?a @ ?r) = Some (map fst steps)"
    using Cons ok parse_assertion by (auto simp: step_ok_def split: option.splits)
  have "parse_steps (print_step (s, a) @ ?r) = Some (s # map fst steps)"
  proof (cases "cs_offset s")
    case None
    then show ?thesis using parse_step_digits[OF _ _ h, of "cs_value s"] ok tail by (simp add: step_ok_def print_step_def)
  next
    case (Some k)
    then show ?thesis using parse_step_offset[OF _ _ _ h, of "cs_value s" k] ok tail by (simp add: step_ok_def print_step_def)
  qed
  then show ?case by (simp add: sa)
qed simp

lemma printed_chars:
  assumes "\<forall>sa\<in>set steps. step_ok sa" "x \<in> {CHR '','', CHR 0x0A, CHR 0x0D}"
  shows "x \<notin> set (concat (map print_step steps))"
proof -
  have d: "x \<notin> set (show_nat n)" for n
    using show_nat_digits[of n] assms(2) by (auto simp: all_digits_def list_all_iff simp del: show_nat_digits show_nat.simps)
  have "x \<notin> set (print_step sa)" if "step_ok sa" for sa
    using that assms(2) d by (auto simp: print_step_def step_ok_def split: option.splits simp del: show_nat.simps)
  then show ?thesis using assms(1) by auto
qed




section \<open>Selectors\<close>

text \<open>What a browser selects for a chain of child combinators below a node: one element per segment, of that name and, when the segment says so, in that
  place among the siblings of its name.\<close>

fun chain_matches :: "document \<Rightarrow> node_path \<Rightarrow> (string \<times> nat option) list \<Rightarrow> nat list \<Rightarrow> bool" where
  "chain_matches doc base [] [] = True"
| "chain_matches doc base ((tag, place) # segs) (i # rest) =
     (i < length (children_at doc base) \<and> is_element (children_at doc base ! i) \<and> tag_name (children_at doc base ! i) = tag
      \<and> (case place of None \<Rightarrow> True | Some k \<Rightarrow> nth_of_type (children_at doc base) i = k)
      \<and> chain_matches doc (base @ [i]) segs rest)"
| "chain_matches doc base segs path = False"

text \<open>\<open>:root > s1 > ... > sn\<close>: the chain starts at a child of the root element.\<close>

definition root_selects :: "document \<Rightarrow> (string \<times> nat option) list \<Rightarrow> node_path \<Rightarrow> bool" where
  "root_selects doc segs p \<longleftrightarrow>
     (case p of [] \<Rightarrow> False | r # rest \<Rightarrow> r < length doc \<and> is_element (doc ! r) \<and> chain_matches doc [r] segs rest)"

lemma nth_of_type_step:
  assumes "i < j" "j < length ks" "is_element (ks ! j)" "tag_name (ks ! i) = tag_name (ks ! j)"
  shows "nth_of_type ks i < nth_of_type ks j"
proof -
  let ?f = "filter (\<lambda>n. is_element n \<and> tag_name n = tag_name (ks ! j))"
  have t: "take (Suc j) ks = take j ks @ [ks ! j]" using assms(2) by (rule take_Suc_conv_app_nth)
  have "take j ks = take (Suc i) ks @ drop (Suc i) (take j ks)"
    using assms(1) by (metis append_take_drop_id min.absorb1 Suc_leI take_take)
  then have "length (?f (take (Suc i) ks)) \<le> length (?f (take j ks))" by (metis filter_append le_add1 length_append)
  then show ?thesis using assms(3,4) by (simp add: nth_of_type_def t)
qed

lemma nth_of_type_inj:
  assumes "nth_of_type ks i = nth_of_type ks j" "tag_name (ks ! i) = tag_name (ks ! j)"
    "i < length ks" "j < length ks" "is_element (ks ! i)" "is_element (ks ! j)"
  shows "i = j"
  using nth_of_type_step[of i j ks] nth_of_type_step[of j i ks] assms by (metis less_irrefl linorder_neqE_nat)

lemma chain_exact:
  assumes "node_at doc (base @ q) = Some n" "is_element n" "base \<noteq> []"
  shows "chain_matches doc base (path_segments doc base q) q' \<longleftrightarrow> q' = q"
  using assms
proof (induction q arbitrary: base q')
  case Nil
  then show ?case by (cases q') simp_all
next
  case (Cons i q)
  let ?ks = "children_at doc base"
  have at: "node_at doc ((base @ [i]) @ q) = Some n" using Cons.prems(1) by simp
  have here: "i < length ?ks \<and> is_element (?ks ! i)"
  proof (cases q)
    case Nil
    then show ?thesis using at Cons.prems(2) by (simp add: node_at_snoc Let_def split: if_splits)
  next
    case (Cons j r)
    then have "node_at (children_at doc (base @ [i])) q = Some n" using at node_at_append[of q doc "base @ [i]"] by (metis list.distinct(1))
    then have "children_at doc (base @ [i]) \<noteq> []" using Cons by auto
    then show ?thesis by (rule children_at_element)
  qed
  show ?case
  proof (cases q')
    case (Cons j r)
    then show ?thesis
      using here Cons.IH[OF at Cons.prems(2), of r] Cons.prems(3) nth_of_type_inj[of ?ks j i]
      by (auto simp: Let_def)
  qed (simp add: Let_def)
qed


text \<open>The position chain of an element names that element and no other: read below the root, the part of the selector after the root's own segment matches
  exactly the element it was made for. But the emitted selector repeats the root's name after \<open>:root >\<close>, so it selects nothing at all unless the
  root has a child of its own name, which an \<open>html\<close> element never has.\<close>

theorem css_path_identifies_but_misses:
  assumes "node_at doc (r # q) = Some n" and "is_element n" and "is_element (doc ! r)"
  shows "css_path doc (r # q) = Some ('':root > '' @ join_with '' > '' (map segment_text (path_segments doc [] (r # q))))
    \<and> path_segments doc [] (r # q) = (tag_name (doc ! r), None) # path_segments doc [r] q
    \<and> (\<forall>q'. root_selects doc (path_segments doc [r] q) (r # q') \<longleftrightarrow> q' = q)
    \<and> ((\<forall>s\<in>set doc. \<forall>k\<in>set (child_nodes s). is_element k \<longrightarrow> tag_name k \<noteq> tag_name (doc ! r)) \<longrightarrow>
         (\<forall>p'. \<not> root_selects doc (path_segments doc [] (r # q)) p'))"
proof -
  have seg: "path_segments doc [] (r # q) = (tag_name (doc ! r), None) # path_segments doc [r] q"
    by (simp add: children_at_def Let_def)
  have r: "r < length doc" using assms(1) by (auto split: if_splits)
  have exact: "root_selects doc (path_segments doc [r] q) (r # q') \<longleftrightarrow> q' = q" for q'
    using chain_exact[of doc "[r]" q n q'] assms r by (simp add: root_selects_def)
  have "\<not> root_selects doc (path_segments doc [] (r # q)) p'"
    if none: "\<forall>s\<in>set doc. \<forall>k\<in>set (child_nodes s). is_element k \<longrightarrow> tag_name k \<noteq> tag_name (doc ! r)" for p'
  proof
    assume m: "root_selects doc (path_segments doc [] (r # q)) p'"
    then obtain r' rest where p': "p' = r' # rest" by (cases p') (simp_all add: root_selects_def)
    with m have r': "r' < length doc" and c: "chain_matches doc [r'] ((tag_name (doc ! r), None) # path_segments doc [r] q) rest"
      unfolding seg by (simp_all add: root_selects_def)
    from c obtain i rest' where "rest = i # rest'" by (cases rest) simp_all
    with c have "i < length (children_at doc [r'])" "is_element (children_at doc [r'] ! i)" "tag_name (children_at doc [r'] ! i) = tag_name (doc ! r)"
      by simp_all
    moreover have "children_at doc [r'] = child_nodes (doc ! r')" using r' by (simp add: children_at_def)
    ultimately show False using none r' by (metis nth_mem)
  qed
  then show ?thesis using seg exact by (simp add: css_path_def Let_def del: path_segments.simps)
qed

definition mark_chapter :: document where
  "mark_chapter = [OtherNode, Element ''html'' [] [Element ''head'' [] [], Element ''body'' [] [Element ''p'' [] [TextNode ''one''], Element ''hr'' [] []]]]"

theorem css_path_identifies_but_misses_witness:
  "css_path mark_chapter [1, 1, 1] = Some '':root > html > body:nth-of-type(1) > hr:nth-of-type(1)''
    \<and> \<not> root_selects mark_chapter (path_segments mark_chapter [] [1, 1, 1]) [1, 1, 1]"
proof -
  have n: "node_at mark_chapter [1, 1, 1] = Some (Element ''hr'' [] [])" "is_element (mark_chapter ! 1)" "tag_name (mark_chapter ! 1) = ''html''"
    "\<forall>s\<in>set mark_chapter. \<forall>k\<in>set (child_nodes s). is_element k \<longrightarrow> tag_name k \<noteq> ''html''"
    by (simp_all add: mark_chapter_def)
  have "css_path mark_chapter [1, 1, 1] = Some '':root > html > body:nth-of-type(1) > hr:nth-of-type(1)''" by code_simp
  moreover have "\<not> root_selects mark_chapter (path_segments mark_chapter [] [1, 1, 1]) [1, 1, 1]"
    using css_path_identifies_but_misses[OF n(1) _ n(2)] n(4) unfolding n(3) by (meson is_element.simps(1))
  ultimately show ?thesis by blast
qed

section \<open>Where the walk starts\<close>

lemma element_indices_Cons [simp]:
  "element_indices [] = []"
  "element_indices (n # ns) = (if is_element n then [0] else []) @ map Suc (element_indices ns)"
proof -
  have "filter (\<lambda>i. is_element ((n # ns) ! i)) (map Suc [0..<length ns]) = map Suc (element_indices ns)"
    by (simp add: filter_map o_def element_indices_def)
  then show "element_indices (n # ns) = (if is_element n then [0] else []) @ map Suc (element_indices ns)"
    by (simp add: element_indices_def upt_conv_Cons map_Suc_upt del: upt_Suc)
qed (simp add: element_indices_def)

text \<open>The steps of a CFI after \<open>!\<close> count from the root element. The walk starts at the document instead: with a doctype before the root the step \<open>/4\<close>, which means the
  body, is spent on reaching the root, and the next one counts the root's children, so \<open>/4/2\<close> resolves to the head; without a doctype \<open>/4\<close> resolves to nothing.\<close>

lemma cfi_walk_starts_at_document:
  assumes "doc = [OtherNode, Element t as (Element h hs hks # ks)]"
  shows "resolve_element doc [make_step 4 None, make_step 2 None] = Some [1, 0]"
    and "resolve_node [Element t as (Element h hs hks # ks)] (make_step 4 None # steps) = None"
proof -
  show "resolve_element doc [make_step 4 None, make_step 2 None] = Some [1, 0]"
    by (simp add: assms resolve_element_def resolve_node_def resolve_step_def children_at_def make_step_def element_indices_Cons Let_def)
  show "resolve_node [Element t as (Element h hs hks # ks)] (make_step 4 None # steps) = None"
    by (simp add: resolve_node_def resolve_step_def children_at_def make_step_def element_indices_Cons Let_def)
qed

text \<open>The element-only fallback of a text step can never apply: there are never more elements than children.\<close>

lemma text_step_plain:
  assumes "cs_is_text step"
  shows "resolve_step doc p step =
    (let i = (cs_value step - 1) div 2 in if i < length (children_at doc p) then Some (p @ [i]) else None)"
proof -
  have "length (element_indices (children_at doc p)) \<le> length (children_at doc p)"
    unfolding element_indices_def by (metis diff_zero length_filter_le length_upt)
  then show ?thesis using assms by (auto simp: resolve_step_def Let_def)
qed

text \<open>The context stored before a quote ends with the quoted element's own text, since the range it is taken from ends after the element.\<close>

lemma quote_context_is_own_text:
  assumes "node_at doc p = Some n" "k \<le> length (text_content n)" "text_content n \<noteq> []"
    "\<not> is_space (hd (text_content n))" "\<not> is_space (last (text_content n))"
  shows "text_before doc p k = drop (length (text_content n) - k) (text_content n)"
proof -
  let ?own = "text_content n" and ?pre = "text_preceding doc p"
  have "\<exists>y. dropWhile is_space (?pre @ ?own) = y @ ?own"
  proof (cases "\<forall>c\<in>set ?pre. is_space c")
    case True
    then have "dropWhile is_space (?pre @ ?own) = dropWhile is_space ?own" by (simp add: dropWhile_append2)
    then show ?thesis using assms(3,4) by (cases ?own) simp_all
  next
    case False
    then show ?thesis by (metis dropWhile_append1)
  qed
  then obtain y where y: "dropWhile is_space (?pre @ ?own) = y @ ?own" by blast
  have "dropWhile is_space (rev (y @ ?own)) = rev (y @ ?own)"
    using assms(3,5) by (cases ?own rule: rev_cases) simp_all
  then have "trim (text_through doc p) = y @ ?own"
    by (simp only: trim_def text_through_split[OF assms(1)] y rev_rev_ident)
  then show ?thesis using assms(2) by (simp add: text_before_def Let_def)
qed

end
