(* ===== verification/ContentPolicy.thy ===== *)
theory ContentPolicy
  imports Dom PathSchema
begin

text \<open>
  \<open>frontend/src/lib/epub/contentPolicy.ts\<close>: what the content of a publication may do. Documents are the trees of the theory \<open>Dom\<close>; the browser's parsers,
  serializers, decoders and URL parser are parameters. The regular expressions are written out as the searches they are.
\<close>

section \<open>Searching text\<close>

text \<open>The leftmost position where a pattern applies, and what it yields there.\<close>

fun first_match :: "(string \<Rightarrow> 'a option) \<Rightarrow> string \<Rightarrow> (nat \<times> 'a) option" where
  "first_match f [] = map_option (Pair 0) (f [])"
| "first_match f (c # s) =
     (case f (c # s) of Some x \<Rightarrow> Some (0, x) | None \<Rightarrow> map_option (\<lambda>(i, x). (Suc i, x)) (first_match f s))"

definition is_quote :: "char \<Rightarrow> bool" where
  "is_quote c = (c = CHR 0x22 \<or> c = CHR 0x27)"

definition is_word_char :: "char \<Rightarrow> bool" where
  "is_word_char c = (is_digit c \<or> is_alpha c \<or> c = CHR ''_'')"

text \<open>A name, an equals sign with spaces around it, and a quoted value: the value, and the length of the whole.\<close>

definition quoted_attribute :: "string \<Rightarrow> string \<Rightarrow> (string \<times> nat) option" where
  "quoted_attribute name s =
     (if \<not> starts_with s name then None
      else let r = dropWhile is_space (drop (length name) s) in
        if r = [] \<or> hd r \<noteq> CHR ''='' then None
        else let q = dropWhile is_space (tl r) in
          if q = [] \<or> \<not> is_quote (hd q) then None
          else let v = takeWhile (\<lambda>c. \<not> is_quote c) (tl q) in
            if length (tl q) = length v then None else Some (v, length s - length (tl q) + length v + 1))"

text \<open>\<open><?xml ... ?>\<close> with no \<open>></\<close> inside.\<close>

definition xml_prolog :: "string \<Rightarrow> string option" where
  "xml_prolog s =
     (if \<not> starts_with s ''<?xml'' then None
      else let a = takeWhile (\<lambda>c. c \<noteq> CHR ''>'') (drop 5 s) in
        if length a = length (drop 5 s) \<or> a = [] \<or> last a \<noteq> CHR ''?'' then None else Some (''<?xml'' @ a @ ''>''))"

text \<open>The end of a tag that starts here, \<open><name\<close> and a word boundary up to the first \<open>></\<close>.\<close>

definition tag_length :: "string \<Rightarrow> string \<Rightarrow> nat option" where
  "tag_length name s =
     (let opening = CHR ''<'' # name; r = drop (length opening) s; a = takeWhile (\<lambda>c. c \<noteq> CHR ''>'') r in
      if starts_with (to_lower s) opening \<and> r \<noteq> [] \<and> \<not> is_word_char (hd r) \<and> length a < length r
      then Some (length opening + length a + 1) else None)"

section \<open>The frame policy and content types\<close>

definition sq :: "string \<Rightarrow> string" where
  "sq w = CHR 0x27 # w @ [CHR 0x27]"

definition PUBLICATION_FRAME_CSP :: string where
  "PUBLICATION_FRAME_CSP = join_with ''; ''
     [''default-src '' @ sq ''none'', ''script-src blob:'', ''style-src tuxbooks: blob: data: '' @ sq ''unsafe-inline'',
      ''img-src tuxbooks: blob: data:'', ''font-src tuxbooks: blob: data:'', ''media-src tuxbooks: blob: data:'',
      ''connect-src '' @ sq ''none'', ''object-src '' @ sq ''none'', ''frame-src '' @ sq ''none'', ''child-src '' @ sq ''none'',
      ''worker-src blob:'', ''form-action '' @ sq ''none'', ''base-uri tuxbooks:'']"

definition SANITIZABLE_CONTENT_TYPES :: "string list" where
  "SANITIZABLE_CONTENT_TYPES = [''application/xhtml+xml'', ''text/html'', ''image/svg+xml'']"

definition is_sanitizable_content_type :: "string option \<Rightarrow> bool" where
  "is_sanitizable_content_type ct =
     (case ct of None \<Rightarrow> False | Some t \<Rightarrow> to_lower (trim (hd (split_on (CHR '';'') t))) \<in> set SANITIZABLE_CONTENT_TYPES)"

definition xhtml_namespace :: "string \<Rightarrow> unit option" where
  "xhtml_namespace s =
     (case quoted_attribute ''xmlns'' s of
        Some (v, n) \<Rightarrow> if v = ''http://www.w3.org/1999/xhtml'' then Some () else None
      | None \<Rightarrow> None)"

definition looks_like_xml :: "string \<Rightarrow> bool" where
  "looks_like_xml text =
     (let top = take 1024 text in
      xml_prolog (take 128 (dropWhile is_space text)) \<noteq> None
      \<or> (contains top ''<!DOCTYPE'' \<and> contains (to_lower top) ''xhtml'')
      \<or> first_match xhtml_namespace top \<noteq> None)"

definition encoding_here :: "string \<Rightarrow> (string \<times> nat) option" where
  "encoding_here s = (case quoted_attribute ''encoding'' s of Some (v, n) \<Rightarrow> if v = [] then None else Some (v, n) | None \<Rightarrow> None)"

definition declared_encoding :: "string \<Rightarrow> string option" where
  "declared_encoding text =
     (case xml_prolog text of
        None \<Rightarrow> None
      | Some prolog \<Rightarrow> (case first_match encoding_here prolog of Some (i, v, n) \<Rightarrow> Some v | None \<Rightarrow> None))"

section \<open>Active content\<close>

definition ACTIVE_URL_ATTRIBUTES :: "string list" where
  "ACTIVE_URL_ATTRIBUTES = [''href'', ''src'', ''action'', ''formaction'', ''poster'']"

definition REMOVED_ELEMENTS :: "string list" where
  "REMOVED_ELEMENTS = [''object'', ''embed'', ''iframe'', ''frame'', ''frameset'', ''base'']"

definition has_script_scheme :: "string \<Rightarrow> bool" where
  "has_script_scheme value =
     (let trimmed = to_lower (trim value) in starts_with trimmed ''javascript:'' \<or> starts_with trimmed ''vbscript:'')"

definition active_attribute :: "attribute \<Rightarrow> bool" where
  "active_attribute a \<longleftrightarrow> starts_with (to_lower (attr_name a)) ''on''
     \<or> attr_local a \<in> set ACTIVE_URL_ATTRIBUTES \<and> has_script_scheme (attr_value a)"

definition refresh_meta :: "string \<Rightarrow> attribute list \<Rightarrow> bool" where
  "refresh_meta t as \<longleftrightarrow> t = ''meta''
     \<and> (case find (\<lambda>a. attr_name a = ''http-equiv'') as of Some a \<Rightarrow> to_lower (trim (attr_value a)) = ''refresh'' | None \<Rightarrow> False)"

definition use_target :: "attribute list \<Rightarrow> string" where
  "use_target as =
     (case find (\<lambda>a. attr_name a = ''href'') as of
        Some a \<Rightarrow> attr_value a
      | None \<Rightarrow> (case find (\<lambda>a. attr_name a = ''xlink:href'') as of Some a \<Rightarrow> attr_value a | None \<Rightarrow> []))"

definition external_use :: "string \<Rightarrow> attribute list \<Rightarrow> bool" where
  "external_use t as \<longleftrightarrow> t = ''use'' \<and> \<not> starts_with (trim (use_target as)) ''#''"

text \<open>One pass of \<open>querySelectorAll\<close> that removes what it finds, and whether it finds anything.\<close>

fun prune :: "(string \<Rightarrow> attribute list \<Rightarrow> bool) \<Rightarrow> dnode \<Rightarrow> dnode list" where
  "prune P (Element t as ks) = (if P t as then [] else [Element t as (concat (map (prune P) ks))])"
| "prune P n = [n]"

fun has_element :: "(string \<Rightarrow> attribute list \<Rightarrow> bool) \<Rightarrow> dnode \<Rightarrow> bool" where
  "has_element P (Element t as ks) = (P t as \<or> list_ex (has_element P) ks)"
| "has_element P n = False"

definition prune_all :: "(string \<Rightarrow> attribute list \<Rightarrow> bool) \<Rightarrow> dnode list \<Rightarrow> dnode list" where
  "prune_all P ns = concat (map (prune P) ns)"

text \<open>The pass over the active elements, outermost first: an \<open>object\<close> is replaced by its children without the \<open>param\<close>s anywhere below it, the others go with
  all they hold. The flag says that an \<open>object\<close> stood above.\<close>

fun neutralize :: "bool \<Rightarrow> dnode \<Rightarrow> dnode list" where
  "neutralize in_object (Element t as ks) =
     (if in_object \<and> t = ''param'' then []
      else if t = ''object'' then concat (map (neutralize True) ks)
      else if t \<in> set REMOVED_ELEMENTS then []
      else [Element t as (concat (map (neutralize in_object) ks))])"
| "neutralize in_object n = [n]"

text \<open>On the root itself \<open>replaceWith\<close> throws when the children would leave text or a second element at the top of the document.\<close>

fun append_some :: "'a list option list \<Rightarrow> 'a list option" where
  "append_some [] = Some []"
| "append_some (x # xs) = (case (x, append_some xs) of (Some a, Some b) \<Rightarrow> Some (a @ b) | _ \<Rightarrow> None)"

fun neutralize_top :: "bool \<Rightarrow> dnode \<Rightarrow> dnode list option" where
  "neutralize_top in_object (Element t as ks) =
     (if in_object \<and> t = ''param'' then Some []
      else if t = ''object'' then
        (let left = filter (\<lambda>k. \<not> (is_element k \<and> tag_name k = ''param'')) ks in
         if list_ex is_text_node left \<or> 1 < length (filter is_element left) then None
         else append_some (map (neutralize_top True) ks))
      else Some (neutralize in_object (Element t as ks)))"
| "neutralize_top in_object n = Some [n]"

fun scrub :: "dnode \<Rightarrow> dnode" where
  "scrub (Element t as ks) = Element t (filter (\<lambda>a. \<not> active_attribute a) as) (map scrub ks)"
| "scrub n = n"

fun has_active_attribute :: "dnode \<Rightarrow> bool" where
  "has_active_attribute (Element t as ks) = (list_ex active_attribute as \<or> list_ex has_active_attribute ks)"
| "has_active_attribute n = False"

text \<open>\<open>stripActiveContent\<close> without its serializer: the stripped tree, \<open>None\<close> when no pass found anything, or the exception.\<close>

definition strip_active_content :: "document \<Rightarrow> document option outcome" where
  "strip_active_content doc =
     (let unscripted = prune_all (\<lambda>t as. t = ''script'') doc in
      case append_some (map (neutralize_top False) unscripted) of
        None \<Rightarrow> Inl ''HierarchyRequestError''
      | Some neutral \<Rightarrow>
          (let still = prune_all refresh_meta neutral;
               local_uses = prune_all external_use still;
               changed = list_ex (has_element (\<lambda>t as. t = ''script'')) doc
                 \<or> list_ex (has_element (\<lambda>t as. t \<in> set REMOVED_ELEMENTS)) unscripted
                 \<or> list_ex (has_element refresh_meta) neutral
                 \<or> list_ex (has_element external_use) still
                 \<or> list_ex has_active_attribute local_uses in
           Inr (if changed then Some (map scrub local_uses) else None)))"


section \<open>Publication documents\<close>

record browser =
  br_parse_xml :: "string \<Rightarrow> document option"     \<comment> \<open>\<open>None\<close> for a parse error\<close>
  br_parse_html :: "string \<Rightarrow> document"
  br_serialize_xml :: "document \<Rightarrow> string"
  br_serialize_html :: "document \<Rightarrow> string"
  br_decode :: "string \<Rightarrow> nat list \<Rightarrow> string option"   \<comment> \<open>\<open>None\<close> for a label the platform refuses\<close>

definition is_xmlns :: "attribute \<Rightarrow> bool" where
  "is_xmlns a = (attr_name a = ''xmlns'' \<or> starts_with (attr_name a) ''xmlns:'')"

fun drop_xmlns :: "dnode \<Rightarrow> dnode" where
  "drop_xmlns (Element t as ks) = Element t (filter (\<lambda>a. \<not> is_xmlns a) as) (map drop_xmlns ks)"
| "drop_xmlns n = n"

definition sanitize_publication_text :: "browser \<Rightarrow> string \<Rightarrow> bool \<Rightarrow> string outcome" where
  "sanitize_publication_text br text is_xml =
     (if is_xml then
        (case br_parse_xml br text of
           Some xml \<Rightarrow> and_then (strip_active_content xml)
             (\<lambda>r. Inr (case r of Some d \<Rightarrow> br_serialize_xml br d | None \<Rightarrow> text))
         | None \<Rightarrow>
             let html = map drop_xmlns (br_parse_html br text) in
             and_then (strip_active_content html)
               (\<lambda>r. Inr (case r of Some d \<Rightarrow> br_serialize_xml br d | None \<Rightarrow> br_serialize_xml br html)))
      else and_then (strip_active_content (br_parse_html br text))
        (\<lambda>r. Inr (case r of Some d \<Rightarrow> br_serialize_html br d | None \<Rightarrow> text)))"

definition csp_meta :: "bool \<Rightarrow> string" where
  "csp_meta is_xml = ''<meta http-equiv='' @ [CHR 0x22] @ ''Content-Security-Policy'' @ [CHR 0x22] @ '' content='' @ [CHR 0x22]
     @ PUBLICATION_FRAME_CSP @ [CHR 0x22] @ (if is_xml then '' /'' else []) @ ''>''"

definition insert_after :: "string \<Rightarrow> nat \<times> nat \<Rightarrow> string \<Rightarrow> string" where
  "insert_after meta spot html = (case spot of (i, n) \<Rightarrow> take (i + n) html @ meta @ drop (i + n) html)"

definition insert_frame_csp_meta :: "string \<Rightarrow> bool \<Rightarrow> string" where
  "insert_frame_csp_meta html is_xml =
     (case first_match (tag_length ''head'') html of
        Some spot \<Rightarrow> insert_after (csp_meta is_xml) spot html
      | None \<Rightarrow>
          (case first_match (tag_length ''html'') html of
             Some spot \<Rightarrow> insert_after (csp_meta is_xml) spot html
           | None \<Rightarrow> html))"

section \<open>Responses\<close>

record fetched =
  ft_status :: nat
  ft_content_type :: "string option"
  ft_bytes :: "nat list"

datatype body = OriginalBytes "nat list" | FencedText string

record delivered =
  dl_status :: nat
  dl_content_type :: "string option"
  dl_body :: body

definition response_ok :: "fetched \<Rightarrow> bool" where
  "response_ok r = (200 \<le> ft_status r \<and> ft_status r < 300)"

definition safe_decode :: "browser \<Rightarrow> string \<Rightarrow> nat list \<Rightarrow> string" where
  "safe_decode br label bytes =
     (case br_decode br label bytes of
        Some t \<Rightarrow> t
      | None \<Rightarrow> (case br_decode br ''windows-1252'' bytes of Some t \<Rightarrow> t | None \<Rightarrow> []))"

text \<open>\<open>/^(<\?xml[^>]*?)encoding.../i\<close>: the first declaration before a \<open>></\<close>, whatever its letters' case.\<close>

definition encoding_any_case :: "string \<Rightarrow> (string \<times> nat) option" where
  "encoding_any_case s = (if starts_with (to_lower s) ''encoding'' then encoding_here (''encoding'' @ drop 8 s) else None)"

definition declare_utf8_prolog :: "string \<Rightarrow> string" where
  "declare_utf8_prolog text =
     (if \<not> starts_with (to_lower text) ''<?xml'' then text
      else case first_match encoding_any_case (drop 5 text) of
        None \<Rightarrow> text
      | Some (i, v, n) \<Rightarrow>
          if CHR ''>'' \<in> set (take i (drop 5 text)) then text
          else take (5 + i) text @ ''encoding='' @ [CHR 0x22] @ ''UTF-8'' @ [CHR 0x22] @ drop (5 + i + n) text)"

text \<open>\<open>/<meta[^>]+charset[^>]*>/gi\<close>, every match replaced.\<close>

definition charset_meta_length :: "string \<Rightarrow> nat option" where
  "charset_meta_length s =
     (let r = drop 5 s; a = takeWhile (\<lambda>c. c \<noteq> CHR ''>'') r in
      if starts_with (to_lower s) ''<meta'' \<and> length a < length r \<and> a \<noteq> [] \<and> contains (to_lower (tl a)) ''charset''
      then Some (5 + length a + 1) else None)"

definition charset_replacement :: string where
  "charset_replacement = ''<meta charset='' @ [CHR 0x22] @ ''utf-8'' @ [CHR 0x22] @ ''>''"

function replace_charsets :: "string \<Rightarrow> string" where
  "replace_charsets s =
     (case s of
        [] \<Rightarrow> []
      | c # r \<Rightarrow>
          (case charset_meta_length s of
             Some n \<Rightarrow> charset_replacement @ replace_charsets (drop (max 1 n) s)
           | None \<Rightarrow> c # replace_charsets r))"
  by pat_completeness auto
termination by (relation "measure length") auto

definition char_of_byte :: "nat \<Rightarrow> char" where
  "char_of_byte b = char_of b"

definition fence_document_response :: "browser \<Rightarrow> fetched \<Rightarrow> string option \<Rightarrow> delivered outcome" where
  "fence_document_response br response declared_type =
     (let bytes = ft_bytes response;
          content_type = (case ft_content_type response of Some t \<Rightarrow> t | None \<Rightarrow> []);
          label = (case declared_encoding (map char_of_byte (take 200 bytes)) of Some e \<Rightarrow> e | None \<Rightarrow> ''utf-8'');
          text = safe_decode br label bytes;
          is_xml = (case declared_type of
            Some t \<Rightarrow> contains t ''xhtml'' \<or> contains t ''svg''
          | None \<Rightarrow> contains content_type ''xhtml'' \<or> contains content_type ''svg'' \<or> looks_like_xml text) in
      and_then (sanitize_publication_text br text is_xml)
        (\<lambda>sanitized.
           let fenced = insert_frame_csp_meta sanitized is_xml in
           if fenced = text
           then Inr \<lparr>dl_status = ft_status response, dl_content_type = ft_content_type response, dl_body = OriginalBytes bytes\<rparr>
           else Inr \<lparr>dl_status = ft_status response, dl_content_type = ft_content_type response,
             dl_body = FencedText (if is_xml then declare_utf8_prolog fenced else replace_charsets fenced)\<rparr>))"

section \<open>Addresses\<close>

text \<open>The message of the error also prints the refused number, which is left out.\<close>

definition publication_base_url :: "jnum \<Rightarrow> string outcome" where
  "publication_base_url book_id =
     (case book_id of
        Fin q \<Rightarrow> if \<not> num_is_safe book_id \<or> q \<le> 0 then Inl ''invalid book id'' else Inr (''tuxbooks://book/'' @ show_int \<lfloor>q\<rfloor> @ ''/'')
      | _ \<Rightarrow> Inl ''invalid book id'')"

definition is_publication_resource_url :: "(string \<Rightarrow> url option) \<Rightarrow> string \<Rightarrow> string \<Rightarrow> bool" where
  "is_publication_resource_url new_url raw base_url =
     (case (new_url raw, new_url base_url) of
        (Some u, Some b) \<Rightarrow> url_protocol u = url_protocol b \<and> url_host u = url_host b \<and> starts_with (url_pathname u) (url_pathname b)
      | _ \<Rightarrow> False)"

datatype href_class = InBook | External | Blocked

definition href_scheme :: "string \<Rightarrow> string option" where
  "href_scheme s =
     (case s of
        [] \<Rightarrow> None
      | c # r \<Rightarrow>
          let a = takeWhile (\<lambda>x. is_alpha x \<or> is_digit x \<or> x \<in> {CHR ''+'', CHR ''.'', CHR ''-''}) r in
          if is_alpha c \<and> length a < length r \<and> r ! length a = CHR '':'' then Some (to_lower (c # a @ '':'')) else None)"

definition EXTERNAL_HREF_SCHEMES :: "string list" where
  "EXTERNAL_HREF_SCHEMES = [''http:'', ''https:'', ''mailto:'', ''tel:'']"

definition classify_publication_href :: "string \<Rightarrow> href_class" where
  "classify_publication_href href =
     (let trimmed = trim href in
      if starts_with trimmed ''//'' then Blocked
      else case href_scheme trimmed of
        None \<Rightarrow> InBook
      | Some scheme \<Rightarrow> if scheme \<in> set EXTERNAL_HREF_SCHEMES then External else Blocked)"

definition safe_member_href :: "(string \<Rightarrow> string option) \<Rightarrow> string \<Rightarrow> string \<Rightarrow> string option" where
  "safe_member_href decode raw base_url =
     (if \<not> starts_with raw base_url then None
      else let rest = drop (length base_url) raw in Some (case decode rest of Some t \<Rightarrow> t | None \<Rightarrow> rest))"

text \<open>The fetch client, with the network, the manifest's media types and \<open>decodeURIComponent\<close> as parameters.\<close>

definition policy_fetch_client ::
  "browser \<Rightarrow> (string \<Rightarrow> url option) \<Rightarrow> (string \<Rightarrow> string option) \<Rightarrow> string \<Rightarrow> (string \<Rightarrow> fetched outcome)
     \<Rightarrow> (string \<Rightarrow> string option) option \<Rightarrow> string \<Rightarrow> delivered outcome" where
  "policy_fetch_client br new_url decode base_url fetch_impl media_type_for raw =
     (if \<not> is_publication_resource_url new_url raw base_url then Inl (''publication request outside the session base: '' @ raw)
      else and_then (fetch_impl raw) (\<lambda>response.
        if \<not> response_ok response \<or> \<not> is_sanitizable_content_type (ft_content_type response)
        then Inr \<lparr>dl_status = ft_status response, dl_content_type = ft_content_type response, dl_body = OriginalBytes (ft_bytes response)\<rparr>
        else
          let declared = (case (safe_member_href decode raw base_url, media_type_for) of
            (Some member, Some f) \<Rightarrow> f member
          | _ \<Rightarrow> None) in
          fence_document_response br response declared))"

text \<open>The sweep of a mounted document: the toolkit's own nodes, marked \<open>data-readium\<close> on themselves or above, are left alone.\<close>

definition readium_mark :: "attribute list \<Rightarrow> bool" where
  "readium_mark as = list_ex (\<lambda>a. attr_name a = ''data-readium'') as"

fun sweep_active :: "bool \<Rightarrow> dnode \<Rightarrow> dnode list" where
  "sweep_active in_object (Element t as ks) =
     (if in_object \<and> t = ''param'' then []
      else if readium_mark as then (if in_object then prune (\<lambda>t as. t = ''param'') (Element t as ks) else [Element t as ks])
      else if t = ''object'' then concat (map (sweep_active True) ks)
      else if t \<in> set REMOVED_ELEMENTS \<or> t = ''script'' then []
      else [Element t as (concat (map (sweep_active in_object) ks))])"
| "sweep_active in_object n = [n]"

fun sweep_where :: "(string \<Rightarrow> attribute list \<Rightarrow> bool) \<Rightarrow> dnode \<Rightarrow> dnode list" where
  "sweep_where P (Element t as ks) =
     (if readium_mark as then [Element t as ks] else if P t as then [] else [Element t as (concat (map (sweep_where P) ks))])"
| "sweep_where P n = [n]"

fun sweep_attributes :: "dnode \<Rightarrow> dnode" where
  "sweep_attributes (Element t as ks) =
     (if readium_mark as then Element t as ks else Element t (filter (\<lambda>a. \<not> active_attribute a) as) (map sweep_attributes ks))"
| "sweep_attributes n = n"

definition sanitize_frame_document :: "document \<Rightarrow> document" where
  "sanitize_frame_document doc =
     map sweep_attributes (concat (map (sweep_where external_use) (concat (map (sweep_where refresh_meta)
       (concat (map (sweep_active False) doc))))))"


section \<open>What stripping leaves\<close>

fun inert :: "dnode \<Rightarrow> bool" where
  "inert (Element t as ks) \<longleftrightarrow> t \<noteq> ''script'' \<and> t \<notin> set REMOVED_ELEMENTS \<and> \<not> refresh_meta t as \<and> \<not> external_use t as
     \<and> \<not> list_ex active_attribute as \<and> list_all inert ks"
| "inert n \<longleftrightarrow> True"

text \<open>A parser gives every attribute its local name: the whole name, or what follows the colon.\<close>

definition proper_attribute :: "attribute \<Rightarrow> bool" where
  "proper_attribute a \<longleftrightarrow> attr_local a = attr_name a \<or> attr_local a = after_last (CHR '':'') (attr_name a)"

fun proper :: "dnode \<Rightarrow> bool" where
  "proper (Element t as ks) \<longleftrightarrow> list_all proper_attribute as \<and> list_all proper ks"
| "proper n \<longleftrightarrow> True"

abbreviation free_of :: "(string \<Rightarrow> attribute list \<Rightarrow> bool) \<Rightarrow> dnode list \<Rightarrow> bool" where
  "free_of P ns \<equiv> \<not> list_ex (has_element P) ns"

abbreviation script_element :: "string \<Rightarrow> attribute list \<Rightarrow> bool" where
  "script_element \<equiv> \<lambda>t as. t = ''script''"

abbreviation active_element :: "string \<Rightarrow> attribute list \<Rightarrow> bool" where
  "active_element \<equiv> \<lambda>t as. t \<in> set REMOVED_ELEMENTS"

lemma inert_iff:
  "list_all inert ns \<longleftrightarrow> free_of script_element ns \<and> free_of active_element ns \<and> free_of refresh_meta ns \<and> free_of external_use ns
     \<and> \<not> list_ex has_active_attribute ns"
proof -
  have "inert n \<longleftrightarrow> \<not> has_element script_element n \<and> \<not> has_element active_element n \<and> \<not> has_element refresh_meta n
      \<and> \<not> has_element external_use n \<and> \<not> has_active_attribute n" for n
    by (induction n) (auto simp: list_all_iff list_ex_iff)
  then show ?thesis by (auto simp: list_all_iff list_ex_iff)
qed

lemma prune_free: "free_of P (prune P n)"
  by (induction n) (auto simp: list_ex_iff)

lemma prune_keeps_free: "\<not> has_element Q n \<Longrightarrow> free_of Q (prune P n)"
  by (induction n) (auto simp: list_ex_iff)

lemma prune_all_free: "free_of P (prune_all P ns)" and prune_all_keeps_free: "free_of Q ns \<Longrightarrow> free_of Q (prune_all P ns)"
  using prune_free[of P] prune_keeps_free[of Q _ P] by (fastforce simp: prune_all_def list_ex_iff)+

lemma neutralize_free: "free_of active_element (neutralize b n)"
  by (induction b n rule: neutralize.induct) (auto simp: list_ex_iff REMOVED_ELEMENTS_def split: if_splits)

lemma neutralize_keeps_free: "\<not> has_element Q n \<Longrightarrow> free_of Q (neutralize b n)"
  by (induction b n rule: neutralize.induct) (auto simp: list_ex_iff)

lemma append_some_map:
  assumes "append_some (map f ns) = Some r" "\<And>n a. n \<in> set ns \<Longrightarrow> f n = Some a \<Longrightarrow> a = g n"
  shows "r = concat (map g ns)"
  using assms by (induction ns arbitrary: r) (auto split: option.splits)

lemma neutralize_top_is: "neutralize_top b n = Some r \<Longrightarrow> r = neutralize b n"
proof (induction b n arbitrary: r rule: neutralize_top.induct)
  case (1 b t as ks)
  show ?case
  proof (cases "t = ''object'' \<and> \<not> (b \<and> t = ''param'')")
    case True
    then have "append_some (map (neutralize_top True) ks) = Some r" using "1.prems" by (auto simp: Let_def split: if_splits)
    then have "r = concat (map (neutralize True) ks)"
      by (rule append_some_map) (use "1.IH" True "1.prems" in \<open>auto simp: Let_def split: if_splits\<close>)
    then show ?thesis using True by simp
  next
    case False
    then show ?thesis using "1.prems" by (auto split: if_splits)
  qed
qed simp_all

lemma neutralize_all_is:
  "append_some (map (neutralize_top False) ns) = Some r \<Longrightarrow> r = concat (map (neutralize False) ns)"
  by (rule append_some_map) (auto dest: neutralize_top_is)

lemma neutralize_doc_free: "free_of active_element (concat (map (neutralize b) ns))"
  and neutralize_doc_keeps: "free_of Q ns \<Longrightarrow> free_of Q (concat (map (neutralize b) ns))"
  using neutralize_free neutralize_keeps_free[of Q] by (fastforce simp: list_ex_iff)+

text \<open>Scrubbing attributes does not turn a harmless element into an active one.\<close>

lemma find_kept: "(\<And>a. a \<in> set as \<Longrightarrow> P a \<Longrightarrow> Q a) \<Longrightarrow> find P (filter Q as) = find P as"
  by (induction as) auto

lemma find_first_kept: "find P as = Some a \<Longrightarrow> Q a \<Longrightarrow> find P (filter Q as) = Some a"
  by (induction as) (auto split: if_splits)

lemma find_none_kept: "find P as = None \<Longrightarrow> find P (filter Q as) = None"
  by (auto simp: find_None_iff)

lemma scrub_refresh:
  assumes "list_all proper_attribute as"
  shows "refresh_meta t (filter (\<lambda>a. \<not> active_attribute a) as) = refresh_meta t as"
proof -
  have "\<not> active_attribute a" if "proper_attribute a" "attr_name a = ''http-equiv''" for a
    using that
    by (simp add: proper_attribute_def active_attribute_def ACTIVE_URL_ATTRIBUTES_def after_last_def to_lower_def lower_char_def code_of_def starts_with_def)
  then have "find (\<lambda>a. attr_name a = ''http-equiv'') (filter (\<lambda>a. \<not> active_attribute a) as) = find (\<lambda>a. attr_name a = ''http-equiv'') as"
    using assms by (intro find_kept) (auto simp: list_all_iff)
  then show ?thesis by (simp add: refresh_meta_def)
qed

lemma hash_not_script: "starts_with (trim v) ''#'' \<Longrightarrow> \<not> has_script_scheme v"
  by (cases "trim v") (auto simp: has_script_scheme_def to_lower_def lower_char_def code_of_def starts_with_def Let_def split: if_splits)

lemma href_names_kept:
  "attr_name a = ''href'' \<or> attr_name a = ''xlink:href'' \<Longrightarrow> starts_with (trim (attr_value a)) ''#'' \<Longrightarrow> \<not> active_attribute a"
  using hash_not_script[of "attr_value a"]
  by (auto simp: active_attribute_def to_lower_def lower_char_def code_of_def starts_with_def)

lemma scrub_use: "\<not> external_use t as \<Longrightarrow> \<not> external_use t (filter (\<lambda>a. \<not> active_attribute a) as)"
proof (cases "find (\<lambda>a. attr_name a = ''href'') as")
  case (Some a)
  assume e: "\<not> external_use t as"
  have n: "attr_name a = ''href''" using Some by (auto simp: find_Some_iff)
  show ?thesis
  proof (cases "t = ''use''")
    case True
    then have "starts_with (trim (attr_value a)) ''#''" using e Some by (simp add: external_use_def use_target_def)
    then show ?thesis using find_first_kept[OF Some, of "\<lambda>a. \<not> active_attribute a"] href_names_kept[of a] n
      by (simp add: external_use_def use_target_def)
  qed (simp add: external_use_def)
next
  case None
  assume e: "\<not> external_use t as"
  note none = find_none_kept[OF None, of "\<lambda>a. \<not> active_attribute a"]
  show ?thesis
  proof (cases "find (\<lambda>a. attr_name a = ''xlink:href'') as")
    case (Some a)
    have n: "attr_name a = ''xlink:href''" using Some by (auto simp: find_Some_iff)
    show ?thesis
    proof (cases "t = ''use''")
      case True
      then have "starts_with (trim (attr_value a)) ''#''" using e Some None by (simp add: external_use_def use_target_def)
      then show ?thesis using find_first_kept[OF Some, of "\<lambda>a. \<not> active_attribute a"] href_names_kept[of a] n none
        by (simp add: external_use_def use_target_def)
    qed (simp add: external_use_def)
  next
    case n2: None
    then show ?thesis using e None by (simp add: external_use_def use_target_def trim_def starts_with_def)
  qed
qed


lemma scrub_keeps_free:
  assumes "proper n"
  shows "\<not> has_element script_element n \<Longrightarrow> \<not> has_element script_element (scrub n)"
    and "\<not> has_element active_element n \<Longrightarrow> \<not> has_element active_element (scrub n)"
    and "\<not> has_element refresh_meta n \<Longrightarrow> \<not> has_element refresh_meta (scrub n)"
    and "\<not> has_element external_use n \<Longrightarrow> \<not> has_element external_use (scrub n)"
  using assms by (induction n) (auto simp: list_ex_iff list_all_iff scrub_refresh scrub_use)

lemma scrub_clean: "\<not> has_active_attribute (scrub n)"
  by (induction n) (auto simp: list_ex_iff)

lemma prune_proper: "proper n \<Longrightarrow> list_all proper (prune P n)"
  by (induction n) (auto simp: list_all_iff)

lemma neutralize_proper: "proper n \<Longrightarrow> list_all proper (neutralize b n)"
  by (induction b n rule: neutralize.induct) (auto simp: list_all_iff)

lemma passes_proper:
  "list_all proper ns \<Longrightarrow> list_all proper (prune_all P ns)" "list_all proper ns \<Longrightarrow> list_all proper (concat (map (neutralize b) ns))"
  by (induction ns) (simp_all add: prune_all_def prune_proper neutralize_proper)

text \<open>A pass that finds nothing changes nothing.\<close>

lemma concat_map_single: "(\<And>n. n \<in> set ns \<Longrightarrow> f n = [g n]) \<Longrightarrow> concat (map f ns) = map g ns"
  by (induction ns) auto

lemma prune_nothing: "\<not> has_element P n \<Longrightarrow> prune P n = [n]"
  by (induction n) (auto simp: list_ex_iff concat_map_single[where g = "\<lambda>n. n"])

lemma prune_all_nothing: "free_of P ns \<Longrightarrow> prune_all P ns = ns"
  by (simp add: prune_all_def prune_nothing list_ex_iff concat_map_single[where g = "\<lambda>n. n"])

lemma neutralize_nothing: "\<not> has_element active_element n \<Longrightarrow> neutralize False n = [n]"
proof (induction n)
  case (Element t as ks)
  then have "\<And>k. k \<in> set ks \<Longrightarrow> neutralize False k = [k]" by (auto simp: list_ex_iff)
  then have "concat (map (neutralize False) ks) = ks" using concat_map_single[of ks "neutralize False" "\<lambda>n. n"] by simp
  then show ?case using Element.prems by (auto simp: REMOVED_ELEMENTS_def)
qed simp_all

lemma neutralize_top_nothing: "\<not> has_element active_element n \<Longrightarrow> neutralize_top False n = Some [n]"
  using neutralize_nothing[of n] by (cases n) (auto simp: REMOVED_ELEMENTS_def)

lemma append_some_single: "(\<And>n. n \<in> set ns \<Longrightarrow> f n = Some [n]) \<Longrightarrow> append_some (map f ns) = Some ns"
  by (induction ns) auto

lemma neutralize_doc_nothing:
  "free_of active_element ns \<Longrightarrow> append_some (map (neutralize_top False) ns) = Some ns"
  by (rule append_some_single) (auto simp: list_ex_iff neutralize_top_nothing)

text \<open>The text a reader still sees.\<close>

fun kept_text :: "bool \<Rightarrow> dnode \<Rightarrow> string" where
  "kept_text in_object (Element t as ks) =
     (if t = ''script'' \<or> in_object \<and> t = ''param'' then []
      else if t = ''object'' then concat (map (kept_text True) ks)
      else if t \<in> set REMOVED_ELEMENTS \<or> refresh_meta t as \<or> external_use t as then []
      else concat (map (kept_text in_object) ks))"
| "kept_text in_object n = text_content n"

definition four_passes :: "bool \<Rightarrow> dnode list \<Rightarrow> dnode list" where
  "four_passes b ns = prune_all external_use (prune_all refresh_meta (concat (map (neutralize b) (prune_all script_element ns))))"

lemma four_passes_append: "four_passes b (ms @ ns) = four_passes b ms @ four_passes b ns"
  by (simp add: four_passes_def prune_all_def)

lemma four_passes_text:
  assumes "\<And>n. n \<in> set ns \<Longrightarrow> text_of (four_passes b [n]) = kept_text b n"
  shows "text_of (four_passes b ns) = concat (map (kept_text b) ns)"
  using assms
proof (induction ns)
  case (Cons n ns)
  then show ?case using four_passes_append[of b "[n]" ns] by simp
qed (simp add: four_passes_def prune_all_def)

lemma four_passes_element:
  "four_passes b [Element t as ks] =
     (if t = ''script'' \<or> b \<and> t = ''param'' then []
      else if t = ''object'' then four_passes True ks
      else if t \<in> set REMOVED_ELEMENTS \<or> refresh_meta t as \<or> external_use t as then []
      else [Element t as (four_passes b ks)])"
  by (simp add: four_passes_def prune_all_def)

lemma four_passes_kept: "text_of (four_passes b [n]) = kept_text b n"
proof (induction b n rule: kept_text.induct)
  case (1 b t as ks)
  then show ?case
    using four_passes_text[of ks True] four_passes_text[of ks b] unfolding four_passes_element
    by (auto simp: text_of_def[symmetric])
qed (simp_all add: four_passes_def prune_all_def)

lemma scrub_text: "text_content (scrub n) = text_content n"
  by (induction n) (simp_all add: o_def cong: map_cong)

lemma scrub_all_text: "text_of (map scrub ns) = text_of ns"
  by (simp add: text_of_def scrub_text o_def)

lemma strip_shape:
  assumes "strip_active_content doc = Inr r"
  shows "r = (if list_all inert doc then None else Some (map scrub (four_passes False doc)))"
proof -
  let ?u = "prune_all script_element doc"
  obtain neutral where n: "append_some (map (neutralize_top False) ?u) = Some neutral"
    using assms by (auto simp: strip_active_content_def Let_def split: option.splits)
  have neutral: "neutral = concat (map (neutralize False) ?u)" by (rule neutralize_all_is[OF n])
  let ?still = "prune_all refresh_meta neutral"
  let ?local = "prune_all external_use ?still"
  let ?unchanged = "free_of script_element doc \<and> free_of active_element ?u \<and> free_of refresh_meta neutral \<and> free_of external_use ?still
    \<and> \<not> list_ex has_active_attribute ?local"
  have r: "r = (if \<not> ?unchanged then Some (map scrub ?local) else None)"
    using assms n by (auto simp: strip_active_content_def Let_def split: if_splits)
  have four: "?local = four_passes False doc" by (simp add: four_passes_def neutral)
  have "?unchanged \<longleftrightarrow> list_all inert doc"
  proof
    assume ?unchanged
    then have "?u = doc" "neutral = doc" "?still = doc" "?local = doc"
      using prune_all_nothing neutralize_doc_nothing n by (metis option.inject)+
    then show "list_all inert doc" using \<open>?unchanged\<close> unfolding inert_iff by simp
  next
    assume i: "list_all inert doc"
    then have "?u = doc" "neutral = doc" unfolding inert_iff
      using prune_all_nothing neutralize_doc_nothing n by (metis option.inject)+
    then show ?unchanged using i unfolding inert_iff by (simp add: prune_all_nothing)
  qed
  then show ?thesis using r four by simp
qed


lemma strip_inert:
  assumes "strip_active_content doc = Inr (Some d)" "list_all proper doc"
  shows "list_all inert d"
proof -
  have d: "d = map scrub (four_passes False doc)" using strip_shape[OF assms(1)] by (simp split: if_splits)
  let ?u = "prune_all script_element doc"
  let ?n = "concat (map (neutralize False) ?u)"
  let ?l = "four_passes False doc"
  have l: "?l = prune_all external_use (prune_all refresh_meta ?n)" by (simp add: four_passes_def)
  have "free_of script_element ?l" "free_of active_element ?l" "free_of refresh_meta ?l" "free_of external_use ?l"
    unfolding l by (intro prune_all_keeps_free neutralize_doc_keeps prune_all_free neutralize_doc_free)+
  moreover have "list_all proper ?l"
    unfolding l by (intro passes_proper assms(2))
  ultimately show ?thesis
    unfolding d inert_iff using scrub_keeps_free scrub_clean by (fastforce simp: list_ex_iff list_all_iff)
qed


definition hostile_chapter :: document where
  "hostile_chapter = [Element ''html'' [] [Element ''body'' [Attribute ''onload'' ''onload'' ''x()'']
     [Element ''object'' [] [Element ''param'' [] [TextNode ''p''], Element ''p'' [] [TextNode ''fallback'']],
      Element ''a'' [Attribute ''href'' ''href'' '' JavaScript:x()''] [TextNode ''link''], Element ''script'' [] [TextNode ''x()'']]]]"


section \<open>Every delivered document is fenced\<close>

text \<open>What the two readers of a document can produce: the text that is delivered and the inert tree it stands for.\<close>

definition fenced_tree :: "browser \<Rightarrow> string \<Rightarrow> string \<Rightarrow> document \<Rightarrow> bool" where
  "fenced_tree br original text tree \<longleftrightarrow> list_all inert tree
     \<and> (text = original \<and> (br_parse_xml br original = Some tree \<or> br_parse_html br original = tree)
        \<or> text = br_serialize_xml br tree \<or> text = br_serialize_html br tree)"

definition proper_browser :: "browser \<Rightarrow> bool" where
  "proper_browser br \<longleftrightarrow> (\<forall>t d. br_parse_xml br t = Some d \<longrightarrow> list_all proper d) \<and> (\<forall>t. list_all proper (br_parse_html br t))"

lemma drop_xmlns_proper: "proper n \<Longrightarrow> proper (drop_xmlns n)"
  by (induction n) (auto simp: list_all_iff)

lemma stripped_cases:
  assumes "strip_active_content doc = Inr r" "list_all proper doc"
  shows "(r = None \<and> list_all inert doc) \<or> (\<exists>d. r = Some d \<and> list_all inert d)"
proof (cases r)
  case None
  then show ?thesis using strip_shape[OF assms(1)] by (auto split: if_splits)
qed (use strip_inert assms in auto)

lemma sanitized_fenced:
  assumes "sanitize_publication_text br text is_xml = Inr s" "proper_browser br"
  shows "\<exists>tree. fenced_tree br text s tree"
proof (cases is_xml)
  case False
  then obtain r where r: "strip_active_content (br_parse_html br text) = Inr r"
    "s = (case r of Some d \<Rightarrow> br_serialize_html br d | None \<Rightarrow> text)"
    using assms(1) by (auto simp: sanitize_publication_text_def and_then_def split: sum.splits)
  then show ?thesis using stripped_cases[OF r(1)] assms(2) by (fastforce simp: fenced_tree_def proper_browser_def)
next
  case xml: True
  show ?thesis
  proof (cases "br_parse_xml br text")
    case (Some d0)
    then obtain r where r: "strip_active_content d0 = Inr r" "s = (case r of Some d \<Rightarrow> br_serialize_xml br d | None \<Rightarrow> text)"
      using assms(1) xml by (auto simp: sanitize_publication_text_def and_then_def split: sum.splits)
    have "list_all proper d0" using assms(2) Some by (auto simp: proper_browser_def)
    then show ?thesis using stripped_cases[OF r(1)] r(2) Some by (fastforce simp: fenced_tree_def)
  next
    case None
    let ?html = "map drop_xmlns (br_parse_html br text)"
    obtain r where r: "strip_active_content ?html = Inr r"
      "s = (case r of Some d \<Rightarrow> br_serialize_xml br d | None \<Rightarrow> br_serialize_xml br ?html)"
      using assms(1) xml None by (auto simp: sanitize_publication_text_def and_then_def Let_def split: sum.splits)
    have "list_all proper ?html" using assms(2) by (auto simp: proper_browser_def list_all_iff intro: drop_xmlns_proper)
    then show ?thesis using stripped_cases[OF r(1)] r(2) by (fastforce simp: fenced_tree_def)
  qed
qed



text \<open>A browser whose documents are all one text node, and one chapter served from the book.\<close>

definition plain_browser :: browser where
  "plain_browser = \<lparr>br_parse_xml = (\<lambda>t. Some [Element ''html'' [] [TextNode t]]), br_parse_html = (\<lambda>t. [Element ''html'' [] [TextNode t]]),
     br_serialize_xml = text_of, br_serialize_html = text_of, br_decode = (\<lambda>l bs. Some (map char_of_byte bs))\<rparr>"

definition book_address :: "string \<Rightarrow> url option" where
  "book_address s = Some \<lparr>url_protocol = ''tuxbooks:'', url_host = ''book'', url_hostname = ''book'', url_pathname = drop 15 s,
     url_origin = ''null'', url_href = s, url_username = [], url_password = [], url_format = None\<rparr>"


section \<open>Where the policy lands, and what the tests miss\<close>

lemma first_match_here:
  assumes "\<And>i. i < n \<Longrightarrow> f (drop i s) = None" "f (drop n s) = Some x" "n < length s"
  shows "first_match f s = Some (n, x)"
  using assms
proof (induction n arbitrary: s)
  case 0
  then show ?case by (cases s) auto
next
  case (Suc n)
  then obtain c r where s: "s = c # r" by (cases s) auto
  have "f (c # r) = None" using Suc.prems(1)[of 0] s by simp
  moreover have "first_match f r = Some (n, x)"
  proof (rule Suc.IH)
    show "f (drop i r) = None" if "i < n" for i using Suc.prems(1)[of "Suc i"] s that by simp
  qed (use Suc.prems s in auto)
  ultimately show ?case by (simp add: s)
qed

text \<open>The policy is inserted after the first text that looks like a head tag, even inside a comment, where it has no effect.\<close>

lemma policy_lands_in_comment:
  "insert_frame_csp_meta (''<!--<head>-->'' @ rest) is_xml = ''<!--<head>'' @ csp_meta is_xml @ ''-->'' @ rest"
proof -
  have "first_match (tag_length ''head'') (''<!--<head>-->'' @ rest) = Some (4, 6)"
  proof (rule first_match_here)
    fix i :: nat
    assume "i < 4"
    then consider "i = 0" | "i = 1" | "i = 2" | "i = 3" by linarith
    then show "tag_length ''head'' (drop i (''<!--<head>-->'' @ rest)) = None"
      by cases (simp_all add: tag_length_def starts_with_def to_lower_def lower_char_def code_of_def Let_def numeral_eq_Suc)
  qed (simp_all add: tag_length_def starts_with_def to_lower_def lower_char_def code_of_def is_word_char_def is_digit_def is_alpha_def
      Let_def numeral_eq_Suc)
  then show ?thesis by (simp add: insert_frame_csp_meta_def insert_after_def numeral_eq_Suc)
qed

text \<open>A tab inside the scheme, which a URL parser drops, hides a script address from the test of attributes and from the test of links.\<close>

lemma tab_hides_script_scheme:
  "\<not> has_script_scheme (''java'' @ [CHR 0x09] @ ''script:x()'')"
  "classify_publication_href (''java'' @ [CHR 0x09] @ ''script:x()'') = InBook"
  by code_simp+

lemma lower_to_alpha: "is_alpha (lower_char x) \<Longrightarrow> is_alpha x"
  by (auto simp: lower_char_def is_alpha_def split: if_splits)

lemma lower_to_colon: "lower_char x = CHR '':'' \<longleftrightarrow> x = CHR '':''"
proof -
  have "lower_char CHR '':'' = CHR '':''" "code_of CHR '':'' = 58" by code_simp+
  then show ?thesis using lower_char_cases[of x] by auto
qed

text \<open>An alphabetic scheme at the start of the lower-cased text is the scheme that is found.\<close>

lemma scheme_prefix:
  assumes "w \<noteq> []" "list_all is_alpha w"
  shows "starts_with (to_lower t) (w @ '':'') \<longleftrightarrow> href_scheme t = Some (w @ '':'')"
proof
  let ?ok = "\<lambda>x. is_alpha x \<or> is_digit x \<or> x \<in> {CHR ''+'', CHR ''.'', CHR ''-''}"
  assume "starts_with (to_lower t) (w @ '':'')"
  then obtain z where z: "map lower_char t = w @ CHR '':'' # z" by (auto simp: starts_with_prefix prefix_def to_lower_def)
  then obtain a b where ab: "t = a @ b" "map lower_char a = w" "map lower_char b = CHR '':'' # z"
    by (metis map_eq_append_conv)
  then obtain y where b: "b = CHR '':'' # y" using lower_to_colon by (cases b) auto
  have alpha: "list_all is_alpha a" using assms(2) ab(2) lower_to_alpha by (auto simp: list_all_iff)
  obtain c r where c: "a = c # r" using ab(2) assms(1) by (cases a) auto
  have stop: "\<not> ?ok CHR '':''" by (simp add: is_alpha_def is_digit_def code_of_def)
  have "takeWhile ?ok (r @ CHR '':'' # y) = r"
    using alpha c stop by (subst takeWhile_append2) (auto simp: list_all_iff)
  then show "href_scheme t = Some (w @ '':'')"
    using alpha c ab(1,2) b by (simp add: href_scheme_def Let_def to_lower_def lower_to_colon)
next
  let ?ok = "\<lambda>x. is_alpha x \<or> is_digit x \<or> x \<in> {CHR ''+'', CHR ''.'', CHR ''-''}"
  assume h: "href_scheme t = Some (w @ '':'')"
  then obtain c r where t: "t = c # r" by (cases t) (simp_all add: href_scheme_def)
  let ?a = "takeWhile ?ok r"
  have a: "length ?a < length r" "r ! length ?a = CHR '':''" "to_lower (c # ?a @ '':'') = w @ '':''"
    using h t by (auto simp: href_scheme_def Let_def split: if_splits)
  have "r = ?a @ CHR '':'' # drop (Suc (length ?a)) r"
    using id_take_nth_drop[OF a(1)] a(2) takeWhile_eq_take[of ?ok r] by simp
  then obtain z where "t = (c # ?a @ '':'') @ z" using t by simp
  then have "to_lower t = to_lower (c # ?a @ '':'') @ to_lower z" by (simp only: to_lower_def map_append)
  then show "starts_with (to_lower t) (w @ '':'')"
    unfolding a(3) using starts_with_append[of "w @ '':''" "to_lower z"] by simp
qed

text \<open>A link leaves the book only for the web, for mail or for a phone call, and only if it says so itself: it is external exactly if it starts with one of the
  four schemes, a link with any other scheme or starting with two slashes is blocked, and what is left to the engine has neither.\<close>

theorem links_leave_by_scheme_only:
  "(classify_publication_href href = External \<longleftrightarrow>
      list_ex (\<lambda>s. starts_with (to_lower (trim href)) s) [''http:'', ''https:'', ''mailto:'', ''tel:''])
    \<and> (classify_publication_href href = InBook \<longleftrightarrow> \<not> starts_with (trim href) ''//'' \<and> href_scheme (trim href) = None)"
proof -
  have scheme_end: "starts_with (to_lower t) s \<longleftrightarrow> href_scheme t = Some s" if "s \<in> {''http:'', ''https:'', ''mailto:'', ''tel:''}" for s t
    using that scheme_prefix[of "''http''" t] scheme_prefix[of "''https''" t] scheme_prefix[of "''mailto''" t] scheme_prefix[of "''tel''" t]
    by (auto simp: is_alpha_def code_of_def)
  have "starts_with t ''//'' \<Longrightarrow> href_scheme t = None" for t
    by (cases t) (auto simp: href_scheme_def starts_with_def is_alpha_def code_of_def)
  then show ?thesis
    using scheme_end[of _ "trim href"]
    by (auto simp: classify_publication_href_def Let_def EXTERNAL_HREF_SCHEMES_def split: option.splits)
qed


section \<open>The sweep of a mounted document\<close>

fun has_unowned :: "(string \<Rightarrow> attribute list \<Rightarrow> bool) \<Rightarrow> dnode \<Rightarrow> bool" where
  "has_unowned P (Element t as ks) = (\<not> readium_mark as \<and> (P t as \<or> list_ex (has_unowned P) ks))"
| "has_unowned P n = False"

text \<open>Inert everywhere but in the toolkit's own nodes.\<close>

fun swept :: "dnode \<Rightarrow> bool" where
  "swept (Element t as ks) \<longleftrightarrow> readium_mark as \<or>
     t \<noteq> ''script'' \<and> t \<notin> set REMOVED_ELEMENTS \<and> \<not> refresh_meta t as \<and> \<not> external_use t as
       \<and> \<not> list_ex active_attribute as \<and> list_all swept ks"
| "swept n \<longleftrightarrow> True"

abbreviation unwanted_element :: "string \<Rightarrow> attribute list \<Rightarrow> bool" where
  "unwanted_element \<equiv> \<lambda>t as. t = ''script'' \<or> t \<in> set REMOVED_ELEMENTS"

lemma swept_iff:
  "swept n \<longleftrightarrow> \<not> has_unowned unwanted_element n \<and> \<not> has_unowned refresh_meta n \<and> \<not> has_unowned external_use n
     \<and> \<not> has_unowned (\<lambda>t as. list_ex active_attribute as) n"
  by (induction n) (auto simp: list_all_iff list_ex_iff)

lemma sweep_active_free: "\<not> list_ex (has_unowned unwanted_element) (sweep_active b n)"
  by (induction b n rule: sweep_active.induct) (auto simp: list_ex_iff REMOVED_ELEMENTS_def split: if_splits)

lemma sweep_where_free: "\<not> list_ex (has_unowned P) (sweep_where P n)"
  by (induction n) (auto simp: list_ex_iff)

lemma sweep_where_keeps: "\<not> has_unowned Q n \<Longrightarrow> \<not> list_ex (has_unowned Q) (sweep_where P n)"
  by (induction n) (auto simp: list_ex_iff)

lemma unmarked_filtered: "\<not> readium_mark as \<Longrightarrow> \<not> readium_mark (filter P as)"
  by (auto simp: readium_mark_def list_ex_iff)

lemma sweep_attributes_keeps:
  assumes "\<And>t as. list_all proper_attribute as \<Longrightarrow> \<not> P t as \<Longrightarrow> \<not> P t (filter (\<lambda>a. \<not> active_attribute a) as)"
  shows "proper n \<Longrightarrow> \<not> has_unowned P n \<Longrightarrow> \<not> has_unowned P (sweep_attributes n)"
  by (induction n) (auto simp: list_all_iff list_ex_iff assms[unfolded list_all_iff] unmarked_filtered)

lemma sweep_attributes_clean: "\<not> has_unowned (\<lambda>t as. list_ex active_attribute as) (sweep_attributes n)"
  by (induction n) (auto simp: list_ex_iff)

lemma sweep_where_proper: "proper n \<Longrightarrow> list_all proper (sweep_where P n)"
  by (induction n) (auto simp: list_all_iff)

lemma sweep_active_proper: "proper n \<Longrightarrow> list_all proper (sweep_active b n)"
  using prune_proper by (induction b n rule: sweep_active.induct) (auto simp: list_all_iff)

lemma concat_map_all: "(\<And>n. P n \<Longrightarrow> list_all P (f n)) \<Longrightarrow> list_all P ns \<Longrightarrow> list_all P (concat (map f ns))"
  by (induction ns) simp_all

text \<open>After the sweep of a mounted document every active node that is left stands in a node of the toolkit itself: outside those there is no script, object, embed,
  frame or base element, no refresh, no external symbol, no event handler and no script address.\<close>

theorem mounted_document_swept:
  assumes "list_all proper doc"
  shows "list_all swept (sanitize_frame_document doc)"
proof -
  let ?a = "concat (map (sweep_active False) doc)"
  let ?m = "concat (map (sweep_where refresh_meta) ?a)"
  let ?u = "concat (map (sweep_where external_use) ?m)"
  have a: "\<forall>n\<in>set ?a. \<not> has_unowned unwanted_element n" using sweep_active_free by (fastforce simp: list_ex_iff)
  have m: "\<forall>n\<in>set ?m. \<not> has_unowned unwanted_element n \<and> \<not> has_unowned refresh_meta n"
    using a sweep_where_keeps sweep_where_free by (fastforce simp: list_ex_iff)
  have u: "\<forall>n\<in>set ?u. \<not> has_unowned unwanted_element n \<and> \<not> has_unowned refresh_meta n \<and> \<not> has_unowned external_use n"
    using m sweep_where_keeps sweep_where_free by (fastforce simp: list_ex_iff)
  have "list_all proper ?u"
    by (intro concat_map_all assms sweep_active_proper sweep_where_proper)
  then have proper: "\<forall>n\<in>set ?u. proper n" by (simp add: list_all_iff)
  have "swept (sweep_attributes n)" if "n \<in> set ?u" for n
    unfolding swept_iff
    using that u proper sweep_attributes_clean sweep_attributes_keeps[of unwanted_element n]
      sweep_attributes_keeps[of refresh_meta n] sweep_attributes_keeps[of external_use n] scrub_refresh scrub_use by auto
  then show ?thesis by (auto simp: sanitize_frame_document_def list_all_iff)
qed

theorem mounted_document_swept_witness: "list_all swept (sanitize_frame_document hostile_chapter)"
proof -
  have "list_all proper hostile_chapter" by (simp add: hostile_chapter_def proper_attribute_def)
  then show ?thesis by (rule mounted_document_swept)
qed

end
