(* ===== verification/ReaderSearch.thy ===== *)
theory ReaderSearch
  imports Prelude
begin

text \<open>
  Searching in a book: \<open>frontend/src/lib/pdf/pdfSearch.ts\<close> (the text of a page and its matches), \<open>components/reader/searchModel.ts\<close> (the state of a search),
  \<open>components/reader/pdf/hooks/usePdfSearch.ts\<close> (the run over the pages, which gives way between two pages) and the shell's part in
  \<open>components/reader/shell/useReaderSearch.ts\<close>. A page's text is a parameter; a page that cannot be read has none.
\<close>

section \<open>The text of a page\<close>

record text_item =
  ti_str :: string
  ti_eol :: bool

fun collapse_blanks :: "string \<Rightarrow> string" where
  "collapse_blanks [] = []"
| "collapse_blanks (c # s) =
     (if is_space c then CHR '' '' # collapse_blanks (dropWhile is_space s) else c # collapse_blanks s)"

fun joined_items :: "text_item list \<Rightarrow> string" where
  "joined_items [] = []"
| "joined_items (i # items) = ti_str i @ (if ti_eol i \<or> \<not> ends_with (ti_str i) '' '' then '' '' else []) @ joined_items items"

definition assemble_page_text :: "text_item list \<Rightarrow> string" where
  "assemble_page_text items = trim (collapse_blanks (joined_items items))"

definition inked :: "string \<Rightarrow> string" where
  "inked s = filter (\<lambda>c. \<not> is_space c) s"

lemma inked_simps [simp]: "inked [] = []" "inked (a @ b) = inked a @ inked b" "inked (c # s) = (if is_space c then inked s else c # inked s)"
  by (simp_all add: inked_def)

lemma space_is_space [simp]: "is_space CHR '' ''"
  by (simp add: is_space_def code_of_def)

lemma inked_dropWhile: "inked (dropWhile is_space s) = inked s"
  by (induction s) auto

lemma inked_collapse: "inked (collapse_blanks s) = inked s"
  by (induction s rule: collapse_blanks.induct) (auto simp: inked_dropWhile)

lemma inked_rev: "inked (rev s) = rev (inked s)"
  by (simp add: inked_def rev_filter)

lemma inked_trim: "inked (trim s) = inked s"
  by (simp add: trim_def inked_rev inked_dropWhile)

lemma inked_joined: "inked (joined_items items) = concat (map (\<lambda>i. inked (ti_str i)) items)"
  by (induction items) auto

text \<open>Every blank that is left is a single space between two letters.\<close>

fun single_spaced :: "string \<Rightarrow> bool" where
  "single_spaced [] = True"
| "single_spaced [c] = (is_space c \<longrightarrow> c = CHR '' '')"
| "single_spaced (c # d # s) = ((is_space c \<longrightarrow> c = CHR '' '' \<and> \<not> is_space d) \<and> single_spaced (d # s))"

lemma collapse_hd: "s \<noteq> [] \<Longrightarrow> collapse_blanks s \<noteq> [] \<and> (is_space (hd (collapse_blanks s)) \<longleftrightarrow> is_space (hd s))"
  by (cases s) auto

lemma dropWhile_hd: "dropWhile P s \<noteq> [] \<Longrightarrow> \<not> P (hd (dropWhile P s))"
  by (induction s) auto

lemma single_spaced_Cons: "single_spaced (c # s) \<longleftrightarrow> (is_space c \<longrightarrow> c = CHR '' '' \<and> (s \<noteq> [] \<longrightarrow> \<not> is_space (hd s))) \<and> single_spaced s"
  by (cases s) auto

lemma collapse_single: "single_spaced (collapse_blanks s)"
proof (induction s rule: collapse_blanks.induct)
  case (2 c s)
  show ?case
  proof (cases "is_space c")
    case True
    have "\<not> is_space (hd (collapse_blanks (dropWhile is_space s)))" if "collapse_blanks (dropWhile is_space s) \<noteq> []"
    proof -
      have "dropWhile is_space s \<noteq> []" using that by (metis collapse_blanks.simps(1))
      then show ?thesis using dropWhile_hd[of is_space s] collapse_hd[of "dropWhile is_space s"] by simp
    qed
    then show ?thesis using True 2 by (auto simp: single_spaced_Cons)
  next
    case False
    then show ?thesis using 2 by (auto simp: single_spaced_Cons)
  qed
qed simp

lemma single_spaced_append: "single_spaced (a @ b) \<Longrightarrow> single_spaced a \<and> single_spaced b"
proof (induction a)
  case (Cons c a)
  then show ?case by (cases "a = []") (auto simp: single_spaced_Cons)
qed simp

lemma trim_infix: "\<exists>u v. s = u @ trim s @ v"
proof -
  let ?d = "dropWhile is_space s"
  have "s = takeWhile is_space s @ ?d" by simp
  moreover have "?d = trim s @ rev (takeWhile is_space (rev ?d))"
    unfolding trim_def by (metis rev_append rev_rev_ident takeWhile_dropWhile_id)
  ultimately show ?thesis by metis
qed

lemma trimmed_ends: "trim s \<noteq> [] \<Longrightarrow> \<not> is_space (hd (trim s)) \<and> \<not> is_space (last (trim s))"
proof
  let ?d = "dropWhile is_space s"
  assume n: "trim s \<noteq> []"
  obtain v where v: "?d = trim s @ v"
    unfolding trim_def by (metis rev_append rev_rev_ident takeWhile_dropWhile_id)
  have "?d \<noteq> []" using n v by auto
  then have "\<not> is_space (hd ?d)" by (rule dropWhile_hd)
  moreover have "hd ?d = hd (trim s)" using n v by (metis hd_append2)
  ultimately show "\<not> is_space (hd (trim s))" by simp
  show "\<not> is_space (last (trim s))"
    using n dropWhile_hd[of is_space "rev ?d"] by (simp add: trim_def last_rev)
qed

text \<open>The text of a page has exactly the letters of its items in order, its blanks are single spaces between letters, and items that PDFium splits apart stay apart.\<close>

theorem page_text_exact:
  "inked (assemble_page_text items) = concat (map (\<lambda>i. inked (ti_str i)) items)
   \<and> single_spaced (assemble_page_text items)
   \<and> (assemble_page_text items \<noteq> [] \<longrightarrow> \<not> is_space (hd (assemble_page_text items)) \<and> \<not> is_space (last (assemble_page_text items)))"
proof -
  let ?c = "collapse_blanks (joined_items items)"
  obtain u v where "?c = u @ trim ?c @ v" using trim_infix by blast
  then have "single_spaced (trim ?c)" using collapse_single[of "joined_items items"] single_spaced_append by metis
  then show ?thesis using trimmed_ends[of ?c]
    by (simp add: assemble_page_text_def inked_trim inked_collapse inked_joined)
qed

theorem page_text_exact_witness:
  "\<not> is_space (hd (assemble_page_text [\<lparr>ti_str = ''ab '', ti_eol = False\<rparr>, \<lparr>ti_str = ''cd'', ti_eol = True\<rparr>]))"
proof -
  have "inked (assemble_page_text [\<lparr>ti_str = ''ab '', ti_eol = False\<rparr>, \<lparr>ti_str = ''cd'', ti_eol = True\<rparr>]) \<noteq> []"
    by (simp add: assemble_page_text_def inked_trim inked_collapse inked_joined is_space_def code_of_def)
  then have "assemble_page_text [\<lparr>ti_str = ''ab '', ti_eol = False\<rparr>, \<lparr>ti_str = ''cd'', ti_eol = True\<rparr>] \<noteq> []" by auto
  then show ?thesis using page_text_exact[of "[\<lparr>ti_str = ''ab '', ti_eol = False\<rparr>, \<lparr>ti_str = ''cd'', ti_eol = True\<rparr>]"] by blast
qed


section \<open>The matches of a page\<close>

record excerpt =
  ex_pre :: string
  ex_match :: string
  ex_post :: string

text \<open>\<open>indexOf\<close> from a position.\<close>

definition index_from :: "string \<Rightarrow> nat \<Rightarrow> string \<Rightarrow> nat option" where
  "index_from needle i s = find (\<lambda>j. starts_with (drop j s) needle) [i..<Suc (length s)]"

definition occurs :: "string \<Rightarrow> string \<Rightarrow> nat \<Rightarrow> bool" where
  "occurs needle s j \<longleftrightarrow> j + length needle \<le> length s \<and> take (length needle) (drop j s) = needle"

lemma starts_with_occurs: "j \<le> length s \<Longrightarrow> starts_with (drop j s) needle \<longleftrightarrow> occurs needle s j"
proof -
  assume j: "j \<le> length s"
  have "j + length needle \<le> length s" if "take (length needle) (drop j s) = needle"
    using arg_cong[OF that, of length] j by simp
  then show ?thesis by (auto simp: occurs_def starts_with_def)
qed

lemma index_from_Some:
  assumes "index_from needle i s = Some j"
  shows "i \<le> j" "occurs needle s j" "\<And>k. i \<le> k \<Longrightarrow> k < j \<Longrightarrow> \<not> occurs needle s k"
proof -
  obtain n where n: "n < length [i..<Suc (length s)]" "starts_with (drop ([i..<Suc (length s)] ! n) s) needle" "j = [i..<Suc (length s)] ! n"
    "\<forall>m<n. \<not> starts_with (drop ([i..<Suc (length s)] ! m) s) needle"
    using assms by (auto simp: index_from_def find_Some_iff simp del: upt_Suc)
  have j: "j = i + n" "j \<le> length s" using n(1,3) by (simp_all del: upt_Suc)
  then show "i \<le> j" "occurs needle s j" using n(2,3) starts_with_occurs[of j s needle] by simp_all
  fix k assume k: "i \<le> k" "k < j"
  then have "[i..<Suc (length s)] ! (k - i) = k" "k - i < n" "k \<le> length s" using j n(1) by (simp_all del: upt_Suc)
  then show "\<not> occurs needle s k" using n(4) starts_with_occurs[of k s needle] by metis
qed

lemma index_from_None: "index_from needle i s = None \<Longrightarrow> i \<le> k \<Longrightarrow> \<not> occurs needle s k"
proof
  assume "index_from needle i s = None" "i \<le> k" and o: "occurs needle s k"
  moreover have "k \<le> length s" using o by (simp add: occurs_def)
  ultimately show False using starts_with_occurs[of k s needle] by (auto simp: index_from_def find_None_iff simp del: upt_Suc)
qed

function match_starts :: "string \<Rightarrow> string \<Rightarrow> nat \<Rightarrow> nat list" where
  "match_starts needle s i =
     (if needle = [] then []
      else case index_from needle i s of None \<Rightarrow> [] | Some j \<Rightarrow> j # match_starts needle s (j + length needle))"
  by pat_completeness auto
termination
proof (relation "measure (\<lambda>(needle, s, i). Suc (length s) - i)")
  fix needle s :: string and i j :: nat
  assume "needle \<noteq> []" "index_from needle i s = Some j"
  then have "i \<le> j" "j + length needle \<le> length s" "0 < length needle"
    using index_from_Some(1,2) by (auto simp: occurs_def)
  then show "((needle, s, j + length needle), needle, s, i) \<in> measure (\<lambda>(needle, s, i). Suc (length s) - i)" by (cases needle) auto
qed simp

declare match_starts.simps [simp del]

definition slice :: "nat \<Rightarrow> nat \<Rightarrow> string \<Rightarrow> string" where
  "slice i j s = take (j - i) (drop i s)"

definition excerpt_at :: "nat \<Rightarrow> string \<Rightarrow> nat \<Rightarrow> nat \<Rightarrow> excerpt" where
  "excerpt_at context_chars s n i =
     \<lparr>ex_pre = slice (i - context_chars) i s, ex_match = slice i (i + n) s, ex_post = slice (i + n) (i + n + context_chars) s\<rparr>"

definition find_page_matches :: "string \<Rightarrow> string \<Rightarrow> nat \<Rightarrow> excerpt list" where
  "find_page_matches page_text query context_chars =
     (let haystack = to_lower page_text; needle = to_lower query in
      map (excerpt_at context_chars page_text (length needle)) (match_starts needle haystack 0))"

lemma match_starts_spec:
  "needle \<noteq> [] \<Longrightarrow> sorted_wrt (\<lambda>a b. a + length needle \<le> b) (match_starts needle s i)
     \<and> (\<forall>m\<in>set (match_starts needle s i). i \<le> m \<and> occurs needle s m)
     \<and> (\<forall>j\<ge>i. occurs needle s j \<longrightarrow> (\<exists>m\<in>set (match_starts needle s i). m \<le> j \<and> j < m + length needle))"
proof (induction needle s i rule: match_starts.induct)
  case (1 needle s i)
  show ?case
  proof (cases "index_from needle i s")
    case None
    then show ?thesis using 1(2) index_from_None[OF None] by (auto simp: match_starts.simps[of needle s i])
  next
    case (Some j)
    note j = index_from_Some[OF Some]
    let ?r = "match_starts needle s (j + length needle)"
    have e: "match_starts needle s i = j # ?r" using 1(2) Some by (simp add: match_starts.simps[of needle s i])
    note ih = 1(1)[OF 1(2) Some 1(2)]
    have "\<exists>m\<in>set (j # ?r). m \<le> k \<and> k < m + length needle" if k: "i \<le> k" "occurs needle s k" for k
    proof (cases "j + length needle \<le> k")
      case True
      then show ?thesis using ih k(2) by auto
    next
      case False
      moreover have "j \<le> k" using j(3)[OF k(1)] k(2) by (metis not_le)
      ultimately show ?thesis by auto
    qed
    then show ?thesis using ih j(1,2) unfolding e by fastforce
  qed
qed

lemma to_lower_length [simp]: "length (to_lower s) = length s"
  by (simp add: to_lower_def)

lemma to_lower_slice: "to_lower (take n (drop i s)) = take n (drop i (to_lower s))"
  by (simp add: to_lower_def take_map drop_map)

lemma slice_join:
  assumes "i \<le> j" "j \<le> k"
  shows "slice i j s @ slice j k s = slice i k s"
proof -
  have "drop j s = drop (j - i) (drop i s)" "k - i = (j - i) + (k - j)" using assms by simp_all
  then show ?thesis unfolding slice_def by (metis take_add)
qed

text \<open>C36. The matches of a page are the leftmost ones: there are starts, in order and never overlapping, one for each excerpt, at each of which the query stands in the text
  (in upper or lower case), and every place where it stands overlaps one of them; an excerpt's three parts read on from each other, with the context on
  either side cut at the ends of the page.\<close>

theorem page_matches_exact:
  assumes "query \<noteq> []"
  shows "\<exists>starts. map (excerpt_at context_chars page (length query)) starts = find_page_matches page query context_chars
    \<and> sorted_wrt (\<lambda>a b. a + length query \<le> b) starts
    \<and> (\<forall>j. occurs (to_lower query) (to_lower page) j \<longrightarrow> (\<exists>m\<in>set starts. m \<le> j \<and> j < m + length query))
    \<and> (\<forall>m\<in>set starts. occurs (to_lower query) (to_lower page) m
         \<and> (let e = excerpt_at context_chars page (length query) m in
              to_lower (ex_match e) = to_lower query
              \<and> ex_pre e @ ex_match e @ ex_post e = slice (m - context_chars) (m + length query + context_chars) page))"
proof (intro exI conjI)
  let ?s = "match_starts (to_lower query) (to_lower page) 0"
  have n: "to_lower query \<noteq> []" using assms by (simp add: to_lower_def)
  note spec = match_starts_spec[OF n, of "to_lower page" 0]
  show "map (excerpt_at context_chars page (length query)) ?s = find_page_matches page query context_chars"
    by (simp add: find_page_matches_def Let_def)
  show "sorted_wrt (\<lambda>a b. a + length query \<le> b) ?s" using spec by simp
  show "\<forall>j. occurs (to_lower query) (to_lower page) j \<longrightarrow> (\<exists>m\<in>set ?s. m \<le> j \<and> j < m + length query)" using spec by simp
  have "to_lower (slice m (m + length query) page) = to_lower query" if "occurs (to_lower query) (to_lower page) m" for m
    using that by (simp add: slice_def to_lower_slice occurs_def)
  moreover have "slice (m - context_chars) m page @ slice m (m + length query) page @ slice (m + length query) (m + length query + context_chars) page
      = slice (m - context_chars) (m + length query + context_chars) page" for m
    by (simp add: slice_join)
  ultimately show "\<forall>m\<in>set ?s. occurs (to_lower query) (to_lower page) m
         \<and> (let e = excerpt_at context_chars page (length query) m in
              to_lower (ex_match e) = to_lower query
              \<and> ex_pre e @ ex_match e @ ex_post e = slice (m - context_chars) (m + length query + context_chars) page)"
    using spec by (simp add: excerpt_at_def Let_def)
qed

theorem page_matches_exact_witness:
  "\<exists>starts. map (excerpt_at 40 ''An ant, ANT'' 3) starts = find_page_matches ''An ant, ANT'' ''Ant'' 40 \<and> (\<exists>m\<in>set starts. m \<le> 8 \<and> 8 < m + 3)"
proof -
  have o: "occurs (to_lower ''Ant'') (to_lower ''An ant, ANT'') 8" by code_simp
  have l: "(3::nat) = length ''Ant''" by simp
  have n: "''Ant'' \<noteq> []" by simp
  show ?thesis unfolding l using page_matches_exact[OF n, of 40 "''An ant, ANT''"] o by blast
qed


section \<open>The state of a search\<close>

record search_match =
  sm_locator :: "string option"
  sm_page :: "nat option"
  sm_excerpt :: excerpt

record search_group =
  sg_label :: string
  sg_matches :: "search_match list"

record search_state =
  st_book :: nat
  st_query :: string
  st_running :: bool
  st_groups :: "search_group list"
  st_total :: nat
  st_truncated :: bool

definition empty_search_state :: "nat \<Rightarrow> string \<Rightarrow> search_state" where
  "empty_search_state book query =
     \<lparr>st_book = book, st_query = query, st_running = True, st_groups = [], st_total = 0, st_truncated = False\<rparr>"

definition append_search_group :: "nat \<Rightarrow> search_group \<Rightarrow> search_state \<Rightarrow> search_state" where
  "append_search_group book g st =
     (if st_book st \<noteq> book then st
      else st\<lparr>st_groups := st_groups st @ [g], st_total := st_total st + length (sg_matches g)\<rparr>)"

definition finish_search_group :: "nat \<Rightarrow> bool \<Rightarrow> search_state \<Rightarrow> search_state" where
  "finish_search_group book truncated st =
     (if st_book st \<noteq> book then st else st\<lparr>st_running := False, st_truncated := truncated\<rparr>)"

section \<open>The run over the pages\<close>

definition MAX_TOTAL_MATCHES :: nat where "MAX_TOTAL_MATCHES = 500"

record pdf_text =
  pt_count :: nat
  pt_text :: "nat \<Rightarrow> string option"   \<comment> \<open>\<open>None\<close> when the extraction fails\<close>

text \<open>A run that waits for the text of a page.\<close>

record search_run =
  sr_generation :: nat
  sr_query :: string
  sr_page :: nat
  sr_total :: nat

record search_shell =
  sh_book :: nat
  sh_open :: bool                    \<comment> \<open>the document is open\<close>
  sh_generation :: nat
  sh_cache :: "nat \<Rightarrow> string option"
  sh_runs :: "search_run list"
  sh_state :: "search_state option"

definition new_shell :: "nat \<Rightarrow> search_shell" where
  "new_shell book = \<lparr>sh_book = book, sh_open = False, sh_generation = 0, sh_cache = (\<lambda>p. None), sh_runs = [], sh_state = None\<rparr>"

definition finish_run :: "search_run \<Rightarrow> search_shell \<Rightarrow> search_shell" where
  "finish_run r sh =
     (if sr_generation r = sh_generation sh
      then sh\<lparr>sh_state := map_option (finish_search_group (sh_book sh) (MAX_TOTAL_MATCHES \<le> sr_total r)) (sh_state sh)\<rparr>
      else sh)"

text \<open>The head of the loop: on to the run's page, or the end.\<close>

definition loop_head :: "pdf_text \<Rightarrow> search_run \<Rightarrow> search_shell \<Rightarrow> search_shell" where
  "loop_head pdf r sh =
     (if pt_count pdf < sr_page r then finish_run r sh
      else if sr_generation r \<noteq> sh_generation sh then sh
      else sh\<lparr>sh_runs := sh_runs sh @ [r]\<rparr>)"

definition start_run :: "pdf_text \<Rightarrow> string \<Rightarrow> search_shell \<Rightarrow> search_shell" where
  "start_run pdf query sh =
     (if \<not> sh_open sh \<or> query = [] then sh
      else loop_head pdf \<lparr>sr_generation = Suc (sh_generation sh), sr_query = query, sr_page = 1, sr_total = 0\<rparr>
        (sh\<lparr>sh_generation := Suc (sh_generation sh)\<rparr>))"

definition cancel_run :: "search_shell \<Rightarrow> search_shell" where
  "cancel_run sh = (if sh_open sh then sh\<lparr>sh_generation := Suc (sh_generation sh)\<rparr> else sh)"

definition page_group :: "nat \<Rightarrow> string \<Rightarrow> string \<Rightarrow> search_group list" where
  "page_group p page_text query =
     (case find_page_matches page_text query 40 of
        [] \<Rightarrow> []
      | es \<Rightarrow> [\<lparr>sg_label = ''Page '' @ show_nat p, sg_matches = map (\<lambda>e. \<lparr>sm_locator = None, sm_page = Some p, sm_excerpt = e\<rparr>) es\<rparr>])"

text \<open>The rest of an iteration once the text is there.\<close>

definition take_page :: "pdf_text \<Rightarrow> search_run \<Rightarrow> string \<Rightarrow> search_shell \<Rightarrow> search_shell" where
  "take_page pdf r page_text sh =
     (if sr_generation r \<noteq> sh_generation sh then sh
      else
        let groups = page_group (sr_page r) page_text (sr_query r);
            total = sr_total r + sum_list (map (\<lambda>g. length (sg_matches g)) groups);
            sh1 = sh\<lparr>sh_state := map_option (\<lambda>st. fold (append_search_group (sh_book sh)) groups st) (sh_state sh)\<rparr> in
        if MAX_TOTAL_MATCHES \<le> total then finish_run (r\<lparr>sr_total := total\<rparr>) sh1
        else loop_head pdf (r\<lparr>sr_total := total, sr_page := Suc (sr_page r)\<rparr>) sh1)"

definition resume_run :: "pdf_text \<Rightarrow> nat \<Rightarrow> search_shell \<Rightarrow> search_shell" where
  "resume_run pdf g sh0 =
     (case find (\<lambda>r. sr_generation r = g) (sh_runs sh0) of
        None \<Rightarrow> sh0
      | Some r \<Rightarrow>
          let sh = sh0\<lparr>sh_runs := filter (\<lambda>r. sr_generation r \<noteq> g) (sh_runs sh0)\<rparr> in
          case sh_cache sh (sr_page r) of
            Some t \<Rightarrow> take_page pdf r t sh
          | None \<Rightarrow>
              (case pt_text pdf (sr_page r) of
                 None \<Rightarrow> loop_head pdf (r\<lparr>sr_page := Suc (sr_page r)\<rparr>) sh
               | Some t \<Rightarrow> take_page pdf r t (sh\<lparr>sh_cache := (sh_cache sh)(sr_page r := Some t)\<rparr>)))"

text \<open>The shell's \<open>runSearch\<close>.\<close>

definition run_search :: "pdf_text \<Rightarrow> string \<Rightarrow> search_shell \<Rightarrow> search_shell" where
  "run_search pdf query sh =
     (if query = [] then (cancel_run sh)\<lparr>sh_state := None\<rparr>
      else start_run pdf query (sh\<lparr>sh_state := Some (empty_search_state (sh_book sh) query)\<rparr>))"

text \<open>What happens to a shell: its document opens, the user searches, a page's text arrives for a run, or another book's reader still reports.\<close>

datatype search_event = DocumentOpens | RunSearch string | Resume nat | OtherGroup nat search_group | OtherDone nat bool

definition search_step :: "pdf_text \<Rightarrow> search_shell \<Rightarrow> search_event \<Rightarrow> search_shell" where
  "search_step pdf sh ev =
     (case ev of
        DocumentOpens \<Rightarrow> sh\<lparr>sh_open := True\<rparr>
      | RunSearch query \<Rightarrow> run_search pdf query sh
      | Resume g \<Rightarrow> resume_run pdf g sh
      | OtherGroup b g \<Rightarrow> sh\<lparr>sh_state := map_option (append_search_group b g) (sh_state sh)\<rparr>
      | OtherDone b t \<Rightarrow> sh\<lparr>sh_state := map_option (finish_search_group b t) (sh_state sh)\<rparr>)"

section \<open>What the overlay shows\<close>

definition groups_upto :: "pdf_text \<Rightarrow> string \<Rightarrow> nat \<Rightarrow> search_group list" where
  "groups_upto pdf query k =
     concat (map (\<lambda>p. case pt_text pdf p of None \<Rightarrow> [] | Some t \<Rightarrow> page_group p t query) [1..<Suc k])"

definition match_count :: "search_group list \<Rightarrow> nat" where
  "match_count gs = sum_list (map (\<lambda>g. length (sg_matches g)) gs)"

text \<open>The state of a search after \<open>k\<close> pages.\<close>

definition shows_upto :: "pdf_text \<Rightarrow> search_state \<Rightarrow> nat \<Rightarrow> bool" where
  "shows_upto pdf st k \<longleftrightarrow> st_groups st = groups_upto pdf (st_query st) k \<and> st_total st = match_count (st_groups st)"

definition settled_at :: "pdf_text \<Rightarrow> search_state \<Rightarrow> bool" where
  "settled_at pdf st \<longleftrightarrow>
     (\<exists>k. shows_upto pdf st k \<and>
        (\<not> st_running st \<and> (st_truncated st \<longleftrightarrow> MAX_TOTAL_MATCHES \<le> st_total st) \<and> (\<not> st_truncated st \<longrightarrow> k = pt_count pdf)
         \<or> st_running st \<and> k = 0))"

definition search_base :: "pdf_text \<Rightarrow> nat \<Rightarrow> search_shell \<Rightarrow> bool" where
  "search_base pdf book sh \<longleftrightarrow> sh_book sh = book
     \<and> (\<forall>p t. sh_cache sh p = Some t \<longrightarrow> pt_text pdf p = Some t)
     \<and> distinct (map sr_generation (sh_runs sh)) \<and> (\<forall>r\<in>set (sh_runs sh). sr_generation r \<le> sh_generation sh)
     \<and> (\<not> sh_open sh \<longrightarrow> sh_runs sh = []) \<and> (\<forall>st. sh_state sh = Some st \<longrightarrow> st_book st = book)"

definition no_current :: "search_shell \<Rightarrow> bool" where
  "no_current sh \<longleftrightarrow> (\<forall>r\<in>set (sh_runs sh). sr_generation r \<noteq> sh_generation sh)"

text \<open>A run that has delivered every page before its own.\<close>

definition run_fits :: "pdf_text \<Rightarrow> search_run \<Rightarrow> search_state \<Rightarrow> bool" where
  "run_fits pdf r st \<longleftrightarrow> sr_query r = st_query st \<and> 1 \<le> sr_page r \<and> sr_page r \<le> Suc (pt_count pdf) \<and> sr_total r = st_total st
     \<and> st_running st \<and> st_total st < MAX_TOTAL_MATCHES \<and> shows_upto pdf st (sr_page r - 1)"

definition search_ok :: "pdf_text \<Rightarrow> nat \<Rightarrow> search_shell \<Rightarrow> bool" where
  "search_ok pdf book sh \<longleftrightarrow> search_base pdf book sh
     \<and> (\<forall>st. sh_state sh = Some st \<longrightarrow>
          (\<forall>r\<in>set (sh_runs sh). sr_generation r = sh_generation sh \<longrightarrow> run_fits pdf r st \<and> sr_page r \<le> pt_count pdf)
          \<and> (no_current sh \<longrightarrow> settled_at pdf st))"

lemma settled_no_current: "search_base pdf book sh \<Longrightarrow> no_current sh \<Longrightarrow> (\<And>st. sh_state sh = Some st \<Longrightarrow> settled_at pdf st) \<Longrightarrow> search_ok pdf book sh"
  by (simp add: search_ok_def no_current_def)

lemma finish_run_ok:
  assumes "search_base pdf book sh" "no_current sh" "sr_generation r = sh_generation sh"
    and "\<And>st. sh_state sh = Some st \<Longrightarrow> shows_upto pdf st k \<and> sr_total r = st_total st \<and> (MAX_TOTAL_MATCHES \<le> st_total st \<or> k = pt_count pdf)"
  shows "search_ok pdf book (finish_run r sh)"
proof (rule settled_no_current)
  show "search_base pdf book (finish_run r sh)" using assms(1,3)
    by (auto simp: finish_run_def search_base_def finish_search_group_def)
  show "no_current (finish_run r sh)" using assms(2) by (simp add: finish_run_def no_current_def)
  fix st assume "sh_state (finish_run r sh) = Some st"
  then obtain st0 where st: "sh_state sh = Some st0" "st = finish_search_group (sh_book sh) (MAX_TOTAL_MATCHES \<le> sr_total r) st0"
    using assms(3) by (auto simp: finish_run_def)
  moreover have "st_book st0 = sh_book sh" using assms(1) st(1) by (simp add: search_base_def)
  ultimately show "settled_at pdf st" using assms(4)[OF st(1)]
    by (auto simp: settled_at_def finish_search_group_def shows_upto_def)
qed

lemma loop_head_ok:
  assumes "search_base pdf book sh" "no_current sh" "sr_generation r = sh_generation sh" "sh_open sh"
    and "\<And>st. sh_state sh = Some st \<Longrightarrow> run_fits pdf r st"
  shows "search_ok pdf book (loop_head pdf r sh)"
proof (cases "pt_count pdf < sr_page r")
  case True
  have "search_ok pdf book (finish_run r sh)"
    by (rule finish_run_ok[OF assms(1-3), of "sr_page r - 1"]) (use assms(5) True in \<open>auto simp: run_fits_def\<close>)
  then show ?thesis using True by (simp add: loop_head_def)
next
  case False
  then have e: "loop_head pdf r sh = sh\<lparr>sh_runs := sh_runs sh @ [r]\<rparr>" using assms(3) by (simp add: loop_head_def)
  have "sr_generation r \<notin> sr_generation ` set (sh_runs sh)" using assms(2,3) by (auto simp: no_current_def)
  then show ?thesis using assms False unfolding e
    by (auto simp: search_ok_def search_base_def no_current_def)
qed

lemma loop_head_stale: "sr_generation r \<noteq> sh_generation sh \<Longrightarrow> loop_head pdf r sh = sh"
  by (simp add: loop_head_def finish_run_def)

lemma groups_upto_Suc:
  "1 \<le> p \<Longrightarrow> groups_upto pdf q p = groups_upto pdf q (p - 1) @ (case pt_text pdf p of None \<Rightarrow> [] | Some t \<Rightarrow> page_group p t q)"
  by (cases p) (auto simp: groups_upto_def split: option.split)

lemma match_count_append: "match_count (a @ b) = match_count a + match_count b"
  by (simp add: match_count_def)

lemma append_groups:
  "st_book st = book \<Longrightarrow> fold (append_search_group book) gs st
     = st\<lparr>st_groups := st_groups st @ gs, st_total := st_total st + match_count gs\<rparr>"
  by (induction gs arbitrary: st) (simp_all add: append_search_group_def match_count_def)

lemma take_page_ok:
  assumes "search_base pdf book sh" "no_current sh" "sr_generation r = sh_generation sh" "sh_open sh"
    and fits: "\<And>st. sh_state sh = Some st \<Longrightarrow> run_fits pdf r st \<and> sr_page r \<le> pt_count pdf"
    and t: "pt_text pdf (sr_page r) = Some t"
  shows "search_ok pdf book (take_page pdf r t sh)"
proof -
  let ?gs = "page_group (sr_page r) t (sr_query r)"
  let ?n = "sr_total r + match_count ?gs"
  define sh1 where "sh1 = sh\<lparr>sh_state := map_option (\<lambda>st. fold (append_search_group (sh_book sh)) ?gs st) (sh_state sh)\<rparr>"
  have e: "take_page pdf r t sh = (if MAX_TOTAL_MATCHES \<le> ?n then finish_run (r\<lparr>sr_total := ?n\<rparr>) sh1
      else loop_head pdf (r\<lparr>sr_total := ?n, sr_page := Suc (sr_page r)\<rparr>) sh1)"
    using assms(3) by (simp add: take_page_def sh1_def match_count_def Let_def)
  have st1: "shows_upto pdf st (sr_page r) \<and> st_total st = ?n \<and> st_query st = sr_query r \<and> st_running st \<and> st_book st = book \<and> 1 \<le> sr_page r
      \<and> sr_page r \<le> pt_count pdf" if st: "sh_state sh1 = Some st" for st
  proof -
    obtain st0 where st0: "sh_state sh = Some st0" "st = fold (append_search_group (sh_book sh)) ?gs st0"
      using st by (auto simp: sh1_def)
    have b: "st_book st0 = sh_book sh" "sh_book sh = book" using assms(1) st0(1) by (simp_all add: search_base_def)
    have f: "st_query st0 = sr_query r" "1 \<le> sr_page r" "sr_page r \<le> pt_count pdf" "st_total st0 = sr_total r" "st_running st0"
      "st_groups st0 = groups_upto pdf (sr_query r) (sr_page r - 1)" "st_total st0 = match_count (st_groups st0)"
      using fits[OF st0(1)] by (simp_all add: run_fits_def shows_upto_def)
    have g: "groups_upto pdf (sr_query r) (sr_page r) = st_groups st0 @ ?gs"
      using groups_upto_Suc[OF f(2), of pdf "sr_query r"] t f(6) by simp
    have e: "st = st0\<lparr>st_groups := st_groups st0 @ ?gs, st_total := st_total st0 + match_count ?gs\<rparr>"
      using append_groups[OF b(1)] st0(2) by simp
    have "shows_upto pdf st (sr_page r)" by (simp only: e shows_upto_def) (simp add: f(1,7) g match_count_append)
    then show ?thesis using b f(2,3) by (simp add: e f(1-5))
  qed
  have base: "search_base pdf book sh1" "no_current sh1" "sr_generation r = sh_generation sh1" "sh_open sh1"
  proof -
    have f: "sh_book sh1 = sh_book sh" "sh_cache sh1 = sh_cache sh" "sh_runs sh1 = sh_runs sh" "sh_generation sh1 = sh_generation sh"
      "sh_open sh1 = sh_open sh" by (simp_all add: sh1_def)
    have b: "\<forall>st. sh_state sh1 = Some st \<longrightarrow> st_book st = book" using st1 by blast
    show "search_base pdf book sh1" using assms(1) b unfolding search_base_def f by blast
    show "no_current sh1" using assms(2) unfolding no_current_def f .
    show "sr_generation r = sh_generation sh1" "sh_open sh1" using assms(3,4) unfolding f by this+
  qed
  show ?thesis
  proof (cases "MAX_TOTAL_MATCHES \<le> ?n")
    case True
    then show ?thesis unfolding e using finish_run_ok[OF base(1,2), of "r\<lparr>sr_total := ?n\<rparr>" "sr_page r"] base(3) st1 by simp
  next
    case False
    then show ?thesis unfolding e
      using loop_head_ok[OF base(1,2), of "r\<lparr>sr_total := ?n, sr_page := Suc (sr_page r)\<rparr>"] base(3,4) st1
      by (simp add: run_fits_def)
  qed
qed


lemma take_page_stale: "sr_generation r \<noteq> sh_generation sh \<Longrightarrow> take_page pdf r t sh = sh"
  by (simp add: take_page_def)

lemma search_ok_drop:
  assumes "search_ok pdf book sh" "g \<noteq> sh_generation sh"
  shows "search_ok pdf book (sh\<lparr>sh_runs := filter (\<lambda>r. sr_generation r \<noteq> g) (sh_runs sh)\<rparr>)"
  using assms by (auto simp: search_ok_def search_base_def no_current_def distinct_map_filter)

lemma search_ok_cache:
  assumes "search_ok pdf book sh" "pt_text pdf p = Some t"
  shows "search_ok pdf book (sh\<lparr>sh_cache := (sh_cache sh)(p := Some t)\<rparr>)"
  using assms by (simp add: search_ok_def search_base_def no_current_def)

lemma resume_run_ok:
  assumes ok: "search_ok pdf book sh0"
  shows "search_ok pdf book (resume_run pdf g sh0)"
proof (cases "find (\<lambda>r. sr_generation r = g) (sh_runs sh0)")
  case None
  then show ?thesis using ok by (simp add: resume_run_def)
next
  case (Some r)
  then have r: "r \<in> set (sh_runs sh0)" "sr_generation r = g" by (auto simp: find_Some_iff)
  define sh where "sh = sh0\<lparr>sh_runs := filter (\<lambda>r. sr_generation r \<noteq> g) (sh_runs sh0)\<rparr>"
  define sh' where "sh' = (case sh_cache sh (sr_page r) of Some t \<Rightarrow> sh
      | None \<Rightarrow> (case pt_text pdf (sr_page r) of None \<Rightarrow> sh | Some t \<Rightarrow> sh\<lparr>sh_cache := (sh_cache sh)(sr_page r := Some t)\<rparr>))"
  have cache: "sh_cache sh (sr_page r) = Some t \<Longrightarrow> pt_text pdf (sr_page r) = Some t" for t
    using ok by (simp add: search_ok_def search_base_def sh_def)
  have e: "resume_run pdf g sh0 = (case pt_text pdf (sr_page r) of
      None \<Rightarrow> loop_head pdf (r\<lparr>sr_page := Suc (sr_page r)\<rparr>) sh' | Some t \<Rightarrow> take_page pdf r t sh')"
    using Some cache by (auto simp: resume_run_def Let_def sh_def[symmetric] sh'_def split: option.split)
  have same: "sh_generation sh' = sh_generation sh0" "sh_runs sh' = sh_runs sh" "sh_state sh' = sh_state sh0" "sh_open sh' = sh_open sh0"
    by (auto simp: sh'_def sh_def split: option.split)
  show ?thesis
  proof (cases "g = sh_generation sh0")
    case False
    have "search_ok pdf book sh" unfolding sh_def by (rule search_ok_drop[OF ok False])
    then have "search_ok pdf book sh'" using search_ok_cache by (auto simp: sh'_def split: option.split)
    then show ?thesis unfolding e using False r(2) same(1) by (simp add: take_page_stale loop_head_stale split: option.split)
  next
    case True
    have "search_base pdf book sh" using ok by (auto simp: search_ok_def search_base_def sh_def distinct_map_filter)
    then have base: "search_base pdf book sh'" by (auto simp: search_base_def sh'_def split: option.split)
    have none: "no_current sh'" using True same by (auto simp: no_current_def sh_def)
    have gen: "sr_generation r = sh_generation sh'" using r(2) True same by simp
    have open': "sh_open sh'" using ok r(1) same(4) by (auto simp: search_ok_def search_base_def)
    have fits: "run_fits pdf r st \<and> sr_page r \<le> pt_count pdf" if "sh_state sh' = Some st" for st
      using ok that r True same by (auto simp: search_ok_def)
    show ?thesis
    proof (cases "pt_text pdf (sr_page r)")
      case None
      have "run_fits pdf (r\<lparr>sr_page := Suc (sr_page r)\<rparr>) st" if "sh_state sh' = Some st" for st
      proof -
        note f = fits[OF that, unfolded run_fits_def shows_upto_def]
        have "groups_upto pdf (st_query st) (sr_page r) = groups_upto pdf (st_query st) (sr_page r - 1)"
          using groups_upto_Suc[of "sr_page r" pdf "st_query st"] f None by simp
        then show ?thesis using f by (auto simp: run_fits_def shows_upto_def)
      qed
      then show ?thesis using loop_head_ok[OF base none, of "r\<lparr>sr_page := Suc (sr_page r)\<rparr>"] gen open' by (simp add: e None)
    next
      case (Some t)
      then show ?thesis using take_page_ok[OF base none gen open' fits Some] by (simp add: e)
    qed
  qed
qed

lemma run_search_ok:
  assumes "search_ok pdf book sh"
  shows "search_ok pdf book (run_search pdf query sh)"
proof (cases "query = []")
  case True
  have "search_base pdf book ((cancel_run sh)\<lparr>sh_state := None\<rparr>)"
    using assms by (auto simp: search_ok_def search_base_def cancel_run_def le_SucI)
  then show ?thesis using True by (simp add: run_search_def search_ok_def)
next
  case False
  let ?st = "empty_search_state (sh_book sh) query"
  have zero: "shows_upto pdf ?st 0" by (simp add: shows_upto_def groups_upto_def match_count_def empty_search_state_def)
  show ?thesis
  proof (cases "sh_open sh")
    case closed: False
    have "search_base pdf book (sh\<lparr>sh_state := Some ?st\<rparr>)"
      using assms by (auto simp: search_ok_def search_base_def empty_search_state_def)
    moreover have "sh_runs sh = []" using assms closed by (simp add: search_ok_def search_base_def)
    moreover have "settled_at pdf ?st" unfolding settled_at_def using zero by (auto simp: empty_search_state_def)
    ultimately show ?thesis using False closed
      by (auto simp: run_search_def start_run_def search_ok_def no_current_def)
  next
    case True
    let ?sh = "sh\<lparr>sh_state := Some ?st, sh_generation := Suc (sh_generation sh)\<rparr>"
    let ?r = "\<lparr>sr_generation = Suc (sh_generation sh), sr_query = query, sr_page = 1, sr_total = 0\<rparr>"
    have le: "\<forall>r\<in>set (sh_runs sh). sr_generation r \<le> sh_generation sh" using assms by (simp add: search_ok_def search_base_def)
    have base: "search_base pdf book ?sh"
      using assms by (auto simp: search_ok_def search_base_def empty_search_state_def le_SucI)
    have none: "no_current ?sh" using le by (auto simp: no_current_def)
    have "search_ok pdf book (loop_head pdf ?r ?sh)"
      by (rule loop_head_ok[OF base none]) (use True zero in \<open>auto simp: run_fits_def empty_search_state_def MAX_TOTAL_MATCHES_def\<close>)
    then show ?thesis using False True by (simp add: run_search_def start_run_def)
  qed
qed

fun from_elsewhere :: "nat \<Rightarrow> search_event \<Rightarrow> bool" where
  "from_elsewhere book (OtherGroup b g) = (b \<noteq> book)"
| "from_elsewhere book (OtherDone b t) = (b \<noteq> book)"
| "from_elsewhere book ev = True"

lemma search_step_ok:
  assumes "search_ok pdf book sh" "from_elsewhere book ev"
  shows "search_ok pdf book (search_step pdf sh ev)"
proof (cases ev)
  case DocumentOpens
  then show ?thesis using assms(1) by (simp add: search_step_def search_ok_def search_base_def no_current_def)
next
  case (OtherGroup b g)
  have "map_option (append_search_group b g) (sh_state sh) = sh_state sh"
    using assms OtherGroup by (cases "sh_state sh") (auto simp: search_ok_def search_base_def append_search_group_def)
  then show ?thesis using assms(1) OtherGroup by (simp add: search_step_def)
next
  case (OtherDone b t)
  have "map_option (finish_search_group b t) (sh_state sh) = sh_state sh"
    using assms OtherDone by (cases "sh_state sh") (auto simp: search_ok_def search_base_def finish_search_group_def)
  then show ?thesis using assms(1) OtherDone by (simp add: search_step_def)
qed (simp_all add: search_step_def run_search_ok resume_run_ok assms(1))

interpretation searching: invariant_machine "search_step pdf" "from_elsewhere book" "search_ok pdf book" for pdf book
  by unfold_locales (rule search_step_ok)


lemma new_shell_ok: "search_ok pdf book (new_shell book)"
  by (simp add: search_ok_def search_base_def new_shell_def)

lemma reached_ok: "list_all (from_elsewhere book) evs \<Longrightarrow> search_ok pdf book (run (search_step pdf) (new_shell book) evs)"
  by (rule searching.run_keeps[OF new_shell_ok])

lemma ok_shows:
  assumes "search_ok pdf book sh" "sh_state sh = Some st"
  shows "\<exists>k. shows_upto pdf st k \<and> (\<not> st_running st \<longrightarrow> (st_truncated st \<longleftrightarrow> MAX_TOTAL_MATCHES \<le> st_total st) \<and> (st_truncated st \<or> k = pt_count pdf))"
proof (cases "no_current sh")
  case True
  then show ?thesis using assms by (auto simp: search_ok_def settled_at_def)
next
  case False
  then obtain r where "r \<in> set (sh_runs sh)" "sr_generation r = sh_generation sh" by (auto simp: no_current_def)
  then have "run_fits pdf r st" using assms by (simp add: search_ok_def)
  then show ?thesis by (auto simp: run_fits_def)
qed

text \<open>C37. What the overlay shows always belongs to the query it shows: at every point of any interleaving of searches, cancels, page texts that arrive late, other readers'
  reports and the opening of the document, the groups are the matches of the first pages for that query, each page once and in order, with their exact
  number; a search that is done has gone through all pages, or has stopped at the limit and says so.\<close>

theorem search_shows_its_query:
  assumes "list_all (from_elsewhere book) evs"
    and "sh_state (run (search_step pdf) (new_shell book) evs) = Some st"
  shows "\<exists>k. st_groups st = groups_upto pdf (st_query st) k \<and> st_total st = match_count (st_groups st)
    \<and> (\<not> st_running st \<longrightarrow> (st_truncated st \<longleftrightarrow> MAX_TOTAL_MATCHES \<le> st_total st) \<and> (st_truncated st \<or> k = pt_count pdf))"
  using ok_shows[OF reached_ok[OF assms(1)] assms(2)] by (simp add: shows_upto_def)

definition demo_pdf :: pdf_text where
  "demo_pdf = \<lparr>pt_count = 2, pt_text = (\<lambda>p. if p = 1 then Some ''An ant'' else None)\<rparr>"

definition demo_search :: "search_event list" where
  "demo_search = [DocumentOpens, RunSearch ''x'', RunSearch ''ant'', Resume 1, Resume 2, OtherDone 9 False, Resume 2]"

theorem search_shows_its_query_witness:
  "\<exists>st. sh_state (run (search_step demo_pdf) (new_shell 3) demo_search) = Some st \<and> \<not> st_running st
     \<and> st_groups st = groups_upto demo_pdf ''ant'' 2"
proof -
  have q: "map_option (\<lambda>st. (st_query st, st_running st, st_truncated st)) (sh_state (run (search_step demo_pdf) (new_shell 3) demo_search))
      = Some (''ant'', False, False)" by code_simp
  then obtain st where st: "sh_state (run (search_step demo_pdf) (new_shell 3) demo_search) = Some st"
    "st_query st = ''ant''" "\<not> st_running st" "\<not> st_truncated st" by auto
  have "list_all (from_elsewhere 3) demo_search" by (simp add: demo_search_def)
  from search_shows_its_query[OF this st(1)] show ?thesis using st by (auto simp: demo_pdf_def)
qed

section \<open>A search comes to its end\<close>

lemma loop_head_progress:
  assumes "sr_generation r = sh_generation sh" "sh_state sh = Some st" "st_book st = sh_book sh" "no_current sh"
  shows "\<exists>st'. sh_state (loop_head pdf r sh) = Some st' \<and> st_query st' = st_query st \<and> sh_generation (loop_head pdf r sh) = sh_generation sh
    \<and> (no_current (loop_head pdf r sh) \<and> \<not> st_running st' \<or> r \<in> set (sh_runs (loop_head pdf r sh)))"
  using assms by (auto simp: loop_head_def finish_run_def finish_search_group_def no_current_def)

lemma take_page_progress:
  assumes "sr_generation r = sh_generation sh" "sh_state sh = Some st" "st_book st = sh_book sh" "no_current sh"
  shows "\<exists>st'. sh_state (take_page pdf r t sh) = Some st' \<and> st_query st' = st_query st \<and> sh_generation (take_page pdf r t sh) = sh_generation sh
    \<and> (no_current (take_page pdf r t sh) \<and> \<not> st_running st' \<or> (\<exists>r'\<in>set (sh_runs (take_page pdf r t sh)). sr_generation r' = sh_generation sh \<and> sr_page r' = Suc (sr_page r)))"
proof -
  let ?gs = "page_group (sr_page r) t (sr_query r)"
  let ?n = "sr_total r + sum_list (map (\<lambda>g. length (sg_matches g)) ?gs)"
  define sh1 where "sh1 = sh\<lparr>sh_state := map_option (\<lambda>st. fold (append_search_group (sh_book sh)) ?gs st) (sh_state sh)\<rparr>"
  have e: "take_page pdf r t sh = (if MAX_TOTAL_MATCHES \<le> ?n then finish_run (r\<lparr>sr_total := ?n\<rparr>) sh1
      else loop_head pdf (r\<lparr>sr_total := ?n, sr_page := Suc (sr_page r)\<rparr>) sh1)"
    using assms(1) by (simp add: take_page_def sh1_def Let_def)
  obtain st1 where st1: "sh_state sh1 = Some st1" "st_query st1 = st_query st" "st_book st1 = sh_book sh"
    using append_groups[OF assms(3), of ?gs] assms(2,3) by (simp add: sh1_def)
  have f: "sh_book sh1 = sh_book sh" "sh_generation sh1 = sh_generation sh" "no_current sh1"
    using assms(4) by (simp_all add: sh1_def no_current_def)
  show ?thesis
  proof (cases "MAX_TOTAL_MATCHES \<le> ?n")
    case True
    then show ?thesis unfolding e using st1 f assms(1) by (simp add: finish_run_def finish_search_group_def no_current_def)
  next
    case False
    let ?r = "r\<lparr>sr_total := ?n, sr_page := Suc (sr_page r)\<rparr>"
    have "sr_generation ?r = sh_generation sh1" "st_book st1 = sh_book sh1" using assms(1) f st1(3) by simp_all
    from loop_head_progress[OF this(1) st1(1) this(2) f(3), of pdf] obtain st' where
      "sh_state (loop_head pdf ?r sh1) = Some st'" "st_query st' = st_query st" "sh_generation (loop_head pdf ?r sh1) = sh_generation sh"
      "no_current (loop_head pdf ?r sh1) \<and> \<not> st_running st' \<or> ?r \<in> set (sh_runs (loop_head pdf ?r sh1))"
      using st1(2) f(2) by auto
    then show ?thesis unfolding e using False assms(1) by (auto intro!: bexI[of _ ?r])
  qed
qed


lemma resume_progress:
  assumes ok: "search_ok pdf book sh0" and r: "r \<in> set (sh_runs sh0)" "sr_generation r = sh_generation sh0" and st: "sh_state sh0 = Some st"
  shows "\<exists>st'. let sh' = resume_run pdf (sh_generation sh0) sh0 in
    sh_state sh' = Some st' \<and> st_query st' = st_query st \<and> sh_generation sh' = sh_generation sh0
    \<and> (no_current sh' \<and> \<not> st_running st'
       \<or> (\<exists>r'\<in>set (sh_runs sh'). sr_generation r' = sh_generation sh0 \<and> sr_page r' = Suc (sr_page r)))"
proof -
  let ?g = "sh_generation sh0"
  obtain r' where f: "find (\<lambda>r. sr_generation r = ?g) (sh_runs sh0) = Some r'"
    using r by (cases "find (\<lambda>r. sr_generation r = ?g) (sh_runs sh0)") (auto simp: find_None_iff)
  then have "r' \<in> set (sh_runs sh0)" "sr_generation r' = ?g" by (auto simp: find_Some_iff)
  moreover have "distinct (map sr_generation (sh_runs sh0))" using ok by (simp add: search_ok_def search_base_def)
  ultimately have rr: "r' = r" using r by (metis (mono_tags, lifting) distinct_map inj_onD)
  define sh where "sh = sh0\<lparr>sh_runs := filter (\<lambda>r. sr_generation r \<noteq> ?g) (sh_runs sh0)\<rparr>"
  have pre: "sr_generation r = sh_generation (sh\<lparr>sh_cache := c\<rparr>)" "sh_state (sh\<lparr>sh_cache := c\<rparr>) = Some st"
    "st_book st = sh_book (sh\<lparr>sh_cache := c\<rparr>)" "no_current (sh\<lparr>sh_cache := c\<rparr>)" for c
    using ok r(2) st by (simp_all add: sh_def search_ok_def search_base_def no_current_def)
  have pre0: "sr_generation r = sh_generation sh" "sh_state sh = Some st" "st_book st = sh_book sh" "no_current sh"
    using ok r(2) st by (simp_all add: sh_def search_ok_def search_base_def no_current_def)
  have g: "sh_generation sh = ?g" by (simp add: sh_def)
  have e: "resume_run pdf ?g sh0 = (case sh_cache sh (sr_page r) of
        Some t \<Rightarrow> take_page pdf r t sh
      | None \<Rightarrow> (case pt_text pdf (sr_page r) of
           None \<Rightarrow> loop_head pdf (r\<lparr>sr_page := Suc (sr_page r)\<rparr>) sh
         | Some t \<Rightarrow> take_page pdf r t (sh\<lparr>sh_cache := (sh_cache sh)(sr_page r := Some t)\<rparr>)))"
    by (simp only: resume_run_def f rr option.case Let_def sh_def[symmetric])
  consider (cached) t where "resume_run pdf ?g sh0 = take_page pdf r t sh"
    | (fetched) t where "resume_run pdf ?g sh0 = take_page pdf r t (sh\<lparr>sh_cache := (sh_cache sh)(sr_page r := Some t)\<rparr>)"
    | (failed) "resume_run pdf ?g sh0 = loop_head pdf (r\<lparr>sr_page := Suc (sr_page r)\<rparr>) sh"
    unfolding e by (cases "sh_cache sh (sr_page r)"; cases "pt_text pdf (sr_page r)") auto
  then show ?thesis
  proof cases
    case (cached t)
    then show ?thesis using take_page_progress[OF pre0, of pdf t] g by (simp add: Let_def)
  next
    case (fetched t)
    then show ?thesis using take_page_progress[OF pre, of pdf t "(sh_cache sh)(sr_page r := Some t)"] g by (simp add: Let_def)
  next
    case failed
    let ?r = "r\<lparr>sr_page := Suc (sr_page r)\<rparr>"
    have "sr_generation ?r = sh_generation sh" using pre0(1) by simp
    from loop_head_progress[OF this pre0(2-4), of pdf] obtain st' where
      "sh_state (loop_head pdf ?r sh) = Some st'" "st_query st' = st_query st" "sh_generation (loop_head pdf ?r sh) = ?g"
      "no_current (loop_head pdf ?r sh) \<and> \<not> st_running st' \<or> ?r \<in> set (sh_runs (loop_head pdf ?r sh))"
      using g by auto
    then show ?thesis using failed pre0(1) g by (auto simp: Let_def intro!: bexI[of _ ?r])
  qed
qed

lemma resume_idle: "no_current sh \<Longrightarrow> resume_run pdf (sh_generation sh) sh = sh"
proof -
  assume "no_current sh"
  then have "find (\<lambda>r. sr_generation r = sh_generation sh) (sh_runs sh) = None" by (simp add: find_None_iff no_current_def)
  then show ?thesis by (simp add: resume_run_def)
qed

lemma resumes_finish:
  assumes "search_ok pdf book sh" "r \<in> set (sh_runs sh)" "sr_generation r = sh_generation sh" "sh_state sh = Some st"
    and "Suc (pt_count pdf) \<le> n + sr_page r"
  shows "\<exists>st'. sh_state (run (search_step pdf) sh (replicate n (Resume (sh_generation sh)))) = Some st' \<and> \<not> st_running st' \<and> st_query st' = st_query st"
  using assms
proof (induction n arbitrary: sh r st)
  case 0
  then show ?case by (auto simp: search_ok_def)
next
  case (Suc n)
  let ?g = "sh_generation sh" and ?sh = "resume_run pdf (sh_generation sh) sh"
  obtain st' where st': "sh_state ?sh = Some st'" "st_query st' = st_query st" "sh_generation ?sh = ?g"
    and c: "no_current ?sh \<and> \<not> st_running st' \<or> (\<exists>r'\<in>set (sh_runs ?sh). sr_generation r' = ?g \<and> sr_page r' = Suc (sr_page r))"
    using resume_progress[OF Suc.prems(1-4)] by (auto simp: Let_def)
  have e: "run (search_step pdf) sh (replicate (Suc n) (Resume ?g)) = run (search_step pdf) ?sh (replicate n (Resume ?g))"
    by (simp add: search_step_def)
  from c show ?case
  proof
    assume d: "no_current ?sh \<and> \<not> st_running st'"
    have "run (search_step pdf) ?sh (replicate m (Resume ?g)) = ?sh" for m
      using d resume_idle[of ?sh pdf] st'(3) by (induction m) (simp_all add: search_step_def)
    then show ?thesis unfolding e using st' d by simp
  next
    assume "\<exists>r'\<in>set (sh_runs ?sh). sr_generation r' = ?g \<and> sr_page r' = Suc (sr_page r)"
    then obtain r' where r': "r' \<in> set (sh_runs ?sh)" "sr_generation r' = sh_generation ?sh" "sr_page r' = Suc (sr_page r)"
      using st'(3) by auto
    have "Suc (pt_count pdf) \<le> n + sr_page r'" using Suc.prems(5) r'(3) by simp
    from Suc.IH[OF resume_run_ok[OF Suc.prems(1)] r'(1,2) st'(1) this] show ?thesis unfolding e using st'(2,3) by simp
  qed
qed

text \<open>C38. A search comes to its end: once the document is open, a search that is asked, whatever went on before and whatever runs of earlier searches still wait, is done as soon
  as the text of each page has arrived once, and shows what was asked.\<close>

theorem search_completes:
  assumes "list_all (from_elsewhere book) evs" and "query \<noteq> []"
    and sh: "sh = run (search_step pdf) (new_shell book) (evs @ [DocumentOpens, RunSearch query])"
  shows "\<exists>st. sh_state (run (search_step pdf) sh (replicate (pt_count pdf) (Resume (sh_generation sh)))) = Some st
    \<and> \<not> st_running st \<and> st_query st = query"
proof -
  define sh0 where "sh0 = search_step pdf (run (search_step pdf) (new_shell book) evs) DocumentOpens"
  have ok0: "search_ok pdf book sh0" "sh_open sh0"
    unfolding sh0_def using search_step_ok[OF reached_ok[OF assms(1)], of DocumentOpens pdf] by (simp_all add: search_step_def)
  have s: "sh = run_search pdf query sh0" by (simp add: sh sh0_def run_append search_step_def)
  have ok: "search_ok pdf book sh" unfolding s by (rule run_search_ok[OF ok0(1)])
  let ?r = "\<lparr>sr_generation = Suc (sh_generation sh0), sr_query = query, sr_page = 1, sr_total = 0\<rparr>"
  let ?sh = "sh0\<lparr>sh_state := Some (empty_search_state (sh_book sh0) query), sh_generation := Suc (sh_generation sh0)\<rparr>"
  have e: "sh = loop_head pdf ?r ?sh" using s assms(2) ok0(2) by (simp add: run_search_def start_run_def)
  have none: "no_current ?sh" using ok0(1) by (auto simp: search_ok_def search_base_def no_current_def)
  obtain st where st: "sh_state sh = Some st" "st_query st = query" "sh_generation sh = Suc (sh_generation sh0)"
    "no_current sh \<and> \<not> st_running st \<or> ?r \<in> set (sh_runs sh)"
    using loop_head_progress[of ?r ?sh "empty_search_state (sh_book sh0) query" pdf] none e by (auto simp: empty_search_state_def)
  show ?thesis
  proof (cases "no_current sh \<and> \<not> st_running st")
    case True
    have "run (search_step pdf) sh (replicate m (Resume (sh_generation sh))) = sh" for m
      using True resume_idle[of sh pdf] by (induction m) (simp_all add: search_step_def)
    then show ?thesis using st True by simp
  next
    case False
    then have "?r \<in> set (sh_runs sh)" using st(4) by blast
    from resumes_finish[OF ok this _ st(1), of "pt_count pdf"] show ?thesis using st(2,3) by simp
  qed
qed

theorem search_completes_witness:
  "\<exists>st. sh_state (run (search_step demo_pdf) (run (search_step demo_pdf) (new_shell 3) [RunSearch ''x'', DocumentOpens, RunSearch ''ant''])
      (replicate 2 (Resume (sh_generation (run (search_step demo_pdf) (new_shell 3) [RunSearch ''x'', DocumentOpens, RunSearch ''ant'']))))) = Some st
    \<and> st_query st = ''ant''"
proof -
  have n: "pt_count demo_pdf = 2" by (simp add: demo_pdf_def)
  show ?thesis using search_completes[of 3 "[RunSearch ''x'']" "''ant''" _ demo_pdf, OF _ _ refl] by (auto simp: n)
qed

text \<open>A search asked before the document is open shows as running and stays so.\<close>

lemma early_search_never_ends:
  "map_option st_running (sh_state (run (search_step demo_pdf) (new_shell 3) [RunSearch ''ant'', DocumentOpens, Resume 0, Resume 1])) = Some True"
  by code_simp

end
