(* ===== verification/ReaderModel.thy ===== *)
theory ReaderModel
  imports RenderPolicy ReaderSearch "HOL-Library.Multiset"
begin

text \<open>
  What the reader keeps of a book: \<open>components/reader/readerModel.ts\<close> and \<open>annotationModel.ts\<close> (positions, bookmarks, highlights, the stored progress),
  \<open>hooks/useAnnotations.ts\<close> (the list of annotations beside the backend's), \<open>components/reader/useReaderProgress.ts\<close> (when the position is saved) and
  \<open>components/reader/shell/useReaderPaging.ts\<close> (page steps). Coordinates are rationals.
\<close>

section \<open>Annotations\<close>

datatype annotation_kind = Bookmark | Highlight | Note

record annotation_rect =
  re_x :: rat
  re_y :: rat
  re_width :: rat
  re_height :: rat

record annotation =
  an_id :: nat
  an_book :: nat
  an_kind :: annotation_kind
  an_cfi :: "string option"
  an_chapter_href :: "string option"
  an_page :: "int option"
  an_fraction :: "rat option"
  an_color :: "string option"
  an_rects :: "annotation_rect list option"
  an_label :: "string option"

datatype reader_position = EpubAt string "string option" | PdfAt int rat

datatype reader_jump = JumpLocator string | JumpPage int

definition is_bookmark_at_locator :: "annotation \<Rightarrow> string \<Rightarrow> bool" where
  "is_bookmark_at_locator a locator \<longleftrightarrow> an_kind a = Bookmark \<and> an_cfi a = Some locator"

definition is_bookmark_at_page :: "annotation \<Rightarrow> int \<Rightarrow> bool" where
  "is_bookmark_at_page a page \<longleftrightarrow> an_kind a = Bookmark \<and> an_page a = Some page"

definition is_bookmark_at_position :: "annotation \<Rightarrow> reader_position \<Rightarrow> bool" where
  "is_bookmark_at_position a p =
     (case p of EpubAt locator href \<Rightarrow> is_bookmark_at_locator a locator | PdfAt page fraction \<Rightarrow> is_bookmark_at_page a page)"

datatype toc_item = TocItem (toc_label: string) (toc_href: string) (toc_subitems: "toc_item list")

fun toc_label_for :: "toc_item list \<Rightarrow> string \<Rightarrow> string option" where
  "toc_label_for [] href = None"
| "toc_label_for (TocItem label h subs # items) href =
     (if h = href then Some (if label \<noteq> [] then label else h)
      else case toc_label_for subs href of Some l \<Rightarrow> Some l | None \<Rightarrow> toc_label_for items href)"

definition bookmark_base_label :: "annotation \<Rightarrow> toc_item list option \<Rightarrow> string" where
  "bookmark_base_label a toc =
     (case an_page a of
        Some p \<Rightarrow> ''Page '' @ show_int p
      | None \<Rightarrow>
          (case an_chapter_href a of
             Some h \<Rightarrow> (if h = [] then ''Bookmark''
                else case toc of None \<Rightarrow> h | Some items \<Rightarrow> (case toc_label_for items h of Some l \<Rightarrow> l | None \<Rightarrow> h))
           | None \<Rightarrow> ''Bookmark''))"

text \<open>The input that stores a bookmark, as the annotation the backend makes of it.\<close>

definition bookmark_input_for :: "nat \<Rightarrow> nat \<Rightarrow> reader_position \<Rightarrow> annotation" where
  "bookmark_input_for i book p =
     (case p of
        EpubAt locator href \<Rightarrow>
          \<lparr>an_id = i, an_book = book, an_kind = Bookmark, an_cfi = Some locator, an_chapter_href = href, an_page = None, an_fraction = None,
            an_color = None, an_rects = None, an_label = None\<rparr>
      | PdfAt page fraction \<Rightarrow>
          \<lparr>an_id = i, an_book = book, an_kind = Bookmark, an_cfi = None, an_chapter_href = None, an_page = Some page,
            an_fraction = (if fraction > 0 then Some fraction else None), an_color = None, an_rects = None, an_label = None\<rparr>)"

definition jump_to_annotation :: "annotation \<Rightarrow> reader_jump option" where
  "jump_to_annotation a =
     (case an_cfi a of Some l \<Rightarrow> Some (JumpLocator l) | None \<Rightarrow> (case an_page a of Some p \<Rightarrow> Some (JumpPage p) | None \<Rightarrow> None))"

definition jump_to_search_match :: "search_match \<Rightarrow> reader_jump option" where
  "jump_to_search_match m =
     (case sm_locator m of Some l \<Rightarrow> Some (JumpLocator l) | None \<Rightarrow> (case sm_page m of Some p \<Rightarrow> Some (JumpPage (int p)) | None \<Rightarrow> None))"

definition jump_target :: "reader_position \<Rightarrow> reader_jump" where
  "jump_target p = (case p of EpubAt locator href \<Rightarrow> JumpLocator locator | PdfAt page fraction \<Rightarrow> JumpPage page)"

definition by_kind :: "annotation list \<Rightarrow> annotation_kind \<Rightarrow> annotation list" where
  "by_kind as k = filter (\<lambda>a. an_kind a = k) as"

text \<open>The entries of a table of contents in reading order.\<close>

fun toc_entries :: "toc_item list \<Rightarrow> (string \<times> string) list" where
  "toc_entries [] = []"
| "toc_entries (TocItem label h subs # items) = (h, if label \<noteq> [] then label else h) # toc_entries subs @ toc_entries items"

lemma toc_label_is_first: "toc_label_for items href = map_of (toc_entries items) href"
  by (induction items href rule: toc_label_for.induct) (auto simp: map_add_def split: option.splits)

section \<open>Highlights\<close>

definition annotation_rects :: "annotation \<Rightarrow> annotation_rect list" where
  "annotation_rects a = (case an_rects a of Some rs \<Rightarrow> rs | None \<Rightarrow> [])"

definition intersection_area :: "annotation_rect \<Rightarrow> annotation_rect \<Rightarrow> rat" where
  "intersection_area a b =
     (let width = min (re_x a + re_width a) (re_x b + re_width b) - max (re_x a) (re_x b);
          height = min (re_y a + re_height a) (re_y b + re_height b) - max (re_y a) (re_y b) in
      if width > 0 \<and> height > 0 then width * height else 0)"

definition overlap :: "annotation \<Rightarrow> annotation_rect list \<Rightarrow> rat" where
  "overlap h rects = foldl (\<lambda>area r. foldl (\<lambda>area s. area + intersection_area r s) area rects) 0 (annotation_rects h)"

definition better_highlight :: "int \<Rightarrow> annotation_rect list \<Rightarrow> (annotation \<times> rat) option \<Rightarrow> annotation \<Rightarrow> (annotation \<times> rat) option" where
  "better_highlight page rects best h =
     (if an_page h \<noteq> Some page then best
      else let area = overlap h rects in
        if area > 0 \<and> (case best of None \<Rightarrow> True | Some (_, b) \<Rightarrow> area > b) then Some (h, area) else best)"

definition highlight_for_selection :: "annotation list \<Rightarrow> int \<Rightarrow> annotation_rect list \<Rightarrow> annotation option" where
  "highlight_for_selection hs page rects = map_option fst (foldl (better_highlight page rects) None hs)"

definition in_rect :: "rat \<Rightarrow> rat \<Rightarrow> annotation_rect \<Rightarrow> bool" where
  "in_rect x y r \<longleftrightarrow> re_x r \<le> x \<and> x \<le> re_x r + re_width r \<and> re_y r \<le> y \<and> y \<le> re_y r + re_height r"

definition highlight_at_point :: "annotation list \<Rightarrow> int \<Rightarrow> rat \<Rightarrow> rat \<Rightarrow> annotation option" where
  "highlight_at_point hs page x y = find (\<lambda>h. an_page h = Some page \<and> list_ex (in_rect x y) (annotation_rects h)) hs"

text \<open>A rectangle of the viewport, by its edges, in the unit square of the page.\<close>

definition unit_clamp :: "rat \<Rightarrow> rat" where
  "unit_clamp v = min 1 (max 0 v)"

definition normalize_rect :: "rat \<times> rat \<times> rat \<times> rat \<Rightarrow> rat \<Rightarrow> rat \<Rightarrow> rat \<Rightarrow> rat \<Rightarrow> annotation_rect" where
  "normalize_rect edges page_left page_upper page_width page_height =
     (case edges of (left, upper, right, lower) \<Rightarrow>
        let x = unit_clamp ((left - page_left) / page_width); y = unit_clamp ((upper - page_upper) / page_height) in
        \<lparr>re_x = x, re_y = y, re_width = unit_clamp ((right - page_left) / page_width) - x,
          re_height = unit_clamp ((lower - page_upper) / page_height) - y\<rparr>)"

lemma best_highlight:
  "case foldl (better_highlight page rects) None hs of
     None \<Rightarrow> (\<forall>h\<in>set hs. an_page h = Some page \<longrightarrow> overlap h rects \<le> 0)
   | Some (h, area) \<Rightarrow> h \<in> set hs \<and> an_page h = Some page \<and> area = overlap h rects \<and> 0 < area
       \<and> (\<forall>g\<in>set hs. an_page g = Some page \<longrightarrow> overlap g rects \<le> area)"
proof (induction hs rule: rev_induct)
  case (snoc h hs)
  then show ?case
    by (auto simp: better_highlight_def Let_def not_less split: option.splits if_splits intro: order_trans less_imp_le)
qed simp

text \<open>Selecting text that is highlighted addresses the highlight: the highlight chosen lies on the page, overlaps the selection and no highlight of the page overlaps it
  more; none is chosen only when none of the page's overlaps it. And a rectangle stored for a selection lies inside the page, whatever the browser reports.\<close>

theorem selection_finds_highlight:
  assumes "left \<le> right" "upper \<le> lower" "0 < page_width" "0 < page_height"
  shows "(case highlight_for_selection hs page rects of
       None \<Rightarrow> \<forall>h\<in>set hs. an_page h = Some page \<longrightarrow> overlap h rects \<le> 0
     | Some h \<Rightarrow> h \<in> set hs \<and> an_page h = Some page \<and> 0 < overlap h rects
         \<and> (\<forall>g\<in>set hs. an_page g = Some page \<longrightarrow> overlap g rects \<le> overlap h rects))
    \<and> (let r = normalize_rect (left, upper, right, lower) page_left page_upper page_width page_height in
        0 \<le> re_x r \<and> 0 \<le> re_y r \<and> 0 \<le> re_width r \<and> 0 \<le> re_height r \<and> re_x r + re_width r \<le> 1 \<and> re_y r + re_height r \<le> 1)"
proof
  show "case highlight_for_selection hs page rects of
       None \<Rightarrow> \<forall>h\<in>set hs. an_page h = Some page \<longrightarrow> overlap h rects \<le> 0
     | Some h \<Rightarrow> h \<in> set hs \<and> an_page h = Some page \<and> 0 < overlap h rects
         \<and> (\<forall>g\<in>set hs. an_page g = Some page \<longrightarrow> overlap g rects \<le> overlap h rects)"
    using best_highlight[where page = page and rects = rects and hs = hs] by (auto simp: highlight_for_selection_def split: option.splits)
  have "(left - page_left) / page_width \<le> (right - page_left) / page_width"
    "(upper - page_upper) / page_height \<le> (lower - page_upper) / page_height"
    using assms by (simp_all add: divide_right_mono)
  then show "let r = normalize_rect (left, upper, right, lower) page_left page_upper page_width page_height in
        0 \<le> re_x r \<and> 0 \<le> re_y r \<and> 0 \<le> re_width r \<and> 0 \<le> re_height r \<and> re_x r + re_width r \<le> 1 \<and> re_y r + re_height r \<le> 1"
    by (auto simp: normalize_rect_def unit_clamp_def Let_def)
qed

theorem selection_finds_highlight_witness:
  "re_x (normalize_rect (90, 10, 130, 30) 100 20 400 500) + re_width (normalize_rect (90, 10, 130, 30) 100 20 400 500) \<le> 1"
  using selection_finds_highlight[where left = 90 and right = 130 and upper = 10 and lower = 30 and page_width = 400 and page_height = 500
      and page_left = 100 and page_upper = 20 and hs = "[]" and page = 1 and rects = "[]"] by (auto simp: Let_def)


text \<open>A bookmark stays where it was put: the bookmark stored for a position is recognised at that position, jumps back to it, and is recognised at no position with another
  target; and the label of a chapter is that of the first entry, in reading order, that leads to it.\<close>

theorem bookmark_roundtrip:
  "is_bookmark_at_position (bookmark_input_for i book p) p
   \<and> jump_to_annotation (bookmark_input_for i book p) = Some (jump_target p)
   \<and> (is_bookmark_at_position (bookmark_input_for i book p) q \<longleftrightarrow> jump_target q = jump_target p)
   \<and> toc_label_for items href = map_of (toc_entries items) href"
  by (cases p; cases q)
    (auto simp: is_bookmark_at_position_def is_bookmark_at_locator_def is_bookmark_at_page_def bookmark_input_for_def jump_to_annotation_def
      jump_target_def toc_label_is_first)

section \<open>Stored progress\<close>

record progress_record =
  rp_chapter_href :: "string option"
  rp_cfi :: "string option"
  rp_page :: "rat option"              \<comment> \<open>a number from the wire, not always an integer\<close>
  rp_percent :: "rat option"
  rp_locator :: "string option"
  rp_progression :: "rat option"
  rp_locations :: "string option"
  rp_engine :: "string option"
  rp_schema_version :: "nat option"

definition EPUB_PROGRESS_SCHEMA_VERSION :: nat where "EPUB_PROGRESS_SCHEMA_VERSION = 2"

definition no_progress :: progress_record where
  "no_progress = \<lparr>rp_chapter_href = None, rp_cfi = None, rp_page = None, rp_percent = None, rp_locator = None, rp_progression = None,
     rp_locations = None, rp_engine = None, rp_schema_version = None\<rparr>"

definition filled :: "string option \<Rightarrow> bool" where
  "filled s \<longleftrightarrow> (case s of Some t \<Rightarrow> trim t \<noteq> [] | None \<Rightarrow> False)"

definition parse_epub_progress :: "progress_record option \<Rightarrow> progress_record option" where
  "parse_epub_progress record =
     (case record of
        None \<Rightarrow> None
      | Some r \<Rightarrow> if filled (rp_locator r) \<or> filled (rp_cfi r) \<or> filled (rp_chapter_href r) then Some r else None)"

text \<open>\<open>locations\<close> is the printed \<open>locations\<close> member of the locator, a parameter.\<close>

definition epub_progress_payload :: "(string \<Rightarrow> string option) \<Rightarrow> string \<Rightarrow> rat \<Rightarrow> progress_record" where
  "epub_progress_payload locations_json locator position =
     no_progress\<lparr>rp_locator := Some locator, rp_progression := Some (min (max (position / 100) 0) 1), rp_locations := locations_json locator,
       rp_engine := Some ''readium'', rp_schema_version := Some EPUB_PROGRESS_SCHEMA_VERSION, rp_percent := Some position\<rparr>"

definition parse_pdf_progress :: "progress_record option \<Rightarrow> int \<Rightarrow> int option" where
  "parse_pdf_progress record n_pages =
     (case Option.bind record rp_page of
        Some p \<Rightarrow> if rat_is_int p \<and> 1 \<le> p \<and> p \<le> of_int n_pages then Some \<lfloor>p\<rfloor> else None
      | None \<Rightarrow>
          (case Option.bind record rp_percent of
             Some percent \<Rightarrow> if 0 < n_pages then Some (min n_pages (max 1 (math_round (percent / 100 * of_int n_pages)))) else None
           | None \<Rightarrow> None))"

definition pdf_progress_payload :: "int \<Rightarrow> rat \<Rightarrow> progress_record" where
  "pdf_progress_payload page position = no_progress\<lparr>rp_page := Some (of_int page), rp_percent := Some position\<rparr>"

text \<open>Progress survives being stored: a PDF page of the document reads back as itself, an EPUB row reads back whole with a progression between 0 and 1; a stored page
  that is not in the document is not used, and any percentage, in range or not, leads to a page of the document.\<close>

theorem progress_roundtrip:
  assumes "0 < n_pages"
  shows "(1 \<le> page \<and> page \<le> n_pages \<longleftrightarrow> parse_pdf_progress (Some (pdf_progress_payload page position)) n_pages = Some page)
    \<and> (trim locator \<noteq> [] \<longrightarrow> parse_epub_progress (Some (epub_progress_payload js locator position)) = Some (epub_progress_payload js locator position))
    \<and> (\<exists>q. rp_progression (epub_progress_payload js locator position) = Some q \<and> 0 \<le> q \<and> q \<le> 1)
    \<and> (\<forall>p. parse_pdf_progress record n_pages = Some p \<longrightarrow> 1 \<le> p \<and> p \<le> n_pages)
    \<and> (\<exists>p. parse_pdf_progress (Some (no_progress\<lparr>rp_percent := Some position\<rparr>)) n_pages = Some p \<and> 1 \<le> p \<and> p \<le> n_pages)"
proof -
  have page: "1 \<le> p \<and> p \<le> n_pages" if "parse_pdf_progress record n_pages = Some p" for p
    using that assms by (auto simp: parse_pdf_progress_def split: option.splits if_splits) linarith+
  have "parse_pdf_progress (Some (pdf_progress_payload page position)) n_pages = (if 1 \<le> page \<and> page \<le> n_pages then Some page else None)"
    by (simp add: parse_pdf_progress_def pdf_progress_payload_def no_progress_def)
  then show ?thesis using page assms
    by (auto simp: parse_epub_progress_def epub_progress_payload_def no_progress_def filled_def parse_pdf_progress_def)
qed

theorem progress_roundtrip_witness:
  "parse_pdf_progress (Some (pdf_progress_payload 7 50)) 12 = Some 7"
  using progress_roundtrip[of 12 7 50 "''x''" "\<lambda>_. None" None] by simp

section \<open>Page steps\<close>

definition flip_pdf_page :: "int option \<Rightarrow> rat \<Rightarrow> rat \<Rightarrow> int \<Rightarrow> rat" where
  "flip_pdf_page known_count step position delta =
     (let n_pages = (case known_count of Some c \<Rightarrow> c | None \<Rightarrow> 0) in
      if n_pages \<le> 0 then position + of_int delta * step
      else page_to_position (max 1 (min n_pages (position_to_page position n_pages + delta))) n_pages)"

datatype step_effect = SetPosition rat | TurnForward | TurnBack | NotConsumed

definition book_turn :: "bool \<Rightarrow> int option \<Rightarrow> rat \<Rightarrow> rat \<Rightarrow> int \<Rightarrow> step_effect" where
  "book_turn has_adapter known_count step position delta =
     (if has_adapter then (if delta = 1 then TurnForward else TurnBack) else SetPosition (flip_pdf_page known_count step position delta))"

record paging =
  pg_is_pdf :: bool
  pg_presentation :: bool
  pg_book_mode :: bool
  pg_position :: rat
  pg_count :: "int option"
  pg_placeholder :: int
  pg_has_turn :: bool

definition paging_step :: "paging \<Rightarrow> rat" where
  "paging_step p =
     (let n_pages = (if pg_is_pdf p then (case pg_count p of Some c \<Rightarrow> c | None \<Rightarrow> pg_placeholder p) else 0) in
      if n_pages > 0 then 100 / of_int n_pages else 0)"

definition pdf_mode_step :: "paging \<Rightarrow> int \<Rightarrow> step_effect" where
  "pdf_mode_step p delta =
     (if \<not> pg_is_pdf p then NotConsumed
      else if pg_presentation p then SetPosition (flip_pdf_page (pg_count p) (paging_step p) (pg_position p) delta)
      else if pg_book_mode p then book_turn (pg_has_turn p) (pg_count p) (paging_step p) (pg_position p) delta
      else NotConsumed)"

definition pdf_page_step :: "paging \<Rightarrow> int \<Rightarrow> step_effect" where
  "pdf_page_step p delta =
     (if pdf_mode_step p delta \<noteq> NotConsumed then pdf_mode_step p delta
      else if \<not> pg_is_pdf p then SetPosition (pg_position p + of_int delta * paging_step p)
      else SetPosition (flip_pdf_page (pg_count p) (paging_step p) (pg_position p) delta))"

text \<open>A page flip always lands on the adjacent page: in a document with a known page count, from any position, a step forward shows the next page and a step back the
  one before, and at the ends it stays; it never turns a spread unless a book view has registered for it.\<close>

theorem flip_lands_adjacent:
  assumes "pg_is_pdf p" and "pg_count p = Some n" and "1 \<le> n" and "delta \<in> {1, - 1}"
  shows "(case pdf_page_step p delta of
      SetPosition x \<Rightarrow> position_to_page x n = max 1 (min n (position_to_page (pg_position p) n + delta)) \<and> 0 \<le> x \<and> x \<le> 100
    | TurnForward \<Rightarrow> delta = 1 \<and> pg_book_mode p \<and> pg_has_turn p \<and> \<not> pg_presentation p
    | TurnBack \<Rightarrow> delta = - 1 \<and> pg_book_mode p \<and> pg_has_turn p \<and> \<not> pg_presentation p
    | NotConsumed \<Rightarrow> False)"
proof -
  let ?t = "max 1 (min n (position_to_page (pg_position p) n + delta))"
  have t: "1 \<le> ?t" "?t \<le> n" using assms(3) by simp_all
  have f: "flip_pdf_page (pg_count p) s (pg_position p) delta = page_to_position ?t n" for s
    using assms(2,3) by (simp add: flip_pdf_page_def Let_def)
  have here: "position_to_page (page_to_position ?t n) n = ?t"
    using page_position_roundtrip[OF assms(3), of ?t] t by blast
  have range: "0 \<le> page_to_position ?t n" "page_to_position ?t n \<le> 100"
    using t by (auto simp: page_to_position_def field_simps)
  show ?thesis
    using assms(1,4) here range
    by (auto simp: pdf_page_step_def pdf_mode_step_def book_turn_def f)
qed

theorem flip_lands_adjacent_witness:
  "\<exists>x. pdf_page_step \<lparr>pg_is_pdf = True, pg_presentation = False, pg_book_mode = False, pg_position = 200/3, pg_count = Some 4, pg_placeholder = 1, pg_has_turn = False\<rparr> 1
      = SetPosition x \<and> position_to_page x 4 = 4"
proof -
  let ?p = "\<lparr>pg_is_pdf = True, pg_presentation = False, pg_book_mode = False, pg_position = 200/3, pg_count = Some 4, pg_placeholder = 1, pg_has_turn = False\<rparr>"
  have e: "pdf_page_step ?p 1 = SetPosition (flip_pdf_page (Some 4) (paging_step ?p) (200/3) 1)"
    by (simp add: pdf_page_step_def pdf_mode_step_def)
  have "position_to_page (200/3) 4 = 3" by code_simp
  then show ?thesis using flip_lands_adjacent[of ?p 4 1] e by simp
qed


section \<open>The list of annotations\<close>

text \<open>\<open>useAnnotations\<close> beside the backend, which carries a request out when it comes and whose replies arrive in the order of the requests. A reply to a load is dropped when
  the reader has gone to another book since; the generation says so. A load that fails, which shows an empty list until the next one, is left out.\<close>

datatype annotation_reply =
    Listed nat nat "annotation list"
  | Created annotation
  | Updated nat "annotation option"
  | Removed nat bool
  | Refused

record hub =
  hu_store :: "annotation list"
  hu_queue :: "annotation_reply list"
  hu_book :: "nat option"
  hu_generation :: nat
  hu_snapshot :: "nat option \<times> annotation list"

definition new_hub :: "annotation list \<Rightarrow> hub" where
  "new_hub store = \<lparr>hu_store = store, hu_queue = [], hu_book = None, hu_generation = 0, hu_snapshot = (None, [])\<rparr>"

definition of_book :: "nat \<Rightarrow> annotation list \<Rightarrow> annotation list" where
  "of_book b as = filter (\<lambda>a. an_book a = b) as"

definition apply_reply :: "nat \<Rightarrow> nat option \<times> annotation list \<Rightarrow> annotation_reply \<Rightarrow> nat option \<times> annotation list" where
  "apply_reply gen snap reply =
     (case reply of
        Listed g b as \<Rightarrow> if g = gen then (Some b, as) else snap
      | Created a \<Rightarrow> if fst snap = Some (an_book a) then (fst snap, snd snap @ [a]) else snap
      | Updated i updated \<Rightarrow>
          (case updated of None \<Rightarrow> snap | Some u \<Rightarrow> (fst snap, map (\<lambda>a. if an_id a = i then u else a) (snd snap)))
      | Removed i removed \<Rightarrow> if removed then (fst snap, filter (\<lambda>a. an_id a \<noteq> i) (snd snap)) else snap
      | Refused \<Rightarrow> snap)"

text \<open>A patch changes color, label and note.\<close>

record annotation_patch =
  ap_color :: "string option"
  ap_label :: "string option"

definition patched :: "annotation_patch \<Rightarrow> annotation \<Rightarrow> annotation" where
  "patched p a = a\<lparr>an_color := (case ap_color p of None \<Rightarrow> an_color a | c \<Rightarrow> c),
     an_label := (case ap_label p of None \<Rightarrow> an_label a | Some [] \<Rightarrow> None | l \<Rightarrow> l)\<rparr>"

datatype hub_event =
    SwitchTo "nat option"
  | Create annotation
  | Update nat annotation_patch
  | Remove nat
  | Fail
  | SyncApplied "nat list" "annotation list"
  | Deliver

definition request_list :: "hub \<Rightarrow> hub" where
  "request_list h =
     (case hu_book h of None \<Rightarrow> h
      | Some b \<Rightarrow> h\<lparr>hu_queue := hu_queue h @ [Listed (hu_generation h) b (of_book b (hu_store h))]\<rparr>)"

definition hub_step :: "hub \<Rightarrow> hub_event \<Rightarrow> hub" where
  "hub_step h ev =
     (case ev of
        SwitchTo book \<Rightarrow> request_list (h\<lparr>hu_book := book, hu_generation := Suc (hu_generation h)\<rparr>)
      | Create a \<Rightarrow>
          (case hu_book h of None \<Rightarrow> h
           | Some b \<Rightarrow> let stored = a\<lparr>an_book := b\<rparr> in h\<lparr>hu_store := hu_store h @ [stored], hu_queue := hu_queue h @ [Created stored]\<rparr>)
      | Update i p \<Rightarrow>
          h\<lparr>hu_store := map (\<lambda>a. if an_id a = i then patched p a else a) (hu_store h),
            hu_queue := hu_queue h @ [Updated i (map_option (patched p) (find (\<lambda>a. an_id a = i) (hu_store h)))]\<rparr>
      | Remove i \<Rightarrow>
          h\<lparr>hu_store := filter (\<lambda>a. an_id a \<noteq> i) (hu_store h),
            hu_queue := hu_queue h @ [Removed i (list_ex (\<lambda>a. an_id a = i) (hu_store h))]\<rparr>
      | Fail \<Rightarrow> h\<lparr>hu_queue := hu_queue h @ [Refused]\<rparr>
      | SyncApplied books store \<Rightarrow>
          (let h' = h\<lparr>hu_store := store\<rparr> in
           case hu_book h of Some b \<Rightarrow> if b \<in> set books then request_list h' else h' | None \<Rightarrow> h')
      | Deliver \<Rightarrow>
          (case hu_queue h of [] \<Rightarrow> h
           | r # rs \<Rightarrow> h\<lparr>hu_queue := rs, hu_snapshot := apply_reply (hu_generation h) (hu_snapshot h) r\<rparr>))"

definition visible_annotations :: "hub \<Rightarrow> annotation list" where
  "visible_annotations h = (if fst (hu_snapshot h) = hu_book h \<and> hu_book h \<noteq> None then snd (hu_snapshot h) else [])"

text \<open>What the backend promises: ids are its own, and a sync names every book it touched.\<close>

fun hub_fair :: "hub \<Rightarrow> hub_event \<Rightarrow> bool" where
  "hub_fair h (Create a) = (an_id a \<notin> an_id ` set (hu_store h))"
| "hub_fair h (SyncApplied books store) = (distinct (map an_id store) \<and> (\<forall>b. b \<notin> set books \<longrightarrow> of_book b store = of_book b (hu_store h)))"
| "hub_fair h ev = True"

fun fair_run :: "hub \<Rightarrow> hub_event list \<Rightarrow> bool" where
  "fair_run h [] = True"
| "fair_run h (ev # evs) = (hub_fair h ev \<and> fair_run (hub_step h ev) evs)"

text \<open>The snapshot as it will be when every reply has come is the backend's list.\<close>

definition settled_snapshot :: "hub \<Rightarrow> nat option \<times> annotation list" where
  "settled_snapshot h = foldl (apply_reply (hu_generation h)) (hu_snapshot h) (hu_queue h)"

definition hub_ok :: "hub \<Rightarrow> bool" where
  "hub_ok h \<longleftrightarrow> distinct (map an_id (hu_store h))
     \<and> (\<forall>b. hu_book h = Some b \<longrightarrow> settled_snapshot h = (Some b, of_book b (hu_store h)))"

lemma patched_keeps [simp]: "an_id (patched p a) = an_id a" "an_book (patched p a) = an_book a"
  by (simp_all add: patched_def)

lemma request_list_ok:
  assumes "distinct (map an_id (hu_store h))"
  shows "hub_ok (request_list h)"
  using assms by (auto simp: hub_ok_def request_list_def settled_snapshot_def apply_reply_def split: option.split)

lemma of_book_update: "of_book b (map (\<lambda>a. if an_id a = i then patched p a else a) as) = map (\<lambda>a. if an_id a = i then patched p a else a) (of_book b as)"
  by (induction as) (auto simp: of_book_def)

lemma update_once:
  assumes "distinct (map an_id as)" "find (\<lambda>a. an_id a = i) as = Some u"
  shows "map (\<lambda>a. if an_id a = i then patched p a else a) (of_book b as) = map (\<lambda>a. if an_id a = i then patched p u else a) (of_book b as)"
proof (rule map_cong[OF refl])
  fix a assume "a \<in> set (of_book b as)"
  moreover have "u \<in> set as" "an_id u = i" using assms(2) by (auto simp: find_Some_iff)
  ultimately show "(if an_id a = i then patched p a else a) = (if an_id a = i then patched p u else a)"
    using assms(1) by (auto simp: of_book_def distinct_map inj_on_def)
qed

lemma update_none: "find (\<lambda>a. an_id a = i) as = None \<Longrightarrow> map (\<lambda>a. if an_id a = i then patched p a else a) as = as"
  by (induction as) (auto split: if_splits)

lemma of_book_remove: "of_book b (filter (\<lambda>a. an_id a \<noteq> i) as) = filter (\<lambda>a. an_id a \<noteq> i) (of_book b as)"
  by (simp add: of_book_def conj_commute)

lemma hub_step_ok:
  assumes "hub_ok h" "hub_fair h ev"
  shows "hub_ok (hub_step h ev)"
proof (cases ev)
  case (SwitchTo book)
  have "hub_ok (request_list (h\<lparr>hu_book := book, hu_generation := Suc (hu_generation h)\<rparr>))"
    by (rule request_list_ok) (use assms(1) in \<open>simp add: hub_ok_def\<close>)
  then show ?thesis using SwitchTo by (simp add: hub_step_def)
next
  case (Create a)
  then show ?thesis using assms
    by (auto simp: hub_step_def hub_ok_def settled_snapshot_def apply_reply_def of_book_def Let_def split: option.split)
next
  case (Update i p)
  have d: "distinct (map an_id (map (\<lambda>a. if an_id a = i then patched p a else a) (hu_store h)))"
  proof -
    have "map an_id (map (\<lambda>a. if an_id a = i then patched p a else a) (hu_store h)) = map an_id (hu_store h)" by auto
    then show ?thesis using assms(1) by (simp only: hub_ok_def)
  qed
  have "settled_snapshot (hub_step h ev) = (Some b, of_book b (hu_store (hub_step h ev)))" if b: "hu_book h = Some b" for b
  proof -
    have s: "foldl (apply_reply (hu_generation h)) (hu_snapshot h) (hu_queue h) = (Some b, of_book b (hu_store h))"
      using assms(1) b by (simp add: hub_ok_def settled_snapshot_def)
    show ?thesis
    proof (cases "find (\<lambda>a. an_id a = i) (hu_store h)")
      case None
      then show ?thesis using s Update update_none[OF None, of p] by (simp add: hub_step_def settled_snapshot_def apply_reply_def)
    next
      case (Some u)
      have "distinct (map an_id (hu_store h))" using assms(1) by (simp add: hub_ok_def)
      from update_once[OF this Some, of p b] show ?thesis using s Update Some
        by (simp add: hub_step_def settled_snapshot_def apply_reply_def of_book_update)
    qed
  qed
  then show ?thesis using d Update by (simp add: hub_ok_def hub_step_def)
next
  case (Remove i)
  have "filter (\<lambda>a. an_id a \<noteq> i) (of_book b (hu_store h)) = of_book b (hu_store h)" if "\<not> list_ex (\<lambda>a. an_id a = i) (hu_store h)" for b
    using that by (auto simp: list_ex_iff of_book_def intro!: filter_cong)
  then show ?thesis using assms(1) Remove
    by (auto simp: hub_step_def hub_ok_def settled_snapshot_def apply_reply_def of_book_remove distinct_map_filter)
next
  case Fail
  then show ?thesis using assms(1) by (simp add: hub_step_def hub_ok_def settled_snapshot_def apply_reply_def)
next
  case (SyncApplied books store)
  then show ?thesis using assms
    by (auto simp: hub_step_def Let_def request_list_ok split: option.split) (auto simp: hub_ok_def settled_snapshot_def)
next
  case Deliver
  then show ?thesis using assms(1)
    by (auto simp: hub_step_def hub_ok_def settled_snapshot_def split: list.split)
qed

lemma hub_run_ok: "hub_ok h \<Longrightarrow> fair_run h evs \<Longrightarrow> hub_ok (run hub_step h evs)"
  by (induction evs arbitrary: h) (auto intro: hub_step_ok)




section \<open>When the position is saved\<close>

text \<open>\<open>useReaderProgress\<close> for one mounted reader: the fetch of the stored row, the timer of the debounced save, and the flush at the end. A position is what the reader
  reports (\<open>None\<close> before it can tell) with the shell's percentage; \<open>enabled\<close> never goes back.\<close>

definition PROGRESS_SAVE_DEBOUNCE_MS :: nat where "PROGRESS_SAVE_DEBOUNCE_MS = 1000"

record 'p saver =
  sv_enabled :: bool
  sv_fetching :: bool
  sv_restored :: bool
  sv_skip_first :: bool
  sv_timer :: bool
  sv_latest :: "'p option \<times> rat"
  sv_saves :: "('p \<times> rat) list"
  sv_mounted :: bool

definition new_saver :: "'p option \<times> rat \<Rightarrow> 'p saver" where
  "new_saver latest = \<lparr>sv_enabled = False, sv_fetching = False, sv_restored = False, sv_skip_first = True, sv_timer = False, sv_latest = latest,
     sv_saves = [], sv_mounted = True\<rparr>"

definition save_latest :: "'p saver \<Rightarrow> 'p saver" where
  "save_latest s = (case sv_latest s of (None, q) \<Rightarrow> s | (Some p, q) \<Rightarrow> s\<lparr>sv_saves := sv_saves s @ [(p, q)]\<rparr>)"

text \<open>The effect that arms the timer, when one of its dependencies changed.\<close>

definition arm :: "'p saver \<Rightarrow> 'p saver" where
  "arm s =
     (if \<not> sv_enabled s \<or> \<not> sv_restored s then s\<lparr>sv_timer := False\<rparr>
      else if sv_skip_first s then s\<lparr>sv_skip_first := False, sv_timer := False\<rparr>
      else s\<lparr>sv_timer := True\<rparr>)"

datatype 'p saver_event = Enable | RowArrives "'p option" | Moves "'p option" rat | TimerFires | Unmount

text \<open>\<open>RowArrives\<close> is the parsed row, \<open>None\<close> also when the fetch failed; what the reader does with it comes as a move.\<close>

definition saver_step :: "'p saver \<Rightarrow> 'p saver_event \<Rightarrow> 'p saver" where
  "saver_step s ev =
     (if \<not> sv_mounted s then s
      else
        case ev of
          Enable \<Rightarrow> if sv_enabled s then s else arm (s\<lparr>sv_enabled := True, sv_fetching := True\<rparr>)
        | RowArrives row \<Rightarrow> if sv_fetching s then arm (s\<lparr>sv_fetching := False, sv_restored := True\<rparr>) else s
        | Moves p q \<Rightarrow> if (p, q) = sv_latest s then s else arm (s\<lparr>sv_latest := (p, q)\<rparr>)
        | TimerFires \<Rightarrow> if sv_timer s then save_latest (s\<lparr>sv_timer := False\<rparr>) else s
        | Unmount \<Rightarrow>
            (let s' = s\<lparr>sv_timer := False, sv_mounted := False\<rparr> in if sv_restored s then save_latest s' else s'))"

text \<open>The position after the moves, and the positions at the times a save may happen.\<close>

fun last_position :: "'p option \<times> rat \<Rightarrow> 'p saver_event list \<Rightarrow> 'p option \<times> rat" where
  "last_position latest [] = latest"
| "last_position latest (Moves p q # evs) = last_position (p, q) evs"
| "last_position latest (_ # evs) = last_position latest evs"

definition saver_ok :: "'p saver \<Rightarrow> bool" where
  "saver_ok s \<longleftrightarrow> (sv_fetching s \<longrightarrow> sv_enabled s) \<and> (sv_restored s \<longrightarrow> sv_enabled s) \<and> (sv_timer s \<longrightarrow> sv_restored s \<and> \<not> sv_skip_first s)
     \<and> (\<not> sv_restored s \<longrightarrow> sv_saves s = []) \<and> (sv_skip_first s \<longrightarrow> sv_mounted s \<longrightarrow> sv_saves s = [])"

lemma saver_step_ok: "saver_ok s \<Longrightarrow> True \<Longrightarrow> saver_ok (saver_step s ev)"
  by (auto simp: saver_ok_def saver_step_def arm_def save_latest_def Let_def split: saver_event.split prod.split option.split)

interpretation saving: invariant_machine saver_step "\<lambda>_. True" saver_ok
  by unfold_locales (rule saver_step_ok)

lemma arm_keeps [simp]: "sv_latest (arm s) = sv_latest s" "sv_saves (arm s) = sv_saves s" "sv_mounted (arm s) = sv_mounted s"
  by (simp_all add: arm_def)

lemma save_latest_keeps [simp]: "sv_latest (save_latest s) = sv_latest s" "sv_mounted (save_latest s) = sv_mounted s"
  by (simp_all add: save_latest_def split: prod.split option.split)

lemma unmounted_stays: "\<not> sv_mounted s \<Longrightarrow> saver_step s ev = s"
  by (simp add: saver_step_def)

lemma mounted_before: "sv_mounted (run saver_step s evs) \<Longrightarrow> sv_mounted s"
  by (induction evs arbitrary: s) (simp, metis run.simps(2) unmounted_stays)

lemma step_latest: "sv_mounted s \<Longrightarrow> sv_latest (saver_step s ev) = last_position (sv_latest s) [ev]"
  by (cases ev) (simp_all add: saver_step_def Let_def)

lemma last_position_Cons: "last_position l (ev # evs) = last_position (last_position l [ev]) evs"
  by (cases ev) simp_all

lemma saver_latest:
  "sv_mounted (run saver_step s evs) \<Longrightarrow> sv_latest (run saver_step s evs) = last_position (sv_latest s) evs"
proof (induction evs arbitrary: s)
  case (Cons ev evs)
  have "sv_mounted s" using mounted_before[OF Cons.prems] .
  then have "last_position (sv_latest s) (ev # evs) = last_position (sv_latest (saver_step s ev)) evs"
    using step_latest last_position_Cons by metis
  then show ?case using Cons.IH[of "saver_step s ev"] Cons.prems by simp
qed simp

lemma saves_are_positions:
  "set (sv_saves (saver_step s ev)) \<subseteq> set (sv_saves s) \<union> {(p, q). sv_latest s = (Some p, q)}"
  by (auto simp: saver_step_def arm_def save_latest_def Let_def split: saver_event.splits if_splits prod.splits option.splits)

text \<open>C40. The reading position is not lost and not invented: nothing is saved before the stored row has arrived; closing a reader whose row has arrived saves exactly the
  position at that moment, after whatever moves, timers and saves, and nothing is saved afterwards; and every save writes a position the reader was at.\<close>

theorem position_saved_at_close:
  assumes "s = run saver_step (new_saver start) evs" and "sv_mounted s"
  shows "(\<not> sv_restored s \<longrightarrow> sv_saves s = [] \<and> sv_saves (saver_step s Unmount) = [])
    \<and> (sv_restored s \<longrightarrow> sv_saves (run saver_step s (Unmount # later))
         = sv_saves s @ (case last_position start evs of (Some p, q) \<Rightarrow> [(p, q)] | (None, q) \<Rightarrow> []))
    \<and> (\<forall>(p, q) \<in> set (sv_saves s). \<exists>n. last_position start (take n evs) = (Some p, q))"
proof (intro conjI impI)
  have ok: "saver_ok s" unfolding assms(1)
    by (rule saving.run_keeps) (simp_all add: saver_ok_def new_saver_def list_all_iff)
  have latest: "sv_latest s = last_position start evs"
    using saver_latest[of "new_saver start" evs] assms by (simp add: new_saver_def)
  have frozen: "run saver_step (s'\<lparr>sv_mounted := False\<rparr>) es = s'\<lparr>sv_mounted := False\<rparr>" for s' and es :: "'a saver_event list"
    by (induction es) (simp_all add: saver_step_def)
  {
    assume n: "\<not> sv_restored s"
    then show "sv_saves s = []" using ok by (simp add: saver_ok_def)
    then show "sv_saves (saver_step s Unmount) = []" using n assms(2) by (simp add: saver_step_def Let_def)
  }
  {
    assume r: "sv_restored s"
    have "saver_step s Unmount = (save_latest (s\<lparr>sv_timer := False\<rparr>))\<lparr>sv_mounted := False\<rparr>"
      using r assms(2) by (simp add: saver_step_def Let_def save_latest_def split: prod.split option.split)
    then show "sv_saves (run saver_step s (Unmount # later))
         = sv_saves s @ (case last_position start evs of (Some p, q) \<Rightarrow> [(p, q)] | (None, q) \<Rightarrow> [])"
      using frozen by (simp add: save_latest_def latest split: prod.split option.split)
  }
  have "\<forall>(p, q) \<in> set (sv_saves (run saver_step (new_saver start) es)). \<exists>n. last_position start (take n es) = (Some p, q)"
    if "sv_mounted (run saver_step (new_saver start) es)" for es
    using that
  proof (induction es rule: rev_induct)
    case Nil
    then show ?case by (simp add: new_saver_def)
  next
    case (snoc e es)
    let ?s = "run saver_step (new_saver start) es"
    have "sv_mounted (saver_step ?s e)" using snoc.prems by (simp add: run_append)
    then have m: "sv_mounted ?s" by (metis unmounted_stays)
    have l: "sv_latest ?s = last_position start es" using saver_latest[of "new_saver start" es] m by (simp add: new_saver_def)
    show ?case
    proof safe
      fix p q assume "(p, q) \<in> set (sv_saves (run saver_step (new_saver start) (es @ [e])))"
      then consider "(p, q) \<in> set (sv_saves ?s)" | "sv_latest ?s = (Some p, q)"
        using saves_are_positions[of ?s e] by (auto simp: run_append)
      then show "\<exists>n. last_position start (take n (es @ [e])) = (Some p, q)"
      proof cases
        case 1
        then obtain n where "last_position start (take n es) = (Some p, q)" using snoc.IH[OF m] by fastforce
        then show ?thesis by (intro exI[of _ "min n (length es)"], cases "n \<le> length es") (simp_all add: min_def)
      next
        case 2
        then show ?thesis using l by (intro exI[of _ "length es"]) simp
      qed
    qed
  qed
  then show "\<forall>(p, q) \<in> set (sv_saves s). \<exists>n. last_position start (take n evs) = (Some p, q)" using assms by blast
qed

theorem position_saved_at_close_witness:
  "sv_saves (run saver_step (run saver_step (new_saver (None, 0)) [Enable, RowArrives (Some (3::nat)), Moves (Some 3) 25, TimerFires, Moves (Some 4) 30])
     [Unmount, TimerFires]) = [(3, 25), (4, 30)]"
proof -
  let ?s = "run saver_step (new_saver (None, 0)) [Enable, RowArrives (Some (3::nat)), Moves (Some 3) 25, TimerFires, Moves (Some 4) 30]"
  have "sv_mounted ?s" "sv_restored ?s" "sv_saves ?s = [(3, 25)]"
    by (simp_all add: new_saver_def saver_step_def arm_def save_latest_def)
  then show ?thesis using position_saved_at_close[of ?s "(None, 0)" "[Enable, RowArrives (Some (3::nat)), Moves (Some 3) 25, TimerFires, Moves (Some 4) 30]" "[TimerFires]", OF refl]
    by simp
qed

end
