(* ===== verification/Spec2Isabelle.thy ===== *)
theory Spec2Isabelle
  imports Prelude Paths PathSchema IpcPolicy SidecarTransport Sidecar Protocol
    AppState CollectionPrefs Sections BitmapCache PdfLayout RenderPolicy
    Startup Storage MainIpc WindowPolicy Appearance ReaderSettings
    PdfRange PdfTheme PdfWorker PdfDocument PdfCore PdfEngine PdfHost
    Dom ProgressMigration ContentPolicy ReaderSearch ReaderModel
begin

text \<open>
  A verification library for TuxBooks, a desktop e-book library: an Electron main process (\<open>src/electron/main\<close>), a preload bridge
  (\<open>src/electron/preload\<close>), a sandboxed React renderer (\<open>src/frontend\<close>) and a Rust backend that the main process runs as a child ("sidecar").
  The library models the TypeScript of the first three.

  \<^bold>\<open>How the parts interact.\<close> The renderer reaches the outside by two ways only: IPC calls (\<open>tuxbooks:invoke\<close> and the dialog channels) and the
  \<open>tuxbooks://\<close> URL scheme. Every IPC message passes the sender check, the schema of the shared boundary and the policy of the issued paths before it is sent to
  the sidecar, whose answers come back as lines of JSON. The scheme serves book bytes, EPUB members and covers. Inside the renderer a reducer holds the view
  state, pure modules compute what is shown, and the readers draw pages: the PDF reader through a PDFium worker that reads the book through the scheme.

  \<^bold>\<open>Theories and sources.\<close>
  \<^item> \<open>Prelude\<close>: strings as the code trims, splits, searches and compares them, JSON-like values (\<open>js\<close>), runs of step functions, and the locale
    \<open>invariant_machine\<close>, which every state machine below interprets on its own step function.
  \<^item> \<open>Paths\<close> (\<open>pathContainment.ts\<close>): path resolution and the containment test, with \<open>realpath\<close> a parameter.
  \<^item> \<open>PathSchema\<close> (\<open>shared/pathSchema.ts\<close>): what crosses the boundary: book ids, member paths, cover names, library paths, ranges, MIME tables, senders.
  \<^item> \<open>IpcPolicy\<close> (\<open>ipcPolicy.ts\<close>): the registry of dialog-issued paths and the check of every method's parameters.
  \<^item> \<open>SidecarTransport\<close>, \<open>Sidecar\<close> (\<open>sidecarTransport.ts\<close>, \<open>sidecar.ts\<close>): line framing, and the supervisor as a record stepped by calls, lines, timers,
    exits and restarts.
  \<^item> \<open>Protocol\<close> (\<open>protocolHandler.ts\<close>, \<open>protocolSources.ts\<close>): the scheme handler and its sources.
  \<^item> \<open>MainIpc\<close> (\<open>ipcHandlers.ts\<close>, \<open>preload.ts\<close>): the handlers composed with the policy and the sidecar, over whole sessions.
  \<^item> \<open>WindowPolicy\<close> (\<open>windowSecurity.ts\<close>, \<open>linkPolicy.ts\<close>, \<open>appCsp.ts\<close>, the app protocol of \<open>index.ts\<close>): navigation, permissions, external links, bundle files.
  \<^item> \<open>Startup\<close> (\<open>cli.ts\<close>, \<open>bootRecovery.ts\<close>, \<open>gpuFallback.ts\<close>, \<open>rendererConsole.ts\<close>): the command line, recovery pages, the GPU crash marker across launches.
  \<^item> \<open>Storage\<close> (\<open>storageSizing.ts\<close>, \<open>clearCache.ts\<close>, \<open>resetData.ts\<close>): sizing, clearing and resetting over an abstract file system.
  \<^item> \<open>AppState\<close> (\<open>appState.ts\<close>), \<open>CollectionPrefs\<close> (\<open>collectionPreferences.ts\<close>), \<open>Sections\<close> (\<open>sections.ts\<close>): the reducer, the sidebar's order, the library's
    sections, search and sort.
  \<^item> \<open>Appearance\<close> (\<open>appearance.ts\<close>, \<open>highlightPalette.ts\<close>, \<open>theme.ts\<close>), \<open>ReaderSettings\<close> (\<open>readerSettings.ts\<close>, \<open>readerState.ts\<close>, \<open>ReaderProvider.tsx\<close>): reader
    themes and their contrast, the stored settings and their cache.
  \<^item> \<open>BitmapCache\<close>, \<open>PdfLayout\<close>, \<open>RenderPolicy\<close> (\<open>components/reader/pdf/pdfBitmapCache.ts\<close>, \<open>pdfPreloadQueue.ts\<close>, \<open>pdfLayout.ts\<close>, \<open>pdfRenderPolicy.ts\<close>,
    \<open>pdfPages.ts\<close>, \<open>pdfBookTurn.ts\<close>): page geometry, raster budgets, caches.
  \<^item> \<open>PdfRange\<close> (\<open>pdfRangeSource.ts\<close>), \<open>PdfTheme\<close> (\<open>smartColors.ts\<close>, \<open>pdf/theme.ts\<close>), \<open>PdfWorker\<close> (\<open>pdfWorkerClient.ts\<close>), \<open>PdfDocument\<close> (\<open>pdfiumEngine.ts\<close>):
    the PDF engine on the renderer's side.
  \<^item> \<open>PdfCore\<close> (\<open>pdfiumCore.ts\<close>, \<open>pdfOutline.ts\<close>): bitmap sizes, the grouping of characters into text lines, the outline. \<open>PdfEngine\<close>
    (the class of \<open>pdfiumCore.ts\<close>): the engine over the calls it makes, with a ledger of what is held. \<open>PdfHost\<close> (\<open>pdfiumWorker.ts\<close>, \<open>pdfEngine.ts\<close>): the
    worker's message handler and the geometry of the text layer.
  \<^item> \<open>ReaderSearch\<close> (\<open>pdfSearch.ts\<close>, \<open>searchModel.ts\<close>, \<open>usePdfSearch.ts\<close>, \<open>useReaderSearch.ts\<close>): searching in a book, as a machine over the texts that arrive.
  \<^item> \<open>ReaderModel\<close> (\<open>readerModel.ts\<close>, \<open>annotationModel.ts\<close>, \<open>useAnnotations.ts\<close>, \<open>useReaderProgress.ts\<close>, \<open>useReaderPaging.ts\<close>): bookmarks, highlights,
    stored progress, the annotation list beside the backend's, and when the position is saved.
  \<^item> \<open>Dom\<close>, \<open>ContentPolicy\<close> (\<open>lib/epub/contentPolicy.ts\<close>), \<open>ProgressMigration\<close> (\<open>lib/epub/progressMigration.ts\<close>): DOM trees, the fence around publication
    documents, and the conversion of positions that the former reader stored.

  \<^bold>\<open>How the code is represented.\<close> Strings are lists of ASCII characters; a UTF-16 code unit outside ASCII has no counterpart, and where the code lower-cases or trims
  the model does so for ASCII. Numbers that the code keeps integral are \<open>int\<close> or \<open>nat\<close>; other numbers are \<open>rat\<close>, exact where the code rounds to doubles, except
  the packed 32-bit colors, which are words. Contrast involves a real power (the sRGB curve), and the ratios are bounded by rational intervals that the theorems carry. A
  \<open>Map\<close> or \<open>Set\<close> whose order or eviction matters is an association list in insertion order. A raised error is a value of a sum or option type. Promises and callbacks become
  events of a step function; the code that runs when a promise settles belongs to the event that settles it.

  \<^bold>\<open>What the lemmas show.\<close> For the boundary: nothing reaches the backend or the file system that was not validated, issued or contained, in every session. For each state
  machine: an invariant of every reachable state (requests are settled once, byte counts are exact, workers are owned once, the reducer's state is well formed). For pure
  modules: agreement with a reference (linear scan, least-recently-used order, an uncached store, a file's own bytes), round trips, and bounds. Theorems that state a defect or
  a divergence from a comment stand beside the definitions they are about.

  \<^bold>\<open>Termination and fuel.\<close> Recursion is structural or has a proved measure. Where a recursion has fuel (the directory walk over an abstract tree, the page search), a lemma shows
  that the fuel given by the caller is enough. The render queue's theorem bounds the steps after which it is empty, the search's the page
  texts after which it is done. The walk over bookmarks and the progressive render may run for ever; they are partial functions, with theorems that say when they return.

  \<^bold>\<open>Not modelled.\<close> The Rust backend, the PDFium and Readium engines and the browser (parameters where the code relies on them); React components, whose content is markup and
  effects; the Electron calls of \<open>index.ts\<close> that create windows and menus; scripts, tests and build files.
\<close>

end
